(* ===== verification/Prelude.thy ===== *)
theory Prelude
  imports Complex_Main "HOL-Library.Word" "HOL-Library.Char_ord" "HOL-Library.List_Lexorder"
begin

text \<open>
  What every component theory shares: the outcomes of a C++ call that does not return
  normally, the result type that carries them, the two loop shapes that may throw, the
  model of \<open>std::set\<close> as a strictly ascending list, the bounds of the fixed-width integers
  the code uses, and decimal printing.
\<close>

section \<open>Outcomes of a call\<close>

text \<open>
  \<open>Invalid_argument\<close>, \<open>Runtime_error\<close> and \<open>Out_of_range\<close> are the standard exceptions the
  code throws (or lets the standard library throw) with their message; \<open>Aborted\<close> is ns-3's
  NS_ABORT_MSG and NS_FATAL_ERROR family, \<open>Assert_failed\<close> its NS_ASSERT family;
  \<open>Undefined\<close> is undefined behaviour of C++ (an integer division by zero, a vector read out of
  range); \<open>Diverges\<close> is a call that does not return.
\<close>

datatype exn =
    Invalid_argument string
  | Runtime_error string
  | Out_of_range string
  | Aborted string
  | Assert_failed string
  | Undefined string
  | Diverges

type_synonym 'a res = "exn + 'a"

definition bindr :: "'a res \<Rightarrow> ('a \<Rightarrow> 'b res) \<Rightarrow> 'b res" where
  "bindr m f = (case m of Inl e \<Rightarrow> Inl e | Inr x \<Rightarrow> f x)"

definition checkr :: "bool \<Rightarrow> exn \<Rightarrow> unit res" where
  "checkr ok e = (if ok then Inr () else Inl e)"

definition is_ok :: "'a res \<Rightarrow> bool" where
  "is_ok m = (case m of Inl _ \<Rightarrow> False | Inr _ \<Rightarrow> True)"

named_theorems res_simps "inversion of sequenced results"

lemma bindr_Inl [simp]: "bindr (Inl e) f = Inl e"
  by (simp add: bindr_def)

lemma bindr_Inr [simp]: "bindr (Inr x) f = f x"
  by (simp add: bindr_def)

lemma bindr_eq_Inr [res_simps]: "bindr m f = Inr y \<longleftrightarrow> (\<exists>x. m = Inr x \<and> f x = Inr y)"
  by (cases m) auto

lemma bindr_cong [fundef_cong]:
  "m = m' \<Longrightarrow> (\<And>x. m' = Inr x \<Longrightarrow> f x = g x) \<Longrightarrow> bindr m f = bindr m' g"
  by (cases m') auto

lemma bindr_assoc: "bindr (bindr m f) g = bindr m (\<lambda>x. bindr (f x) g)"
  by (cases m) auto

lemma checkr_eq_Inr [res_simps]: "checkr ok e = Inr u \<longleftrightarrow> ok"
  by (simp add: checkr_def)

lemma checkr_True [simp]: "checkr True e = Inr ()"
  by (simp add: checkr_def)

lemma checkr_False [simp]: "checkr False e = Inl e"
  by (simp add: checkr_def)

lemma is_ok_simps [simp]: "is_ok (Inl e) = False" "is_ok (Inr x) = True"
  by (simp_all add: is_ok_def)

lemma is_ok_iff: "is_ok m \<longleftrightarrow> (\<exists>x. m = Inr x)"
  by (cases m) auto

section \<open>Loops whose body may throw\<close>

text \<open>
  \<open>mapr f xs\<close> is a loop that pushes \<open>f x\<close> for every \<open>x\<close> of a container; \<open>foldr_res f xs s\<close> is a
  loop that threads the state \<open>s\<close>. Both stop at the first throw.
\<close>

fun mapr :: "('a \<Rightarrow> 'b res) \<Rightarrow> 'a list \<Rightarrow> 'b list res" where
  "mapr f [] = Inr []"
| "mapr f (x # xs) = bindr (f x) (\<lambda>y. bindr (mapr f xs) (\<lambda>ys. Inr (y # ys)))"

fun foldr_res :: "('a \<Rightarrow> 's \<Rightarrow> 's res) \<Rightarrow> 'a list \<Rightarrow> 's \<Rightarrow> 's res" where
  "foldr_res f [] s = Inr s"
| "foldr_res f (x # xs) s = bindr (f x s) (foldr_res f xs)"

lemma mapr_eq_Inr:
  "mapr f xs = Inr ys \<longleftrightarrow> length ys = length xs \<and> (\<forall>i < length xs. f (xs ! i) = Inr (ys ! i))"
proof (induction xs arbitrary: ys)
  case Nil
  then show ?case by auto
next
  case (Cons x xs)
  show ?case
  proof (cases ys)
    case Nil
    then show ?thesis by (auto simp: res_simps)
  next
    case (Cons y zs)
    then show ?thesis
      using Cons.IH [of zs] by (auto simp: res_simps less_Suc_eq_0_disj)
  qed
qed

lemma mapr_ok: "(\<And>x. x \<in> set xs \<Longrightarrow> f x = Inr (g x)) \<Longrightarrow> mapr f xs = Inr (map g xs)"
  by (induction xs) auto

lemma mapr_all:
  assumes "mapr f xs = Inr ys" and "\<And>x y. x \<in> set xs \<Longrightarrow> f x = Inr y \<Longrightarrow> P y"
  shows "\<forall>y \<in> set ys. P y"
  using assms by (metis in_set_conv_nth mapr_eq_Inr)

lemma foldr_res_append:
  "foldr_res f (xs @ ys) s = bindr (foldr_res f xs s) (foldr_res f ys)"
proof (induction xs arbitrary: s)
  case (Cons x xs)
  then show ?case by (cases "f x s") auto
qed simp

text \<open>The loop rule: an invariant kept by every iteration that does not throw.\<close>

lemma foldr_res_inv:
  assumes "foldr_res f xs s = Inr s'" and "I s"
    and "\<And>x s t. x \<in> set xs \<Longrightarrow> I s \<Longrightarrow> f x s = Inr t \<Longrightarrow> I t"
  shows "I s'"
  using assms
proof (induction xs arbitrary: s)
  case Nil
  then show ?case by simp
next
  case (Cons x xs)
  from Cons.prems(1) obtain t where t: "f x s = Inr t" "foldr_res f xs t = Inr s'"
    by (auto simp: res_simps)
  show ?case
    by (rule Cons.IH [OF t(2)]) (use Cons.prems t in auto)
qed

text \<open>The same rule with the list of items already processed in the invariant.\<close>

lemma foldr_res_inv_prefix:
  assumes "foldr_res f xs s = Inr s'" and "I [] s"
    and "\<And>ys x zs s t. xs = ys @ x # zs \<Longrightarrow> I ys s \<Longrightarrow> f x s = Inr t \<Longrightarrow> I (ys @ [x]) t"
  shows "I xs s'"
proof -
  have "foldr_res f zs u = Inr s' \<Longrightarrow> I ys u \<Longrightarrow> xs = ys @ zs \<Longrightarrow> I xs s'" for ys zs u
  proof (induction zs arbitrary: ys u)
    case Nil
    then show ?case by simp
  next
    case (Cons z zs)
    from Cons.prems(1) obtain t where t: "f z u = Inr t" "foldr_res f zs t = Inr s'"
      by (auto simp: res_simps)
    have "I (ys @ [z]) t"
      using assms(3) [of ys z zs u t] Cons.prems t by simp
    then show ?case
      using Cons.IH [OF t(2)] Cons.prems(3) by simp
  qed
  with assms(1,2) show ?thesis by blast
qed

section \<open>std::set as a strictly ascending list\<close>

text \<open>
  A \<open>std::set\<close> iterates in ascending order, and several loops of the code depend on that
  order. \<open>insort_insert\<close> of the library is its \<open>insert\<close>.
\<close>

definition is_sset :: "'a::linorder list \<Rightarrow> bool" where
  "is_sset xs \<longleftrightarrow> sorted xs \<and> distinct xs"

definition sset_of :: "'a::linorder list \<Rightarrow> 'a list" where
  "sset_of xs = fold insort_insert xs []"

lemma is_sset_Nil [simp]: "is_sset []"
  by (simp add: is_sset_def)

lemma is_sset_insert [simp]: "is_sset xs \<Longrightarrow> is_sset (insort_insert x xs)"
  by (simp add: is_sset_def sorted_insort_insert distinct_insort_insert)

lemma is_sset_fold_insert: "is_sset ys \<Longrightarrow> is_sset (fold insort_insert xs ys)"
  by (induction xs arbitrary: ys) auto

lemma set_fold_insort_insert: "set (fold insort_insert xs ys) = set xs \<union> set ys"
  by (induction xs arbitrary: ys) (auto simp: set_insort_insert)

lemma is_sset_sset_of [simp]: "is_sset (sset_of xs)"
  by (simp add: sset_of_def is_sset_fold_insert)

lemma set_sset_of [simp]: "set (sset_of xs) = set xs"
  by (simp add: sset_of_def set_fold_insort_insert)

lemma is_sset_unique: "is_sset xs \<Longrightarrow> is_sset ys \<Longrightarrow> set xs = set ys \<Longrightarrow> xs = ys"
  by (auto simp: is_sset_def intro: sorted_distinct_set_unique)

lemma sset_of_id: "is_sset xs \<Longrightarrow> sset_of xs = xs"
  by (rule is_sset_unique) auto

lemma length_sset: "is_sset xs \<Longrightarrow> length xs = card (set xs)"
  by (simp add: is_sset_def distinct_card)

lemma length_sset_of: "length (sset_of xs) = card (set xs)"
  using length_sset [OF is_sset_sset_of] by simp

lemma length_sset_of_eq_iff: "length (sset_of xs) = length xs \<longleftrightarrow> distinct xs"
  by (metis card_distinct distinct_card length_sset_of)

section \<open>Fixed-width integers\<close>

text \<open>
  A signed integer the code never lets overflow is an \<open>int\<close> together with the range
  predicate of its width, and the theorems show the range is kept; where arithmetic wraps or
  narrows, the wrap is written out.
\<close>

definition in_int64 :: "int \<Rightarrow> bool" where
  "in_int64 v \<longleftrightarrow> - (2 ^ 63) \<le> v \<and> v < 2 ^ 63"

definition in_int32 :: "int \<Rightarrow> bool" where
  "in_int32 v \<longleftrightarrow> - (2 ^ 31) \<le> v \<and> v < 2 ^ 31"

definition to_uint32 :: "int \<Rightarrow> int" where
  "to_uint32 v = v mod 2 ^ 32"

definition to_uint64 :: "int \<Rightarrow> int" where
  "to_uint64 v = v mod 2 ^ 64"

definition to_int32 :: "int \<Rightarrow> int" where
  "to_int32 v = (v + 2 ^ 31) mod 2 ^ 32 - 2 ^ 31"

definition to_int64 :: "int \<Rightarrow> int" where
  "to_int64 v = (v + 2 ^ 63) mod 2 ^ 64 - 2 ^ 63"

lemma to_uint32_id [simp]: "0 \<le> v \<Longrightarrow> v < 4294967296 \<Longrightarrow> to_uint32 v = v"
  by (simp add: to_uint32_def)

lemma to_int32_id [simp]: "in_int32 v \<Longrightarrow> to_int32 v = v"
  by (simp add: to_int32_def in_int32_def)

lemma to_int64_id [simp]: "in_int64 v \<Longrightarrow> to_int64 v = v"
  by (simp add: to_int64_def in_int64_def)

section \<open>Decimal printing\<close>

definition digit_char :: "nat \<Rightarrow> char" where
  "digit_char d = char_of (48 + d)"

definition digit_val :: "char \<Rightarrow> nat" where
  "digit_val c = of_char c - 48"

definition is_digit :: "char \<Rightarrow> bool" where
  "is_digit c \<longleftrightarrow> 48 \<le> (of_char c :: nat) \<and> (of_char c :: nat) \<le> 57"

fun show_nat :: "nat \<Rightarrow> string" where
  "show_nat n = (if n < 10 then [digit_char n] else show_nat (n div 10) @ [digit_char (n mod 10)])"

declare show_nat.simps [simp del]

definition show_int :: "int \<Rightarrow> string" where
  "show_int i = (if i < 0 then CHR ''-'' # show_nat (nat (- i)) else show_nat (nat i))"

definition digits_val :: "string \<Rightarrow> nat" where
  "digits_val s = foldl (\<lambda>a c. 10 * a + digit_val c) 0 s"

lemma digit_val_char [simp]: "d < 10 \<Longrightarrow> digit_val (digit_char d) = d"
  by (simp add: digit_val_def digit_char_def)

lemma is_digit_digit_char [simp]: "d < 10 \<Longrightarrow> is_digit (digit_char d)"
  by (simp add: is_digit_def digit_char_def)

lemma digits_val_snoc: "digits_val (s @ [c]) = 10 * digits_val s + digit_val c"
  by (simp add: digits_val_def)

lemma digits_val_show_nat [simp]: "digits_val (show_nat n) = n"
proof (induction n rule: show_nat.induct)
  case (1 n)
  show ?case
  proof (cases "n < 10")
    case True
    then show ?thesis by (subst show_nat.simps) (simp add: digits_val_def)
  next
    case False
    then show ?thesis
      using 1 by (subst show_nat.simps) (simp add: digits_val_snoc)
  qed
qed

lemma show_nat_digits: "\<forall>c \<in> set (show_nat n). is_digit c"
proof (induction n rule: show_nat.induct)
  case (1 n)
  then show ?case by (subst show_nat.simps) auto
qed

lemma show_nat_not_Nil [simp]: "show_nat n \<noteq> []"
  by (subst show_nat.simps) simp

end
