(* ===== verification/Log_Update.thy ===== *)
theory Log_Update
  imports Prelude
begin

text \<open>
  basic-sim/model/core/log-update-helper.cc and ptop-link-queue-tracker.cc: the helper that turns
  a sequence of (time, value) updates into a list of maximal intervals of constant value, and
  the queue tracker that feeds it the packet and byte counts of a device queue. The abstract
  specification is the step function \<open>value_at\<close>; the log is shown to be exactly that
  function on the observed period, with no empty and no mergeable interval.
\<close>

section \<open>LogUpdateHelper\<close>

type_synonym interval_log = "(int \<times> int \<times> int) list"

record log_helper =
  m_log_time_value :: interval_log
  m_last_update_value :: int
  m_interval_alpha_value :: int
  m_last_interval_check_time :: int
  m_interval_alpha_left_time :: int
  m_interval_beta_left_time :: int

definition log_init :: log_helper where
  "log_init = \<lparr>m_log_time_value = [], m_last_update_value = -1, m_interval_alpha_value = -1,
     m_last_interval_check_time = -1, m_interval_alpha_left_time = -1, m_interval_beta_left_time = -1\<rparr>"

text \<open>The part of \<open>Update\<close> that runs once per moment of time.\<close>

definition log_new_interval :: "int \<Rightarrow> log_helper \<Rightarrow> log_helper" where
  "log_new_interval time s =
     (if m_interval_alpha_left_time s = -1 then s\<lparr>m_interval_alpha_left_time := time\<rparr>
      else if m_interval_beta_left_time s = -1
        then s\<lparr>m_interval_beta_left_time := time, m_interval_alpha_value := m_last_update_value s\<rparr>
      else (let m_interval_beta_value = m_last_update_value s in
        if m_interval_alpha_value s = m_interval_beta_value
        then s\<lparr>m_interval_beta_left_time := time\<rparr>
        else s\<lparr>m_log_time_value := m_log_time_value s @
                 [(m_interval_alpha_left_time s, m_interval_beta_left_time s, m_interval_alpha_value s)],
               m_interval_alpha_left_time := m_interval_beta_left_time s,
               m_interval_alpha_value := m_interval_beta_value,
               m_interval_beta_left_time := time\<rparr>))"

definition log_update :: "int \<Rightarrow> int \<Rightarrow> log_helper \<Rightarrow> log_helper res" where
  "log_update time val s =
     (if time < 0 then Inl (Invalid_argument ''Negative time is not permitted.'')
      else if time < m_last_interval_check_time s
      then Inl (Invalid_argument ''Cannot log a value for a time in the past.'')
      else
        let s1 = (if time > m_last_interval_check_time s
                  then (log_new_interval time s)\<lparr>m_last_interval_check_time := time\<rparr> else s)
        in Inr (s1\<lparr>m_last_update_value := val\<rparr>))"

text \<open>\<open>Finalize\<close> returns a reference to the log it has just extended: the new state holds it.\<close>

definition log_finalize :: "int \<Rightarrow> log_helper \<Rightarrow> log_helper res" where
  "log_finalize time s =
     (if time < 0 then Inl (Invalid_argument ''Negative time is not permitted.'')
      else if time < m_last_interval_check_time s
      then Inl (Invalid_argument ''Cannot finalize at a time in the past.'')
      else
        let alpha = m_interval_alpha_left_time s; beta = m_interval_beta_left_time s; log = m_log_time_value s in
        if alpha \<noteq> -1 \<and> beta = -1
        then (if alpha \<noteq> time
              then Inr (s\<lparr>m_log_time_value := log @ [(alpha, time, m_last_update_value s)]\<rparr>)
              else Inr s)
        else if alpha \<noteq> -1 \<and> beta \<noteq> -1
        then (if m_interval_alpha_value s = m_last_update_value s
              then Inr (s\<lparr>m_log_time_value := log @ [(alpha, time, m_interval_alpha_value s)]\<rparr>)
              else (let log' = log @ [(alpha, beta, m_interval_alpha_value s)] in
                if beta \<noteq> time
                then Inr (s\<lparr>m_log_time_value := log' @ [(beta, time, m_last_update_value s)]\<rparr>)
                else Inr (s\<lparr>m_log_time_value := log'\<rparr>)))
        else Inr s)"

definition log_updates :: "(int \<times> int) list \<Rightarrow> log_helper \<Rightarrow> log_helper res" where
  "log_updates us s = foldr_res (\<lambda>(t, v). log_update t v) us s"

section \<open>Specification\<close>

text \<open>The value at a moment is that of the last update at or before it.\<close>

definition value_at :: "(int \<times> int) list \<Rightarrow> int \<Rightarrow> int" where
  "value_at us t = snd (last (filter (\<lambda>u. fst u \<le> t) us))"

definition log_at :: "(int \<times> int \<times> 'a) list \<Rightarrow> int \<Rightarrow> 'a option" where
  "log_at ivs t = map_option (\<lambda>(l, r, v). v) (find (\<lambda>(l, r, v). l \<le> t \<and> t < r) ivs)"

text \<open>Consecutive non-empty intervals from \<open>a\<close> to \<open>b\<close>, and no two neighbours of equal value.\<close>

fun tiles :: "int \<Rightarrow> (int \<times> int \<times> 'a) list \<Rightarrow> int \<Rightarrow> bool" where
  "tiles a [] b \<longleftrightarrow> a = b"
| "tiles a ((l, r, v) # ivs) b \<longleftrightarrow> l = a \<and> l < r \<and> tiles r ivs b"

definition unmergeable :: "(int \<times> int \<times> 'a) list \<Rightarrow> bool" where
  "unmergeable ivs = successively (\<noteq>) (map (\<lambda>(l, r, v). v) ivs)"

definition agrees :: "(int \<Rightarrow> 'a) \<Rightarrow> (int \<times> int \<times> 'a) list \<Rightarrow> bool" where
  "agrees f ivs \<longleftrightarrow> (\<forall>(l, r, v) \<in> set ivs. \<forall>t. l \<le> t \<longrightarrow> t < r \<longrightarrow> f t = v)"

section \<open>Lemmas\<close>

lemma value_at_snoc: "value_at (us @ [(t, v)]) x = (if t \<le> x then v else value_at us x)"
  by (simp add: value_at_def)

lemma tiles_snoc: "tiles a (ivs @ [(l, r, v)]) b \<longleftrightarrow> tiles a ivs l \<and> l < r \<and> r = b"
  by (induction a ivs b rule: tiles.induct) auto

lemma tiles_le: "tiles a ivs b \<Longrightarrow> a \<le> b"
  by (induction a ivs b rule: tiles.induct) auto

lemma agrees_snoc: "agrees f (ivs @ [(l, r, v)]) \<longleftrightarrow> agrees f ivs \<and> (\<forall>t. l \<le> t \<longrightarrow> t < r \<longrightarrow> f t = v)"
  by (auto simp: agrees_def)

lemma agrees_cong:
  "tiles a ivs b \<Longrightarrow> (\<And>t. t < b \<Longrightarrow> f t = g t) \<Longrightarrow> agrees f ivs \<longleftrightarrow> agrees g ivs"
proof (induction a ivs b rule: tiles.induct)
  case (2 a l r v ivs b)
  then have "r \<le> b" using tiles_le by auto
  with 2 show ?case by (auto simp: agrees_def)
qed (simp add: agrees_def)

lemma log_at_tiles:
  "tiles a ivs b \<Longrightarrow> agrees f ivs \<Longrightarrow> log_at ivs t = (if a \<le> t \<and> t < b then Some (f t) else None)"
proof (induction a ivs b rule: tiles.induct)
  case (2 a l r v ivs b)
  then have "r \<le> b" using tiles_le by auto
  with 2 show ?case by (auto simp: log_at_def agrees_def)
qed (simp add: log_at_def)

lemma unmergeable_snoc:
  "unmergeable (ivs @ [(l, r, v)]) \<longleftrightarrow> unmergeable ivs \<and> (ivs = [] \<or> snd (snd (last ivs)) \<noteq> v)"
  by (auto simp: unmergeable_def successively_append_iff last_map split: prod.splits)

text \<open>
  The invariant of the helper after the updates \<open>us\<close>: nothing was logged yet; or only interval
  alpha is open, at the single moment seen so far; or the log tiles the period up to the start
  of alpha, alpha ends where beta starts, and beta starts at the last moment.
\<close>

definition log_inv :: "(int \<times> int) list \<Rightarrow> log_helper \<Rightarrow> bool" where
  "log_inv us s \<longleftrightarrow>
     (if us = [] then s = log_init
      else m_last_interval_check_time s = fst (last us) \<and> m_last_update_value s = snd (last us) \<and>
        0 \<le> fst (hd us) \<and> sorted (map fst us) \<and>
        (if m_interval_beta_left_time s = -1
         then m_interval_alpha_left_time s = fst (last us) \<and> fst (hd us) = fst (last us) \<and> m_log_time_value s = []
         else m_interval_beta_left_time s = fst (last us) \<and>
              tiles (fst (hd us)) (m_log_time_value s @
                [(m_interval_alpha_left_time s, m_interval_beta_left_time s, m_interval_alpha_value s)]) (fst (last us)) \<and>
              unmergeable (m_log_time_value s @
                [(m_interval_alpha_left_time s, m_interval_beta_left_time s, m_interval_alpha_value s)]) \<and>
              agrees (value_at us) (m_log_time_value s @
                [(m_interval_alpha_left_time s, m_interval_beta_left_time s, m_interval_alpha_value s)])))"

lemma value_at_last: "us \<noteq> [] \<Longrightarrow> sorted (map fst us) \<Longrightarrow> fst (last us) \<le> t \<Longrightarrow> value_at us t = snd (last us)"
  by (cases us rule: rev_cases) (auto simp: value_at_def)

lemma sorted_map_last: "sorted (map fst us) \<Longrightarrow> u \<in> set us \<Longrightarrow> fst u \<le> fst (last us)"
  for us :: "(int \<times> int) list"
  by (cases us rule: rev_cases) (auto simp: sorted_append)

lemma log_inv_update_same:
  assumes inv: "log_inv us s" and us: "us \<noteq> []" "t = fst (last us)"
  shows "log_inv (us @ [(t, v)]) (s\<lparr>m_last_update_value := v\<rparr>)"
proof -
  have "agrees (value_at (us @ [(t, v)])) l \<longleftrightarrow> agrees (value_at us) l" if "tiles h l t" for h l
    using that by (rule agrees_cong) (simp add: value_at_snoc)
  then show ?thesis
    using assms by (auto simp: log_inv_def sorted_append sorted_map_last split: if_splits)
qed

lemma log_inv_update_later:
  assumes inv: "log_inv us s" and us: "us \<noteq> []" "fst (last us) < t" and t0: "0 \<le> t"
  shows "log_inv (us @ [(t, v)]) ((log_new_interval t s)\<lparr>m_last_interval_check_time := t, m_last_update_value := v\<rparr>)"
proof -
  let ?L = "fst (last us)" and ?H = "fst (hd us)" and ?f = "value_at (us @ [(t, v)])"
  let ?ivs = "m_log_time_value s @
    [(m_interval_alpha_left_time s, m_interval_beta_left_time s, m_interval_alpha_value s)]"
  have s: "m_last_update_value s = snd (last us)" "0 \<le> ?H" "sorted (map fst us)"
    using inv us by (auto simp: log_inv_def)
  have HL: "?H \<le> ?L" using s(3) us(1) by (simp add: sorted_map_last)
  have f: "?f x = value_at us x" if "x < t" for x using that by (simp add: value_at_snoc)
  have new: "?f x = snd (last us)" if "?L \<le> x" "x < t" for x
    using that us s(3) by (simp add: value_at_snoc value_at_last)
  have old: "agrees ?f l \<longleftrightarrow> agrees (value_at us) l" if "tiles h l ?L" for h l
    using that by (rule agrees_cong) (use us(2) f in auto)
  have srt: "sorted (map fst (us @ [(t, v)]))"
    using s(3) us by (auto simp: sorted_append dest: sorted_map_last)
  show ?thesis
  proof (cases "m_interval_beta_left_time s = -1")
    case True
    then show ?thesis
      using inv us s HL srt new t0
      by (auto simp: log_inv_def log_new_interval_def agrees_def unmergeable_def)
  next
    case False
    then have I: "m_interval_beta_left_time s = ?L" "tiles ?H ?ivs ?L" "unmergeable ?ivs" "agrees (value_at us) ?ivs"
      using inv us by (auto simp: log_inv_def)
    have al: "0 \<le> m_interval_alpha_left_time s" "m_interval_alpha_left_time s < ?L"
      using I(2) s(2) tiles_le [of ?H "m_log_time_value s"] by (auto simp: tiles_snoc intro: order_trans)
    have ag: "agrees ?f ?ivs" using I(2,4) old by simp
    show ?thesis
      using False I al ag us s HL srt new t0
      by (auto simp: log_inv_def log_new_interval_def Let_def tiles_snoc agrees_snoc unmergeable_snoc)
  qed
qed

lemma log_inv_update:
  assumes inv: "log_inv us s" and up: "log_update t v s = Inr s'"
  shows "log_inv (us @ [(t, v)]) s'"
proof (cases "us = []")
  case True
  with assms show ?thesis
    by (auto simp: log_inv_def log_update_def log_init_def log_new_interval_def split: if_splits)
next
  case False
  then have L: "m_last_interval_check_time s = fst (last us)" using inv by (simp add: log_inv_def)
  show ?thesis
    using up log_inv_update_same [OF inv False, of t v] log_inv_update_later [OF inv False, of t v] L
    by (auto simp: log_update_def Let_def split: if_splits)
qed

lemma log_inv_updates: "log_updates us log_init = Inr s \<Longrightarrow> log_inv us s"
  unfolding log_updates_def
  by (rule foldr_res_inv_prefix [where I = log_inv]) (auto simp: log_inv_def [of "[]"] intro: log_inv_update)

lemma log_updates_ok_iff: "is_ok (log_updates us log_init) \<longleftrightarrow> sorted (map fst us) \<and> (\<forall>u \<in> set us. 0 \<le> fst u)"
proof (induction us rule: rev_induct)
  case Nil
  then show ?case by (simp add: log_updates_def)
next
  case (snoc u us)
  obtain t v where u: "u = (t, v)" by fastforce
  show ?case
  proof (cases "log_updates us log_init")
    case (Inl e)
    then have "\<not> is_ok (log_updates us log_init)" by simp
    then show ?thesis
      using snoc Inl by (auto simp: log_updates_def foldr_res_append sorted_append)
  next
    case (Inr s)
    have "m_last_interval_check_time s = (if us = [] then -1 else fst (last us))"
      using log_inv_updates [OF Inr] by (auto simp: log_inv_def log_init_def)
    then show ?thesis
      using snoc Inr u
      by (auto simp: log_updates_def foldr_res_append log_update_def Let_def sorted_append
          dest: sorted_map_last intro: bexI [of _ "last us"])
  qed
qed

lemma agrees_extend:
  "agrees f (ivs @ [(l, m, v)]) \<Longrightarrow> (\<And>x. m \<le> x \<Longrightarrow> f x = v) \<Longrightarrow> agrees f (ivs @ [(l, r, v)])"
  by (simp add: agrees_snoc) (metis linorder_not_le)

lemma log_finalize_spec:
  assumes inv: "log_inv us s" and us: "us \<noteq> []" and fin: "log_finalize T s = Inr s'"
  shows "tiles (fst (hd us)) (m_log_time_value s') T \<and> unmergeable (m_log_time_value s') \<and>
    agrees (value_at us) (m_log_time_value s')"
proof -
  let ?L = "fst (last us)" and ?H = "fst (hd us)"
  have s: "m_last_interval_check_time s = ?L" "m_last_update_value s = snd (last us)" "0 \<le> ?H" "sorted (map fst us)"
    using inv us by (auto simp: log_inv_def)
  have T: "?L \<le> T" "0 \<le> T" using fin s(1) by (auto simp: log_finalize_def split: if_splits)
  have HL: "?H \<le> ?L" using s(4) us(1) by (simp add: sorted_map_last)
  have new: "value_at us x = snd (last us)" if "?L \<le> x" for x
    using that us s(4) by (simp add: value_at_last)
  show ?thesis
  proof (cases "m_interval_beta_left_time s = -1")
    case True
    then show ?thesis
      using inv us s HL new T fin
      by (auto simp: log_inv_def log_finalize_def Let_def agrees_def unmergeable_def split: if_splits)
  next
    case False
    let ?ivs = "m_log_time_value s @
      [(m_interval_alpha_left_time s, m_interval_beta_left_time s, m_interval_alpha_value s)]"
    have I: "m_interval_beta_left_time s = ?L" "tiles ?H ?ivs ?L" "unmergeable ?ivs" "agrees (value_at us) ?ivs"
      using inv us False by (auto simp: log_inv_def)
    have al: "0 \<le> m_interval_alpha_left_time s" "m_interval_alpha_left_time s < ?L"
      using I(2) s(3) tiles_le [of ?H "m_log_time_value s"] by (auto simp: tiles_snoc intro: order_trans)
    let ?v = "snd (last us)"
    consider (merge) "m_interval_alpha_value s = ?v"
          "m_log_time_value s' = m_log_time_value s @ [(m_interval_alpha_left_time s, T, ?v)]"
      | (split) "m_interval_alpha_value s \<noteq> ?v" "?L < T" "m_log_time_value s' = ?ivs @ [(?L, T, ?v)]"
      | (exact) "?L = T" "m_log_time_value s' = ?ivs"
      using False I(1) al T s fin by (auto simp: log_finalize_def Let_def split: if_splits)
    then show ?thesis
    proof cases
      case merge
      then show ?thesis
        using I T new agrees_extend [of "value_at us" "m_log_time_value s" "m_interval_alpha_left_time s" ?L ?v T]
        by (simp add: tiles_snoc unmergeable_snoc del: prod.collapse)
    next
      case split
      then show ?thesis
        using I new unfolding split(3) tiles_snoc unmergeable_snoc agrees_snoc by (simp add: tiles_snoc)
    next
      case exact
      then show ?thesis using I by simp
    qed
  qed
qed

lemma log_finalize_is_ok: "is_ok (log_finalize T s) \<longleftrightarrow> 0 \<le> T \<and> m_last_interval_check_time s \<le> T"
  by (auto simp: log_finalize_def Let_def)

section \<open>Properties of the helper\<close>

text \<open>
  A sequence of updates is accepted exactly when its times are not negative and never go
  back, and finalising at or after the last update then succeeds.
\<close>

theorem log_updates_accepted:
  "is_ok (bindr (log_updates us log_init) (log_finalize T)) \<longleftrightarrow>
     sorted (map fst us @ [T]) \<and> list_all (\<lambda>t. 0 \<le> t) (map fst us @ [T])"
proof (cases "log_updates us log_init")
  case (Inl e)
  then show ?thesis
    using log_updates_ok_iff [of us] by (auto simp: sorted_append list_all_iff)
next
  case (Inr s)
  then have us: "sorted (map fst us)" "\<forall>u \<in> set us. 0 \<le> fst u" and inv: "log_inv us s"
    using log_updates_ok_iff [of us] log_inv_updates by auto
  have "m_last_interval_check_time s = (if us = [] then -1 else fst (last us))"
    using inv by (auto simp: log_inv_def log_init_def)
  moreover have "0 \<le> T \<Longrightarrow> (\<forall>u \<in> set us. fst u \<le> T) \<longleftrightarrow> us = [] \<or> fst (last us) \<le> T"
    using sorted_map_last [OF us(1)] by (metis last_in_set list.set_cases neq_Nil_conv order_trans empty_iff empty_set)
  ultimately show ?thesis
    using Inr us by (auto simp: sorted_append list_all_iff log_finalize_is_ok)
qed

text \<open>
  C8. The finalised log is the step function of the updates: looked up at any moment it gives
  the value of the last update at or before it, on exactly the period from the first update to
  the finalisation, and nothing outside.
\<close>

theorem log_is_step_function:
  assumes "log_updates us log_init = Inr s" "us \<noteq> []" "log_finalize T s = Inr s'"
  shows "log_at (m_log_time_value s') t =
    (if fst (hd us) \<le> t \<and> t < T then Some (value_at us t) else None)"
  using log_finalize_spec [OF log_inv_updates [OF assms(1)] assms(2,3)] log_at_tiles by blast

theorem log_is_step_function_witness:
  "log_at [(0, 3, 5), (3, 7, 1), (7, 9, 2)] 6 = Some (value_at [(0, 4), (0, 5), (2, 5), (3, 1), (7, 2)] 6)"
proof -
  obtain s s' where "log_updates [(0, 4), (0, 5), (2, 5), (3, 1), (7, 2)] log_init = Inr s"
      "log_finalize 9 s = Inr s'" "m_log_time_value s' = [(0, 3, 5), (3, 7, 1), (7, 9, 2)]"
    by (simp add: log_updates_def log_update_def log_new_interval_def log_init_def log_finalize_def Let_def)
  then show ?thesis
    using log_is_step_function [of "[(0, 4), (0, 5), (2, 5), (3, 1), (7, 2)]" s 9 s' 6] by simp
qed

text \<open>
  The finalised log has no empty interval, no gap and no overlap, and it is the shortest
  such log: no two neighbouring intervals have the same value.
\<close>

theorem log_is_minimal:
  assumes "log_updates us log_init = Inr s" "us \<noteq> []" "log_finalize T s = Inr s'"
  shows "tiles (fst (hd us)) (m_log_time_value s') T \<and> unmergeable (m_log_time_value s')"
  using log_finalize_spec [OF log_inv_updates [OF assms(1)] assms(2,3)] by blast

theorem log_is_minimal_witness:
  "tiles 0 [(0, 3, 5 :: int), (3, 7, 1)] 7 \<and> unmergeable [(0 :: int, 3 :: int, 5 :: int), (3, 7, 1)]"
proof -
  obtain s s' where "log_updates [(0, 4), (0, 5), (2, 5), (3, 1)] log_init = Inr s"
      "log_finalize 7 s = Inr s'" "m_log_time_value s' = [(0, 3, 5), (3, 7, 1)]"
    by (simp add: log_updates_def log_update_def log_new_interval_def log_init_def log_finalize_def Let_def)
  then show ?thesis
    using log_is_minimal [of "[(0, 4), (0, 5), (2, 5), (3, 1)]" s 7 s'] by simp
qed

section \<open>PtopLinkQueueTracker\<close>

text \<open>
  The tracker registers itself with the traces of the device's queue; the callbacks carry the
  old and the new number of packets or bytes. \<open>now\<close> is \<open>Simulator::Now()\<close> in nanoseconds.
\<close>

record queue_tracker =
  m_log_update_helper_queue_pkt :: log_helper
  m_log_update_helper_queue_byte :: log_helper

definition queue_tracker_create :: "queue_tracker res" where
  "queue_tracker_create =
     bindr (log_update 0 0 log_init) (\<lambda>p.
     bindr (log_update 0 0 log_init) (\<lambda>b.
       Inr \<lparr>m_log_update_helper_queue_pkt = p, m_log_update_helper_queue_byte = b\<rparr>))"

definition net_device_packets_in_queue_callback :: "int \<Rightarrow> int \<Rightarrow> int \<Rightarrow> queue_tracker \<Rightarrow> queue_tracker res" where
  "net_device_packets_in_queue_callback now old num_packets q =
     bindr (log_update now num_packets (m_log_update_helper_queue_pkt q)) (\<lambda>p.
       Inr (q\<lparr>m_log_update_helper_queue_pkt := p\<rparr>))"

definition net_device_bytes_in_queue_callback :: "int \<Rightarrow> int \<Rightarrow> int \<Rightarrow> queue_tracker \<Rightarrow> queue_tracker res" where
  "net_device_bytes_in_queue_callback now old num_bytes q =
     bindr (log_update now num_bytes (m_log_update_helper_queue_byte q)) (\<lambda>b.
       Inr (q\<lparr>m_log_update_helper_queue_byte := b\<rparr>))"

definition get_intervals_num_packets :: "int \<Rightarrow> queue_tracker \<Rightarrow> (interval_log \<times> queue_tracker) res" where
  "get_intervals_num_packets now q =
     bindr (log_finalize now (m_log_update_helper_queue_pkt q)) (\<lambda>p.
       Inr (m_log_time_value p, q\<lparr>m_log_update_helper_queue_pkt := p\<rparr>))"

definition get_intervals_num_bytes :: "int \<Rightarrow> queue_tracker \<Rightarrow> (interval_log \<times> queue_tracker) res" where
  "get_intervals_num_bytes now q =
     bindr (log_finalize now (m_log_update_helper_queue_byte q)) (\<lambda>b.
       Inr (m_log_time_value b, q\<lparr>m_log_update_helper_queue_byte := b\<rparr>))"

text \<open>A trace of the queue: each change with its time, in packets or in bytes.\<close>

datatype queue_event = PacketsInQueue int int int | BytesInQueue int int int

fun queue_callback :: "queue_event \<Rightarrow> queue_tracker \<Rightarrow> queue_tracker res" where
  "queue_callback (PacketsInQueue now old n) q = net_device_packets_in_queue_callback now old n q"
| "queue_callback (BytesInQueue now old n) q = net_device_bytes_in_queue_callback now old n q"

fun packet_updates :: "queue_event list \<Rightarrow> (int \<times> int) list" where
  "packet_updates [] = []"
| "packet_updates (PacketsInQueue now old n # es) = (now, n) # packet_updates es"
| "packet_updates (BytesInQueue now old n # es) = packet_updates es"

fun byte_updates :: "queue_event list \<Rightarrow> (int \<times> int) list" where
  "byte_updates [] = []"
| "byte_updates (PacketsInQueue now old n # es) = byte_updates es"
| "byte_updates (BytesInQueue now old n # es) = (now, n) # byte_updates es"

lemma queue_callbacks_split:
  "foldr_res queue_callback es q = Inr q' \<Longrightarrow>
   log_updates (packet_updates es) (m_log_update_helper_queue_pkt q) = Inr (m_log_update_helper_queue_pkt q') \<and>
   log_updates (byte_updates es) (m_log_update_helper_queue_byte q) = Inr (m_log_update_helper_queue_byte q')"
proof (induction es arbitrary: q)
  case Nil
  then show ?case by (simp add: log_updates_def)
next
  case (Cons e es)
  then show ?case
    by (cases e)
      (fastforce simp: log_updates_def res_simps net_device_packets_in_queue_callback_def
        net_device_bytes_in_queue_callback_def)+
qed

text \<open>
  Whatever the interleaving of packet and byte changes, the tracker's packet log read at
  time T gives at every moment before T the number of packets in the queue at that moment (0
  before the first change), and its byte log the number of bytes.
\<close>

theorem queue_tracker_logs:
  assumes "queue_tracker_create = Inr q" "foldr_res queue_callback es q = Inr q1"
    and "get_intervals_num_packets T q1 = Inr (pkts, q2)" "get_intervals_num_bytes T q2 = Inr (bytes, q3)"
  shows "log_at pkts t = (if 0 \<le> t \<and> t < T then Some (value_at ((0, 0) # packet_updates es) t) else None) \<and>
    log_at bytes t = (if 0 \<le> t \<and> t < T then Some (value_at ((0, 0) # byte_updates es) t) else None)"
proof -
  from assms(1) have q: "log_update 0 0 log_init = Inr (m_log_update_helper_queue_pkt q)"
      "log_update 0 0 log_init = Inr (m_log_update_helper_queue_byte q)"
    by (auto simp: queue_tracker_create_def res_simps)
  note c = queue_callbacks_split [OF assms(2)]
  have u: "log_updates ((0, 0) # packet_updates es) log_init = Inr (m_log_update_helper_queue_pkt q1)"
      "log_updates ((0, 0) # byte_updates es) log_init = Inr (m_log_update_helper_queue_byte q1)"
    using c q by (simp_all add: log_updates_def)
  obtain p b where "log_finalize T (m_log_update_helper_queue_pkt q1) = Inr p" "pkts = m_log_time_value p"
      "log_finalize T (m_log_update_helper_queue_byte q1) = Inr b" "bytes = m_log_time_value b"
    using assms(3,4) by (auto simp: get_intervals_num_packets_def get_intervals_num_bytes_def res_simps)
  then show ?thesis
    using log_finalize_spec [OF log_inv_updates [OF u(1)]] log_finalize_spec [OF log_inv_updates [OF u(2)]]
      log_at_tiles by fastforce
qed

theorem queue_tracker_logs_witness:
  "log_at [(0, 4, 0), (4, 9, 1)] 5 = Some (value_at [(0, 0), (4, 1)] 5)"
proof -
  obtain q q1 q2 q3 b where "queue_tracker_create = Inr q"
      "foldr_res queue_callback [PacketsInQueue 4 0 1, BytesInQueue 4 0 1500] q = Inr q1"
      "get_intervals_num_packets 9 q1 = Inr ([(0, 4, 0), (4, 9, 1)], q2)"
      "get_intervals_num_bytes 9 q2 = Inr (b, q3)"
    by (simp add: queue_tracker_create_def log_updates_def log_update_def log_new_interval_def log_init_def
        net_device_packets_in_queue_callback_def net_device_bytes_in_queue_callback_def
        get_intervals_num_packets_def get_intervals_num_bytes_def log_finalize_def Let_def)
  from queue_tracker_logs [OF this, of 5] show ?thesis by simp
qed

end
