(* ===== verification/Float64.thy ===== *)
theory Float64
  imports Prelude
begin

text \<open>
  IEEE 754 binary64, the C++ \<open>double\<close>: a finite value is the rational it denotes, and every
  operation is the exact rational operation followed by one rounding to nearest, ties to even,
  with 53 bits of precision, gradual underflow at \<open>2^-1074\<close> and overflow to infinity at
  \<open>2^1024\<close>. The two zeros are one value; nothing the components do tells them apart.
\<close>

datatype double = Fin rat | Infinity bool | NaN

text \<open>\<open>Infinity True\<close> is minus infinity.\<close>

section \<open>Rounding\<close>

function bitlen :: "int \<Rightarrow> int" where
  "bitlen n = (if n \<le> 0 then 0 else 1 + bitlen (n div 2))"
  by pat_completeness auto
termination
  by (relation "measure nat") auto

declare bitlen.simps [simp del]

definition pow2 :: "int \<Rightarrow> rat" where
  "pow2 k = (if 0 \<le> k then of_int (2 ^ nat k) else 1 / of_int (2 ^ nat (- k)))"

definition ilog2 :: "rat \<Rightarrow> int" where
  "ilog2 q = (let (a, b) = quotient_of q; e = bitlen a - bitlen b
              in if q < pow2 e then e - 1 else e)"

definition round_even :: "rat \<Rightarrow> int" where
  "round_even r = (let f = floor r; d = r - of_int f in
     if d < 1 / 2 then f else if d > 1 / 2 then f + 1 else if even f then f else f + 1)"

definition rnd :: "rat \<Rightarrow> double" where
  "rnd q = (if q = 0 then Fin 0 else
     let u = pow2 (max (ilog2 \<bar>q\<bar> - 52) (- 1074));
         r = of_int (round_even (q / u)) * u
     in if \<bar>r\<bar> \<ge> pow2 1024 then Infinity (q < 0) else Fin r)"

section \<open>Arithmetic and comparison\<close>

definition d_of_int :: "int \<Rightarrow> double" where
  "d_of_int i = rnd (of_int i)"

fun d_add :: "double \<Rightarrow> double \<Rightarrow> double" where
  "d_add (Fin a) (Fin b) = rnd (a + b)"
| "d_add NaN _ = NaN"
| "d_add _ NaN = NaN"
| "d_add (Infinity s) (Infinity t) = (if s = t then Infinity s else NaN)"
| "d_add (Infinity s) (Fin _) = Infinity s"
| "d_add (Fin _) (Infinity s) = Infinity s"

fun d_neg :: "double \<Rightarrow> double" where
  "d_neg (Fin a) = Fin (- a)"
| "d_neg (Infinity s) = Infinity (\<not> s)"
| "d_neg NaN = NaN"

definition d_sub :: "double \<Rightarrow> double \<Rightarrow> double" where
  "d_sub x y = d_add x (d_neg y)"

fun d_mul :: "double \<Rightarrow> double \<Rightarrow> double" where
  "d_mul (Fin a) (Fin b) = rnd (a * b)"
| "d_mul NaN _ = NaN"
| "d_mul _ NaN = NaN"
| "d_mul (Infinity s) (Infinity t) = Infinity (s \<noteq> t)"
| "d_mul (Infinity s) (Fin a) = (if a = 0 then NaN else Infinity (s \<noteq> (a < 0)))"
| "d_mul (Fin a) (Infinity s) = (if a = 0 then NaN else Infinity (s \<noteq> (a < 0)))"

text \<open>Division by zero gives an infinity of the dividend's sign (the zero is positive).\<close>

fun d_div :: "double \<Rightarrow> double \<Rightarrow> double" where
  "d_div (Fin a) (Fin b) =
     (if b = 0 then (if a = 0 then NaN else Infinity (a < 0)) else rnd (a / b))"
| "d_div NaN _ = NaN"
| "d_div _ NaN = NaN"
| "d_div (Infinity s) (Infinity t) = NaN"
| "d_div (Infinity s) (Fin b) = Infinity (s \<noteq> (b < 0))"
| "d_div (Fin a) (Infinity s) = Fin 0"

fun d_lt :: "double \<Rightarrow> double \<Rightarrow> bool" where
  "d_lt (Fin a) (Fin b) = (a < b)"
| "d_lt NaN _ = False"
| "d_lt _ NaN = False"
| "d_lt (Infinity s) (Infinity t) = (s \<and> \<not> t)"
| "d_lt (Infinity s) (Fin _) = s"
| "d_lt (Fin _) (Infinity s) = (\<not> s)"

fun d_eq :: "double \<Rightarrow> double \<Rightarrow> bool" where
  "d_eq NaN _ = False"
| "d_eq _ NaN = False"
| "d_eq x y = (x = y)"

fun d_le :: "double \<Rightarrow> double \<Rightarrow> bool" where
  "d_le NaN _ = False"
| "d_le _ NaN = False"
| "d_le x y = (\<not> d_lt y x)"

fun d_abs :: "double \<Rightarrow> double" where
  "d_abs (Fin a) = Fin \<bar>a\<bar>"
| "d_abs (Infinity s) = Infinity False"
| "d_abs NaN = NaN"

text \<open>\<open>std::min(a, b)\<close> is \<open>b < a ? b : a\<close>, \<open>std::max(a, b)\<close> is \<open>a < b ? b : a\<close>.\<close>

definition d_min :: "double \<Rightarrow> double \<Rightarrow> double" where
  "d_min a b = (if d_lt b a then b else a)"

definition d_max :: "double \<Rightarrow> double \<Rightarrow> double" where
  "d_max a b = (if d_lt a b then b else a)"

text \<open>
  \<open>std::ceil\<close>, and the conversion to an integer type, which truncates and is undefined out of
  the type's range.
\<close>

fun d_ceil :: "double \<Rightarrow> double" where
  "d_ceil (Fin a) = Fin (of_int (ceiling a))"
| "d_ceil x = x"

fun d_trunc :: "double \<Rightarrow> int \<Rightarrow> int \<Rightarrow> int res" where
  "d_trunc (Fin a) lo hi =
     (let t = (if 0 \<le> a then floor a else ceiling a)
      in if lo \<le> t \<and> t \<le> hi then Inr t else Inl (Undefined ''float to integer out of range''))"
| "d_trunc _ lo hi = Inl (Undefined ''float to integer out of range'')"

section \<open>Integers below 2^53 are exact\<close>

lemma pow2_pos [simp]: "0 < pow2 k"
  by (simp add: pow2_def)

lemma pow2_add: "pow2 (a + b) = pow2 a * pow2 b"
proof -
  have aux: "pow2 k = 2 powi k" for k
    by (simp add: pow2_def power_int_def power_one_over)
  show ?thesis by (simp add: aux power_int_add)
qed

lemma pow2_mono: "a \<le> b \<Longrightarrow> pow2 a \<le> pow2 b"
proof -
  assume "a \<le> b"
  then have "pow2 b = pow2 a * pow2 (b - a)" by (simp flip: pow2_add)
  moreover from \<open>a \<le> b\<close> have "1 \<le> pow2 (b - a)" by (simp add: pow2_def)
  ultimately show ?thesis by simp
qed

lemma round_even_of_int [simp]: "round_even (of_int i) = i"
  by (simp add: round_even_def)

lemma bitlen_nonneg: "0 \<le> bitlen n"
proof (induction n rule: bitlen.induct)
  case (1 n)
  then show ?case by (subst bitlen.simps) auto
qed

lemma bitlen_pos: "0 < n \<Longrightarrow> 1 \<le> bitlen n"
  using bitlen_nonneg [of "n div 2"] by (subst bitlen.simps) simp

lemma bitlen_bounds: "0 < n \<Longrightarrow> 2 ^ nat (bitlen n - 1) \<le> n \<and> n < 2 ^ nat (bitlen n)"
proof (induction n rule: bitlen.induct)
  case (1 n)
  show ?case
  proof (cases "n = 1")
    case True
    then show ?thesis by (simp add: bitlen.simps)
  next
    case False
    define k where "k = nat (bitlen (n div 2) - 1)"
    have pos: "0 < n div 2" using False 1(2) by simp
    with bitlen_pos have b: "bitlen (n div 2) = int k + 1" by (fastforce simp: k_def)
    have bn: "bitlen n = int k + 2" using 1(2) by (subst bitlen.simps) (simp add: b)
    have k2: "nat (int k + 1) = Suc k" "nat (int k + 2) = Suc (Suc k)" by simp_all
    have "2 ^ k \<le> n div 2" "n div 2 < 2 ^ Suc k"
      using 1(1) 1(2) pos by (simp_all add: b nat_add_distrib)
    then have "2 ^ Suc k \<le> n" "n < 2 ^ Suc (Suc k)" by auto
    then show ?thesis by (simp only: bn k2 add_diff_eq) (simp add: nat_add_distrib)
  qed
qed

lemma bitlen_le: "0 < n \<Longrightarrow> n < 2 ^ k \<Longrightarrow> bitlen n \<le> int k"
proof -
  assume n: "0 < n" "n < 2 ^ k"
  with bitlen_bounds [of n] have "2 ^ nat (bitlen n - 1) < (2::int) ^ k" by linarith
  then have "nat (bitlen n - 1) < k" by simp
  then show ?thesis by simp
qed

lemma pow2_less_of_int: "0 < n \<Longrightarrow> of_int n < pow2 (bitlen n)"
proof -
  assume "0 < n"
  then have "(of_int n :: rat) < of_int (2 ^ nat (bitlen n))"
    using bitlen_bounds [of n] by (simp only: of_int_less_iff)
  then show ?thesis using bitlen_nonneg [of n] by (simp add: pow2_def)
qed

lemma pow2_le_of_int: "0 < n \<Longrightarrow> pow2 (bitlen n - 1) \<le> of_int n"
proof -
  assume "0 < n"
  then have "(of_int (2 ^ nat (bitlen n - 1)) :: rat) \<le> of_int n"
    using bitlen_bounds [of n] by (simp only: of_int_le_iff)
  then show ?thesis using bitlen_pos [OF \<open>0 < n\<close>] by (simp add: pow2_def)
qed

lemma bitlen_1 [simp]: "bitlen 1 = 1"
  by (simp add: bitlen.simps)

lemma ilog2_of_int: "0 < n \<Longrightarrow> ilog2 (of_int n) = bitlen n - 1"
  using pow2_le_of_int [of n] by (simp add: ilog2_def Let_def)

lemma rnd_of_int:
  assumes "\<bar>i\<bar> < 2 ^ 53"
  shows "rnd (of_int i) = Fin (of_int i)"
proof (cases "i = 0")
  case True
  then show ?thesis by (simp add: rnd_def)
next
  case False
  define u where "u = max (ilog2 \<bar>of_int i\<bar> - 52) (- 1074)"
  have "bitlen \<bar>i\<bar> \<le> int 53"
    using False assms by (intro bitlen_le) auto
  then have u0: "u \<le> 0"
    using ilog2_of_int [of "\<bar>i\<bar>"] False by (simp add: u_def)
  have un: "of_int i / pow2 u = of_int (i * 2 ^ nat (- u))"
    using u0 by (auto simp: pow2_def)
  have re: "of_int (round_even (of_int i / pow2 u)) * pow2 u = of_int i"
    using pow2_pos [of u] un by (metis less_irrefl nonzero_eq_divide_eq round_even_of_int)
  have "\<bar>of_int i :: rat\<bar> < pow2 1024"
  proof -
    have "\<bar>of_int i :: rat\<bar> < of_int (2 ^ 53)" using assms by linarith
    also have "\<dots> = pow2 53" by (simp add: pow2_def)
    also have "\<dots> \<le> pow2 1024" by (rule pow2_mono) simp
    finally show ?thesis .
  qed
  then show ?thesis
    using False re by (simp add: rnd_def Let_def flip: u_def)
qed

lemma d_of_int_exact: "\<bar>i\<bar> < 2 ^ 53 \<Longrightarrow> d_of_int i = Fin (of_int i)"
  by (simp add: d_of_int_def rnd_of_int)

lemma rnd_0 [simp]: "rnd 0 = Fin 0"
  by (simp add: rnd_def)

section \<open>Square root and rounding to an integer\<close>

text \<open>The integer square root, two binary digits of the argument at a time.\<close>

function isqrt :: "int \<Rightarrow> int" where
  "isqrt n = (if n \<le> 0 then 0 else
     let r = 2 * isqrt (n div 4) in if (r + 1) * (r + 1) \<le> n then r + 1 else r)"
  by pat_completeness auto
termination
  by (relation "measure nat") auto

declare isqrt.simps [simp del]

lemma isqrt_bounds: "0 \<le> n \<Longrightarrow> 0 \<le> isqrt n \<and> isqrt n * isqrt n \<le> n \<and> n < (isqrt n + 1) * (isqrt n + 1)"
proof (induction n rule: isqrt.induct)
  case (1 n)
  show ?case
  proof (cases "n \<le> 0")
    case True
    then show ?thesis using 1(2) by (subst (1 2 3 4 5) isqrt.simps) simp
  next
    case False
    define r where "r = isqrt (n div 4)"
    have ih: "0 \<le> r" "r * r \<le> n div 4" "n div 4 < (r + 1) * (r + 1)"
      using 1(1) False by (simp_all add: r_def)
    have "4 * (r * r) \<le> n" using ih(2) by linarith
    moreover have "n < 4 * ((r + 1) * (r + 1))" using ih(3) by linarith
    moreover have "isqrt n = (if (2 * r + 1) * (2 * r + 1) \<le> n then 2 * r + 1 else 2 * r)"
      using False by (subst isqrt.simps) (simp add: Let_def r_def)
    ultimately show ?thesis using ih(1) by (auto simp: algebra_simps)
  qed
qed

text \<open>
  \<open>std::sqrt\<close>, which is correctly rounded. The argument is scaled so that the integer part \<open>m\<close> of its
  root has 63 bit or more; where the root is not \<open>m\<close> it lies strictly between \<open>m\<close> and \<open>m + 1\<close>, as
  \<open>m + 1/2\<close> does, and no number between them is a tie of the rounding to 53 bit.
\<close>

fun d_sqrt :: "double \<Rightarrow> double" where
  "d_sqrt (Fin a) = (if a < 0 then NaN else if a = 0 then Fin 0 else
     let k = 64 - ilog2 a div 2; q = a * pow2 (2 * k); m = isqrt (floor q);
         root = (if of_int (m * m) = q then of_int m else of_int m + 1 / 2)
     in rnd (root * pow2 (- k)))"
| "d_sqrt (Infinity s) = (if s then NaN else Infinity False)"
| "d_sqrt NaN = NaN"

text \<open>\<open>std::round\<close>: to the nearest integer, halves away from zero.\<close>

fun d_round :: "double \<Rightarrow> double" where
  "d_round (Fin a) = Fin (of_int (if 0 \<le> a then floor (a + 1 / 2) else ceiling (a - 1 / 2)))"
| "d_round x = x"

section \<open>The error of one rounding\<close>

lemma pow2_sub: "pow2 (a - b) = pow2 a / pow2 b"
proof -
  have "pow2 (a - b) * pow2 b = pow2 a" by (simp flip: pow2_add)
  then show ?thesis using pow2_pos [of b] by (metis less_irrefl nonzero_eq_divide_eq)
qed

lemma ilog2_le:
  assumes "0 < q"
  shows "pow2 (ilog2 q) \<le> q"
proof -
  obtain a b where ab: "quotient_of q = (a, b)" by fastforce
  then have b: "0 < b" and q: "q = of_int a / of_int b" using quotient_of_denom_pos quotient_of_div by auto
  then have a: "0 < a" using assms by (simp add: zero_less_divide_iff)
  let ?e = "bitlen a - bitlen b"
  have "pow2 (?e - 1) \<le> q"
  proof -
    have "pow2 (?e - 1) = pow2 (bitlen a - 1) / pow2 (bitlen b)" by (simp flip: pow2_sub add: algebra_simps)
    also have "\<dots> \<le> of_int a / of_int b"
      using pow2_le_of_int [OF a] pow2_less_of_int [OF b] a b by (intro frac_le) auto
    finally show ?thesis by (simp add: q)
  qed
  then show ?thesis by (auto simp: ilog2_def ab Let_def)
qed

lemma round_even_error: "\<bar>of_int (round_even x) - x\<bar> \<le> 1 / 2"
proof -
  have f: "of_int (floor x) \<le> x" "x < of_int (floor x) + 1" by linarith+
  show ?thesis using f unfolding round_even_def Let_def by (auto simp: abs_le_iff split: if_splits)
qed

lemma rnd_error:
  assumes "\<bar>q\<bar> \<le> 2 ^ 500"
  shows "\<exists>r. rnd q = Fin r \<and> \<bar>r - q\<bar> \<le> \<bar>q\<bar> / 2 ^ 53 + pow2 (- 1075)"
proof (cases "q = 0")
  case True
  then show ?thesis by (simp add: less_imp_le)
next
  case False
  define u where "u = pow2 (max (ilog2 \<bar>q\<bar> - 52) (- 1074))"
  define r where "r = of_int (round_even (q / u)) * u"
  have u: "0 < u" by (simp add: u_def)
  have "pow2 (ilog2 \<bar>q\<bar> - 52) \<le> \<bar>q\<bar> / 2 ^ 52"
    using ilog2_le [of "\<bar>q\<bar>"] False by (simp add: pow2_sub pow2_def [of 52] divide_right_mono)
  then have "u \<le> max (\<bar>q\<bar> / 2 ^ 52) (pow2 (- 1074))" by (auto simp: u_def max_def)
  also have "\<dots> \<le> \<bar>q\<bar> / 2 ^ 52 + pow2 (- 1074)" using pow2_pos [of "- 1074"] by (auto simp: max_def less_imp_le)
  finally have u2: "u / 2 \<le> \<bar>q\<bar> / 2 ^ 53 + pow2 (- 1075)"
  proof -
    assume "u \<le> \<bar>q\<bar> / 2 ^ 52 + pow2 (- 1074)"
    moreover have "pow2 (- 1074) = 2 * pow2 (- 1075)" using pow2_add [of 1 "- 1075"] by (simp add: pow2_def [of 1])
    ultimately show ?thesis by simp
  qed
  have "r - q = (of_int (round_even (q / u)) - q / u) * u" using u by (simp add: r_def algebra_simps)
  then have "\<bar>r - q\<bar> = \<bar>of_int (round_even (q / u)) - q / u\<bar> * u" using u by (simp add: abs_mult)
  also have "\<dots> \<le> 1 / 2 * u" using u by (intro mult_right_mono round_even_error) auto
  finally have err: "\<bar>r - q\<bar> \<le> \<bar>q\<bar> / 2 ^ 53 + pow2 (- 1075)" using u2 by simp
  have "pow2 (- 1075) \<le> 1" using pow2_mono [of "- 1075" 0] by (simp add: pow2_def [of 0])
  then have "\<bar>r\<bar> \<le> 2 * \<bar>q\<bar> + 1" using err by (auto simp: abs_if split: if_splits)
  also have "\<dots> \<le> 2 * 2 ^ 500 + 1" using assms by simp
  also have "\<dots> < 2 ^ 1024" by simp
  finally have "\<bar>r\<bar> < pow2 1024" by (simp add: pow2_def)
  then have "rnd q = Fin r" using False by (simp add: rnd_def Let_def u_def [symmetric] r_def [symmetric])
  with err show ?thesis by blast
qed

text \<open>For what the components compute: a small number is rounded to one less than \<open>2^-32\<close> away.\<close>

lemma rnd_near:
  assumes "\<bar>q\<bar> \<le> 1000000"
  shows "\<exists>r. rnd q = Fin r \<and> \<bar>r - q\<bar> < 1 / 2 ^ 32"
proof -
  have "(1000000 :: rat) \<le> 2 ^ 500" by simp
  then obtain r where r: "rnd q = Fin r" "\<bar>r - q\<bar> \<le> \<bar>q\<bar> / 2 ^ 53 + pow2 (- 1075)"
    using rnd_error [of q] assms by (meson order_trans)
  have "pow2 (- 1075) \<le> 1 / 2 ^ 53" using pow2_mono [of "- 1075" "- 53"] by (simp add: pow2_def [of "- 53"])
  moreover have "\<bar>q\<bar> / 2 ^ 53 \<le> 1000000 / 2 ^ 53" using assms by (intro divide_right_mono) auto
  moreover have "(1000000 :: rat) / 2 ^ 53 + 1 / 2 ^ 53 < 1 / 2 ^ 32" by simp
  ultimately show ?thesis using r by force
qed

end
