(* ===== verification/Exp_Util.thy ===== *)
theory Exp_Util
  imports Float64 "HOL-Library.Sublist"
begin

text \<open>
  basic-sim/model/core/exp-util.cc: string manipulation, value parsing, the set, list and map
  notations of the configuration files, integer sets, configuration reading, unit conversion
  and the file system calls. A \<open>std::string\<close> is a list of characters; a \<open>std::set\<close> is a
  strictly ascending list; a \<open>std::map\<close> is an association list with ascending keys.
\<close>

section \<open>The standard library pieces the code calls\<close>

definition is_space :: "char \<Rightarrow> bool" where
  "is_space c \<longleftrightarrow> of_char c \<in> {32, 9, 10, 11, 12, 13 :: nat}"

text \<open>\<open>s.substr(pos, n)\<close>, which throws when \<open>pos > s.size()\<close>.\<close>

definition substr :: "string \<Rightarrow> nat \<Rightarrow> nat \<Rightarrow> string res" where
  "substr s pos n = (if pos > length s then Inl (Out_of_range ''substr'') else Inr (take n (drop pos s)))"

text \<open>\<open>s.find(p)\<close>: the first position where \<open>p\<close> occurs; \<open>None\<close> is \<open>npos\<close>.\<close>

fun find_sub :: "string \<Rightarrow> string \<Rightarrow> nat option" where
  "find_sub p [] = (if p = [] then Some 0 else None)"
| "find_sub p (c # s) = (if take (length p) (c # s) = p then Some 0 else map_option Suc (find_sub p s))"

text \<open>\<open>std::stoll(s, &i)\<close> in base 10: the value and the number of characters consumed.\<close>

definition sign_split :: "string \<Rightarrow> bool \<times> string" where
  "sign_split s = (case s of c # t \<Rightarrow> (if c = CHR ''-'' then (True, t) else if c = CHR ''+'' then (False, t) else (False, s))
                   | [] \<Rightarrow> (False, s))"

definition stoll :: "string \<Rightarrow> (int \<times> nat) res" where
  "stoll s = (case sign_split (dropWhile is_space s) of (neg, t) \<Rightarrow>
     let ds = takeWhile is_digit t;
         v = (if neg then - int (digits_val ds) else int (digits_val ds))
     in if ds = [] then Inl (Invalid_argument ''stoll'')
        else if \<not> in_int64 v then Inl (Out_of_range ''stoll'')
        else Inr (v, length s - length (dropWhile is_digit t)))"

text \<open>
  \<open>std::stod(s, &i)\<close>: optional white space and sign, then a decimal or hexadecimal floating
  literal, \<open>inf\<close>, \<open>infinity\<close> or \<open>nan\<close> in any case. Overflow, and an inexact result below the
  normal range, are \<open>std::out_of_range\<close>.
\<close>

definition lower :: "char \<Rightarrow> char" where
  "lower c = (if 65 \<le> (of_char c :: nat) \<and> (of_char c :: nat) \<le> 90 then char_of ((of_char c :: nat) + 32) else c)"

definition is_xdigit :: "char \<Rightarrow> bool" where
  "is_xdigit c \<longleftrightarrow> is_digit c \<or> (97 \<le> (of_char (lower c) :: nat) \<and> (of_char (lower c) :: nat) \<le> 102)"

definition xdigit_val :: "char \<Rightarrow> nat" where
  "xdigit_val c = (if is_digit c then digit_val c else of_char (lower c) - 87)"

definition mantissa :: "nat \<Rightarrow> (char \<Rightarrow> bool) \<Rightarrow> string \<Rightarrow> (nat \<times> nat \<times> string) option" where
  "mantissa base isd s =
     (let ip = takeWhile isd s; r = dropWhile isd s;
          (fp, r') = (case r of [] \<Rightarrow> ([], r) | c # t \<Rightarrow>
             if c = CHR ''.'' then (takeWhile isd t, dropWhile isd t) else ([], r))
      in if ip @ fp = [] then None
         else Some (foldl (\<lambda>a c. base * a + xdigit_val c) 0 (ip @ fp), length fp, r'))"

definition exponent :: "char \<Rightarrow> string \<Rightarrow> int \<times> string" where
  "exponent mark s = (case s of [] \<Rightarrow> (0, s) | c # t \<Rightarrow>
     if lower c \<noteq> mark then (0, s)
     else (case sign_split t of (neg, u) \<Rightarrow>
       let ds = takeWhile is_digit u in
       if ds = [] then (0, s)
       else (if neg then - int (digits_val ds) else int (digits_val ds), dropWhile is_digit u)))"

definition pow_rat :: "rat \<Rightarrow> int \<Rightarrow> rat" where
  "pow_rat b k = (if 0 \<le> k then b ^ nat k else 1 / b ^ nat (- k))"

definition stod_number :: "string \<Rightarrow> (rat \<times> string) option" where
  "stod_number s =
     (let hex = (case s of c # d # t \<Rightarrow> (if c = CHR ''0'' \<and> lower d = CHR ''x'' then mantissa 16 is_xdigit t else None)
                 | _ \<Rightarrow> None)
      in case hex of
           Some (m, f, r) \<Rightarrow> (case exponent (CHR ''p'') r of (e, r') \<Rightarrow>
             Some (of_nat m * pow_rat 16 (- int f) * pow_rat 2 e, r'))
         | None \<Rightarrow> (case mantissa 10 is_digit s of None \<Rightarrow> None
             | Some (m, f, r) \<Rightarrow> (case exponent (CHR ''e'') r of (e, r') \<Rightarrow>
                 Some (of_nat m * pow_rat 10 (e - int f), r'))))"

definition after_nan :: "string \<Rightarrow> string" where
  "after_nan s = (case s of [] \<Rightarrow> s | c # t \<Rightarrow>
     if c \<noteq> CHR ''('' then s
     else (case dropWhile (\<lambda>c. is_digit c \<or> c = CHR ''_'' \<or> (97 \<le> (of_char (lower c) :: nat) \<and> (of_char (lower c) :: nat) \<le> 122)) t of
             [] \<Rightarrow> s | d # u \<Rightarrow> if d = CHR '')'' then u else s))"

definition stod :: "string \<Rightarrow> (double \<times> nat) res" where
  "stod s = (case sign_split (dropWhile is_space s) of (neg, t) \<Rightarrow>
     if map lower (take 8 t) = ''infinity'' then Inr (Infinity neg, length s - length (drop 8 t))
     else if map lower (take 3 t) = ''inf'' then Inr (Infinity neg, length s - length (drop 3 t))
     else if map lower (take 3 t) = ''nan'' then Inr (NaN, length s - length (after_nan (drop 3 t)))
     else (case stod_number t of None \<Rightarrow> Inl (Invalid_argument ''stod'')
       | Some (q, r) \<Rightarrow>
           let d = rnd (if neg then - q else q) in
           if d = Infinity neg \<or> (q \<noteq> 0 \<and> q < pow2 (- 1022) \<and> d \<noteq> Fin (if neg then - q else q))
           then Inl (Out_of_range ''stod'')
           else Inr (d, length s - length r)))"

section \<open>String manipulation\<close>

text \<open>
  \<open>find_last_not_of(...)\<close> gives \<open>npos\<close> on an all-whitespace string, and \<open>npos + 1\<close> is \<open>0\<close>, so
  everything is erased; \<open>find_first_not_of\<close> gives \<open>npos\<close>, and \<open>erase(0, npos)\<close> erases everything.
\<close>

definition find_last_not_space :: "string \<Rightarrow> nat option" where
  "find_last_not_space s =
     (let n = length (dropWhile is_space (rev s)) in if n = 0 then None else Some (n - 1))"

definition find_first_not_space :: "string \<Rightarrow> nat option" where
  "find_first_not_space s =
     (let n = length (takeWhile is_space s) in if n = length s then None else Some n)"

definition right_trim :: "string \<Rightarrow> string" where
  "right_trim s = (case find_last_not_space s of None \<Rightarrow> take 0 s | Some i \<Rightarrow> take (i + 1) s)"

definition left_trim :: "string \<Rightarrow> string" where
  "left_trim s = (case find_first_not_space s of None \<Rightarrow> drop (length s) s | Some i \<Rightarrow> drop i s)"

definition trim :: "string \<Rightarrow> string" where
  "trim s = left_trim (right_trim s)"

definition ends_with :: "string \<Rightarrow> string \<Rightarrow> bool" where
  "ends_with str sfx \<longleftrightarrow>
     length sfx \<le> length str \<and> take (length sfx) (drop (length str - length sfx) str) = sfx"

definition starts_with :: "string \<Rightarrow> string \<Rightarrow> bool" where
  "starts_with str pfx \<longleftrightarrow> length pfx \<le> length str \<and> take (length pfx) (drop 0 str) = pfx"

definition dquote :: string where
  "dquote = [char_of (34 :: nat)]"

definition remove_start_end_double_quote_if_present :: "string \<Rightarrow> string res" where
  "remove_start_end_double_quote_if_present s =
     (if length s \<ge> 2 \<and> starts_with s dquote \<and> ends_with s dquote
      then substr s 1 (length s - 2) else Inr s)"

text \<open>
  The splitting loop returns only when the delimiter is not empty: \<open>find("")\<close> is always \<open>0\<close> and
  the remainder never shrinks. \<open>None\<close> is "does not return", which the call turns into \<open>Diverges\<close>.
\<close>

partial_function (option) split_loop :: "string \<Rightarrow> string \<Rightarrow> string list \<Rightarrow> string list option" where
  "split_loop delimiter remainder result =
     (case find_sub delimiter remainder of
        None \<Rightarrow> Some (result @ [remainder])
      | Some idx \<Rightarrow>
          split_loop delimiter
            (take (length remainder) (drop (idx + length delimiter) remainder))
            (result @ [take idx remainder]))"

declare split_loop.simps [code]

definition split_string :: "string \<Rightarrow> string \<Rightarrow> string list res" where
  "split_string line delimiter =
     (case split_loop delimiter line [] of None \<Rightarrow> Inl Diverges | Some r \<Rightarrow> Inr r)"

definition split_string_n :: "string \<Rightarrow> string \<Rightarrow> nat \<Rightarrow> string list res" where
  "split_string_n line delimiter expected =
     bindr (split_string line delimiter) (\<lambda>the_split.
       if length the_split \<noteq> expected
       then Inl (Invalid_argument (''String '' @ line @ '' has a '' @ delimiter @ ''-split of ''
              @ show_nat (length the_split) @ '' != '' @ show_nat expected))
       else Inr the_split)"

section \<open>Parsing values\<close>

definition parse_int64 :: "string \<Rightarrow> int res" where
  "parse_int64 str =
     (case stoll str of
        Inl (Invalid_argument _) \<Rightarrow> Inl (Invalid_argument (''Could not convert to int64: '' @ str))
      | Inl e \<Rightarrow> Inl e
      | Inr (val, i) \<Rightarrow>
          if i \<noteq> length str then Inl (Invalid_argument (''Could not convert to int64: '' @ str))
          else Inr val)"

definition parse_positive_int64 :: "string \<Rightarrow> int res" where
  "parse_positive_int64 str =
     bindr (parse_int64 str) (\<lambda>val.
       if val < 0 then Inl (Invalid_argument (''Negative int64 value not permitted: '' @ show_int val))
       else Inr val)"

definition parse_geq_one_int64 :: "string \<Rightarrow> int res" where
  "parse_geq_one_int64 str =
     bindr (parse_positive_int64 str) (\<lambda>val.
       if val < 1 then Inl (Invalid_argument (''Value must be >= 1: '' @ show_int val))
       else Inr val)"

definition parse_boolean :: "string \<Rightarrow> bool res" where
  "parse_boolean str =
     (if str = ''true'' \<or> str = ''1'' then Inr True
      else if str = ''false'' \<or> str = ''0'' then Inr False
      else Inl (Invalid_argument (''Value could not be converted to bool: '' @ str)))"

definition parse_double :: "string \<Rightarrow> double res" where
  "parse_double str =
     (case stod str of
        Inl (Invalid_argument _) \<Rightarrow> Inl (Invalid_argument (''Could not convert to double: '' @ str))
      | Inl e \<Rightarrow> Inl e
      | Inr (val, i) \<Rightarrow>
          if i \<noteq> length str then Inl (Invalid_argument (''Could not convert to double: '' @ str))
          else Inr val)"

text \<open>The value that \<open>%f\<close> prints in the next two messages is left out of them.\<close>

definition parse_positive_double :: "string \<Rightarrow> double res" where
  "parse_positive_double str =
     bindr (parse_double str) (\<lambda>val.
       if d_lt val (Fin 0) then Inl (Invalid_argument ''Negative double value not permitted'')
       else Inr val)"

definition parse_double_between_zero_and_one :: "string \<Rightarrow> double res" where
  "parse_double_between_zero_and_one str =
     bindr (parse_double str) (\<lambda>val.
       if d_lt val (Fin 0) \<or> d_lt (Fin 1) val then Inl (Invalid_argument ''Double value must be [0, 1]'')
       else Inr val)"

section \<open>Sets, lists and maps\<close>

definition parse_set_string :: "string \<Rightarrow> string list res" where
  "parse_set_string str =
     (if \<not> starts_with str ''set('' \<or> \<not> ends_with str '')''
      then Inl (Invalid_argument (''Set '' @ str @ '' is not encased in set(...)''))
      else bindr (substr str 4 (length str - 5)) (\<lambda>only_inside.
        if trim only_inside = [] then Inr []
        else bindr (split_string only_inside '','') (\<lambda>final.
          let final_set = fold (\<lambda>s acc. insort_insert (trim s) acc) final []
          in if length final \<noteq> length final_set
             then Inl (Invalid_argument (''Set '' @ str @ '' contains duplicates''))
             else Inr final_set)))"

definition parse_set_positive_int64 :: "string \<Rightarrow> int list res" where
  "parse_set_positive_int64 str =
     bindr (parse_set_string str) (\<lambda>string_set.
     bindr (foldr_res (\<lambda>s acc. bindr (parse_positive_int64 s) (\<lambda>v. Inr (insort_insert v acc))) string_set [])
       (\<lambda>int64_set.
          if length string_set \<noteq> length int64_set
          then Inl (Invalid_argument (''Set '' @ str @ '' contains int64 duplicates''))
          else Inr int64_set))"

definition parse_list_string :: "string \<Rightarrow> string list res" where
  "parse_list_string str =
     (if \<not> starts_with str ''list('' \<or> \<not> ends_with str '')''
      then Inl (Invalid_argument (''List '' @ str @ '' is not encased in list(...)''))
      else bindr (substr str 5 (length str - 6)) (\<lambda>only_inside.
        if trim only_inside = [] then Inr []
        else bindr (split_string only_inside '','') (\<lambda>prelim_list. Inr (map trim prelim_list))))"

definition parse_list_positive_int64 :: "string \<Rightarrow> int list res" where
  "parse_list_positive_int64 str =
     bindr (parse_list_string str) (\<lambda>string_list. mapr parse_positive_int64 string_list)"

text \<open>One element of a map: the result list and the key set it is checked against.\<close>

definition parse_map_element ::
  "string \<Rightarrow> (string \<times> string) list \<times> string list \<Rightarrow> ((string \<times> string) list \<times> string list) res" where
  "parse_map_element s st = (case st of (result, key_set) \<Rightarrow>
     bindr (split_string_n s '':'' 2) (\<lambda>colon_split_list.
       let result' = result @ [(trim (colon_split_list ! 0), trim (colon_split_list ! 1))];
           key_set' = insort_insert (trim (colon_split_list ! 0)) key_set
       in if length result' \<noteq> length key_set'
          then Inl (Invalid_argument (''Duplicate key: '' @ trim (colon_split_list ! 0)))
          else Inr (result', key_set')))"

definition parse_map_string :: "string \<Rightarrow> (string \<times> string) list res" where
  "parse_map_string str =
     (if \<not> starts_with str ''map('' \<or> \<not> ends_with str '')''
      then Inl (Invalid_argument (''Map '' @ str @ '' is not encased in map(...)''))
      else bindr (substr str 4 (length str - 5)) (\<lambda>only_inside.
        if trim only_inside = [] then Inr []
        else bindr (split_string only_inside '','') (\<lambda>comma_split_list.
             bindr (foldr_res parse_map_element comma_split_list ([], [])) (\<lambda>st. Inr (fst st)))))"

section \<open>Integer sets\<close>

fun all_items_are_less_than :: "int list \<Rightarrow> int \<Rightarrow> unit res" where
  "all_items_are_less_than [] number = Inr ()"
| "all_items_are_less_than (val # s) number =
     (if val \<ge> number
      then Inl (Invalid_argument (''Value '' @ show_int (to_uint64 val) @ '' > '' @ show_int (to_uint64 number)))
      else all_items_are_less_than s number)"

text \<open>\<open>std::set_intersection\<close> and \<open>std::set_union\<close> merge two ascending ranges.\<close>

fun direct_set_intersection :: "int list \<Rightarrow> int list \<Rightarrow> int list" where
  "direct_set_intersection [] ys = []"
| "direct_set_intersection xs [] = []"
| "direct_set_intersection (x # xs) (y # ys) =
     (if x < y then direct_set_intersection xs (y # ys)
      else if y < x then direct_set_intersection (x # xs) ys
      else x # direct_set_intersection xs ys)"

fun direct_set_union :: "int list \<Rightarrow> int list \<Rightarrow> int list" where
  "direct_set_union [] ys = ys"
| "direct_set_union xs [] = xs"
| "direct_set_union (x # xs) (y # ys) =
     (if x < y then x # direct_set_union xs (y # ys)
      else if y < x then y # direct_set_union (x # xs) ys
      else x # direct_set_union xs ys)"

section \<open>The file system\<close>

text \<open>
  What the process sees of the file system: the regular files with their content, the
  directories, and which of the operating system's calls it is permitted.
\<close>

record fsys =
  fs_files :: "string \<Rightarrow> string option"
  fs_dirs :: "string \<Rightarrow> bool"
  fs_readable :: "string \<Rightarrow> bool"
  fs_unlink_ok :: "string \<Rightarrow> bool"
  fs_rmdir_ok :: "string \<Rightarrow> bool"
  fs_mkdir_ok :: "string \<Rightarrow> bool"

definition file_exists :: "fsys \<Rightarrow> string \<Rightarrow> bool" where
  "file_exists fs filename = (fs_files fs filename \<noteq> None)"

definition remove_file_if_exists :: "string \<Rightarrow> fsys \<Rightarrow> fsys res" where
  "remove_file_if_exists filename fs =
     (if file_exists fs filename
      then (if \<not> fs_unlink_ok fs filename
            then Inl (Runtime_error (''File '' @ filename @ '' could not be removed.''))
            else Inr (fs\<lparr>fs_files := (fs_files fs)(filename := None)\<rparr>))
      else Inr fs)"

definition dir_exists :: "fsys \<Rightarrow> string \<Rightarrow> bool" where
  "dir_exists fs dirname = fs_dirs fs dirname"

definition remove_dir_if_exists :: "string \<Rightarrow> fsys \<Rightarrow> fsys res" where
  "remove_dir_if_exists dirname fs =
     (if dir_exists fs dirname
      then (if \<not> fs_rmdir_ok fs dirname
            then Inl (Runtime_error (''Directory '' @ dirname @ '' could not be removed.''))
            else Inr (fs\<lparr>fs_dirs := (fs_dirs fs)(dirname := False)\<rparr>))
      else Inr fs)"

definition mkdir_if_not_exists :: "string \<Rightarrow> fsys \<Rightarrow> fsys res" where
  "mkdir_if_not_exists dirname fs =
     (if \<not> dir_exists fs dirname
      then (if \<not> fs_mkdir_ok fs dirname
            then Inl (Runtime_error (''Directory '' @ dquote @ dirname @ dquote @ '' could not be made.''))
            else Inr (fs\<lparr>fs_dirs := (fs_dirs fs)(dirname := True)\<rparr>))
      else Inr fs)"

text \<open>The lines \<open>getline\<close> delivers: a last line without a newline counts if it is not empty.\<close>

definition newline :: char where
  "newline = char_of (10 :: nat)"

fun getlines :: "string \<Rightarrow> string list" where
  "getlines [] = []"
| "getlines (c # s) =
     (if c = newline then [] # getlines s
      else (case getlines s of [] \<Rightarrow> [[c]] | l # ls \<Rightarrow> (c # l) # ls))"

definition open_lines :: "fsys \<Rightarrow> string \<Rightarrow> string list res" where
  "open_lines fs filename =
     (case fs_files fs filename of
        None \<Rightarrow> Inl (Runtime_error (''File '' @ filename @ '' does not exist.''))
      | Some content \<Rightarrow>
          if fs_readable fs filename then Inr (getlines content)
          else Inl (Runtime_error (''File '' @ filename @ '' could not be read.'')))"

definition read_file_direct :: "fsys \<Rightarrow> string \<Rightarrow> string list res" where
  "read_file_direct fs filename =
     (if \<not> file_exists fs filename
      then Inl (Runtime_error (''File '' @ filename @ '' does not exist.''))
      else bindr (open_lines fs filename) (\<lambda>ls. Inr (map trim ls)))"

section \<open>Configuration reading\<close>

type_synonym config = "(string \<times> string) list"

definition read_config_line :: "string \<Rightarrow> config \<Rightarrow> config res" where
  "read_config_line line config =
     (if trim line = [] \<or> hd line = CHR ''#'' then Inr config
      else bindr (split_string_n line ''='' 2) (\<lambda>equals_split.
           bindr (remove_start_end_double_quote_if_present (trim (equals_split ! 1))) (\<lambda>value.
             let key = trim (equals_split ! 0)
             in if map_of config key \<noteq> None
                then Inl (Runtime_error (''Duplicate property key: '' @ key))
                else Inr (config @ [(key, value)]))))"

definition read_config :: "fsys \<Rightarrow> string \<Rightarrow> config res" where
  "read_config fs filename =
     (if \<not> file_exists fs filename
      then Inl (Runtime_error (''File '' @ filename @ '' does not exist.''))
      else bindr (open_lines fs filename) (\<lambda>ls. foldr_res read_config_line ls []))"

definition get_param_or_fail :: "string \<Rightarrow> config \<Rightarrow> string res" where
  "get_param_or_fail param_key config =
     (case map_of config param_key of
        Some v \<Rightarrow> Inr v
      | None \<Rightarrow> Inl (Invalid_argument (''Necessary parameter '' @ CHR 0x27 # param_key @ CHR 0x27 # '' is not set.'')))"

definition get_param_or_default :: "string \<Rightarrow> string \<Rightarrow> config \<Rightarrow> string" where
  "get_param_or_default param_key default_value config =
     (case map_of config param_key of Some v \<Rightarrow> v | None \<Rightarrow> default_value)"

section \<open>Unit conversion\<close>

definition byte_to_megabit :: "int \<Rightarrow> double" where
  "byte_to_megabit num_bytes =
     d_div (d_div (d_mul (d_of_int num_bytes) (Fin 8)) (Fin 1000)) (Fin 1000)"

definition nanosec_to_sec :: "int \<Rightarrow> double" where
  "nanosec_to_sec num_nanosec = d_div (d_of_int num_nanosec) (Fin 1000000000)"

definition nanosec_to_millisec :: "int \<Rightarrow> double" where
  "nanosec_to_millisec num_nanosec = d_div (d_of_int num_nanosec) (Fin 1000000)"

definition nanosec_to_microsec :: "int \<Rightarrow> double" where
  "nanosec_to_microsec num_nanosec = d_div (d_of_int num_nanosec) (Fin 1000)"

section \<open>Trimming\<close>

lemma right_trim_eq: "right_trim s = rev (dropWhile is_space (rev s))"
proof -
  have "take (length (dropWhile is_space (rev s))) s = rev (dropWhile is_space (rev s))"
    by (metis append_eq_conv_conj length_rev rev_append rev_rev_ident takeWhile_dropWhile_id)
  then show ?thesis
    by (auto simp: right_trim_def find_last_not_space_def Let_def)
qed

lemma left_trim_eq: "left_trim s = dropWhile is_space s"
  by (auto simp: left_trim_def find_first_not_space_def Let_def dropWhile_eq_drop
      takeWhile_eq_all_conv dest: arg_cong [where f = length])

lemma trim_no_space: "\<forall>c \<in> set s. \<not> is_space c \<Longrightarrow> trim s = s"
  by (simp add: trim_def right_trim_eq left_trim_eq dropWhile_eq_self_iff)
    (metis hd_in_set hd_rev last_in_set rev_is_Nil_conv dropWhile_eq_self_iff hd_rev rev_rev_ident)

lemma trim_pad:
  assumes "\<forall>c \<in> set u. is_space c" "\<forall>c \<in> set v. is_space c"
    and "m = [] \<or> \<not> is_space (hd m) \<and> \<not> is_space (last m)"
  shows "trim (u @ m @ v) = m"
proof (cases "m = []")
  case True
  then show ?thesis using assms(1,2)
    by (auto simp: trim_def right_trim_eq left_trim_eq) (metis UnE set_append set_dropWhileD set_rev)
next
  case False
  have skip: "dropWhile is_space (xs @ ys) = dropWhile is_space ys" if "\<forall>c \<in> set xs. is_space c" for xs ys
    using that by (induction xs) auto
  have "dropWhile is_space (rev m @ rev u) = rev m @ rev u"
    using False assms(3) by (simp add: dropWhile_eq_self_iff hd_append hd_rev)
  moreover have "dropWhile is_space m = m"
    using False assms(3) by (simp add: dropWhile_eq_self_iff)
  ultimately show ?thesis
    using assms(1,2) by (simp add: trim_def right_trim_eq left_trim_eq skip)
qed

section \<open>Splitting\<close>

lemma find_sub_None: "find_sub p s = None \<longleftrightarrow> \<not> sublist p s"
proof (induction s)
  case Nil
  then show ?case by simp
next
  case (Cons c s)
  have "sublist p (c # s) \<longleftrightarrow> prefix p (c # s) \<or> sublist p s"
    by (rule sublist_Cons_right)
  moreover have "prefix p (c # s) \<longleftrightarrow> take (length p) (c # s) = p"
    by (metis append_eq_conv_conj prefix_def take_is_prefix)
  ultimately show ?case using Cons by auto
qed

lemma find_sub_Some:
  "find_sub p s = Some i \<Longrightarrow> s = take i s @ p @ drop (i + length p) s \<and> (\<forall>j < i. take (length p) (drop j s) \<noteq> p)"
proof (induction s arbitrary: i)
  case Nil
  then show ?case by (auto split: if_splits)
next
  case (Cons c s)
  show ?case
  proof (cases "take (length p) (c # s) = p")
    case True
    then show ?thesis using Cons.prems by (simp del: take_Cons) (metis append_take_drop_id)
  next
    case False
    then obtain k where k: "find_sub p s = Some k" "i = Suc k"
      using Cons.prems by auto
    show ?thesis using Cons.IH [OF k(1)] k(2) False
      by (auto simp: less_Suc_eq_0_disj)
  qed
qed

fun join :: "string \<Rightarrow> string list \<Rightarrow> string" where
  "join d [] = []"
| "join d [x] = x"
| "join d (x # y # r) = x @ d @ join d (y # r)"

lemma join_snoc: "r \<noteq> [] \<Longrightarrow> join d (r @ [x]) = join d r @ d @ x"
  by (induction d r rule: join.induct) (auto simp: neq_Nil_conv)


lemma split_loop_complete:
  assumes "d \<noteq> []"
  shows "\<exists>ps. split_loop d rem r = Some (r @ ps) \<and> ps \<noteq> [] \<and> join d ps = rem \<and> (\<forall>p \<in> set ps. \<not> sublist d p)"
proof (induction "length rem" arbitrary: rem r rule: less_induct)
  case less
  show ?case
  proof (cases "find_sub d rem")
    case None
    then show ?thesis
      by (intro exI [of _ "[rem]"]) (simp add: split_loop.simps find_sub_None [symmetric])
  next
    case (Some i)
    let ?rem = "drop (i + length d) rem"
    note f = find_sub_Some [OF Some]
    have "length ?rem < length rem"
      using f assms by (metis (no_types, lifting) append_is_Nil_conv add_gr_0 diff_less length_drop length_greater_0_conv)
    then obtain ps where ps: "split_loop d ?rem (r @ [take i rem]) = Some ((r @ [take i rem]) @ ps)"
        "ps \<noteq> []" "join d ps = ?rem" "\<forall>p \<in> set ps. \<not> sublist d p"
      using less by blast
    have "\<not> sublist d (take i rem)"
    proof
      assume "sublist d (take i rem)"
      then obtain u v where uv: "take i rem = u @ d @ v" by (auto simp: sublist_def)
      then have "length u < i" using assms(1) f
        by (metis add.commute append_take_drop_id drop_eq_Nil length_append length_greater_0_conv less_add_same_cancel1 linorder_not_le not_add_less1 trans_less_add2 append_is_Nil_conv length_take min.bounded_iff nat_le_iff_add)
      moreover have "take (length d) (drop (length u) rem) = d"
      proof -
        have "rem = u @ d @ v @ drop i rem" using uv by (metis append.assoc append_take_drop_id)
        then show ?thesis by (metis append_eq_conv_conj)
      qed
      ultimately show False using f by blast
    qed
    moreover have "join d (take i rem # ps) = rem"
      using ps f by (cases ps) auto
    ultimately show ?thesis
      using ps Some by (intro exI [of _ "take i rem # ps"]) (simp add: split_loop.simps)
  qed
qed

lemma split_loop_empty_delimiter: "split_loop [] rem r = Some ps \<Longrightarrow> False"
proof -
  have "d \<noteq> []" if "split_loop d rem r = Some ps" for d
  proof (rule split_loop.raw_induct [where P = "\<lambda>d rem r ps. d \<noteq> []", OF _ that])
    fix sl :: "string \<Rightarrow> string \<Rightarrow> string list \<Rightarrow> string list option" and d rem r y
    assume ih: "\<And>d rem r y. sl d rem r = Some y \<Longrightarrow> d \<noteq> []"
      and step: "(case find_sub d rem of None \<Rightarrow> Some (r @ [rem])
        | Some idx \<Rightarrow> sl d (take (length rem) (drop (idx + length d) rem)) (r @ [take idx rem])) = Some y"
    have "find_sub [] rem = Some 0" by (cases rem) auto
    then show "d \<noteq> []" using step ih by (auto split: option.splits)
  qed
  then show "split_loop [] rem r = Some ps \<Longrightarrow> False" by blast
qed

text \<open>
  C19. split_string does not return exactly when the delimiter is the empty string. With any other
  delimiter it returns at least one piece, no piece contains the delimiter, and putting the
  delimiter back between the pieces gives the line.
\<close>

theorem split_string_correct:
  "if delimiter = [] then split_string line delimiter = Inl Diverges
   else \<exists>ps. split_string line delimiter = Inr ps \<and> ps \<noteq> [] \<and> join delimiter ps = line \<and>
      list_all (\<lambda>p. \<not> sublist delimiter p) ps"
proof (cases "delimiter = []")
  case True
  then have "split_string line delimiter = Inl Diverges"
    using split_loop_empty_delimiter by (cases "split_loop [] line []") (auto simp: split_string_def)
  with True show ?thesis by simp
next
  case False
  then show ?thesis
    using split_loop_complete [of delimiter line "[]"] by (auto simp: split_string_def list_all_iff)
qed

lemma split_join_char:
  assumes "ps \<noteq> []" "\<forall>p \<in> set ps. c \<notin> set p"
  shows "split_string (join [c] ps) [c] = Inr ps"
proof -
  have f: "c \<notin> set p \<Longrightarrow> find_sub [c] (p @ c # q) = Some (length p)" for p q
    by (induction p) auto
  have n: "c \<notin> set p \<Longrightarrow> find_sub [c] p = None" for p
    by (induction p) auto
  have "split_loop [c] (join [c] ps) r = Some (r @ ps)" for r
    using assms
  proof (induction "[c]" ps arbitrary: r rule: join.induct)
    case (2 x)
    then show ?case by (simp add: split_loop.simps n)
  next
    case (3 x y zs)
    then show ?case by (simp add: split_loop.simps [of _ "x @ _"] f)
  qed simp
  from this [of "[]"] show ?thesis by (simp add: split_string_def)
qed


section \<open>Parsing what was printed\<close>

lemma digit_not_space: "is_digit c \<Longrightarrow> \<not> is_space c"
  by (auto simp: is_digit_def is_space_def)

lemma digit_not_sign: "is_digit c \<Longrightarrow> c \<noteq> CHR ''-'' \<and> c \<noteq> CHR ''+''"
  by (auto simp: is_digit_def)

lemma show_int_chars: "c \<in> set (show_int v) \<Longrightarrow> is_digit c \<or> c = CHR ''-''"
  using show_nat_digits by (auto simp: show_int_def split: if_splits)

lemma show_int_not_Nil [simp]: "show_int v \<noteq> []"
  by (simp add: show_int_def)

lemma trim_show_int [simp]: "trim (show_int v) = show_int v"
  by (rule trim_no_space) (auto dest!: show_int_chars simp: digit_not_space, simp add: is_space_def)

lemma stoll_show_int: "in_int64 v \<Longrightarrow> stoll (show_int v) = Inr (v, length (show_int v))"
proof -
  assume v: "in_int64 v"
  have ws: "dropWhile is_space (show_int v) = show_int v"
    using show_int_chars [of "hd (show_int v)" v] digit_not_space
    by (auto simp: dropWhile_eq_self_iff) (simp add: is_space_def)
  have all: "takeWhile is_digit (show_nat n) = show_nat n" "dropWhile is_digit (show_nat n) = []" for n
    using show_nat_digits [of n] by (auto simp: takeWhile_eq_all_conv)
  have ss: "sign_split (show_nat n) = (False, show_nat n)" for n
    using show_nat_digits [of n] by (cases "show_nat n") (auto simp: sign_split_def dest: digit_not_sign)
  have sm: "sign_split (CHR ''-'' # t) = (True, t)" for t
    by (simp add: sign_split_def)
  show ?thesis
    unfolding stoll_def ws using v by (auto simp: show_int_def ss sm all Let_def)
qed

lemma parse_int64_show_int [simp]: "in_int64 v \<Longrightarrow> parse_int64 (show_int v) = Inr v"
  by (simp add: parse_int64_def stoll_show_int)

lemma parse_positive_int64_show_int [simp]:
  "0 \<le> v \<Longrightarrow> in_int64 v \<Longrightarrow> parse_positive_int64 (show_int v) = Inr v"
  by (simp add: parse_positive_int64_def)

lemma parse_int64_range: "parse_int64 s = Inr v \<Longrightarrow> in_int64 v"
  by (auto simp: parse_int64_def stoll_def Let_def split: sum.splits exn.splits prod.splits if_splits)

lemma parse_positive_int64_range: "parse_positive_int64 s = Inr v \<Longrightarrow> 0 \<le> v \<and> in_int64 v"
  by (auto simp: parse_positive_int64_def res_simps dest: parse_int64_range split: if_splits)

lemma parse_geq_one_int64_range: "parse_geq_one_int64 s = Inr v \<Longrightarrow> 1 \<le> v \<and> in_int64 v"
  by (auto simp: parse_geq_one_int64_def res_simps dest: parse_positive_int64_range split: if_splits)

lemma fold_insort_insert_map:
  "fold (\<lambda>x acc. insort_insert (f x) acc) xs ys = fold insort_insert (map f xs) ys"
  by (simp add: fold_map comp_def)

lemma foldr_res_insort_insert:
  "(\<And>x. x \<in> set xs \<Longrightarrow> f x = Inr (g x)) \<Longrightarrow>
   foldr_res (\<lambda>x acc. bindr (f x) (\<lambda>v. Inr (insort_insert v acc))) xs ys = Inr (fold insort_insert (map g xs) ys)"
  by (induction xs arbitrary: ys) auto

lemma set_brackets:
  "starts_with (''set('' @ s @ '')'') ''set(''" "ends_with (''set('' @ s @ '')'') '')''"
  "substr (''set('' @ s @ '')'') 4 (length (''set('' @ s @ '')'') - 5) = Inr s"
  by (simp_all add: starts_with_def ends_with_def substr_def)

lemma map_brackets:
  "starts_with (''map('' @ s @ '')'') ''map(''" "ends_with (''map('' @ s @ '')'') '')''"
  "substr (''map('' @ s @ '')'') 4 (length (''map('' @ s @ '')'') - 5) = Inr s"
  by (simp_all add: starts_with_def ends_with_def substr_def)

lemma join_not_blank:
  assumes "ps \<noteq> []" "\<forall>p \<in> set ps. p \<noteq> [] \<and> (\<forall>c \<in> set p. \<not> is_space c)"
  shows "trim (join d ps) \<noteq> []"
proof -
  have h: "join d ps \<noteq> [] \<and> \<not> is_space (hd (join d ps))"
    using assms by (induction d ps rule: join.induct) auto
  have e: "\<exists>c \<in> set s. \<not> is_space c \<Longrightarrow> trim s \<noteq> []" for s
    by (auto simp: trim_def right_trim_eq left_trim_eq dropWhile_eq_Nil_conv)
      (metis set_rev set_takeWhileD takeWhile_dropWhile_id Un_iff set_append)
  show ?thesis using h by (intro e) (auto intro: hd_in_set)
qed

lemma parse_set_string_inside:
  assumes "str = ''set('' @ s @ '')''" "trim s \<noteq> []" "split_string s '','' = Inr final" "distinct (map trim final)"
  shows "parse_set_string str = Inr (sset_of (map trim final))"
proof -
  have "starts_with str ''set(''" "ends_with str '')''" "substr str 4 (length str - 5) = Inr s"
    unfolding assms(1) by (fact set_brackets)+
  moreover have "length (sset_of (map trim final)) = length final"
    using length_sset_of_eq_iff [of "map trim final"] assms(4) by simp
  ultimately show ?thesis
    using assms(2,3) by (simp add: parse_set_string_def Let_def fold_insort_insert_map [where f = trim] sset_of_def)
qed

lemma parse_set_string_empty: "parse_set_string (''set('' @ [] @ '')'') = Inr []"
  by code_simp

lemma parse_set_string_join:
  assumes "distinct ps" "\<forall>p \<in> set ps. p \<noteq> [] \<and> CHR '','' \<notin> set p \<and> (\<forall>c \<in> set p. \<not> is_space c)"
  shows "parse_set_string (''set('' @ join '','' ps @ '')'') = Inr (sset_of ps)"
proof (cases "ps = []")
  case True
  then show ?thesis using parse_set_string_empty by (simp add: sset_of_def)
next
  case False
  have t: "map trim ps = ps" using assms(2) by (intro map_idI trim_no_space) auto
  have "trim (join '','' ps) \<noteq> []" by (rule join_not_blank) (use False assms(2) in auto)
  moreover have "split_string (join '','' ps) '','' = Inr ps"
    by (rule split_join_char) (use False assms(2) in auto)
  ultimately show ?thesis
    using parse_set_string_inside [OF refl, of "join '','' ps" ps] t assms(1) by simp
qed

lemma show_int_inj: "in_int64 v \<Longrightarrow> in_int64 w \<Longrightarrow> show_int v = show_int w \<Longrightarrow> v = w"
  by (metis Inr_inject parse_int64_show_int)

text \<open>
  Writing distinct non-negative 64-bit integers in the set notation of the configuration
  files, in any order, and parsing it gives exactly their set.
\<close>

theorem parse_set_positive_int64_roundtrip:
  assumes "distinct vs" "\<forall>v \<in> set vs. 0 \<le> v \<and> v < 2 ^ 63"
  shows "parse_set_positive_int64 (''set('' @ join '','' (map show_int vs) @ '')'') = Inr (sset_of vs)"
proof -
  have r: "v \<in> set vs \<Longrightarrow> in_int64 v \<and> 0 \<le> v" for v using assms(2) by (auto simp: in_int64_def)
  have ps: "parse_set_string (''set('' @ join '','' (map show_int vs) @ '')'') = Inr (sset_of (map show_int vs))"
  proof (rule parse_set_string_join)
    show "distinct (map show_int vs)"
      using assms(1) r by (auto simp: distinct_map inj_on_def dest: show_int_inj)
    show "\<forall>p \<in> set (map show_int vs). p \<noteq> [] \<and> CHR '','' \<notin> set p \<and> (\<forall>c \<in> set p. \<not> is_space c)"
      by (auto dest!: show_int_chars simp: digit_not_space, auto simp: is_space_def is_digit_def)
  qed
  let ?S = "sset_of (map show_int vs)"
  define g where "g s = (case parse_positive_int64 s of Inr v \<Rightarrow> v | Inl _ \<Rightarrow> 0)" for s
  have g: "g (show_int v) = v" if "v \<in> set vs" for v using r [OF that] by (simp add: g_def)
  have ok: "parse_positive_int64 s = Inr (g s)" if "s \<in> set ?S" for s
    using that r by (auto simp: g_def)
  have "foldr_res (\<lambda>s acc. bindr (parse_positive_int64 s) (\<lambda>v. Inr (insort_insert v acc))) ?S []
      = Inr (sset_of (map g ?S))"
    by (subst foldr_res_insort_insert [where g = g]) (use ok in \<open>auto simp: sset_of_def\<close>)
  moreover have eq: "sset_of (map g ?S) = sset_of vs"
    by (rule is_sset_unique) (auto simp: g image_image)
  moreover have "length ?S = length (sset_of vs)"
    using assms(1) r by (simp add: length_sset_of distinct_card distinct_map inj_on_def show_int_inj card_image)
  ultimately show ?thesis unfolding parse_set_positive_int64_def ps eq by simp
qed

theorem parse_set_positive_int64_roundtrip_witness:
  "parse_set_positive_int64 (''set('' @ join '','' (map show_int [10, 2, 1]) @ '')'') = Inr (sset_of [10, 2, 1])"
  using parse_set_positive_int64_roundtrip [of "[10, 2, 1]"] by simp

lemma parse_set_positive_int64_sound:
  assumes "parse_set_positive_int64 str = Inr S"
  shows "is_sset S \<and> (\<forall>v \<in> set S. 0 \<le> v \<and> in_int64 v)"
proof -
  obtain L where L: "foldr_res (\<lambda>s acc. bindr (parse_positive_int64 s) (\<lambda>v. Inr (insort_insert v acc))) L [] = Inr S"
    using assms by (auto simp: parse_set_positive_int64_def res_simps split: if_splits)
  show ?thesis
    by (rule foldr_res_inv [OF L])
      (auto simp: res_simps set_insort_insert dest: parse_positive_int64_range)
qed

lemma direct_set_intersection_set:
  "is_sset xs \<Longrightarrow> is_sset ys \<Longrightarrow> set (direct_set_intersection xs ys) = set xs \<inter> set ys"
  by (induction xs ys rule: direct_set_intersection.induct) (auto simp: is_sset_def)

lemma direct_set_union_set: "set (direct_set_union xs ys) = set xs \<union> set ys"
  by (induction xs ys rule: direct_set_union.induct) auto

lemma direct_set_intersection_sset:
  "is_sset xs \<Longrightarrow> is_sset ys \<Longrightarrow> is_sset (direct_set_intersection xs ys)"
  apply (induction xs ys rule: direct_set_intersection.induct)
    apply (auto simp: is_sset_def)
  using direct_set_intersection_set apply (auto simp: is_sset_def)
  done

lemma direct_set_union_sset: "is_sset xs \<Longrightarrow> is_sset ys \<Longrightarrow> is_sset (direct_set_union xs ys)"
  by (induction xs ys rule: direct_set_union.induct) (auto simp: is_sset_def direct_set_union_set)

lemma all_items_are_less_than_iff: "all_items_are_less_than S n = Inr () \<longleftrightarrow> (\<forall>v \<in> set S. v < n)"
  by (induction S) auto

lemma trim_not_blank: "\<exists>c \<in> set s. \<not> is_space c \<Longrightarrow> trim s \<noteq> []"
  by (auto simp: trim_def right_trim_eq left_trim_eq dropWhile_eq_Nil_conv)
    (metis set_rev set_takeWhileD takeWhile_dropWhile_id Un_iff set_append)

lemma set_join: "set (join d ps) \<subseteq> set d \<union> (\<Union>p \<in> set ps. set p)"
  by (induction d ps rule: join.induct) auto

lemma in_set_join: "p \<in> set ps \<Longrightarrow> set p \<subseteq> set (join d ps)"
  by (induction d ps rule: join.induct) auto

lemma split_string_n_2:
  "split_string_n line d 2 = Inr ps \<longleftrightarrow> (\<exists>k v. ps = [k, v] \<and> split_string line d = Inr [k, v])"
proof -
  have "length ps = 2 \<longleftrightarrow> (\<exists>k v. ps = [k, v])" for ps :: "string list"
    by (cases ps; cases "tl ps") auto
  then show ?thesis by (auto simp: split_string_n_def res_simps split: if_splits)
qed

lemma split_string_n_pair:
  assumes "c \<notin> set k" "c \<notin> set v"
  shows "split_string_n (k @ [c] @ v) [c] 2 = Inr [k, v]"
  using split_join_char [of "[k, v]" c] assms by (simp add: split_string_n_def)

definition clean :: "string \<Rightarrow> bool" where
  "clean s \<longleftrightarrow> CHR '','' \<notin> set s \<and> CHR '':'' \<notin> set s \<and> trim s = s"

lemma parse_map_element_step:
  assumes "clean k" "clean v" "is_sset keys" "set keys = fst ` set r" "distinct (map fst r)" "k \<notin> set keys"
  shows "parse_map_element (k @ '':'' @ v) (r, keys) = Inr (r @ [(k, v)], insort_insert k keys)"
proof -
  have "split_string_n (k @ '':'' @ v) '':'' 2 = Inr [k, v]"
    by (rule split_string_n_pair) (use assms(1,2) in \<open>auto simp: clean_def\<close>)
  moreover have "length (insort_insert k keys) = Suc (length r)"
    using assms(3-6) length_sset [OF assms(3)] distinct_card [OF assms(5)]
    by (simp add: insort_insert_key_def)
  ultimately show ?thesis
    using assms(1,2) unfolding parse_map_element_def by (simp add: clean_def)
qed

lemma parse_map_fold:
  assumes "\<forall>(k, v) \<in> set kvs. clean k \<and> clean v" "distinct (map fst (r @ kvs))"
    "is_sset keys" "set keys = fst ` set r"
  shows "\<exists>keys'. foldr_res parse_map_element (map (\<lambda>(k, v). k @ '':'' @ v) kvs) (r, keys) = Inr (r @ kvs, keys')"
  using assms
proof (induction kvs arbitrary: r keys)
  case (Cons kv kvs)
  obtain k v where kv: "kv = (k, v)" by fastforce
  have "parse_map_element (k @ '':'' @ v) (r, keys) = Inr (r @ [(k, v)], insort_insert k keys)"
    by (rule parse_map_element_step) (use Cons.prems kv in auto)
  moreover have "\<exists>keys'. foldr_res parse_map_element (map (\<lambda>(k, v). k @ '':'' @ v) kvs)
      (r @ [(k, v)], insort_insert k keys) = Inr ((r @ [(k, v)]) @ kvs, keys')"
    by (rule Cons.IH) (use Cons.prems kv in \<open>auto simp: set_insort_insert\<close>)
  ultimately show ?case using kv by simp
qed simp

lemma parse_map_string_inside:
  assumes "str = ''map('' @ s @ '')''" "trim s \<noteq> []" "split_string s '','' = Inr es"
    "foldr_res parse_map_element es ([], []) = Inr (kvs, keys)"
  shows "parse_map_string str = Inr kvs"
proof -
  have "starts_with str ''map(''" "ends_with str '')''" "substr str 4 (length str - 5) = Inr s"
    unfolding assms(1) by (fact map_brackets)+
  then show ?thesis using assms(2-) by (simp add: parse_map_string_def)
qed

text \<open>
  Writing a map in the notation of the configuration files and parsing it gives back exactly
  the pairs, in order, whenever the keys are distinct and keys and values contain no comma,
  colon or surrounding white space.
\<close>

theorem parse_map_string_roundtrip:
  assumes "\<forall>(k, v) \<in> set kvs. clean k \<and> clean v" "distinct (map fst kvs)"
  shows "parse_map_string (''map('' @ join '','' (map (\<lambda>(k, v). k @ '':'' @ v) kvs) @ '')'') = Inr kvs"
proof (cases "kvs = []")
  case True
  have "parse_map_string (''map('' @ [] @ '')'') = Inr []" by code_simp
  with True show ?thesis by simp
next
  case False
  let ?es = "map (\<lambda>(k, v). k @ '':'' @ v) kvs"
  have "CHR '':'' \<in> set (join '','' ?es)"
    using False in_set_join [of "hd ?es" ?es "'',''"] by (cases kvs) auto
  then have "trim (join '','' ?es) \<noteq> []"
    by (intro trim_not_blank bexI [of _ "CHR '':''"]) (auto simp: is_space_def)
  moreover have "split_string (join '','' ?es) '','' = Inr ?es"
    by (rule split_join_char) (use False assms in \<open>auto simp: clean_def\<close>)
  moreover obtain keys where "foldr_res parse_map_element ?es ([], []) = Inr (kvs, keys)"
    using parse_map_fold [of kvs "[]" "[]"] assms by auto
  ultimately show ?thesis by (rule parse_map_string_inside [OF refl])
qed

theorem parse_map_string_roundtrip_witness:
  "parse_map_string (''map('' @ join '','' [''0-1'' @ '':'' @ ''5'', ''1-2'' @ '':'' @ ''7''] @ '')'')
     = Inr [(''0-1'', ''5''), (''1-2'', ''7'')]"
proof -
  have "clean ''0-1''" "clean ''5''" "clean ''1-2''" "clean ''7''" by code_simp+
  then show ?thesis
    using parse_map_string_roundtrip [of "[(''0-1'', ''5''), (''1-2'', ''7'')]"] by simp
qed

text \<open>Every map that is accepted has distinct keys.\<close>

lemma parse_map_string_keys: "parse_map_string str = Inr kvs \<Longrightarrow> distinct (map fst kvs)"
proof -
  have step: "distinct (map fst r') \<and> set keys' = fst ` set r' \<and> is_sset keys'"
    if p: "parse_map_element s (r, keys) = Inr (r', keys')"
      and i: "distinct (map fst r) \<and> set keys = fst ` set r \<and> is_sset keys"
    for s r keys r' keys'
  proof -
    obtain k v where k: "r' = r @ [(k, v)]" "keys' = insort_insert k keys" "length r' = length keys'"
      using p by (auto simp: parse_map_element_def res_simps Let_def split: if_splits)
    have "k \<notin> set keys"
    proof
      assume "k \<in> set keys"
      then have "length keys' = length keys" by (simp add: k(2) insort_insert_key_def)
      moreover have "length keys = length r"
        using i length_sset distinct_card by (metis length_map set_map)
      ultimately show False using k(1,3) by simp
    qed
    then show ?thesis using i k by (auto simp: set_insort_insert)
  qed
  assume a: "parse_map_string str = Inr kvs"
  show "distinct (map fst kvs)"
  proof (cases "kvs = []")
    case False
    then obtain es keys where f: "foldr_res parse_map_element es ([], []) = Inr (kvs, keys)"
      using a by (auto simp: parse_map_string_def res_simps split: if_splits)
    define I where "I st \<longleftrightarrow> distinct (map fst (fst st)) \<and> set (snd st) = fst ` set (fst st) \<and> is_sset (snd st)"
      for st :: "(string \<times> string) list \<times> string list"
    have st: "I t" if "parse_map_element x u = Inr t" "I u" for x t u
      using step [of x "fst u" "snd u" "fst t" "snd t"] that by (simp add: I_def)
    have "I (kvs, keys)"
      by (rule foldr_res_inv [OF f]) (simp add: I_def, rule st)
    then show ?thesis by (simp add: I_def)
  qed simp
qed

section \<open>Configuration files\<close>

definition is_config_line :: "string \<Rightarrow> bool" where
  "is_config_line line \<longleftrightarrow> trim line \<noteq> [] \<and> hd line \<noteq> CHR ''#''"

lemma read_config_line_cases:
  "read_config_line line config = Inr config' \<Longrightarrow>
   \<not> is_config_line line \<and> config' = config \<or>
   (\<exists>k v value. is_config_line line \<and> split_string line ''='' = Inr [k, v] \<and>
      remove_start_end_double_quote_if_present (trim v) = Inr value \<and>
      trim k \<notin> fst ` set config \<and> config' = config @ [(trim k, value)])"
  by (auto simp: read_config_line_def is_config_line_def res_simps Let_def split_string_n_2
      map_of_eq_None_iff split: if_splits)

definition config_key :: "string \<Rightarrow> string" where
  "config_key line = (case split_string line ''='' of Inr ps \<Rightarrow> trim (ps ! 0) | Inl _ \<Rightarrow> [])"

lemma config_key_split: "split_string line ''='' = Inr [k, v] \<Longrightarrow> config_key line = trim k"
  by (simp add: config_key_def)

text \<open>
  A configuration file that is read without an exception exists, its keys are distinct and
  are those of its lines that are neither blank nor start with a hash sign, in file order, and
  get_param_or_fail returns a value exactly for the pairs stored.
\<close>

theorem read_config_keys:
  assumes "read_config fs filename = Inr config"
  shows "\<exists>content. fs_files fs filename = Some content \<and>
    map fst config = map config_key (filter is_config_line (getlines content)) \<and>
    distinct (map fst config) \<and>
    (\<forall>key value. get_param_or_fail key config = Inr value \<longleftrightarrow> (key, value) \<in> set config)"
proof -
  from assms obtain content where c: "fs_files fs filename = Some content"
      and f: "foldr_res read_config_line (getlines content) [] = Inr config"
    by (auto simp: read_config_def open_lines_def res_simps split: if_splits option.splits)
  have "map fst config = map config_key (filter is_config_line (getlines content)) \<and> distinct (map fst config)"
    by (rule foldr_res_inv_prefix [OF f, where
          I = "\<lambda>ls cfg. map fst cfg = map config_key (filter is_config_line ls) \<and> distinct (map fst cfg)"])
      (auto dest!: read_config_line_cases simp: config_key_split set_map [symmetric] simp del: set_map)
  then show ?thesis using c by (auto simp: get_param_or_fail_def split: option.splits)
qed

definition config_fs :: fsys where
  "config_fs = \<lparr>fs_files = [''config'' \<mapsto> ''a=1'' @ [newline] @ ''# c'' @ [newline] @ ''b = x''],
      fs_dirs = \<lambda>_. False, fs_readable = \<lambda>_. True, fs_unlink_ok = \<lambda>_. True,
      fs_rmdir_ok = \<lambda>_. True, fs_mkdir_ok = \<lambda>_. True\<rparr>"

lemma read_config_example: "read_config config_fs ''config'' = Inr [(''a'', ''1''), (''b'', ''x'')]"
  by code_simp

theorem read_config_keys_witness:
  "distinct (map fst [(''a'', ''1''), (''b'', ''x'')]) \<and>
   get_param_or_fail ''b'' [(''a'', ''1''), (''b'', ''x'')] = Inr ''x''"
  using read_config_keys [OF read_config_example] by (elim exE conjE) (simp only: list.set insert_iff simp_thms)

text \<open>
  A \<open>nan\<close> literal passes both range checks, because every comparison with it is false.
\<close>

lemma parse_double_nan_accepted:
  "parse_positive_double ''nan'' = Inr NaN \<and> parse_double_between_zero_and_one ''nan'' = Inr NaN"
  by code_simp

end
