(* ===== verification/Julian_Date.thy ===== *)
theory Julian_Date
  imports Exp_Util
begin

text \<open>
  satellite: julian-date.cc, the dates of the orbit model. A date is a number of days since 1 January 1970 and the milliseconds of
  the day, in UTC; it is read from and printed as a Gregorian date in one of six time systems. The theorems say when
  the calendar computed with shifts and divisions is the Gregorian calendar, that the arithmetic is that of the total of
  milliseconds, and for which time systems a printed date is read back.

  The code's unsigned 32-bit integers are integers with the wrap written out (\<open>u32\<close>). ns-3's class Time is a number of
  nanoseconds here; its conversions to \<open>double\<close> and from it are a parameter. The leap seconds are those of iers-data.cc; the
  4600 daily earth orientation parameters of that file are an argument.
\<close>

section \<open>Dates\<close>

abbreviation u32 :: "int \<Rightarrow> int" where
  "u32 v \<equiv> to_uint32 v"

datatype time_system = UTC | UT1 | TAI | TT | GPST | POSIX

text \<open>The loop that looks for the month may leave it unset.\<close>

record date_time =
  dt_year :: int
  dt_month :: "int option"
  dt_day :: int
  dt_hours :: int
  dt_minutes :: int
  dt_seconds :: int
  dt_millisecs :: int

record julian_date =
  jd_days :: int
  jd_ms_day :: int
  jd_time_scale :: time_system

definition posix_year :: int where
  "posix_year = 1970"

definition min_year :: int where
  "min_year = 1992"

definition max_year :: int where
  "max_year = 2099"

definition posix_epoch :: double where
  "posix_epoch = Fin (4881175 / 2)"

definition posix_1992 :: int where
  "posix_1992 = 8035"

definition day_to_ms :: int where
  "day_to_ms = 86400000"

section \<open>Time\<close>

text \<open>
  ns-3's \<open>Time\<close>: \<open>GetDays\<close>, \<open>GetHours\<close>, \<open>GetMinutes\<close> and \<open>GetSeconds\<close> are floating-point, \<open>GetMilliSeconds\<close> truncates;
  \<open>tm_milliseconds\<close> is the constructor \<open>MilliSeconds\<close> for a \<open>double\<close>.
\<close>

record ns3_time =
  tm_days :: "int \<Rightarrow> double"
  tm_hours :: "int \<Rightarrow> double"
  tm_minutes :: "int \<Rightarrow> double"
  tm_seconds :: "int \<Rightarrow> double"
  tm_milliseconds :: "double \<Rightarrow> int"

definition milliseconds :: "int \<Rightarrow> int" where
  "milliseconds ms = ms * 1000000"

definition get_milliseconds :: "int \<Rightarrow> int" where
  "get_milliseconds t = (if 0 \<le> t then t div 1000000 else - ((- t) div 1000000))"

definition to_u32 :: "double \<Rightarrow> int res" where
  "to_u32 x = d_trunc x 0 (2 ^ 32 - 1)"

section \<open>Leap seconds and earth orientation\<close>

definition leap_seconds :: "int list" where
  "leap_seconds = [912, 1096, 1461, 1826, 2191, 2557, 2922, 3287, 3652, 4199, 4564, 4929, 5660, 6574, 7305, 7670,
     8217, 8582, 8947, 9496, 10043, 10592, 13149, 14245, 15522, 16617]"

definition base_leap_seconds :: int where
  "base_leap_seconds = 10"

definition tt_to_tai :: int where
  "tt_to_tai = milliseconds 32184"

definition tai_to_gps :: int where
  "tai_to_gps = milliseconds 19000"

text \<open>\<open>std::lower_bound\<close>: the index of the first element that is not less.\<close>

definition lower_bound :: "int list \<Rightarrow> int \<Rightarrow> nat" where
  "lower_bound v x = length (takeWhile (\<lambda>y. y < x) v)"

definition tai_minus_utc :: "int \<Rightarrow> int" where
  "tai_minus_utc days_in_posix = milliseconds ((int (lower_bound leap_seconds days_in_posix) + base_leap_seconds) * 1000)"

record eop =
  eop_xp :: double
  eop_yp :: double
  eop_dut1 :: double
  eop_lod :: double

definition eop_of :: "eop list \<Rightarrow> int \<Rightarrow> eop option" where
  "eop_of v days = (let pos = nat (u32 (days - posix_1992)) in if pos < length v then Some (v ! pos) else None)"

definition dut1 :: "ns3_time \<Rightarrow> eop list \<Rightarrow> int \<Rightarrow> int" where
  "dut1 tm v days_in_posix = tm_milliseconds tm
     (case eop_of v days_in_posix of Some e \<Rightarrow> d_mul (eop_dut1 e) (Fin 1000) | None \<Rightarrow> Fin 0)"

definition get_polar_motion :: "eop list \<Rightarrow> julian_date \<Rightarrow> double \<times> double" where
  "get_polar_motion v jd = (case eop_of v (jd_days jd) of Some e \<Rightarrow> (eop_xp e, eop_yp e) | None \<Rightarrow> (Fin 0, Fin 0))"

definition get_omega_earth :: "eop list \<Rightarrow> julian_date \<Rightarrow> double" where
  "get_omega_earth v jd =
     (let lod = (case eop_of v (jd_days jd) of Some e \<Rightarrow> eop_lod e | None \<Rightarrow> Fin 0) in
      d_mul (rnd (72921151467064 / 10 ^ 18)) (d_sub (Fin 1) (d_div lod (d_of_int day_to_ms))))"

definition offset_from_utc :: "ns3_time \<Rightarrow> eop list \<Rightarrow> int \<Rightarrow> time_system \<Rightarrow> int" where
  "offset_from_utc tm v days_in_posix ts = (case ts of
     UT1 \<Rightarrow> dut1 tm v days_in_posix
   | TAI \<Rightarrow> tai_minus_utc days_in_posix
   | TT \<Rightarrow> tt_to_tai + tai_minus_utc days_in_posix
   | GPST \<Rightarrow> tai_minus_utc days_in_posix - tai_to_gps
   | _ \<Rightarrow> 0)"

definition offset_to_utc :: "ns3_time \<Rightarrow> eop list \<Rightarrow> int \<Rightarrow> int \<Rightarrow> time_system \<Rightarrow> int" where
  "offset_to_utc tm v days_in_posix ms_day ts =
     (if ts = UTC \<or> ts = POSIX then milliseconds 0
      else
        let tai_utc = tai_minus_utc days_in_posix;
            offset = (if ts = TT then tt_to_tai else milliseconds 0);
            tai_utc1 = (if ms_day < get_milliseconds (offset + tai_utc) then tai_minus_utc (u32 (days_in_posix - 1)) else tai_utc);
            offset1 = (case ts of UT1 \<Rightarrow> dut1 tm v days_in_posix | TAI \<Rightarrow> tai_utc1 | TT \<Rightarrow> tt_to_tai + tai_utc1
              | GPST \<Rightarrow> tai_utc1 - tai_to_gps | _ \<Rightarrow> offset)
        in milliseconds (- get_milliseconds offset1))"

section \<open>Arithmetic and comparison\<close>

text \<open>\<open>operator+\<close> and \<open>operator-\<close> call each other for a negative time, with a time that is not negative then.\<close>

definition plus_time :: "ns3_time \<Rightarrow> julian_date \<Rightarrow> int \<Rightarrow> julian_date res" where
  "plus_time tm jd t =
     bindr (to_u32 (tm_days tm t)) (\<lambda>days.
     let ms = u32 (u32 (get_milliseconds t mod day_to_ms) + jd_ms_day jd) in
     Inr \<lparr>jd_days = u32 (days + jd_days jd + ms div day_to_ms), jd_ms_day = ms mod day_to_ms, jd_time_scale = jd_time_scale jd\<rparr>)"

definition minus_time :: "ns3_time \<Rightarrow> julian_date \<Rightarrow> int \<Rightarrow> julian_date res" where
  "minus_time tm jd t =
     bindr (to_u32 (tm_days tm t)) (\<lambda>days.
     let ms = u32 (get_milliseconds t mod day_to_ms) in
     if ms > jd_ms_day jd
     then Inr \<lparr>jd_days = u32 (jd_days jd - u32 (days + 1)), jd_ms_day = u32 (day_to_ms - u32 (ms - jd_ms_day jd)), jd_time_scale = jd_time_scale jd\<rparr>
     else Inr \<lparr>jd_days = u32 (jd_days jd - days), jd_ms_day = u32 (jd_ms_day jd - ms), jd_time_scale = jd_time_scale jd\<rparr>)"

definition jd_plus :: "ns3_time \<Rightarrow> julian_date \<Rightarrow> int \<Rightarrow> julian_date res" where
  "jd_plus tm jd t = (if t < 0 then minus_time tm jd (milliseconds (- get_milliseconds t)) else plus_time tm jd t)"

definition jd_minus :: "ns3_time \<Rightarrow> julian_date \<Rightarrow> int \<Rightarrow> julian_date res" where
  "jd_minus tm jd t = (if t < 0 then plus_time tm jd (milliseconds (- get_milliseconds t)) else minus_time tm jd t)"

text \<open>
  The difference is one of two \<open>Time\<close>s, which are 64-bit numbers of nanoseconds: the days, the sum and the
  difference must fit.
\<close>

definition in_time :: "int \<Rightarrow> int res" where
  "in_time t = (if in_int64 t then Inr t else Inl (Undefined ''Time out of range''))"

definition jd_time :: "julian_date \<Rightarrow> int res" where
  "jd_time jd =
     bindr (in_time (jd_days jd * milliseconds day_to_ms)) (\<lambda>days.
       in_time (days + milliseconds (jd_ms_day jd)))"

definition jd_diff :: "julian_date \<Rightarrow> julian_date \<Rightarrow> int res" where
  "jd_diff a b =
     bindr (jd_time a) (\<lambda>t1.
     bindr (jd_time b) (\<lambda>t2.
       in_time (t1 - t2)))"

definition jd_less :: "julian_date \<Rightarrow> julian_date \<Rightarrow> bool" where
  "jd_less a b = (if jd_days a \<noteq> jd_days b then jd_days a < jd_days b else jd_ms_day a < jd_ms_day b)"

definition jd_le :: "julian_date \<Rightarrow> julian_date \<Rightarrow> bool" where
  "jd_le a b = (if jd_days a \<noteq> jd_days b then jd_days a < jd_days b else jd_ms_day a \<le> jd_ms_day b)"

definition jd_greater :: "julian_date \<Rightarrow> julian_date \<Rightarrow> bool" where
  "jd_greater a b = (if jd_days a \<noteq> jd_days b then jd_days a > jd_days b else jd_ms_day a > jd_ms_day b)"

definition jd_ge :: "julian_date \<Rightarrow> julian_date \<Rightarrow> bool" where
  "jd_ge a b = (if jd_days a \<noteq> jd_days b then jd_days a > jd_days b else jd_ms_day a \<ge> jd_ms_day b)"

definition jd_eq :: "julian_date \<Rightarrow> julian_date \<Rightarrow> bool" where
  "jd_eq a b = (if jd_days a \<noteq> jd_days b then False else jd_ms_day a = jd_ms_day b)"

definition jd_neq :: "julian_date \<Rightarrow> julian_date \<Rightarrow> bool" where
  "jd_neq a b = (if jd_days a \<noteq> jd_days b then True else jd_ms_day a \<noteq> jd_ms_day b)"

section \<open>The calendar\<close>

definition is_leap_year :: "int \<Rightarrow> bool" where
  "is_leap_year year \<longleftrightarrow> year mod 4 = 0"

definition month_days :: "int \<Rightarrow> int list" where
  "month_days year = [31, if is_leap_year year then 28 + 1 else 28, 31, 30, 31, 30, 31, 31, 30, 31, 30, 31]"

fun find_month :: "int \<Rightarrow> int list \<Rightarrow> int \<Rightarrow> int option \<times> int" where
  "find_month i [] days_of_year = (None, days_of_year)"
| "find_month i (m # ms) days_of_year =
     (if days_of_year \<le> m then (Some (i + 1), days_of_year) else find_month (i + 1) ms (u32 (days_of_year - m)))"

definition gregorian_date :: "ns3_time \<Rightarrow> int \<Rightarrow> int \<Rightarrow> date_time res" where
  "gregorian_date tm days ms_day =
     (let d = u32 (days - posix_1992); t = milliseconds ms_day in
      bindr (to_u32 (d_div (d_of_int d) (Fin (1461 / 4)))) (\<lambda>years.
      let year = u32 (years + min_year);
          leap_years = u32 (year - (min_year + 1)) div 4;
          days_of_year = u32 (d - u32 ((year - min_year) * 365 + leap_years)) in
      case find_month 0 (month_days year) days_of_year of (month, day) \<Rightarrow>
      bindr (to_u32 (tm_hours tm t)) (\<lambda>hours.
      let t1 = t - milliseconds (hours * 3600000) in
      bindr (to_u32 (tm_minutes tm t1)) (\<lambda>minutes.
      let t2 = t1 - milliseconds (minutes * 60000) in
      bindr (to_u32 (tm_seconds tm t2)) (\<lambda>seconds.
      let t3 = t2 - milliseconds (seconds * 1000) in
      Inr \<lparr>dt_year = year, dt_month = month, dt_day = day, dt_hours = hours, dt_minutes = minutes, dt_seconds = seconds,
           dt_millisecs = u32 (get_milliseconds t3)\<rparr>)))))"

definition get_date_time :: "ns3_time \<Rightarrow> julian_date \<Rightarrow> date_time res" where
  "get_date_time tm jd = gregorian_date tm (jd_days jd) (jd_ms_day jd)"

definition get_date_time_in :: "ns3_time \<Rightarrow> eop list \<Rightarrow> time_system \<Rightarrow> julian_date \<Rightarrow> date_time res" where
  "get_date_time_in tm v ts jd = bindr (jd_plus tm jd (offset_from_utc tm v (jd_days jd) ts)) (get_date_time tm)"

section \<open>Printing\<close>

definition show_time_system :: "time_system \<Rightarrow> string" where
  "show_time_system ts = (case ts of UTC \<Rightarrow> ''UTC'' | TAI \<Rightarrow> ''TAI'' | TT \<Rightarrow> ''TT'' | UT1 \<Rightarrow> ''UT1'' | GPST \<Rightarrow> ''GPS'' | POSIX \<Rightarrow> ''UTC'')"

definition padded :: "nat \<Rightarrow> int \<Rightarrow> string" where
  "padded w v = replicate (w - length (show_int v)) (CHR ''0'') @ show_int v"

definition show_date :: "date_time \<Rightarrow> int \<Rightarrow> time_system \<Rightarrow> string" where
  "show_date dt month ts = padded 4 (dt_year dt) @ ''-'' @ padded 2 month @ ''-'' @ padded 2 (dt_day dt) @ '' '' @
     padded 2 (dt_hours dt) @ '':'' @ padded 2 (dt_minutes dt) @ '':'' @ padded 2 (dt_seconds dt) @ ''.'' @
     padded 3 (dt_millisecs dt) @ '' '' @ show_time_system ts"

definition jd_to_string :: "ns3_time \<Rightarrow> eop list \<Rightarrow> julian_date \<Rightarrow> string res" where
  "jd_to_string tm v jd =
     bindr (get_date_time_in tm v (jd_time_scale jd) jd) (\<lambda>dt.
     case dt_month dt of None \<Rightarrow> Inl (Undefined ''uninitialised month'') | Some month \<Rightarrow> Inr (show_date dt month (jd_time_scale jd)))"

definition jd_to_string_in :: "ns3_time \<Rightarrow> eop list \<Rightarrow> time_system \<Rightarrow> julian_date \<Rightarrow> string res" where
  "jd_to_string_in tm v ts jd = jd_to_string tm v (jd\<lparr>jd_time_scale := ts\<rparr>)"

section \<open>Reading\<close>

text \<open>
  \<open>std::sscanf\<close> with the format of the code: decimal numbers of at most \<open>w\<close> characters, single characters that are
  skipped, and a floating-point number. It stops at the first part that does not match and leaves the rest unset.
\<close>

definition scan_int :: "nat \<Rightarrow> string \<Rightarrow> (int \<times> string) option" where
  "scan_int w s = (let t = dropWhile is_space s in case sign_split (take w t) of (neg, ds0) \<Rightarrow>
     let ds = takeWhile is_digit ds0; sign = length (take w t) - length ds0 in
     if ds = [] then None
     else Some (if neg then - int (digits_val ds) else int (digits_val ds), drop (sign + length ds) t))"

definition skip_char :: "string \<Rightarrow> string option" where
  "skip_char s = (case s of [] \<Rightarrow> None | _ # t \<Rightarrow> Some t)"

definition scan_double :: "string \<Rightarrow> double option" where
  "scan_double s = (case sign_split (dropWhile is_space s) of (neg, t) \<Rightarrow>
     if map lower (take 3 t) = ''inf'' then Some (Infinity neg)
     else if map lower (take 3 t) = ''nan'' then Some NaN
     else map_option (\<lambda>(q, _). rnd (if neg then - q else q)) (stod_number t))"

definition scan_date :: "string \<Rightarrow> (int \<times> int \<times> int \<times> int \<times> int \<times> double) option" where
  "scan_date s =
     Option.bind (scan_int 4 s) (\<lambda>(year, s1).
     Option.bind (Option.bind (skip_char s1) (scan_int 2)) (\<lambda>(month, s2).
     Option.bind (Option.bind (skip_char s2) (scan_int 2)) (\<lambda>(day, s3).
     Option.bind (scan_int 2 s3) (\<lambda>(hours, s4).
     Option.bind (Option.bind (skip_char s4) (scan_int 2)) (\<lambda>(minutes, s5).
     Option.bind (Option.bind (skip_char s5) scan_double) (\<lambda>seconds.
       Some (year, month, day, hours, minutes, seconds)))))))"

text \<open>The days since 1 January 1970 of a date, by the formula of the U.S. Naval Observatory.\<close>

definition posix_days :: "int \<Rightarrow> int \<Rightarrow> int \<Rightarrow> int" where
  "posix_days year month day =
     u32 (u32 (367 * year) - u32 (7 * u32 (year + u32 (month + 9) div 12)) div 4 + u32 (275 * month) div 9 + day - 719574)"

definition set_date :: "ns3_time \<Rightarrow> eop list \<Rightarrow> string \<Rightarrow> time_system \<Rightarrow> julian_date res" where
  "set_date tm v date ts =
     bindr (checkr (ts \<noteq> POSIX) (Assert_failed ''POSIX/Unix time scale is not valid for dates.'')) (\<lambda>_.
     case scan_date date of None \<Rightarrow> Inl (Undefined ''uninitialised field'')
     | Some (year0, month0, day0, hours0, minutes0, secs) \<Rightarrow>
     let year = u32 year0; month = u32 month0; day = u32 day0; hours = u32 hours0; minutes = u32 minutes0 in
     bindr (checkr (year \<ge> min_year) (Assert_failed ''Complete EOP data is not available before that date!'')) (\<lambda>_.
     bindr (checkr (year \<le> max_year) (Assert_failed ''Dates beyond 2099 are not supported!'')) (\<lambda>_.
     bindr (to_u32 secs) (\<lambda>seconds.
     bindr (to_u32 (d_add (d_mul (d_sub secs (d_of_int seconds)) (Fin 1000)) (Fin (1 / 2)))) (\<lambda>millisecs.
     let jd = \<lparr>jd_days = posix_days year month day,
          jd_ms_day = u32 ((hours * 3600 + minutes * 60 + seconds) * 1000 + millisecs), jd_time_scale = ts\<rparr> in
     jd_plus tm jd (offset_to_utc tm v (jd_days jd) (jd_ms_day jd) (jd_time_scale jd)))))))"

definition set_days :: "int \<Rightarrow> int \<Rightarrow> julian_date" where
  "set_days days ms_day = \<lparr>jd_days = days, jd_ms_day = ms_day, jd_time_scale = POSIX\<rparr>"

definition set_julian_days :: "double \<Rightarrow> julian_date res" where
  "set_julian_days jd =
     (let x = d_sub jd posix_epoch in
      bindr (to_u32 x) (\<lambda>days.
      bindr (to_u32 (d_mul (d_sub x (d_of_int days)) (d_of_int day_to_ms))) (\<lambda>ms.
        Inr \<lparr>jd_days = days, jd_ms_day = ms, jd_time_scale = UTC\<rparr>)))"

definition default_julian_date :: "julian_date res" where
  "default_julian_date =
     bindr (to_u32 (d_mul (d_of_int (min_year - posix_year)) (Fin (1461 / 4)))) (\<lambda>days.
       Inr \<lparr>jd_days = days, jd_ms_day = 0, jd_time_scale = UTC\<rparr>)"

definition get_double :: "ns3_time \<Rightarrow> eop list \<Rightarrow> time_system \<Rightarrow> julian_date \<Rightarrow> double" where
  "get_double tm v ts jd =
     (let base = d_add (d_of_int (jd_days jd)) (d_div (d_of_int (jd_ms_day jd)) (d_of_int day_to_ms)) in
      if ts \<noteq> POSIX then d_add base posix_epoch
      else d_add base (tm_days tm (offset_from_utc tm v (jd_days jd) ts)))"

section \<open>The Gregorian calendar\<close>

text \<open>The calendar itself: the leap years, the lengths of years and months, and the number of a day.\<close>

definition gregorian_leap :: "int \<Rightarrow> bool" where
  "gregorian_leap y \<longleftrightarrow> y mod 4 = 0 \<and> (y mod 100 \<noteq> 0 \<or> y mod 400 = 0)"

definition year_length :: "int \<Rightarrow> int" where
  "year_length y = (if gregorian_leap y then 366 else 365)"

definition month_length :: "int \<Rightarrow> int \<Rightarrow> int" where
  "month_length y m = (if m = 2 then (if gregorian_leap y then 29 else 28) else if m \<in> {4, 6, 9, 11} then 30 else 31)"

definition days_before_year :: "int \<Rightarrow> int" where
  "days_before_year y = sum_list (map year_length [1970..y - 1])"

definition days_before_month :: "int \<Rightarrow> int \<Rightarrow> int" where
  "days_before_month y m = sum_list (map (month_length y) [1..m - 1])"

definition civil_days :: "int \<Rightarrow> int \<Rightarrow> int \<Rightarrow> int" where
  "civil_days y m d = days_before_year y + days_before_month y m + d - 1"

definition valid_date :: "int \<Rightarrow> int \<Rightarrow> int \<Rightarrow> bool" where
  "valid_date y m d \<longleftrightarrow> 1 \<le> m \<and> m \<le> 12 \<and> 1 \<le> d \<and> d \<le> month_length y m"

lemma leap_1992_2099:
  assumes "1992 \<le> y" "y \<le> 2099"
  shows "gregorian_leap y \<longleftrightarrow> y mod 4 = 0"
proof -
  have "y mod 100 = 0 \<Longrightarrow> y = 2000"
  proof -
    assume "y mod 100 = 0"
    then obtain j where "y = 100 * j" by (auto simp: mod_eq_0_iff_dvd)
    with assms show "y = 2000" by auto
  qed
  then show ?thesis by (auto simp: gregorian_leap_def)
qed

lemma days_before_1992: "days_before_year 1992 = 8035"
  by code_simp

lemma days_before_year_eq: "k \<le> 108 \<Longrightarrow> days_before_year (1992 + int k) = 8035 + 365 * int k + (int k + 3) div 4"
proof (induction k)
  case 0
  then show ?case by (simp add: days_before_1992)
next
  case (Suc k)
  have "[1970..1992 + int k] = [1970..1992 + int k - 1] @ [1992 + int k]" by (simp add: upto_rec2)
  then have step: "days_before_year (1992 + int (Suc k)) = days_before_year (1992 + int k) + year_length (1992 + int k)"
    by (simp add: days_before_year_def)
  have "(1992 + int k) mod 4 = int k mod 4" by presburger
  then have "year_length (1992 + int k) = (if int k mod 4 = 0 then 366 else 365)"
    using Suc.prems leap_1992_2099 [of "1992 + int k"] by (simp add: year_length_def)
  moreover have "(int (Suc k) + 3) div 4 = (int k + 3) div 4 + (if int k mod 4 = 0 then 1 else 0)"
    by (simp, presburger)
  ultimately show ?case using Suc step by simp
qed

lemma days_before_year_int: "1992 \<le> y \<Longrightarrow> y \<le> 2100 \<Longrightarrow> days_before_year y = 8035 + 365 * (y - 1992) + (y - 1989) div 4"
  using days_before_year_eq [of "nat (y - 1992)"] by (simp add: algebra_simps)

lemma month_cases:
  assumes "1 \<le> m" "m \<le> (12 :: int)"
  shows "m = 1 \<or> m = 2 \<or> m = 3 \<or> m = 4 \<or> m = 5 \<or> m = 6 \<or> m = 7 \<or> m = 8 \<or> m = 9 \<or> m = 10 \<or> m = 11 \<or> m = 12"
  using assms by presburger

lemma days_before_month_eq:
  "days_before_month y 1 = 0" "days_before_month y 2 = 31" "days_before_month y 3 = 59 + (if gregorian_leap y then 1 else 0)"
  "days_before_month y 4 = 90 + (if gregorian_leap y then 1 else 0)" "days_before_month y 5 = 120 + (if gregorian_leap y then 1 else 0)"
  "days_before_month y 6 = 151 + (if gregorian_leap y then 1 else 0)" "days_before_month y 7 = 181 + (if gregorian_leap y then 1 else 0)"
  "days_before_month y 8 = 212 + (if gregorian_leap y then 1 else 0)" "days_before_month y 9 = 243 + (if gregorian_leap y then 1 else 0)"
  "days_before_month y 10 = 273 + (if gregorian_leap y then 1 else 0)" "days_before_month y 11 = 304 + (if gregorian_leap y then 1 else 0)"
  "days_before_month y 12 = 334 + (if gregorian_leap y then 1 else 0)"
  by (simp_all add: days_before_month_def month_length_def upto.simps)

lemma month_length_bounds: "28 \<le> month_length y m \<and> month_length y m \<le> 31"
  by (simp add: month_length_def)

section \<open>From a date to the number of its day\<close>

lemma posix_days_eq:
  assumes "1992 \<le> y" "y \<le> 2099" "valid_date y m d"
  shows "posix_days y m d = civil_days y m d"
proof -
  have m: "1 \<le> m" "m \<le> 12" and d: "1 \<le> d" "d \<le> 31"
    using assms(3) month_length_bounds [of y m] by (auto simp: valid_date_def)
  have q: "(m + 9) div 12 = (if m \<le> 2 then 0 else 1)" using m by auto
  have wrap: "u32 (367 * y) = 367 * y" "u32 (m + 9) = m + 9" "u32 (275 * m) = 275 * m"
      "u32 (y + (m + 9) div 12) = y + (m + 9) div 12" "u32 (7 * (y + (m + 9) div 12)) = 7 * (y + (m + 9) div 12)"
    using assms(1,2) m q by auto
  have months: "275 * m div 9 = days_before_month y m + (if m \<le> 2 then 30 else if gregorian_leap y then 31 else 32)"
    using month_cases [OF m] by (elim disjE) (simp_all add: days_before_month_eq)
  have before: "0 \<le> days_before_month y m \<and> days_before_month y m \<le> 335"
    using month_cases [OF m] by (elim disjE) (simp_all add: days_before_month_eq)
  have years: "367 * y - 7 * (y + (if m \<le> 2 then 0 else 1)) div 4 + (if m \<le> 2 then 30 else if y mod 4 = 0 then 31 else 32) - 719574 =
      8034 + 365 * (y - 1992) + (y - 1989) div 4"
    by (cases "m \<le> 2"; simp; presburger)
  have "u32 (367 * y - 7 * (y + (m + 9) div 12) div 4 + 275 * m div 9 + d - 719574) = civil_days y m d"
  proof -
    have eq: "367 * y - 7 * (y + (m + 9) div 12) div 4 + 275 * m div 9 + d - 719574 = civil_days y m d"
      using years leap_1992_2099 [OF assms(1,2)] assms(1,2) unfolding months q civil_days_def
      by (cases "m \<le> 2"; cases "y mod 4 = 0"; simp add: days_before_year_int)
    have "0 \<le> (y - 1989) div 4" "(y - 1989) div 4 \<le> 110" using assms(1,2) by presburger+
    then have "0 \<le> civil_days y m d" "civil_days y m d < 4294967296"
      using before d assms(1,2) by (simp_all add: civil_days_def days_before_year_int)
    then show ?thesis unfolding eq by simp
  qed
  then show ?thesis by (simp only: posix_days_def wrap)
qed

section \<open>From the number of a day to its date\<close>

lemma find_month_ok:
  assumes "1 \<le> doy" "doy \<le> sum_list ms" "doy < 4294967296" "\<forall>x \<in> set ms. 0 \<le> x"
  shows "\<exists>j < length ms. find_month i ms doy = (Some (i + 1 + int j), doy - sum_list (take j ms)) \<and>
    1 \<le> doy - sum_list (take j ms) \<and> doy - sum_list (take j ms) \<le> ms ! j"
  using assms
proof (induction ms arbitrary: i doy)
  case (Cons x ms)
  show ?case
  proof (cases "doy \<le> x")
    case True
    then show ?thesis using Cons.prems by (intro exI [of _ 0]) simp
  next
    case False
    then have "find_month i (x # ms) doy = find_month (i + 1) ms (doy - x)" using Cons.prems by simp
    moreover obtain j where "j < length ms" "find_month (i + 1) ms (doy - x) = (Some (i + 1 + 1 + int j), doy - x - sum_list (take j ms))"
        "1 \<le> doy - x - sum_list (take j ms)" "doy - x - sum_list (take j ms) \<le> ms ! j"
      using Cons.IH [of "doy - x" "i + 1"] Cons.prems False by force
    ultimately show ?thesis by (intro exI [of _ "Suc j"]) (simp add: algebra_simps)
  qed
qed simp

lemma month_days_ok:
  assumes "1992 \<le> y" "y \<le> 2099"
  shows "length (month_days y) = 12" "\<forall>x \<in> set (month_days y). 0 \<le> x" "sum_list (month_days y) = year_length y"
    "j < 12 \<Longrightarrow> month_days y ! j = month_length y (int j + 1)" "j < 12 \<Longrightarrow> sum_list (take j (month_days y)) = days_before_month y (int j + 1)"
proof -
  have leap: "is_leap_year y = gregorian_leap y" using leap_1992_2099 [OF assms] by (simp add: is_leap_year_def)
  show "length (month_days y) = 12" "\<forall>x \<in> set (month_days y). 0 \<le> x" by (simp_all add: month_days_def)
  show "sum_list (month_days y) = year_length y" by (simp add: month_days_def year_length_def leap)
  have j: "j = 0 \<or> j = 1 \<or> j = 2 \<or> j = 3 \<or> j = 4 \<or> j = 5 \<or> j = 6 \<or> j = 7 \<or> j = 8 \<or> j = 9 \<or> j = 10 \<or> j = 11" if "j < 12"
    using that by presburger
  show "month_days y ! j = month_length y (int j + 1)" if "j < 12"
    using j [OF that] by (elim disjE) (simp_all add: month_days_def month_length_def leap)
  show "sum_list (take j (month_days y)) = days_before_month y (int j + 1)" if "j < 12"
    using j [OF that] by (elim disjE) (simp_all add: month_days_def days_before_month_eq leap)
qed

text \<open>What the model relies on of ns-3's \<open>Time\<close>: whole milliseconds, converted and cut, are the whole units in them.\<close>

definition time_ok :: "ns3_time \<Rightarrow> bool" where
  "time_ok tm \<longleftrightarrow> (\<forall>ms. 0 \<le> ms \<longrightarrow> ms < 2 ^ 40 \<longrightarrow>
     to_u32 (tm_days tm (milliseconds ms)) = Inr (ms div 86400000) \<and> to_u32 (tm_hours tm (milliseconds ms)) = Inr (ms div 3600000) \<and>
     to_u32 (tm_minutes tm (milliseconds ms)) = Inr (ms div 60000) \<and> to_u32 (tm_seconds tm (milliseconds ms)) = Inr (ms div 1000))"

lemma get_milliseconds_milliseconds [simp]: "get_milliseconds (milliseconds ms) = ms"
  by (auto simp: get_milliseconds_def milliseconds_def)

lemma milliseconds_diff [simp]: "milliseconds a - milliseconds b = milliseconds (a - b)"
  by (simp add: milliseconds_def)

lemma quarter_days:
  assumes "0 \<le> d" "d < 100000"
  shows "to_u32 (d_div (d_of_int d) (Fin (1461 / 4))) = Inr (4 * d div 1461)"
proof -
  let ?q = "(of_int (4 * d) / 1461 :: rat)" and ?n = "4 * d div 1461"
  have d: "d_of_int d = Fin (of_int d)" by (rule d_of_int_exact) (use assms in auto)
  have n: "1461 * ?n \<le> 4 * d" "4 * d \<le> 1461 * ?n + 1460" "0 \<le> ?n" "?n < 1000" using assms by auto
  have q: "of_int d / (1461 / 4) = ?q" by simp
  have bounds: "of_int ?n \<le> ?q" "?q \<le> of_int ?n + 1460 / 1461"
  proof -
    have "(of_int (1461 * ?n) :: rat) \<le> of_int (4 * d)" "(of_int (4 * d) :: rat) \<le> of_int (1461 * ?n + 1460)"
      using n(1,2) by (simp_all only: of_int_le_iff)
    then show "of_int ?n \<le> ?q" "?q \<le> of_int ?n + 1460 / 1461" by (simp_all add: field_simps)
  qed
  have "\<bar>?q\<bar> \<le> 1000000" using assms by (simp add: abs_if field_simps)
  then obtain r where r: "rnd ?q = Fin r" "\<bar>r - ?q\<bar> < 1 / 2 ^ 32" using rnd_near by blast
  have "of_int ?n \<le> r"
  proof (cases "?q = of_int ?n")
    case True
    then have "r = of_int ?n" using r(1) rnd_of_int [of ?n] n(3,4) by simp
    then show ?thesis by simp
  next
    case False
    then have "4 * d \<noteq> 1461 * ?n" by (auto simp: field_simps)
    then have "1461 * ?n + 1 \<le> 4 * d" using n(1) by simp
    then have "(of_int (1461 * ?n + 1) :: rat) \<le> of_int (4 * d)" by (simp only: of_int_le_iff)
    then have "of_int ?n + 1 / 1461 \<le> ?q" by (simp add: field_simps)
    moreover have "(1 / 2 ^ 32 :: rat) < 1 / 1461" by simp
    ultimately show ?thesis using r(2) [unfolded abs_less_iff] by linarith
  qed
  moreover have "r < of_int ?n + 1"
  proof -
    have "(1460 / 1461 + 1 / 2 ^ 32 :: rat) < 1" by simp
    then show ?thesis using r(2) [unfolded abs_less_iff] bounds(2) by linarith
  qed
  ultimately have "floor r = ?n" "0 \<le> r" using n(3) by (simp_all add: floor_eq_iff)
  moreover have "d_div (d_of_int d) (Fin (1461 / 4)) = Fin r" unfolding d using r(1) [folded q] by simp
  ultimately show ?thesis using n(3,4) by (simp add: to_u32_def)
qed

lemma gregorian_date_eq:
  assumes "time_ok tm" "8401 \<le> days" "days \<le> 47481" "0 \<le> ms" "ms < 86400000"
  shows "\<exists>y m d. gregorian_date tm days ms = Inr \<lparr>dt_year = y, dt_month = Some m, dt_day = d, dt_hours = ms div 3600000,
      dt_minutes = ms div 60000 mod 60, dt_seconds = ms div 1000 mod 60, dt_millisecs = ms mod 1000\<rparr> \<and>
    1993 \<le> y \<and> y \<le> 2099 \<and> valid_date y m d \<and> civil_days y m d = days"
proof -
  define d where "d = days - 8035"
  have d: "366 \<le> d" "d \<le> 39446" using assms(2,3) by (simp_all add: d_def)
  define k where "k = 4 * d div 1461"
  have k: "1461 * k \<le> 4 * d" "4 * d \<le> 1461 * k + 1460" by (simp_all add: k_def)
  then have k1: "1 \<le> k" "k \<le> 107" using d by linarith+
  define y where "y = k + 1992"
  have y: "1993 \<le> y" "y \<le> 2099" using k1 by (simp_all add: y_def)
  define doy where "doy = d - (k * 365 + (k - 1) div 4)"
  have before: "days_before_year y = 8035 + 365 * k + (k + 3) div 4"
    using days_before_year_int [of y] y by (simp add: y_def)
  have doy: "doy = days - days_before_year y + 1"
  proof -
    have "(k + 3) div 4 = (k - 1) div 4 + 1" by presburger
    then show ?thesis by (simp add: doy_def before d_def)
  qed
  define c where "c = (k - 1) div 4"
  have c: "4 * c \<le> k - 1" "k \<le> 4 * c + 4" "k mod 4 = 0 \<longleftrightarrow> k = 4 * c + 4" unfolding c_def by presburger+
  have doy1: "1 \<le> doy" using k c(1) unfolding doy_def c_def [symmetric] by linarith
  have doy2: "doy \<le> 365 + (if k mod 4 = 0 then 1 else 0)"
    using k c unfolding doy_def c_def [symmetric] by (cases "k mod 4 = 0") auto
  have "y mod 4 = k mod 4" unfolding y_def by presburger
  then have len: "year_length y = 365 + (if k mod 4 = 0 then 1 else 0)"
    using leap_1992_2099 [of y] y by (simp add: year_length_def)
  have y92: "1992 \<le> y" using y by simp
  note md = month_days_ok [OF y92 y(2)]
  have sum: "doy \<le> sum_list (month_days y)" using doy2 len md(3) by simp
  have small: "doy < 4294967296" using doy2 by (simp split: if_splits)
  obtain j where j: "j < 12" "find_month 0 (month_days y) doy = (Some (1 + int j), doy - sum_list (take j (month_days y)))"
      "1 \<le> doy - sum_list (take j (month_days y))" "doy - sum_list (take j (month_days y)) \<le> month_days y ! j"
    using find_month_ok [OF doy1 sum small md(2), of 0] unfolding md(1) by auto
  let ?m = "1 + int j" and ?d = "doy - days_before_month y (1 + int j)"
  have take_j: "sum_list (take j (month_days y)) = days_before_month y (1 + int j)"
    using md(5) [OF j(1)] by (simp add: add.commute)
  have valid: "valid_date y ?m ?d"
    using j(1,3,4) md(4) [OF j(1)] by (simp add: valid_date_def take_j add.commute)
  have civil: "civil_days y ?m ?d = days" by (simp add: civil_days_def doy)
  have wraps: "u32 (days - posix_1992) = d" "u32 (k + min_year) = y" "u32 (y - (min_year + 1)) = k - 1"
      "u32 ((y - min_year) * 365 + (k - 1) div 4) = k * 365 + (k - 1) div 4"
    using d k1 assms(2,3) by (simp_all add: posix_1992_def min_year_def d_def y_def)
  have doyw: "u32 (d - (k * 365 + (k - 1) div 4)) = doy" using doy1 doy2 by (simp add: doy_def split: if_splits)
  have quot: "to_u32 (d_div (d_of_int d) (Fin (1461 / 4))) = Inr k" using quarter_days [of d] d by (simp add: k_def)
  have h: "0 \<le> ms" "ms < 2 ^ 40" using assms(4,5) by simp_all
  have m: "ms mod (60000 * 60) = 60000 * (ms div 60000 mod 60) + ms mod 60000" "ms mod (1000 * 60) = 1000 * (ms div 1000 mod 60) + ms mod 1000"
    by (rule zmod_zmult2_eq; simp)+
  let ?t1 = "ms - ms div 3600000 * 3600000" and ?t2 = "ms - ms div 3600000 * 3600000 - (ms div 60000 mod 60) * 60000"
  have tt: "?t1 = ms mod 3600000" "?t2 = ms mod 60000" using m(1) by (simp_all add: minus_div_mult_eq_mod)
  have small: "0 \<le> ms mod 3600000" "ms mod 3600000 < 2 ^ 40" "0 \<le> ms mod 60000" "ms mod 60000 < 2 ^ 40"
    using pos_mod_bound [of 3600000 ms] pos_mod_bound [of 60000 ms] by simp_all
  have m1: "0 \<le> ?t1" "?t1 < 2 ^ 40" using small(1,2) unfolding tt(1) by blast+
  have m2: "0 \<le> ?t2" "?t2 < 2 ^ 40" using small(3,4) unfolding tt(2) by blast+
  have p1: "?t1 div 60000 = ms div 60000 mod 60" unfolding tt(1) using m(1) by simp
  have p2: "?t2 div 1000 = ms div 1000 mod 60" "?t2 - ms div 1000 mod 60 * 1000 = ms mod 1000" unfolding tt(2) using m(2) by simp_all
  note tm = assms(1) [unfolded time_ok_def, rule_format]
  have t0: "to_u32 (tm_hours tm (milliseconds ms)) = Inr (ms div 3600000)"
    using tm [OF h] by blast
  have t1: "to_u32 (tm_minutes tm (milliseconds ?t1)) = Inr (ms div 60000 mod 60)" 
    using tm [OF m1] unfolding p1 by blast
  have t2: "to_u32 (tm_seconds tm (milliseconds ?t2)) = Inr (ms div 1000 mod 60)" 
    using tm [OF m2] unfolding p2(1) by blast
  have "gregorian_date tm days ms = Inr \<lparr>dt_year = y, dt_month = Some ?m, dt_day = ?d, dt_hours = ms div 3600000,
      dt_minutes = ms div 60000 mod 60, dt_seconds = ms div 1000 mod 60, dt_millisecs = ms mod 1000\<rparr>"
    unfolding gregorian_date_def Let_def wraps quot bindr_Inr doyw j(2) prod.case take_j t0 milliseconds_diff t1 t2
    using p2(2) by simp
  then show ?thesis using valid civil y by blast
qed

section \<open>Arithmetic on the total of milliseconds\<close>

text \<open>The date of a number of milliseconds since 1 January 1970.\<close>

definition jd_of :: "int \<Rightarrow> time_system \<Rightarrow> julian_date" where
  "jd_of T ts = \<lparr>jd_days = T div day_to_ms, jd_ms_day = T mod day_to_ms, jd_time_scale = ts\<rparr>"

lemma time_ok_days: "time_ok tm \<Longrightarrow> 0 \<le> ms \<Longrightarrow> ms < 2 ^ 40 \<Longrightarrow> to_u32 (tm_days tm (milliseconds ms)) = Inr (ms div day_to_ms)"
  by (simp add: time_ok_def day_to_ms_def)

lemma day_parts: "0 \<le> x mod day_to_ms" "x mod day_to_ms < 86400000" "x = x div day_to_ms * 86400000 + x mod day_to_ms"
  by (simp_all add: day_to_ms_def)

lemma jd_of_eqI:
  assumes "T = d * 86400000 + r" "0 \<le> r" "r < 86400000"
  shows "jd_of T ts = \<lparr>jd_days = d, jd_ms_day = r, jd_time_scale = ts\<rparr>"
proof -
  have "T div day_to_ms = d" unfolding day_to_ms_def by (rule int_div_pos_eq) (use assms in auto)
  moreover have "T mod day_to_ms = r" unfolding day_to_ms_def by (rule int_mod_pos_eq) (use assms in auto)
  ultimately show ?thesis by (simp add: jd_of_def)
qed

lemma u32_id: "0 \<le> x \<Longrightarrow> x < 2 ^ 32 \<Longrightarrow> u32 x = x"
  by simp

lemma plus_time_jd_of:
  assumes "time_ok tm" "0 \<le> T" "0 \<le> ms" "ms < 2 ^ 40" "T + ms < 2 ^ 32 * day_to_ms"
  shows "plus_time tm (jd_of T ts) (milliseconds ms) = Inr (jd_of (T + ms) ts)"
proof -
  let ?D = "T div day_to_ms" and ?r = "T mod day_to_ms" and ?e = "ms div day_to_ms" and ?s = "ms mod day_to_ms"
  note T = day_parts [of T] and m = day_parts [of ms]
  let ?a = "?s + ?r"
  note a = day_parts [of ?a]
  have days: "0 \<le> ?D" "0 \<le> ?e" "0 \<le> ?a div day_to_ms" using assms(2,3) T m by (simp_all add: day_to_ms_def)
  have sum: "T + ms = (?e + ?D + ?a div day_to_ms) * 86400000 + ?a mod day_to_ms"
    using T(3) m(3) a(3) by (simp add: algebra_simps)
  have "?e + ?D + ?a div day_to_ms < 2 ^ 32"
  proof (rule ccontr)
    assume "\<not> ?thesis"
    then have "2 ^ 32 * 86400000 \<le> (?e + ?D + ?a div day_to_ms) * 86400000" by (intro mult_right_mono) auto
    then have "2 ^ 32 * 86400000 \<le> T + ms" using sum a(1) by linarith
    then show False using assms(5) by (simp add: day_to_ms_def)
  qed
  then have "u32 (?e + ?D + ?a div day_to_ms) = ?e + ?D + ?a div day_to_ms" using days by simp
  moreover have "u32 ?s = ?s" "u32 ?a = ?a" using T(1,2) m(1,2) by simp_all
  ultimately show ?thesis
    using jd_of_eqI [OF sum a(1,2), of ts] time_ok_days [OF assms(1,3,4)] by (simp add: plus_time_def jd_of_def Let_def)
qed

lemma minus_time_jd_of:
  assumes "time_ok tm" "ms \<le> T" "0 \<le> ms" "ms < 2 ^ 40" "T < 2 ^ 32 * day_to_ms"
  shows "minus_time tm (jd_of T ts) (milliseconds ms) = Inr (jd_of (T - ms) ts)"
proof -
  let ?D = "T div day_to_ms" and ?r = "T mod day_to_ms" and ?e = "ms div day_to_ms" and ?s = "ms mod day_to_ms"
  note T = day_parts [of T] and m = day_parts [of ms]
  have D: "0 \<le> ?e" "?e \<le> ?D" "?D < 2 ^ 32"
  proof -
    show "0 \<le> ?e" using assms(3) by (simp add: day_to_ms_def)
    show "?e \<le> ?D" by (rule zdiv_mono1) (use assms(2) in \<open>simp_all add: day_to_ms_def\<close>)
    show "?D < 2 ^ 32" using assms(5) T(1,3) unfolding day_to_ms_def by linarith
  qed
  have s: "u32 ?s = ?s" using m(1,2) by simp
  show ?thesis
  proof (cases "?r < ?s")
    case True
    have "T - ms = (?D - (?e + 1)) * 86400000 + (86400000 - (?s - ?r))" using T(3) m(3) by (simp add: algebra_simps)
    from jd_of_eqI [OF this, of ts] have eq: "jd_of (T - ms) ts = \<lparr>jd_days = ?D - (?e + 1), jd_ms_day = 86400000 - (?s - ?r), jd_time_scale = ts\<rparr>"
      using True T m by simp
    have "?e \<noteq> ?D"
    proof
      assume "?e = ?D"
      then have "ms = ?D * 86400000 + ?s" using m(3) by simp
      then show False using True T(3) assms(2) by linarith
    qed
    then have "u32 (?e + 1) = ?e + 1" "u32 (?D - (?e + 1)) = ?D - (?e + 1)" using D by - (rule u32_id; linarith)+
    moreover have "(86400000 :: int) < 2 ^ 32" by simp
    with True T(1,2) m(1,2) have "u32 (?s - ?r) = ?s - ?r" "u32 (86400000 - (?s - ?r)) = 86400000 - (?s - ?r)"
      by - (rule u32_id; linarith)+
    ultimately have wraps: "u32 (?D - u32 (?e + 1)) = ?D - (?e + 1)" "u32 (day_to_ms - u32 (?s - ?r)) = 86400000 - (?s - ?r)"
      unfolding day_to_ms_def by (simp_all only:)
    show ?thesis
      unfolding eq using wraps True s time_ok_days [OF assms(1,3,4)] by (simp add: minus_time_def jd_of_def Let_def)
  next
    case False
    have "T - ms = (?D - ?e) * 86400000 + (?r - ?s)" using T(3) m(3) by (simp add: algebra_simps)
    from jd_of_eqI [OF this, of ts] have eq: "jd_of (T - ms) ts = \<lparr>jd_days = ?D - ?e, jd_ms_day = ?r - ?s, jd_time_scale = ts\<rparr>"
      using False T m by simp
    have "u32 (?D - ?e) = ?D - ?e" "u32 (?r - ?s) = ?r - ?s" using D False T m by simp_all
    then show ?thesis
      unfolding eq using False s time_ok_days [OF assms(1,3,4)] by (simp add: minus_time_def jd_of_def Let_def)
  qed
qed

lemma milliseconds_neg [simp]: "milliseconds ms < 0 \<longleftrightarrow> ms < 0"
  by (simp add: milliseconds_def)

lemma jd_plus_jd_of:
  assumes "time_ok tm" "0 \<le> T" "T < 2 ^ 32 * day_to_ms" "\<bar>ms\<bar> < 2 ^ 40" "0 \<le> T + ms" "T + ms < 2 ^ 32 * day_to_ms"
  shows "jd_plus tm (jd_of T ts) (milliseconds ms) = Inr (jd_of (T + ms) ts)"
  using assms plus_time_jd_of [of tm T ms ts] minus_time_jd_of [of tm "- ms" T ts] by (simp add: jd_plus_def)

lemma jd_minus_jd_of:
  assumes "time_ok tm" "0 \<le> T" "T < 2 ^ 32 * day_to_ms" "\<bar>ms\<bar> < 2 ^ 40" "0 \<le> T - ms" "T - ms < 2 ^ 32 * day_to_ms"
  shows "jd_minus tm (jd_of T ts) (milliseconds ms) = Inr (jd_of (T - ms) ts)"
  using assms plus_time_jd_of [of tm T "- ms" ts] minus_time_jd_of [of tm ms T ts] by (simp add: jd_minus_def)

lemma jd_less_jd_of: "jd_less (jd_of a ts) (jd_of b us) \<longleftrightarrow> a < b"
proof -
  have "a = a div day_to_ms * 86400000 + a mod day_to_ms" "b = b div day_to_ms * 86400000 + b mod day_to_ms" by (rule day_parts)+
  then show ?thesis using day_parts(1,2) [of a] day_parts(1,2) [of b] by (auto simp: jd_less_def jd_of_def)
qed

lemma jd_eq_jd_of: "jd_eq (jd_of a ts) (jd_of b us) \<longleftrightarrow> a = b"
  using day_parts(3) [of a] day_parts(3) [of b] by (auto simp: jd_eq_def jd_of_def)

lemma jd_order_jd_of:
  "jd_le (jd_of a ts) (jd_of b us) \<longleftrightarrow> a \<le> b" "jd_greater (jd_of a ts) (jd_of b us) \<longleftrightarrow> a > b"
  "jd_ge (jd_of a ts) (jd_of b us) \<longleftrightarrow> a \<ge> b" "jd_neq (jd_of a ts) (jd_of b us) \<longleftrightarrow> a \<noteq> b"
proof -
  have "jd_le x y \<longleftrightarrow> jd_less x y \<or> jd_eq x y" "jd_greater x y \<longleftrightarrow> jd_less y x" "jd_ge x y \<longleftrightarrow> jd_less y x \<or> jd_eq x y"
      "jd_neq x y \<longleftrightarrow> \<not> jd_eq x y" for x y
    by (auto simp: jd_le_def jd_less_def jd_eq_def jd_greater_def jd_ge_def jd_neq_def)
  then show "jd_le (jd_of a ts) (jd_of b us) \<longleftrightarrow> a \<le> b" "jd_greater (jd_of a ts) (jd_of b us) \<longleftrightarrow> a > b"
    "jd_ge (jd_of a ts) (jd_of b us) \<longleftrightarrow> a \<ge> b" "jd_neq (jd_of a ts) (jd_of b us) \<longleftrightarrow> a \<noteq> b"
    by (auto simp: jd_less_jd_of jd_eq_jd_of)
qed

lemma jd_time_jd_of:
  assumes "0 \<le> x"
  shows "jd_time (jd_of x ts) = in_time (milliseconds x)"
proof -
  note p = day_parts [of x]
  have d: "jd_days (jd_of x ts) = x div day_to_ms" "jd_ms_day (jd_of x ts) = x mod day_to_ms" by (simp_all add: jd_of_def)
  have "0 \<le> x div day_to_ms" using assms by (simp add: day_to_ms_def pos_imp_zdiv_nonneg_iff)
  then have days: "0 \<le> x div day_to_ms * milliseconds day_to_ms" "x div day_to_ms * milliseconds day_to_ms \<le> milliseconds x"
    using p by (simp_all add: milliseconds_def day_to_ms_def)
  have "x div day_to_ms * milliseconds day_to_ms + milliseconds (x mod day_to_ms) = milliseconds x"
    using p(3) unfolding milliseconds_def day_to_ms_def by linarith
  then show ?thesis
    using days by (auto simp: jd_time_def d in_time_def in_int64_def)
qed

lemma jd_diff_jd_of:
  assumes "0 \<le> a" "0 \<le> b"
  shows "jd_diff (jd_of a ts) (jd_of b us) =
    (if in_int64 (milliseconds a) \<and> in_int64 (milliseconds b) then Inr (milliseconds (a - b))
     else Inl (Undefined ''Time out of range''))"
proof -
  have "milliseconds a - milliseconds b = milliseconds (a - b)" "0 \<le> milliseconds a" "0 \<le> milliseconds b"
    using assms by (simp_all add: milliseconds_def)
  moreover from this have "in_int64 (milliseconds a) \<Longrightarrow> in_int64 (milliseconds b) \<Longrightarrow> in_int64 (milliseconds (a - b))"
    unfolding in_int64_def by linarith
  ultimately show ?thesis
    by (auto simp: jd_diff_def jd_time_jd_of assms in_time_def)
qed

section \<open>The offsets between the time systems\<close>

lemma lower_bound_mono: "sorted v \<Longrightarrow> x \<le> y \<Longrightarrow> lower_bound v x \<le> lower_bound v y"
  unfolding lower_bound_def by (induction v) auto

lemma lower_bound_length: "lower_bound v x \<le> length v"
  by (simp add: lower_bound_def length_takeWhile_le)

definition leap_ms :: "int \<Rightarrow> int" where
  "leap_ms D = (int (lower_bound leap_seconds D) + base_leap_seconds) * 1000"

lemma leap_ms: "tai_minus_utc D = milliseconds (leap_ms D)" "10000 \<le> leap_ms D" "leap_ms D \<le> 36000" "D \<le> E \<Longrightarrow> leap_ms D \<le> leap_ms E"
proof -
  show "tai_minus_utc D = milliseconds (leap_ms D)" by (simp add: tai_minus_utc_def leap_ms_def)
  have "length leap_seconds = 26" by (simp add: leap_seconds_def)
  then show "10000 \<le> leap_ms D" "leap_ms D \<le> 36000"
    using lower_bound_length [of leap_seconds D] by (simp_all add: leap_ms_def base_leap_seconds_def)
  have "sorted leap_seconds" by (simp add: leap_seconds_def)
  then show "D \<le> E \<Longrightarrow> leap_ms D \<le> leap_ms E"
    using lower_bound_mono [of leap_seconds D E] by (simp add: leap_ms_def)
qed

definition offset_ms :: "time_system \<Rightarrow> int \<Rightarrow> int" where
  "offset_ms ts D = (case ts of TAI \<Rightarrow> leap_ms D | TT \<Rightarrow> 32184 + leap_ms D | _ \<Rightarrow> 0)"

lemma milliseconds_add: "milliseconds a + milliseconds b = milliseconds (a + b)"
  by (simp add: milliseconds_def)

lemma offset_from_utc_ms: "ts \<in> {UTC, TAI, TT} \<Longrightarrow> offset_from_utc tm v D ts = milliseconds (offset_ms ts D)"
  by (auto simp: offset_from_utc_def offset_ms_def leap_ms(1) tt_to_tai_def milliseconds_add milliseconds_def)

lemma offset_ms_bounds: "0 \<le> offset_ms ts D" "offset_ms ts D < 100000"
  using leap_ms(2,3) [of D] by (cases ts; simp add: offset_ms_def)+

lemma offset_to_utc_back:
  assumes "ts \<in> {UTC, TAI, TT}" "0 \<le> T" "T < 2 ^ 31 * day_to_ms"
  shows "offset_to_utc tm v ((T + offset_ms ts (T div day_to_ms)) div day_to_ms) ((T + offset_ms ts (T div day_to_ms)) mod day_to_ms) ts =
    milliseconds (- offset_ms ts (T div day_to_ms))"
proof (cases "ts = UTC")
  case True
  then show ?thesis by (simp add: offset_to_utc_def offset_ms_def)
next
  case False
  let ?D = "T div day_to_ms" and ?r = "T mod day_to_ms"
  define c where "c = (if ts = TT then 32184 else 0 :: int)"
  have off: "offset_ms ts E = c + leap_ms E" for E using False assms(1) by (auto simp: offset_ms_def c_def)
  have c: "0 \<le> c" "c \<le> 32184" by (simp_all add: c_def)
  note T = day_parts [of T] and L = leap_ms(2,3) [of ?D]
  have D: "0 \<le> ?D" "?D < 2 ^ 31" using assms(2,3) by (simp_all add: day_to_ms_def)
  have form: "offset_to_utc tm v E m ts =
      milliseconds (- (c + (if m < c + leap_ms E then leap_ms (u32 (E - 1)) else leap_ms E)))" for E m
    using False assms(1) by (auto simp: offset_to_utc_def leap_ms(1) tt_to_tai_def c_def milliseconds_add Let_def)
  show ?thesis
  proof (cases "?r + offset_ms ts ?D < 86400000")
    case True
    have "T + offset_ms ts ?D = ?D * 86400000 + (?r + offset_ms ts ?D)" using T(3) by simp
    from jd_of_eqI [OF this _ True, of ts] have "(T + offset_ms ts ?D) div day_to_ms = ?D" "(T + offset_ms ts ?D) mod day_to_ms = ?r + offset_ms ts ?D"
      using T(1) offset_ms_bounds(1) [of ts ?D] by (simp_all add: jd_of_def)
    then show ?thesis unfolding form using T(1) by (simp add: off)
  next
    case False
    have "T + offset_ms ts ?D = (?D + 1) * 86400000 + (?r + offset_ms ts ?D - 86400000)" using T(3) by (simp add: algebra_simps)
    from jd_of_eqI [OF this, of ts] have parts: "(T + offset_ms ts ?D) div day_to_ms = ?D + 1"
        "(T + offset_ms ts ?D) mod day_to_ms = ?r + offset_ms ts ?D - 86400000"
      using False T(2) offset_ms_bounds(2) [of ts ?D] by (simp_all add: jd_of_def)
    have "?r + offset_ms ts ?D - 86400000 < c + leap_ms (?D + 1)" using T(2) leap_ms(4) [of ?D "?D + 1"] by (simp add: off)
    then show ?thesis unfolding parts form using D by (simp add: off)
  qed
qed

section \<open>Printed numbers are read back\<close>

lemma show_nat_length: "0 < w \<Longrightarrow> n < 10 ^ w \<Longrightarrow> length (show_nat n) \<le> w"
proof (induction w arbitrary: n)
  case (Suc w)
  show ?case
  proof (cases "n < 10")
    case True
    then show ?thesis by (subst show_nat.simps) simp
  next
    case False
    then have "w \<noteq> 0" using Suc.prems(2) by (cases w) auto
    moreover have "n div 10 < 10 ^ w" using Suc.prems(2) by (simp add: less_mult_imp_div_less mult.commute)
    ultimately have "length (show_nat (n div 10)) \<le> w" using Suc.IH [of "n div 10"] by simp
    then show ?thesis using False by (subst show_nat.simps) simp
  qed
qed simp

lemma digits_val_zeros: "digits_val (replicate k (CHR ''0'') @ s) = digits_val s"
proof -
  have "digit_val (CHR ''0'') = 0" by (simp add: digit_val_def)
  then show ?thesis by (induction k) (simp_all add: digits_val_def)
qed

definition digits :: "nat \<Rightarrow> int \<Rightarrow> string \<Rightarrow> bool" where
  "digits w v s \<longleftrightarrow> length s = w \<and> (\<forall>c \<in> set s. is_digit c) \<and> int (digits_val s) = v"

lemma padded_digits:
  assumes "0 < w" "0 \<le> v" "v < 10 ^ w"
  shows "digits w v (padded w v)"
proof -
  have "nat v < 10 ^ w" using assms(2,3) by (simp add: nat_less_iff)
  then have "length (show_nat (nat v)) \<le> w" by (rule show_nat_length [OF assms(1)])
  moreover have "is_digit (CHR ''0'')" by (simp add: is_digit_def)
  ultimately show ?thesis
    using assms(2) show_nat_digits [of "nat v"] by (auto simp: digits_def padded_def show_int_def digits_val_zeros)
qed

lemma takeWhile_all: "\<forall>c \<in> set s. P c \<Longrightarrow> takeWhile P (s @ t) = s @ takeWhile P t"
  by (induction s) auto

lemma dropWhile_all: "\<forall>c \<in> set s. P c \<Longrightarrow> dropWhile P (s @ t) = dropWhile P t"
  by (induction s) auto

lemma digits_Cons: "digits (Suc w) v s \<Longrightarrow> \<exists>c t. s = c # t \<and> is_digit c"
  by (cases s) (auto simp: digits_def)

lemma scan_int_digits:
  assumes "digits (Suc w) v s"
  shows "scan_int (Suc w) (s @ t) = Some (v, t)"
proof -
  obtain c u where s: "s = c # u" "is_digit c" using digits_Cons [OF assms] by blast
  have d: "length s = Suc w" "\<forall>c \<in> set s. is_digit c" "int (digits_val s) = v" using assms by (simp_all add: digits_def)
  have "dropWhile is_space (s @ t) = s @ t" using s digit_not_space by simp
  moreover have "take (Suc w) (s @ t) = s" "drop (Suc w) (s @ t) = t" using d(1) by simp_all
  moreover have "sign_split s = (False, s)" using s digit_not_sign by (auto simp: sign_split_def)
  moreover have "takeWhile is_digit s = s" unfolding takeWhile_eq_all_conv by (rule d(2))
  moreover have "s \<noteq> []" using s by simp
  ultimately show ?thesis using d(1,3) by (simp only: scan_int_def Let_def prod.case) simp
qed

lemma digit_letters:
  assumes "is_digit c"
  shows "lower c = c" "lower c \<noteq> CHR ''i''" "lower c \<noteq> CHR ''n''" "lower c \<noteq> CHR ''x''" "xdigit_val c = digit_val c"
proof -
  show l: "lower c = c" using assms by (simp add: is_digit_def lower_def)
  show "xdigit_val c = digit_val c" using assms by (simp add: xdigit_val_def)
  show "lower c \<noteq> CHR ''i''" "lower c \<noteq> CHR ''n''" "lower c \<noteq> CHR ''x''"
    using assms unfolding l by (auto simp: is_digit_def)
qed

lemma foldl_digits: "\<forall>c \<in> set s. is_digit c \<Longrightarrow> foldl (\<lambda>a c. 10 * a + xdigit_val c) 0 s = digits_val s"
proof (induction s rule: rev_induct)
  case (snoc c s)
  then show ?case using digit_letters(5) [of c] by (simp add: digits_val_snoc)
qed (simp add: digits_val_def)

lemma digits_val_append: "digits_val (s @ t) = digits_val s * 10 ^ length t + digits_val t"
proof (induction t rule: rev_induct)
  case (snoc c t)
  then show ?case by (simp add: digits_val_snoc flip: append_assoc)
qed (simp add: digits_val_def)

lemma scan_seconds:
  assumes s: "digits 2 sec s" and u: "digits 3 ms u"
  shows "scan_double (s @ ''.'' @ u @ '' '' @ t) = Some (rnd (of_int (sec * 1000 + ms) / 1000))"
proof -
  have ds: "length s = 2" "\<forall>c \<in> set s. is_digit c" "int (digits_val s) = sec" using s by (simp_all add: digits_def)
  have du: "length u = 3" "\<forall>c \<in> set u. is_digit c" "int (digits_val u) = ms" using u by (simp_all add: digits_def)
  obtain a b where ab: "s = [a, b]" using ds(1) by (auto simp: length_Suc_conv numeral_2_eq_2)
  then have a: "is_digit a" "is_digit b" using ds(2) by auto
  let ?x = "s @ ''.'' @ u @ '' '' @ t"
  have no: "\<not> is_digit (CHR ''.'')" "\<not> is_digit (CHR '' '')" by (simp_all add: is_digit_def)
  have "mantissa 10 is_digit ?x = Some (digits_val (s @ u), 3, '' '' @ t)"
    using ds(2) du(1,2) ab no foldl_digits [of "s @ u"]
    by (simp add: mantissa_def takeWhile_all dropWhile_all Let_def del: append.simps(2)) (auto simp: takeWhile_all dropWhile_all)
  moreover have "exponent (CHR ''e'') ('' '' @ t) = (0, '' '' @ t)" by (simp add: exponent_def lower_def)
  moreover have "lower b \<noteq> CHR ''x''" using digit_letters(4) a(2) by blast
  ultimately have num: "stod_number ?x = Some (of_nat (digits_val (s @ u)) * pow_rat 10 (0 - 3), '' '' @ t)"
    using ab by (simp add: stod_number_def Let_def)
  have "dropWhile is_space ?x = ?x" using ab a digit_not_space by simp
  moreover have "sign_split ?x = (False, ?x)" using ab a digit_not_sign by (auto simp: sign_split_def)
  moreover have "map lower (take 3 ?x) \<noteq> ''inf''" "map lower (take 3 ?x) \<noteq> ''nan''"
    using ab digit_letters(2,3) [OF a(1)] by (simp_all add: numeral_3_eq_3)
  moreover have "(of_nat (digits_val (s @ u)) :: rat) * pow_rat 10 (0 - 3) = of_int (sec * 1000 + ms) / 1000"
    using ds(3) du(1,3) by (simp add: digits_val_append pow_rat_def flip: ds(3) du(3))
  with num have "stod_number ?x = Some (of_int (sec * 1000 + ms) / 1000, '' '' @ t)" by (simp only:)
  ultimately show ?thesis by (simp only: scan_double_def prod.case if_False option.map)
qed

lemma scan_show_date:
  assumes "digits 4 y sy" "digits 2 m sm" "digits 2 d sd" "digits 2 h sh" "digits 2 mi si" "digits 2 sec ss" "digits 3 ms su"
  shows "scan_date (sy @ ''-'' @ sm @ ''-'' @ sd @ '' '' @ sh @ '':'' @ si @ '':'' @ ss @ ''.'' @ su @ '' '' @ t) =
    Some (y, m, d, h, mi, rnd (of_int (sec * 1000 + ms) / 1000))"
proof -
  have two: "scan_int 2 (s @ r) = Some (v, r)" if "digits 2 v s" for v s r
    using scan_int_digits [of 1 v s r] that by (simp add: numeral_2_eq_2)
  have space: "scan_int 2 (CHR '' '' # r) = scan_int 2 r" for r by (simp add: scan_int_def is_space_def)
  have "scan_int 4 (sy @ r) = Some (y, r)" for r
    using scan_int_digits [of 3 y sy r] assms(1) by (simp add: numeral_eq_Suc)
  then show ?thesis
    using two [OF assms(2)] two [OF assms(3)] two [OF assms(4)] two [OF assms(5)] scan_seconds [OF assms(6,7)]
    by (simp add: scan_date_def skip_char_def space)
qed

section \<open>The round trip through text\<close>

lemma seconds_back:
  assumes "0 \<le> sec" "sec < 60" "0 \<le> ms" "ms < 1000"
  defines "x \<equiv> rnd (of_int (sec * 1000 + ms) / 1000)"
  shows "to_u32 x = Inr sec" "to_u32 (d_add (d_mul (d_sub x (d_of_int sec)) (Fin 1000)) (Fin (1 / 2))) = Inr ms"
proof -
  define q :: rat where "q = of_int (sec * 1000 + ms) / 1000"
  define S M :: rat where "S = of_int sec" and "M = of_int ms"
  have q: "q = S + M / 1000" by (simp add: q_def S_def M_def field_simps)
  have S: "0 \<le> S" "S \<le> 59" and M: "0 \<le> M" "M \<le> 999"
    using assms(1-4) by (simp_all add: S_def M_def)
  let ?e = "1 / 2 ^ 32 :: rat"
  have e: "?e < 1 / 1000000" by simp
  have "\<bar>q\<bar> \<le> 1000000" unfolding q abs_le_iff using S M by linarith
  then obtain r where r: "rnd q = Fin r" "\<bar>r - q\<bar> < ?e" using rnd_near by blast
  note rb = r(2) [unfolded abs_less_iff]
  have x: "x = Fin r" using r(1) by (simp add: x_def q_def)
  have low: "S \<le> r"
  proof (cases "ms = 0")
    case True
    then have "rnd q = Fin S" using rnd_of_int [of sec] assms(1,2) by (simp add: q M_def S_def)
    then show ?thesis using r(1) by simp
  next
    case False
    then have "1 \<le> M" using assms(3) by (simp add: M_def)
    then show ?thesis using rb e q by linarith
  qed
  have "r < S + 1" using rb e q M by linarith
  then have "floor r = sec" using low by (simp add: S_def floor_eq_iff)
  then show "to_u32 x = Inr sec" using assms(1,2) low S(1) by (simp add: x to_u32_def)
  have sec: "d_of_int sec = Fin S" unfolding S_def by (rule d_of_int_exact) (use assms(1,2) in auto)
  have "\<bar>r + - S\<bar> \<le> 1000000" unfolding abs_le_iff using rb e q M by linarith
  then obtain a where a: "rnd (r + - S) = Fin a" "\<bar>a - (r + - S)\<bar> < ?e" using rnd_near by blast
  note ab = a(2) [unfolded abs_less_iff]
  have "\<bar>a * 1000\<bar> \<le> 1000000" unfolding abs_le_iff using ab rb e q M by linarith
  then obtain b where b: "rnd (a * 1000) = Fin b" "\<bar>b - a * 1000\<bar> < ?e" using rnd_near by blast
  note bb = b(2) [unfolded abs_less_iff]
  have "\<bar>b + 1 / 2\<bar> \<le> 1000000" unfolding abs_le_iff using bb ab rb e q M by linarith
  then obtain c where c: "rnd (b + 1 / 2) = Fin c" "\<bar>c - (b + 1 / 2)\<bar> < ?e" using rnd_near by blast
  have "M \<le> c" "c < M + 1" using c(2) [unfolded abs_less_iff] bb ab rb e q by linarith+
  then have "floor c = ms" "0 \<le> c" using M(1) by (simp_all add: M_def floor_eq_iff)
  moreover have "d_add (d_mul (d_sub x (d_of_int sec)) (Fin 1000)) (Fin (1 / 2)) = Fin c"
    unfolding x sec using a(1) b(1) c(1) by (simp add: d_sub_def)
  ultimately show "to_u32 (d_add (d_mul (d_sub x (d_of_int sec)) (Fin 1000)) (Fin (1 / 2))) = Inr ms"
    using assms(3,4) by (simp add: to_u32_def)
qed

lemma ms_parts:
  assumes "0 \<le> r" "r < (86400000 :: int)"
  shows "((r div 3600000) * 3600 + (r div 60000 mod 60) * 60 + r div 1000 mod 60) * 1000 + r mod 1000 = r"
    "0 \<le> r div 3600000" "r div 3600000 < 24"
proof -
  have "r mod (60000 * 60) = 60000 * (r div 60000 mod 60) + r mod 60000" "r mod (1000 * 60) = 1000 * (r div 1000 mod 60) + r mod 1000"
    by (rule zmod_zmult2_eq; simp)+
  then show "((r div 3600000) * 3600 + (r div 60000 mod 60) * 60 + r div 1000 mod 60) * 1000 + r mod 1000 = r"
    using div_mult_mod_eq [of r 3600000] by simp
  show "0 \<le> r div 3600000" "r div 3600000 < 24" using assms by auto
qed

lemma set_date_eq:
  assumes "ts \<noteq> POSIX" "1992 \<le> y" "y \<le> 2099" "valid_date y m d" "0 \<le> r" "r < 86400000"
    and scan: "scan_date s = Some (y, m, d, r div 3600000, r div 60000 mod 60, rnd (of_int (r div 1000 mod 60 * 1000 + r mod 1000) / 1000))"
  shows "set_date tm v s ts = jd_plus tm \<lparr>jd_days = civil_days y m d, jd_ms_day = r, jd_time_scale = ts\<rparr>
    (offset_to_utc tm v (civil_days y m d) r ts)"
proof -
  have md: "0 \<le> m" "m \<le> 12" "0 \<le> d" "d \<le> 31" using assms(4) month_length_bounds [of y m] by (auto simp: valid_date_def)
  note p = ms_parts [OF assms(5,6)]
  have wrap: "u32 y = y" "u32 m = m" "u32 d = d" "u32 (r div 3600000) = r div 3600000" "u32 (r div 60000 mod 60) = r div 60000 mod 60"
    "u32 r = r"
    using md p(2,3) assms(2,3,5,6) pos_mod_bound [of 60 "r div 60000"] by simp_all
  have b: "0 \<le> r div 1000 mod 60" "r div 1000 mod 60 < 60" "0 \<le> r mod 1000" "r mod 1000 < 1000" by simp_all
  show ?thesis
    unfolding set_date_def scan option.case prod.case Let_def wrap seconds_back [OF b] bindr_Inr p(1)
    using assms(1-3) posix_days_eq [OF assms(2-4)] by (simp add: checkr_def min_year_def max_year_def)
qed

lemma print_read:
  assumes "time_ok tm" "ts \<in> {UTC, TAI, TT}" "8401 * 86400000 \<le> T" "T < 47481 * 86400000"
  shows "\<exists>s. jd_to_string tm v (jd_of T ts) = Inr s \<and> set_date tm v s ts = Inr (jd_of T ts)"
proof -
  let ?o = "offset_ms ts (T div day_to_ms)"
  define U where "U = T + ?o"
  note o = offset_ms_bounds [of ts "T div day_to_ms"]
  have U: "T \<le> U" "8401 * 86400000 \<le> U" "U < 47482 * 86400000" using o assms(3,4) by (simp_all add: U_def)
  note u = day_parts [of U]
  have days: "8401 \<le> U div day_to_ms" "U div day_to_ms \<le> 47481" using U(2,3) u by linarith+
  obtain y m d where greg: "gregorian_date tm (U div day_to_ms) (U mod day_to_ms) = Inr \<lparr>dt_year = y, dt_month = Some m, dt_day = d,
        dt_hours = U mod day_to_ms div 3600000, dt_minutes = U mod day_to_ms div 60000 mod 60,
        dt_seconds = U mod day_to_ms div 1000 mod 60, dt_millisecs = U mod day_to_ms mod 1000\<rparr>"
      and date: "1993 \<le> y" "y \<le> 2099" "valid_date y m d" "civil_days y m d = U div day_to_ms"
    using gregorian_date_eq [OF assms(1) days u(1,2)] by blast
  have md: "0 \<le> m" "m < 10 ^ 2" "0 \<le> d" "d < 10 ^ 2"
    using date(3) month_length_bounds [of y m] by (auto simp: valid_date_def)
  let ?r = "U mod day_to_ms"
  note p = ms_parts [OF u(1,2)]
  have "2 ^ 31 * day_to_ms > 47482 * 86400000" by (simp add: day_to_ms_def)
  then have T: "0 \<le> T" "T < 2 ^ 31 * day_to_ms" "U < 2 ^ 31 * day_to_ms" "U < 2 ^ 32 * day_to_ms" "T < 2 ^ 32 * day_to_ms"
    using assms(3,4) U by (simp_all add: day_to_ms_def)
  have plus: "jd_plus tm (jd_of T ts) (milliseconds ?o) = Inr (jd_of U ts)"
    unfolding U_def by (rule jd_plus_jd_of) (use assms(1) o T U in \<open>simp_all add: U_def\<close>)
  define s where "s = show_date \<lparr>dt_year = y, dt_month = Some m, dt_day = d, dt_hours = ?r div 3600000,
      dt_minutes = ?r div 60000 mod 60, dt_seconds = ?r div 1000 mod 60, dt_millisecs = ?r mod 1000\<rparr> m ts"
  have print: "jd_to_string tm v (jd_of T ts) = Inr s"
    using greg plus offset_from_utc_ms [OF assms(2)] by (simp add: jd_to_string_def get_date_time_in_def get_date_time_def jd_of_def s_def)
  have "digits 4 y (padded 4 y)" "digits 2 m (padded 2 m)" "digits 2 d (padded 2 d)"
      "digits 2 (?r div 3600000) (padded 2 (?r div 3600000))" "digits 2 (?r div 60000 mod 60) (padded 2 (?r div 60000 mod 60))"
      "digits 2 (?r div 1000 mod 60) (padded 2 (?r div 1000 mod 60))" "digits 3 (?r mod 1000) (padded 3 (?r mod 1000))"
    by (rule padded_digits; use date(1,2) md p(2,3) pos_mod_bound [of 60 "?r div 60000"] pos_mod_bound [of 60 "?r div 1000"]
        pos_mod_bound [of 1000 ?r] in simp)+
  from scan_show_date [OF this, of "show_time_system ts"]
  have scan: "scan_date s = Some (y, m, d, ?r div 3600000, ?r div 60000 mod 60, rnd (of_int (?r div 1000 mod 60 * 1000 + ?r mod 1000) / 1000))"
    unfolding s_def show_date_def date_time.simps .
  have "set_date tm v s ts = jd_plus tm \<lparr>jd_days = civil_days y m d, jd_ms_day = ?r, jd_time_scale = ts\<rparr>
    (offset_to_utc tm v (civil_days y m d) ?r ts)"
    using set_date_eq [OF _ _ date(2,3) u(1,2) scan] assms(2) date(1) by auto
  also have "\<dots> = jd_plus tm (jd_of U ts) (milliseconds (- ?o))"
    using offset_to_utc_back [OF assms(2) T(1,2)] by (simp add: date(4) jd_of_def U_def)
  also have "\<dots> = Inr (jd_of T ts)"
    using jd_plus_jd_of [of tm U "- ?o" ts] assms(1) o T U by (simp add: U_def)
  finally show ?thesis using print by blast
qed

section \<open>The theorems\<close>

text \<open>An exact \<open>Time\<close>, for the witnesses.\<close>

definition exact_time :: ns3_time where
  "exact_time = \<lparr>tm_days = \<lambda>t. Fin (of_int t / of_int 86400000000000), tm_hours = \<lambda>t. Fin (of_int t / of_int 3600000000000),
     tm_minutes = \<lambda>t. Fin (of_int t / of_int 60000000000), tm_seconds = \<lambda>t. Fin (of_int t / of_int 1000000000),
     tm_milliseconds = \<lambda>x. case x of Fin q \<Rightarrow> floor (q * 1000000) | _ \<Rightarrow> 0\<rparr>"

lemma exact_time_ok: "time_ok exact_time"
proof -
  have "to_u32 (Fin (of_int (milliseconds ms) / of_int (u * 1000000))) = Inr (ms div u)"
    if ms: "0 \<le> ms" "ms < 2 ^ 40" and u: "1000 \<le> u" for ms u
  proof -
    have "floor (of_int (milliseconds ms) / of_int (u * 1000000) :: rat) = ms div u"
      unfolding floor_divide_of_int_eq milliseconds_def using u by simp
    moreover have "ms div u \<le> ms div 1000" by (rule zdiv_mono2) (use ms u in auto)
    moreover have "0 \<le> ms div u" using ms u by (simp add: pos_imp_zdiv_nonneg_iff)
    moreover have "(0 :: rat) \<le> of_int (milliseconds ms) / of_int (u * 1000000)" using ms u by (simp add: milliseconds_def)
    ultimately show ?thesis using ms unfolding to_u32_def d_trunc.simps Let_def by simp
  qed
  from this [of _ 86400000] this [of _ 3600000] this [of _ 60000] this [of _ 1000]
  show ?thesis by (simp add: time_ok_def exact_time_def)
qed

text \<open>
  C37. The date of a day from 1 January 1993 to 31 December 2099 is its date in the Gregorian calendar (a month of the
  year, a day of the month, and the days from 1 January 1970 to it), and the hours, minutes, seconds and milliseconds
  are those of the millisecond of the day.
\<close>

theorem gregorian_date_correct:
  assumes "time_ok tm" "civil_days 1993 1 1 \<le> days" "days \<le> civil_days 2099 12 31" "0 \<le> ms" "ms < day_to_ms"
  shows "\<exists>y m d. gregorian_date tm days ms = Inr \<lparr>dt_year = y, dt_month = Some m, dt_day = d, dt_hours = ms div 3600000,
      dt_minutes = ms div 60000 mod 60, dt_seconds = ms div 1000 mod 60, dt_millisecs = ms mod 1000\<rparr> \<and>
    1993 \<le> y \<and> y \<le> 2099 \<and> valid_date y m d \<and> civil_days y m d = days"
proof -
  have "civil_days 1993 1 1 = 8401" "civil_days 2099 12 31 = 47481"
    by (simp_all add: civil_days_def days_before_year_int days_before_month_eq leap_1992_2099)
  then show ?thesis using gregorian_date_eq [of tm days ms] assms by (simp add: day_to_ms_def)
qed

theorem gregorian_date_correct_witness:
  "\<exists>y m d. gregorian_date exact_time 17865 45296007 = Inr \<lparr>dt_year = y, dt_month = Some m, dt_day = d, dt_hours = 12,
      dt_minutes = 34, dt_seconds = 56, dt_millisecs = 7\<rparr> \<and> valid_date y m d \<and> civil_days y m d = 17865"
proof -
  have "civil_days 1993 1 1 \<le> 17865" "17865 \<le> civil_days 2099 12 31"
    by (simp_all add: civil_days_def days_before_year_int days_before_month_eq leap_1992_2099)
  then show ?thesis
    using gregorian_date_correct [OF exact_time_ok, of 17865 45296007] by (auto simp: day_to_ms_def)
qed

text \<open>
  C38. For a valid date of the Gregorian calendar from 1992 to 2099 the formula the code computes with unsigned 32-bit
  integers gives the number of days from 1 January 1970 to that date: no intermediate value of it wraps.
\<close>

theorem posix_days_correct:
  assumes "min_year \<le> y" "y \<le> max_year" "valid_date y m d"
  shows "posix_days y m d = civil_days y m d"
  using posix_days_eq assms by (simp add: min_year_def max_year_def)

theorem posix_days_correct_witness: "posix_days 2000 2 29 = civil_days 2000 2 29 \<and> posix_days 2000 2 29 = 11016"
proof
  have "valid_date 2000 2 29" by (simp add: valid_date_def month_length_def gregorian_leap_def)
  then show "posix_days 2000 2 29 = civil_days 2000 2 29"
    by (intro posix_days_correct) (simp_all add: min_year_def max_year_def)
  show "posix_days 2000 2 29 = 11016" by code_simp
qed

text \<open>A date as a number of milliseconds, and the range in which the code keeps the two parts of it.\<close>

definition jd_total :: "julian_date \<Rightarrow> int" where
  "jd_total jd = jd_days jd * day_to_ms + jd_ms_day jd"

definition jd_ok :: "julian_date \<Rightarrow> bool" where
  "jd_ok jd \<longleftrightarrow> 0 \<le> jd_days jd \<and> jd_days jd < 2 ^ 32 \<and> 0 \<le> jd_ms_day jd \<and> jd_ms_day jd < day_to_ms"

lemma jd_of_total: "jd_ok jd \<Longrightarrow> jd = jd_of (jd_total jd) (jd_time_scale jd)"
  using jd_of_eqI [of "jd_total jd" "jd_days jd" "jd_ms_day jd" "jd_time_scale jd"]
  by (simp add: jd_ok_def jd_total_def day_to_ms_def)

lemma jd_of_parts:
  "0 \<le> T \<Longrightarrow> T < 2 ^ 32 * day_to_ms \<Longrightarrow> jd_ok (jd_of T ts) \<and> jd_total (jd_of T ts) = T \<and> jd_time_scale (jd_of T ts) = ts"
  by (auto simp: jd_ok_def jd_total_def jd_of_def day_to_ms_def)

lemma jd_total_bounds: "jd_ok jd \<Longrightarrow> 0 \<le> jd_total jd \<and> jd_total jd < 2 ^ 32 * day_to_ms"
  by (auto simp: jd_ok_def jd_total_def day_to_ms_def)

text \<open>
  C39. The operators of a date are those of its number of milliseconds: adding a time of k milliseconds, negative ones
  included, or subtracting one of -k gives the date whose number is k more, with the day's milliseconds in range and the time
  system kept, as long as the number stays in the range of the 32-bit day counter; the difference of the two dates is that
  time again exactly if both, as 64-bit nanoseconds, are in the range of a Time, which 106751 days are, and is undefined otherwise.
\<close>

theorem julian_date_arithmetic:
  assumes "time_ok tm" "jd_ok a" "\<bar>k\<bar> < 2 ^ 40" "0 \<le> jd_total a + k" "jd_total a + k < 2 ^ 32 * day_to_ms"
  shows "\<exists>b. jd_plus tm a (milliseconds k) = Inr b \<and> jd_minus tm a (milliseconds (- k)) = Inr b \<and> jd_ok b \<and>
    jd_total b = jd_total a + k \<and> jd_time_scale b = jd_time_scale a \<and>
    jd_diff b a = (if in_int64 (milliseconds (jd_total a)) \<and> in_int64 (milliseconds (jd_total b)) then Inr (milliseconds k)
      else Inl (Undefined ''Time out of range''))"
proof -
  let ?ts = "jd_time_scale a" and ?T = "jd_total a"
  note a = jd_of_total [OF assms(2)] and b = jd_total_bounds [OF assms(2)]
  have "jd_plus tm a (milliseconds k) = Inr (jd_of (?T + k) ?ts)"
    by (subst a) (use jd_plus_jd_of [of tm ?T k ?ts] assms b in simp)
  moreover have "jd_minus tm a (milliseconds (- k)) = Inr (jd_of (?T + k) ?ts)"
    by (subst a) (use jd_minus_jd_of [of tm ?T "- k" ?ts] assms b in simp)
  moreover have "jd_diff (jd_of (?T + k) ?ts) a = (if in_int64 (milliseconds ?T) \<and> in_int64 (milliseconds (?T + k))
      then Inr (milliseconds k) else Inl (Undefined ''Time out of range''))"
    by (subst (2) a) (use jd_diff_jd_of [of "?T + k" ?T ?ts ?ts] assms(4) b in auto)
  moreover have "jd_ok (jd_of (?T + k) ?ts) \<and> jd_total (jd_of (?T + k) ?ts) = ?T + k \<and> jd_time_scale (jd_of (?T + k) ?ts) = ?ts"
    using jd_of_parts [OF assms(4,5), of ?ts] .
  ultimately show ?thesis by (intro exI [of _ "jd_of (?T + k) ?ts"]) simp
qed

theorem julian_date_arithmetic_witness:
  "\<exists>b. jd_plus exact_time \<lparr>jd_days = 10957, jd_ms_day = 500, jd_time_scale = UTC\<rparr> (milliseconds (- 1000)) = Inr b \<and> jd_ok b \<and>
    jd_total b = 10957 * 86400000 - 500 \<and>
    jd_diff b \<lparr>jd_days = 10957, jd_ms_day = 500, jd_time_scale = UTC\<rparr> = Inr (milliseconds (- 1000))"
  using julian_date_arithmetic [OF exact_time_ok, of "\<lparr>jd_days = 10957, jd_ms_day = 500, jd_time_scale = UTC\<rparr>" "- 1000"]
  by (auto simp: jd_ok_def jd_total_def day_to_ms_def milliseconds_def in_int64_def)

text \<open>
  The six comparisons of dates compare the numbers of milliseconds, whatever the time systems the dates are shown in, and the
  difference of two dates in the range of a Time is the difference of the numbers.
\<close>

theorem julian_date_order:
  assumes "jd_ok a" "jd_ok b"
  shows "(jd_less a b \<longleftrightarrow> jd_total a < jd_total b) \<and> (jd_le a b \<longleftrightarrow> jd_total a \<le> jd_total b) \<and>
    (jd_greater a b \<longleftrightarrow> jd_total a > jd_total b) \<and> (jd_ge a b \<longleftrightarrow> jd_total a \<ge> jd_total b) \<and>
    (jd_eq a b \<longleftrightarrow> jd_total a = jd_total b) \<and> (jd_neq a b \<longleftrightarrow> jd_total a \<noteq> jd_total b) \<and>
    (in_int64 (milliseconds (jd_total a)) \<and> in_int64 (milliseconds (jd_total b)) \<longrightarrow>
       jd_diff a b = Inr (milliseconds (jd_total a - jd_total b)))"
proof -
  have total: "jd_total (jd_of T ts) = T" for T ts by (simp add: jd_total_def jd_of_def day_to_ms_def)
  have "0 \<le> jd_total a" "0 \<le> jd_total b" using jd_total_bounds assms by blast+
  moreover have "a = jd_of (jd_total a) (jd_time_scale a)" "b = jd_of (jd_total b) (jd_time_scale b)" using jd_of_total assms by blast+
  ultimately obtain T U ts us where "a = jd_of T ts" "b = jd_of U us" "0 \<le> T" "0 \<le> U" by blast
  then show ?thesis by (simp add: total jd_less_jd_of jd_order_jd_of jd_eq_jd_of jd_diff_jd_of)
qed

theorem julian_date_order_witness:
  "jd_less \<lparr>jd_days = 8035, jd_ms_day = 86399999, jd_time_scale = TT\<rparr> \<lparr>jd_days = 8036, jd_ms_day = 0, jd_time_scale = UTC\<rparr>"
  using julian_date_order [of "\<lparr>jd_days = 8035, jd_ms_day = 86399999, jd_time_scale = TT\<rparr>" "\<lparr>jd_days = 8036, jd_ms_day = 0, jd_time_scale = UTC\<rparr>"]
  by (simp add: jd_ok_def jd_total_def day_to_ms_def)

text \<open>
  C40. A date of the days from 1 January 1993 to 30 December 2099 printed in UTC, in atomic time or in terrestrial time is read
  back, in the same time system, as the same instant, to the millisecond: the offset that is added when it is printed is the one
  subtracted when it is read, also when it carries into the next day.
\<close>

theorem julian_date_print_read:
  assumes "time_ok tm" "ts \<in> {UTC, TAI, TT}" "civil_days 1993 1 1 \<le> jd_days jd" "jd_days jd \<le> civil_days 2099 12 30"
    and "0 \<le> jd_ms_day jd" "jd_ms_day jd < day_to_ms"
  shows "\<exists>s. jd_to_string_in tm v ts jd = Inr s \<and> set_date tm v s ts = Inr (jd\<lparr>jd_time_scale := ts\<rparr>)"
proof -
  let ?T = "jd_total jd"
  have days: "civil_days 1993 1 1 = 8401" "civil_days 2099 12 30 = 47480"
    by (simp_all add: civil_days_def days_before_year_int days_before_month_eq leap_1992_2099)
  have "jd_ok jd" using assms(3-6) unfolding days by (simp add: jd_ok_def)
  from jd_of_total [OF this] have "jd\<lparr>jd_time_scale := ts\<rparr> = jd_of ?T ts"
    by (metis jd_of_def julian_date.update_convs(3))
  moreover have "8401 * 86400000 \<le> ?T" "?T < 47481 * 86400000"
    using assms(3-6) unfolding days by (simp_all add: jd_total_def day_to_ms_def)
  ultimately show ?thesis using print_read [OF assms(1,2), of ?T v] by (simp add: jd_to_string_in_def)
qed

theorem julian_date_print_read_witness:
  "\<exists>s. jd_to_string_in exact_time [] TT \<lparr>jd_days = 10956, jd_ms_day = 86399999, jd_time_scale = UTC\<rparr> = Inr s \<and>
    set_date exact_time [] s TT = Inr \<lparr>jd_days = 10956, jd_ms_day = 86399999, jd_time_scale = TT\<rparr>"
proof -
  have days: "civil_days 1993 1 1 = 8401" "civil_days 2099 12 30 = 47480"
    by (simp_all add: civil_days_def days_before_year_int days_before_month_eq leap_1992_2099)
  show ?thesis
    using julian_date_print_read [OF exact_time_ok, of TT "\<lparr>jd_days = 10956, jd_ms_day = 86399999, jd_time_scale = UTC\<rparr>" "[]"]
    by (simp add: day_to_ms_def days)
qed

section \<open>Where the code goes wrong\<close>

text \<open>
  In 1992 the count of leap years before the year, an unsigned difference, wraps: the day of the year is out of every month, and
  the month stays unset.
\<close>

lemma u32_neg: "- 4294967296 \<le> x \<Longrightarrow> x < 0 \<Longrightarrow> u32 x = x + 4294967296"
  using to_uint32_id [of "x + 4294967296"] by (simp add: to_uint32_def)

lemma gregorian_date_1992:
  assumes "time_ok tm" "civil_days 1992 1 1 \<le> days" "days \<le> civil_days 1992 12 31" "0 \<le> ms" "ms < day_to_ms"
  shows "jd_to_string tm v \<lparr>jd_days = days, jd_ms_day = ms, jd_time_scale = UTC\<rparr> = Inl (Undefined ''uninitialised month'')"
proof -
  have days: "8035 \<le> days" "days \<le> 8400"
    using assms(2,3) by (simp_all add: civil_days_def days_before_year_int days_before_month_eq leap_1992_2099)
  define d where "d = days - 8035"
  have d: "0 \<le> d" "d \<le> 365" using days by (simp_all add: d_def)
  have "jd_plus tm (jd_of (days * 86400000 + ms) UTC) (milliseconds 0) = Inr (jd_of (days * 86400000 + ms) UTC)"
    using jd_plus_jd_of [of tm "days * 86400000 + ms" 0 UTC] assms days by (simp add: day_to_ms_def)
  moreover have jd: "jd_of (days * 86400000 + ms) UTC = \<lparr>jd_days = days, jd_ms_day = ms, jd_time_scale = UTC\<rparr>"
    by (rule jd_of_eqI) (use assms in \<open>simp_all add: day_to_ms_def\<close>)
  ultimately have plus: "jd_plus tm \<lparr>jd_days = days, jd_ms_day = ms, jd_time_scale = UTC\<rparr> (milliseconds 0) =
      Inr \<lparr>jd_days = days, jd_ms_day = ms, jd_time_scale = UTC\<rparr>" by simp
  have off: "offset_from_utc tm v days UTC = milliseconds 0" by (simp add: offset_from_utc_def milliseconds_def)
  have wraps: "u32 (days - posix_1992) = d" "u32 (0 + min_year) = 1992" "u32 (1992 - (min_year + 1)) = 4294967295"
    using days u32_neg [of "- 1"] by (simp_all add: posix_1992_def min_year_def d_def)
  have doy: "u32 (d - u32 ((1992 - min_year) * 365 + 4294967295 div 4)) = d + 3221225473"
    using d u32_neg [of "d - 1073741823"] by (simp add: min_year_def)
  have none: "fst (find_month 0 (month_days 1992) (d + 3221225473)) = None"
    using d by (simp add: month_days_def is_leap_year_def)
  obtain k where month: "find_month 0 (month_days 1992) (d + 3221225473) = (None, k)"
    using none by (cases "find_month 0 (month_days 1992) (d + 3221225473)") simp
  have "4 * d div 1461 = 0" using d by simp
  then have quot: "to_u32 (d_div (d_of_int d) (Fin (1461 / 4))) = Inr 0" using quarter_days [of d] d by simp
  have p: "0 \<le> x mod n" "x mod n < 2 ^ 40" if "0 < n" "n < 2 ^ 40" for x n :: int
    using that pos_mod_bound [of n x] pos_mod_sign [of n x] by linarith+
  note tm = assms(1) [unfolded time_ok_def, rule_format]
  have t0: "to_u32 (tm_hours tm (milliseconds ms)) = Inr (ms div 3600000)" using tm [of ms] assms(4,5) by (simp add: day_to_ms_def)
  have r1: "ms - ms div 3600000 * 3600000 = ms mod 3600000" for ms :: int by (rule minus_div_mult_eq_mod)
  have t1: "to_u32 (tm_minutes tm (milliseconds (ms mod 3600000))) = Inr (ms mod 3600000 div 60000)"
    using tm [OF p [of 3600000 ms]] by simp
  have t2: "to_u32 (tm_seconds tm (milliseconds (ms mod 3600000 mod 60000))) = Inr (ms mod 3600000 mod 60000 div 1000)"
    using tm [OF p [of 60000 "ms mod 3600000"]] by simp
  have "\<exists>dt. gregorian_date tm days ms = Inr dt \<and> dt_month dt = None"
    unfolding gregorian_date_def Let_def wraps quot bindr_Inr doy month prod.case t0 milliseconds_diff minus_div_mult_eq_mod t1 t2 by simp
  then show ?thesis using plus off by (auto simp: jd_to_string_def get_date_time_in_def get_date_time_def)
qed

text \<open>
  The table of leap seconds holds the days on which the next second applies, and the search finds the first entry that is not
  less: on such a day itself the count is still the old one, though the leap second is past.
\<close>

lemma leap_second_a_day_late:
  "leap_seconds ! 17 = posix_days 1993 7 1" "tai_minus_utc 8582 = milliseconds 27000" "tai_minus_utc 8583 = milliseconds 28000"
  "posix_days 1993 7 1 = 8582"
  by code_simp+

text \<open>
  Reading a date in GPS time compares the millisecond of the day with the offset of atomic time, 19 seconds more than the offset
  that is subtracted: just after midnight of the day after such a day the offset of the day before is taken.
\<close>

lemma gps_time_off_by_a_second:
  "offset_from_utc tm v 8583 GPST = milliseconds 9000"
  "offset_to_utc tm v 8583 14000 GPST = milliseconds (- 8000)"
proof -
  have "tai_minus_utc 8583 = milliseconds 28000" "tai_minus_utc 8582 = milliseconds 27000" by (rule leap_second_a_day_late)+
  then show "offset_from_utc tm v 8583 GPST = milliseconds 9000" "offset_to_utc tm v 8583 14000 GPST = milliseconds (- 8000)"
    by (simp_all add: offset_from_utc_def offset_to_utc_def tai_to_gps_def milliseconds_def get_milliseconds_def)
qed

text \<open>The date as a floating-point number never has the offset of the time system it is asked for in.\<close>

lemma get_double_ignores_time_system:
  "ts \<noteq> POSIX \<Longrightarrow> us \<noteq> POSIX \<Longrightarrow> get_double tm v ts jd = get_double tm v us jd"
  by (simp add: get_double_def)

end
