(* ===== verification/Basic_Simulation.thy ===== *)
theory Basic_Simulation
  imports Exp_Util
begin

text \<open>
  basic-sim: basic-simulation.cc, the environment every run lives in. It is created from a run directory,
  configures itself, hands out configuration parameters while the components are set up, refuses to run if some
  parameter was never asked for, shows the progress and stores how long everything took. The theorems say what a
  simulation that was created satisfies, which configurations are run, what the files in the logs directory hold
  at every stage, and in which intervals the progress is shown.

  The wall clock is a parameter: reading number \<open>n\<close> of a run is \<open>clock n\<close> nanoseconds since the epoch. What MPI
  answers is a parameter too; a build without MPI uses the stub of basic-simulation.h, which throws. The calls
  into ns-3's simulator are recorded: the stop time and the delay after which the progress is shown next. A file
  that is opened for writing is assumed to open, as the code does not look.
\<close>

section \<open>State\<close>

text \<open>A build with MPI, with the own system and the number of systems, or the build has none.\<close>

datatype mpi = No_mpi | Mpi int int

record basic_simulation =
  sim_fs :: fsys
  sim_clock_reads :: nat
  m_timestamps :: "(string \<times> int) list"
  m_run_dir :: string
  m_logs_dir :: string
  m_finished_filename :: string
  m_timing_results_csv_filename :: string
  m_timing_results_txt_filename :: string
  m_config :: config
  m_config_requested_keys :: "string list"
  m_simulation_seed :: int
  m_simulation_end_time_ns :: int
  m_system_id :: int
  m_systems_count :: int
  m_enable_distributed :: bool
  m_distributed_node_system_id_assignment :: "int list"
  m_sim_start_time_ns_since_epoch :: int
  m_last_log_time_ns_since_epoch :: int
  m_counter_progress_updates :: int
  m_progress_interval_ns :: double
  m_simulation_event_interval_s :: double
  sim_stop_ns :: "int option"
  sim_mpi_enabled :: bool

definition basic_simulation_init :: "fsys \<Rightarrow> string \<Rightarrow> basic_simulation" where
  "basic_simulation_init fs run_dir = \<lparr>sim_fs = fs, sim_clock_reads = 0, m_timestamps = [], m_run_dir = run_dir, m_logs_dir = [],
     m_finished_filename = [], m_timing_results_csv_filename = [], m_timing_results_txt_filename = [], m_config = [],
     m_config_requested_keys = [], m_simulation_seed = 0, m_simulation_end_time_ns = 0, m_system_id = 0, m_systems_count = 0,
     m_enable_distributed = False, m_distributed_node_system_id_assignment = [], m_sim_start_time_ns_since_epoch = 0,
     m_last_log_time_ns_since_epoch = 0, m_counter_progress_updates = 0, m_progress_interval_ns = Fin 10000000000,
     m_simulation_event_interval_s = rnd (1 / 10), sim_stop_ns = None, sim_mpi_enabled = False\<rparr>"

definition now_ns_since_epoch :: "(nat \<Rightarrow> int) \<Rightarrow> basic_simulation \<Rightarrow> int \<times> basic_simulation" where
  "now_ns_since_epoch clock s = (clock (sim_clock_reads s), s\<lparr>sim_clock_reads := Suc (sim_clock_reads s)\<rparr>)"

definition register_timestamp :: "(nat \<Rightarrow> int) \<Rightarrow> string \<Rightarrow> basic_simulation \<Rightarrow> basic_simulation" where
  "register_timestamp clock label s = (case now_ns_since_epoch clock s of (now, s1) \<Rightarrow>
     s1\<lparr>m_timestamps := m_timestamps s1 @ [(label, now)]\<rparr>)"

section \<open>Parameters\<close>

definition get_config_param_or_fail :: "string \<Rightarrow> basic_simulation \<Rightarrow> (string \<times> basic_simulation) res" where
  "get_config_param_or_fail key s =
     bindr (get_param_or_fail key (m_config s)) (\<lambda>v.
       Inr (v, s\<lparr>m_config_requested_keys := insort_insert key (m_config_requested_keys s)\<rparr>))"

definition get_config_param_or_default :: "string \<Rightarrow> string \<Rightarrow> basic_simulation \<Rightarrow> string \<times> basic_simulation" where
  "get_config_param_or_default key default_value s =
     (get_param_or_default key default_value (m_config s),
      s\<lparr>m_config_requested_keys := insort_insert key (m_config_requested_keys s)\<rparr>)"

section \<open>Construction\<close>

definition configure_run_directory :: "(nat \<Rightarrow> int) \<Rightarrow> basic_simulation \<Rightarrow> basic_simulation res" where
  "configure_run_directory clock s =
     bindr (checkr (dir_exists (sim_fs s) (m_run_dir s))
       (Runtime_error (''Run directory '' @ dquote @ m_run_dir s @ dquote @ '' does not exist.''))) (\<lambda>_.
     let s1 = s\<lparr>m_logs_dir := m_run_dir s @ ''/logs_ns3''\<rparr> in
     bindr (mkdir_if_not_exists (m_logs_dir s1) (sim_fs s1)) (\<lambda>fs.
       Inr (register_timestamp clock ''Configure run and logs directory'' (s1\<lparr>sim_fs := fs\<rparr>))))"

definition read_simulation_config :: "basic_simulation \<Rightarrow> basic_simulation res" where
  "read_simulation_config s =
     bindr (read_config (sim_fs s) (m_run_dir s @ ''/config_ns3.properties'')) (\<lambda>config.
     let s1 = s\<lparr>m_config := config\<rparr> in
     bindr (get_config_param_or_fail ''simulation_end_time_ns'' s1) (\<lambda>(end_str, s2).
     bindr (parse_positive_int64 end_str) (\<lambda>end_ns.
     bindr (get_config_param_or_fail ''simulation_seed'' (s2\<lparr>m_simulation_end_time_ns := end_ns\<rparr>)) (\<lambda>(seed_str, s3).
     bindr (parse_positive_int64 seed_str) (\<lambda>seed.
       Inr (s3\<lparr>m_simulation_seed := seed\<rparr>))))))"

text \<open>
  The check of the assignment, with the number of nodes of every system as the loop counts them; \<open>i\<close> is the node.
\<close>

fun check_assignment :: "int \<Rightarrow> int \<Rightarrow> int list \<Rightarrow> int list \<Rightarrow> int list res" where
  "check_assignment k i [] counter = Inr counter"
| "check_assignment k i (a # rest) counter =
     (if a < 0 \<or> a \<ge> k
      then Inl (Invalid_argument (''Node '' @ show_int i @ '' is assigned to an invalid system id '' @ show_int a @ '' (k='' @ show_int k @ '')''))
      else check_assignment k (i + 1) rest (counter[nat a := counter ! nat a + 1]))"

text \<open>
  Printing the unknown implementation type passes a \<open>std::string\<close> object where the format demands a pointer.
\<close>

definition configure_distributed :: "mpi \<Rightarrow> basic_simulation \<Rightarrow> basic_simulation res" where
  "configure_distributed m s =
     bindr (get_config_param_or_fail ''distributed_simulator_implementation_type'' s) (\<lambda>(implementation, s1).
     bindr (checkr (implementation = ''nullmsg'' \<or> implementation = ''default'') (Undefined ''std::string passed for %s'')) (\<lambda>_.
     (case m of
        No_mpi \<Rightarrow> Inl (Runtime_error ''This build has no MPI support (distributed mode unavailable)'')
      | Mpi system_id systems \<Rightarrow>
     let s2 = s1\<lparr>sim_mpi_enabled := True, m_system_id := system_id, m_systems_count := systems\<rparr> in
     bindr (get_config_param_or_fail ''distributed_systems_count'' s2) (\<lambda>(count_str, s3).
     bindr (parse_positive_int64 count_str) (\<lambda>count.
     bindr (checkr (m_systems_count s3 = to_uint32 count)
       (Runtime_error (''Systems count in configuration ('' @ show_int (to_uint32 count) @
          '') does not match up with MPI systems count ('' @ show_int (m_systems_count s3) @ '')''))) (\<lambda>_.
     bindr (get_config_param_or_fail ''distributed_node_system_id_assignment'' s3) (\<lambda>(assignment_str, s4).
     bindr (parse_list_positive_int64 assignment_str) (\<lambda>assignment.
     bindr (check_assignment (m_systems_count s4) 0 assignment (replicate (nat (m_systems_count s4)) 0)) (\<lambda>counter.
       Inr (s4\<lparr>m_distributed_node_system_id_assignment := assignment\<rparr>))))))))))"

definition configure_simulation :: "(nat \<Rightarrow> int) \<Rightarrow> mpi \<Rightarrow> basic_simulation \<Rightarrow> basic_simulation res" where
  "configure_simulation clock m s =
     (case get_config_param_or_default ''enable_distributed'' ''false'' s of (enable_str, s1) \<Rightarrow>
     bindr (parse_boolean enable_str) (\<lambda>enabled.
     let s2 = s1\<lparr>m_enable_distributed := enabled\<rparr> in
     bindr (if enabled then configure_distributed m s2
            else Inr (s2\<lparr>m_distributed_node_system_id_assignment := [], m_system_id := 0, m_systems_count := 1\<rparr>)) (\<lambda>s3.
       Inr (register_timestamp clock ''Configure simulator'' (s3\<lparr>sim_stop_ns := Some (m_simulation_end_time_ns s3)\<rparr>)))))"

definition prepare_basic_simulation_log_files :: "basic_simulation \<Rightarrow> basic_simulation res" where
  "prepare_basic_simulation_log_files s =
     (let p = m_logs_dir s @ ''/'' @ (if m_enable_distributed s then ''system_'' @ show_int (m_system_id s) @ ''_'' else '''');
          s1 = s\<lparr>m_finished_filename := p @ ''finished.txt'', m_timing_results_txt_filename := p @ ''timing_results.txt'',
                 m_timing_results_csv_filename := p @ ''timing_results.csv''\<rparr> in
      bindr (remove_file_if_exists (m_finished_filename s1) (sim_fs s1)) (\<lambda>fs1.
      bindr (remove_file_if_exists (m_timing_results_txt_filename s1) fs1) (\<lambda>fs2.
      bindr (remove_file_if_exists (m_timing_results_csv_filename s1) fs2) (\<lambda>fs3.
        Inr (s1\<lparr>sim_fs := fs3\<rparr>)))))"

definition write_file :: "string \<Rightarrow> string \<Rightarrow> fsys \<Rightarrow> fsys" where
  "write_file filename content fs = fs\<lparr>fs_files := (fs_files fs)(filename \<mapsto> content)\<rparr>"

definition write_finished :: "bool \<Rightarrow> basic_simulation \<Rightarrow> basic_simulation" where
  "write_finished finished s =
     s\<lparr>sim_fs := write_file (m_finished_filename s) ((if finished then ''Yes'' else ''No'') @ [newline]) (sim_fs s)\<rparr>"

definition new_basic_simulation :: "(nat \<Rightarrow> int) \<Rightarrow> mpi \<Rightarrow> fsys \<Rightarrow> string \<Rightarrow> basic_simulation res" where
  "new_basic_simulation clock m fs run_dir =
     bindr (configure_run_directory clock (register_timestamp clock ''Start'' (basic_simulation_init fs run_dir))) (\<lambda>s1.
     bindr (read_simulation_config s1) (\<lambda>s2.
     bindr (configure_simulation clock m s2) (\<lambda>s3.
     bindr (prepare_basic_simulation_log_files s3) (\<lambda>s4.
       Inr (write_finished False s4)))))"

section \<open>Running\<close>

definition unused_key_error :: "string \<Rightarrow> exn" where
  "unused_key_error key =
     Runtime_error (''Config key '' @ CHR 0x27 # key @ CHR 0x27 # '' has not been requested (unused config keys are not allowed)'')"

definition confirm_all_config_param_keys_requested :: "basic_simulation \<Rightarrow> unit res" where
  "confirm_all_config_param_keys_requested s =
     foldr_res (\<lambda>(key, _) _. checkr (key \<in> set (m_config_requested_keys s)) (unused_key_error key)) (sort_key fst (m_config s)) ()"

definition start_run :: "(nat \<Rightarrow> int) \<Rightarrow> basic_simulation \<Rightarrow> basic_simulation res" where
  "start_run clock s =
     (let s1 = register_timestamp clock ''Whatever is between previous timestamp and the simulation run'' s in
      bindr (confirm_all_config_param_keys_requested s1) (\<lambda>_.
      case now_ns_since_epoch clock s1 of (now, s2) \<Rightarrow>
        Inr (s2\<lparr>m_sim_start_time_ns_since_epoch := now, m_last_log_time_ns_since_epoch := now\<rparr>)))"

text \<open>The estimate of the remaining wall clock time: hours and minutes, minutes and seconds, or seconds.\<close>

datatype remainder = Hours_minutes int int | Minutes_seconds int int | Seconds_only int

definition c_mod :: "int \<Rightarrow> int \<Rightarrow> int" where
  "c_mod a b = (if 0 \<le> a then a mod b else - ((- a) mod b))"

definition c_div :: "int \<Rightarrow> int \<Rightarrow> int" where
  "c_div a b = (if 0 \<le> a then a div b else - ((- a) div b))"

definition remaining_time :: "int \<Rightarrow> remainder" where
  "remaining_time remaining_s =
     (let seconds = c_mod remaining_s 60; minutes = c_mod (c_div (remaining_s - seconds) 60) 60;
          hours = c_div (remaining_s - seconds - minutes * 60) 3600 in
      if hours > 0 then Hours_minutes hours minutes
      else if minutes > 0 then Minutes_seconds minutes seconds else Seconds_only seconds)"

definition remaining_s :: "int \<Rightarrow> double \<Rightarrow> basic_simulation \<Rightarrow> int res" where
  "remaining_s now sim_s s =
     d_trunc (d_div (d_sub (nanosec_to_sec (m_simulation_end_time_ns s)) sim_s)
       (d_div sim_s (nanosec_to_sec (now - m_sim_start_time_ns_since_epoch s)))) (- (2 ^ 31)) (2 ^ 31 - 1)"

definition next_progress_interval_ns :: "int \<Rightarrow> double" where
  "next_progress_interval_ns counter =
     (if counter < 4 then Fin 10000000000 else if counter < 19 then Fin 20000000000
      else if counter < 99 then Fin 60000000000 else Fin 360000000000)"

text \<open>
  \<open>ShowSimulationProgress\<close> at simulation time \<open>sim_s\<close> in seconds: the progress that is printed, if any, with its
  estimate, if any. The state holds the delay of the next call.
\<close>

definition show_simulation_progress ::
  "(nat \<Rightarrow> int) \<Rightarrow> double \<Rightarrow> basic_simulation \<Rightarrow> (remainder option option \<times> basic_simulation) res" where
  "show_simulation_progress clock sim_s s = (case now_ns_since_epoch clock s of (now, s1) \<Rightarrow>
     bindr (if d_lt (m_progress_interval_ns s1) (d_of_int (now - m_last_log_time_ns_since_epoch s1))
            then
              let n = m_counter_progress_updates s1 in
              bindr (if n < 8 \<or> n mod 5 = 0
                     then bindr (remaining_s now sim_s s1) (\<lambda>r. Inr (Some (remaining_time r))) else Inr None) (\<lambda>estimate.
              Inr (Some estimate, s1\<lparr>m_last_log_time_ns_since_epoch := now, m_progress_interval_ns := next_progress_interval_ns n,
                     m_counter_progress_updates := n + 1\<rparr>))
            else Inr (None, s1)) (\<lambda>(shown, s2).
     let speed = d_div sim_s (nanosec_to_sec (now - m_sim_start_time_ns_since_epoch s2)) in
     Inr (shown, s2\<lparr>m_simulation_event_interval_s :=
       d_div (d_mul speed (d_div (m_progress_interval_ns s2) (Fin 1000000000))) (Fin 5)\<rparr>)))"

text \<open>\<open>Run\<close>, with the times at which the simulator calls the progress: the others of its events are not the simulation's.\<close>

definition run_simulation :: "(nat \<Rightarrow> int) \<Rightarrow> double list \<Rightarrow> basic_simulation \<Rightarrow> (remainder option list \<times> basic_simulation) res" where
  "run_simulation clock progress_times s =
     bindr (start_run clock s) (\<lambda>s1.
     bindr (foldr_res (\<lambda>sim_s (shown, s). bindr (show_simulation_progress clock sim_s s) (\<lambda>(p, s').
       Inr (case p of None \<Rightarrow> shown | Some e \<Rightarrow> shown @ [e], s'))) progress_times ([], s1)) (\<lambda>(shown, s2).
     case now_ns_since_epoch clock s2 of (_, s3) \<Rightarrow> Inr (shown, register_timestamp clock ''Run simulation'' s3)))"

section \<open>The end\<close>

definition clean_up_simulation :: "(nat \<Rightarrow> int) \<Rightarrow> basic_simulation \<Rightarrow> basic_simulation" where
  "clean_up_simulation clock s =
     (let s1 = register_timestamp clock ''Destroy simulator'' s in
      if m_enable_distributed s1 then register_timestamp clock ''Disable MPI interface'' (s1\<lparr>sim_mpi_enabled := False\<rparr>) else s1)"

text \<open>The rows of timing_results.csv: what was done and how long it took. \<open>-1\<close> says that there is no previous time.\<close>

fun timing_rows :: "int \<Rightarrow> (string \<times> int) list \<Rightarrow> (string \<times> int) list" where
  "timing_rows t_prev [] = []"
| "timing_rows t_prev ((label, t) # ts) =
     (if t_prev = -1 then timing_rows t ts else (label, t - t_prev) # timing_rows t ts)"

definition timing_csv :: "(string \<times> int) list \<Rightarrow> string" where
  "timing_csv rows = concat (map (\<lambda>(label, d). label @ '','' @ show_int d @ [newline]) rows)"

text \<open>The text file has the same rows in seconds with one decimal: \<open>txt\<close> is its content.\<close>

definition store_timing_results :: "((string \<times> int) list \<Rightarrow> string) \<Rightarrow> basic_simulation \<Rightarrow> basic_simulation" where
  "store_timing_results txt s =
     s\<lparr>sim_fs := write_file (m_timing_results_csv_filename s) (timing_csv (timing_rows (-1) (m_timestamps s)))
       (write_file (m_timing_results_txt_filename s) (txt (m_timestamps s)) (sim_fs s))\<rparr>"

definition finalize_simulation :: "(nat \<Rightarrow> int) \<Rightarrow> ((string \<times> int) list \<Rightarrow> string) \<Rightarrow> basic_simulation \<Rightarrow> basic_simulation" where
  "finalize_simulation clock txt s = write_finished True (store_timing_results txt (clean_up_simulation clock s))"

section \<open>Construction\<close>

lemma mkdir_fs: "mkdir_if_not_exists d fs = Inr fs1 \<Longrightarrow> fs1 = fs\<lparr>fs_dirs := (fs_dirs fs)(d := True)\<rparr>"
  by (cases fs) (auto simp: mkdir_if_not_exists_def dir_exists_def split: if_splits)

lemma remove_file_fs: "remove_file_if_exists f fs = Inr fs1 \<Longrightarrow> fs1 = fs\<lparr>fs_files := (fs_files fs)(f := None)\<rparr>"
  by (cases fs) (auto simp: remove_file_if_exists_def file_exists_def split: if_splits)

lemma read_config_dirs [simp]: "read_config (fs\<lparr>fs_dirs := d\<rparr>) f = read_config fs f"
  by (simp add: read_config_def file_exists_def open_lines_def split: option.splits)

lemma check_assignment_ok:
  assumes "check_assignment k i ids counter = Inr counter1" "length counter = nat k"
  shows "(\<forall>a \<in> set ids. 0 \<le> a \<and> a < k) \<and>
    (\<forall>j < nat k. counter1 ! j = counter ! j + int (length (filter (\<lambda>a. a = int j) ids)))"
  using assms
proof (induction k i ids counter rule: check_assignment.induct)
  case (2 k i a rest counter)
  from 2(2) have a: "0 \<le> a" "a < k" by (auto split: if_splits)
  with 2 show ?case by (auto simp: nth_list_update)
qed simp

lemma register_timestamp_fields [simp]:
  "sim_fs (register_timestamp clock l s) = sim_fs s" "m_config (register_timestamp clock l s) = m_config s"
  "m_run_dir (register_timestamp clock l s) = m_run_dir s" "m_logs_dir (register_timestamp clock l s) = m_logs_dir s"
  "m_config_requested_keys (register_timestamp clock l s) = m_config_requested_keys s"
  "m_simulation_end_time_ns (register_timestamp clock l s) = m_simulation_end_time_ns s"
  "m_simulation_seed (register_timestamp clock l s) = m_simulation_seed s"
  "m_enable_distributed (register_timestamp clock l s) = m_enable_distributed s"
  "m_system_id (register_timestamp clock l s) = m_system_id s" "m_systems_count (register_timestamp clock l s) = m_systems_count s"
  "m_distributed_node_system_id_assignment (register_timestamp clock l s) = m_distributed_node_system_id_assignment s"
  "m_finished_filename (register_timestamp clock l s) = m_finished_filename s"
  "m_timing_results_csv_filename (register_timestamp clock l s) = m_timing_results_csv_filename s"
  "m_timing_results_txt_filename (register_timestamp clock l s) = m_timing_results_txt_filename s"
  "m_counter_progress_updates (register_timestamp clock l s) = m_counter_progress_updates s"
  "m_progress_interval_ns (register_timestamp clock l s) = m_progress_interval_ns s"
  "sim_stop_ns (register_timestamp clock l s) = sim_stop_ns s"
  "sim_clock_reads (register_timestamp clock l s) = Suc (sim_clock_reads s)"
  "m_timestamps (register_timestamp clock l s) = m_timestamps s @ [(l, clock (sim_clock_reads s))]"
  by (simp_all add: register_timestamp_def now_ns_since_epoch_def)

text \<open>Which parameters a configuration is asked for while the simulation is created.\<close>

definition base_keys :: "bool \<Rightarrow> string set" where
  "base_keys distributed = {''simulation_end_time_ns'', ''simulation_seed'', ''enable_distributed''} \<union>
     (if distributed then {''distributed_simulator_implementation_type'', ''distributed_systems_count'',
        ''distributed_node_system_id_assignment''} else {})"

definition log_file_name :: "basic_simulation \<Rightarrow> string \<Rightarrow> string" where
  "log_file_name s name =
     m_logs_dir s @ ''/'' @ (if m_enable_distributed s then ''system_'' @ show_int (m_system_id s) @ ''_'' else '''') @ name"

lemma configure_run_directory_ok:
  assumes "configure_run_directory clock s = Inr s1"
  shows "dir_exists (sim_fs s) (m_run_dir s)"
    "s1 = register_timestamp clock ''Configure run and logs directory'' (s\<lparr>m_logs_dir := m_run_dir s @ ''/logs_ns3'',
       sim_fs := (sim_fs s)\<lparr>fs_dirs := (fs_dirs (sim_fs s))(m_run_dir s @ ''/logs_ns3'' := True)\<rparr>\<rparr>)"
  using assms by (auto simp: configure_run_directory_def bindr_eq_Inr checkr_eq_Inr Let_def dest!: mkdir_fs)

lemma read_simulation_config_ok:
  assumes "read_simulation_config s = Inr s1"
  shows "\<exists>config end_ns seed. read_config (sim_fs s) (m_run_dir s @ ''/config_ns3.properties'') = Inr config \<and> 0 \<le> end_ns \<and> 0 \<le> seed \<and>
    s1 = s\<lparr>m_config := config, m_simulation_end_time_ns := end_ns, m_config_requested_keys :=
      insort_insert ''simulation_seed'' (insort_insert ''simulation_end_time_ns'' (m_config_requested_keys s)), m_simulation_seed := seed\<rparr>"
proof -
  have nonneg: "0 \<le> v" if "parse_positive_int64 str = Inr v" for str v
    using that by (auto simp: parse_positive_int64_def bindr_eq_Inr split: if_splits)
  obtain config end_str end_ns seed_str seed where "read_config (sim_fs s) (m_run_dir s @ ''/config_ns3.properties'') = Inr config"
      "parse_positive_int64 end_str = Inr end_ns" "parse_positive_int64 seed_str = Inr seed"
      "s1 = s\<lparr>m_config := config, m_simulation_end_time_ns := end_ns, m_config_requested_keys :=
        insort_insert ''simulation_seed'' (insort_insert ''simulation_end_time_ns'' (m_config_requested_keys s)), m_simulation_seed := seed\<rparr>"
    using assms by (auto simp: read_simulation_config_def bindr_eq_Inr get_config_param_or_fail_def Let_def)
  with nonneg show ?thesis by blast
qed

lemma configure_distributed_ok:
  assumes "configure_distributed m s = Inr s1"
  shows "\<exists>id k ids. m = Mpi id k \<and> (\<forall>a \<in> set ids. 0 \<le> a \<and> a < k) \<and>
    s1 = s\<lparr>sim_mpi_enabled := True, m_system_id := id, m_systems_count := k, m_distributed_node_system_id_assignment := ids,
      m_config_requested_keys := insort_insert ''distributed_node_system_id_assignment'' (insort_insert ''distributed_systems_count''
        (insort_insert ''distributed_simulator_implementation_type'' (m_config_requested_keys s)))\<rparr>"
proof (cases m)
  case No_mpi
  then show ?thesis using assms by (auto simp: configure_distributed_def bindr_eq_Inr get_config_param_or_fail_def)
next
  case (Mpi id k)
  from assms obtain ids counter where "check_assignment k 0 ids (replicate (nat k) 0) = Inr counter"
      "s1 = s\<lparr>sim_mpi_enabled := True, m_system_id := id, m_systems_count := k, m_distributed_node_system_id_assignment := ids,
        m_config_requested_keys := insort_insert ''distributed_node_system_id_assignment'' (insort_insert ''distributed_systems_count''
          (insort_insert ''distributed_simulator_implementation_type'' (m_config_requested_keys s)))\<rparr>"
    unfolding Mpi by (auto simp: configure_distributed_def bindr_eq_Inr get_config_param_or_fail_def checkr_eq_Inr Let_def)
  with Mpi check_assignment_ok [of k 0 ids "replicate (nat k) 0" counter] show ?thesis by auto
qed

text \<open>The system and its nodes, as they are configured.\<close>

definition systems_ok :: "mpi \<Rightarrow> basic_simulation \<Rightarrow> bool" where
  "systems_ok m s \<longleftrightarrow>
     (if m_enable_distributed s
      then m = Mpi (m_system_id s) (m_systems_count s) \<and>
           (\<forall>a \<in> set (m_distributed_node_system_id_assignment s). 0 \<le> a \<and> a < m_systems_count s)
      else m_distributed_node_system_id_assignment s = [] \<and> m_system_id s = 0 \<and> m_systems_count s = 1)"

lemma configure_simulation_ok:
  assumes "configure_simulation clock m s = Inr s1"
  shows "systems_ok m s1" "sim_stop_ns s1 = Some (m_simulation_end_time_ns s)"
    "set (m_config_requested_keys s1) = {''enable_distributed''} \<union> set (m_config_requested_keys s) \<union>
      (if m_enable_distributed s1 then {''distributed_simulator_implementation_type'', ''distributed_systems_count'',
        ''distributed_node_system_id_assignment''} else {})"
    "sim_fs s1 = sim_fs s" "m_config s1 = m_config s" "m_run_dir s1 = m_run_dir s" "m_logs_dir s1 = m_logs_dir s"
    "m_simulation_end_time_ns s1 = m_simulation_end_time_ns s" "m_simulation_seed s1 = m_simulation_seed s"
    "m_counter_progress_updates s1 = m_counter_progress_updates s" "m_progress_interval_ns s1 = m_progress_interval_ns s"
    "m_timestamps s1 = m_timestamps s @ [(''Configure simulator'', clock (sim_clock_reads s))]"
    "sim_clock_reads s1 = Suc (sim_clock_reads s)"
proof -
  from assms obtain enabled s2 where
      s2: "(if enabled then configure_distributed m (s\<lparr>m_config_requested_keys := insort_insert ''enable_distributed'' (m_config_requested_keys s),
              m_enable_distributed := True\<rparr>)
            else Inr (s\<lparr>m_config_requested_keys := insort_insert ''enable_distributed'' (m_config_requested_keys s),
              m_enable_distributed := False, m_distributed_node_system_id_assignment := [], m_system_id := 0, m_systems_count := 1\<rparr>)) = Inr s2"
    and s1: "s1 = register_timestamp clock ''Configure simulator'' (s2\<lparr>sim_stop_ns := Some (m_simulation_end_time_ns s2)\<rparr>)"
  proof -
    obtain enabled where e: "parse_boolean (get_param_or_default ''enable_distributed'' ''false'' (m_config s)) = Inr enabled"
      using assms by (auto simp: configure_simulation_def get_config_param_or_default_def bindr_eq_Inr)
    show thesis
    proof (cases enabled)
      case True
      then obtain s2 where "configure_distributed m (s\<lparr>m_config_requested_keys := insort_insert ''enable_distributed'' (m_config_requested_keys s),
            m_enable_distributed := True\<rparr>) = Inr s2"
          "s1 = register_timestamp clock ''Configure simulator'' (s2\<lparr>sim_stop_ns := Some (m_simulation_end_time_ns s2)\<rparr>)"
        using assms by (auto simp: configure_simulation_def get_config_param_or_default_def bindr_eq_Inr Let_def e)
      then show thesis using that [of True s2] by simp
    next
      case False
      let ?s2 = "s\<lparr>m_config_requested_keys := insort_insert ''enable_distributed'' (m_config_requested_keys s),
        m_enable_distributed := False, m_distributed_node_system_id_assignment := [], m_system_id := 0, m_systems_count := 1\<rparr>"
      have "s1 = register_timestamp clock ''Configure simulator'' (?s2\<lparr>sim_stop_ns := Some (m_simulation_end_time_ns ?s2)\<rparr>)"
        using assms False by (simp add: configure_simulation_def get_config_param_or_default_def bindr_eq_Inr Let_def e)
      then show thesis using that [of False ?s2] by simp
    qed
  qed
  have *: "systems_ok m s1 \<and> sim_stop_ns s1 = Some (m_simulation_end_time_ns s) \<and>
    set (m_config_requested_keys s1) = {''enable_distributed''} \<union> set (m_config_requested_keys s) \<union>
      (if m_enable_distributed s1 then {''distributed_simulator_implementation_type'', ''distributed_systems_count'',
        ''distributed_node_system_id_assignment''} else {}) \<and>
    sim_fs s1 = sim_fs s \<and> m_config s1 = m_config s \<and> m_run_dir s1 = m_run_dir s \<and> m_logs_dir s1 = m_logs_dir s \<and>
    m_simulation_end_time_ns s1 = m_simulation_end_time_ns s \<and> m_simulation_seed s1 = m_simulation_seed s \<and>
    m_counter_progress_updates s1 = m_counter_progress_updates s \<and> m_progress_interval_ns s1 = m_progress_interval_ns s \<and>
    m_timestamps s1 = m_timestamps s @ [(''Configure simulator'', clock (sim_clock_reads s))] \<and>
    sim_clock_reads s1 = Suc (sim_clock_reads s)"
  proof (cases enabled)
    case True
    with s2 obtain id k ids where "m = Mpi id k" "\<forall>a \<in> set ids. 0 \<le> a \<and> a < k"
        "s2 = s\<lparr>m_config_requested_keys := insort_insert ''distributed_node_system_id_assignment'' (insort_insert ''distributed_systems_count''
          (insort_insert ''distributed_simulator_implementation_type'' (insort_insert ''enable_distributed'' (m_config_requested_keys s)))),
          m_enable_distributed := True, sim_mpi_enabled := True, m_system_id := id, m_systems_count := k,
          m_distributed_node_system_id_assignment := ids\<rparr>"
      by (auto dest!: configure_distributed_ok)
    then show ?thesis unfolding s1 by (auto simp: systems_ok_def set_insort_insert)
  next
    case False
    with s2 show ?thesis unfolding s1 by (auto simp: systems_ok_def set_insort_insert)
  qed
  then show "systems_ok m s1" "sim_stop_ns s1 = Some (m_simulation_end_time_ns s)"
    "set (m_config_requested_keys s1) = {''enable_distributed''} \<union> set (m_config_requested_keys s) \<union>
      (if m_enable_distributed s1 then {''distributed_simulator_implementation_type'', ''distributed_systems_count'',
        ''distributed_node_system_id_assignment''} else {})"
    "sim_fs s1 = sim_fs s" "m_config s1 = m_config s" "m_run_dir s1 = m_run_dir s" "m_logs_dir s1 = m_logs_dir s"
    "m_simulation_end_time_ns s1 = m_simulation_end_time_ns s" "m_simulation_seed s1 = m_simulation_seed s"
    "m_counter_progress_updates s1 = m_counter_progress_updates s" "m_progress_interval_ns s1 = m_progress_interval_ns s"
    "m_timestamps s1 = m_timestamps s @ [(''Configure simulator'', clock (sim_clock_reads s))]"
    "sim_clock_reads s1 = Suc (sim_clock_reads s)" by blast+
qed

lemma prepare_log_files_ok:
  assumes "prepare_basic_simulation_log_files s = Inr s1"
  shows "s1 = s\<lparr>m_finished_filename := log_file_name s ''finished.txt'', m_timing_results_txt_filename := log_file_name s ''timing_results.txt'',
    m_timing_results_csv_filename := log_file_name s ''timing_results.csv'',
    sim_fs := (sim_fs s)\<lparr>fs_files := (fs_files (sim_fs s))(log_file_name s ''finished.txt'' := None,
      log_file_name s ''timing_results.txt'' := None, log_file_name s ''timing_results.csv'' := None)\<rparr>\<rparr>"
  using assms
  by (auto simp: prepare_basic_simulation_log_files_def log_file_name_def bindr_eq_Inr Let_def dest!: remove_file_fs)

lemma log_file_name_eq [simp]: "log_file_name s a = log_file_name s b \<longleftrightarrow> a = b"
  by (simp add: log_file_name_def)

text \<open>
  What holds from the construction on: the files of the logs directory, the parameters asked for so far (\<open>keys\<close>) and the
  times registered so far, which are readings of the clock.
\<close>

definition simulation_ok :: "(nat \<Rightarrow> int) \<Rightarrow> mpi \<Rightarrow> fsys \<Rightarrow> string \<Rightarrow> string set \<Rightarrow> basic_simulation \<Rightarrow> bool" where
  "simulation_ok clock m fs run_dir keys s \<longleftrightarrow>
     m_run_dir s = run_dir \<and> m_logs_dir s = run_dir @ ''/logs_ns3'' \<and> dir_exists (sim_fs s) (m_logs_dir s) \<and>
     read_config fs (run_dir @ ''/config_ns3.properties'') = Inr (m_config s) \<and>
     0 \<le> m_simulation_end_time_ns s \<and> 0 \<le> m_simulation_seed s \<and> sim_stop_ns s = Some (m_simulation_end_time_ns s) \<and>
     systems_ok m s \<and> set (m_config_requested_keys s) = base_keys (m_enable_distributed s) \<union> keys \<and>
     m_finished_filename s = log_file_name s ''finished.txt'' \<and>
     m_timing_results_txt_filename s = log_file_name s ''timing_results.txt'' \<and>
     m_timing_results_csv_filename s = log_file_name s ''timing_results.csv''"

definition own_files :: "basic_simulation \<Rightarrow> string set" where
  "own_files s = {m_finished_filename s, m_timing_results_txt_filename s, m_timing_results_csv_filename s}"

lemma new_basic_simulation_ok:
  assumes "new_basic_simulation clock m fs run_dir = Inr s"
  shows "simulation_ok clock m fs run_dir {} s" "dir_exists fs run_dir"
    "fs_files (sim_fs s) f = (if f = m_finished_filename s then Some (''No'' @ [newline])
       else if f \<in> own_files s then None else fs_files fs f)"
    "m_timestamps s = [(''Start'', clock 0), (''Configure run and logs directory'', clock 1), (''Configure simulator'', clock 2)]"
    "sim_clock_reads s = 3" "m_counter_progress_updates s = 0" "m_progress_interval_ns s = Fin 10000000000"
proof -
  let ?s0 = "register_timestamp clock ''Start'' (basic_simulation_init fs run_dir)"
  obtain s1 s2 s3 s4 where c: "configure_run_directory clock ?s0 = Inr s1" "read_simulation_config s1 = Inr s2"
      "configure_simulation clock m s2 = Inr s3" "prepare_basic_simulation_log_files s3 = Inr s4" "s = write_finished False s4"
    using assms by (auto simp: new_basic_simulation_def bindr_eq_Inr)
  have i: "sim_fs ?s0 = fs" "m_run_dir ?s0 = run_dir" "m_config_requested_keys ?s0 = []" "sim_clock_reads ?s0 = 1"
      "m_timestamps ?s0 = [(''Start'', clock 0)]" "m_counter_progress_updates ?s0 = 0" "m_progress_interval_ns ?s0 = Fin 10000000000"
    by (simp_all add: basic_simulation_init_def)
  note r = configure_run_directory_ok [OF c(1), unfolded i]
  from r(1) show "dir_exists fs run_dir" .
  obtain config end_ns seed where p: "read_config (sim_fs s1) (m_run_dir s1 @ ''/config_ns3.properties'') = Inr config" "0 \<le> end_ns" "0 \<le> seed"
      "s2 = s1\<lparr>m_config := config, m_simulation_end_time_ns := end_ns, m_config_requested_keys :=
        insort_insert ''simulation_seed'' (insort_insert ''simulation_end_time_ns'' (m_config_requested_keys s1)), m_simulation_seed := seed\<rparr>"
    using read_simulation_config_ok [OF c(2)] by blast
  have s2: "sim_fs s2 = fs\<lparr>fs_dirs := (fs_dirs fs)(run_dir @ ''/logs_ns3'' := True)\<rparr>" "m_run_dir s2 = run_dir"
      "m_logs_dir s2 = run_dir @ ''/logs_ns3''" "m_config s2 = config" "m_simulation_end_time_ns s2 = end_ns" "m_simulation_seed s2 = seed"
      "set (m_config_requested_keys s2) = {''simulation_seed'', ''simulation_end_time_ns''}" "sim_clock_reads s2 = 2"
      "m_timestamps s2 = [(''Start'', clock 0), (''Configure run and logs directory'', clock 1)]"
      "m_counter_progress_updates s2 = 0" "m_progress_interval_ns s2 = Fin 10000000000"
    using i by (simp_all add: p(4) r(2) set_insort_insert)
  note s3 = configure_simulation_ok [OF c(3), unfolded s2]
  note s4 = prepare_log_files_ok [OF c(4)]
  have names: "m_finished_filename s = log_file_name s ''finished.txt''"
      "m_timing_results_txt_filename s = log_file_name s ''timing_results.txt''"
      "m_timing_results_csv_filename s = log_file_name s ''timing_results.csv''"
      "log_file_name s n = log_file_name s3 n" for n
    by (simp_all add: c(5) s4 write_finished_def log_file_name_def)
  have config: "read_config fs (run_dir @ ''/config_ns3.properties'') = Inr config"
    using p(1) i by (simp add: r(2))
  show "simulation_ok clock m fs run_dir {} s"
    using config p(2,3) s3 by (auto simp: simulation_ok_def c(5) s4 write_finished_def write_file_def log_file_name_def dir_exists_def
        base_keys_def systems_ok_def)
  show "fs_files (sim_fs s) f = (if f = m_finished_filename s then Some (''No'' @ [newline])
       else if f \<in> own_files s then None else fs_files fs f)"
    using s3(4) by (simp add: own_files_def c(5) s4 write_finished_def write_file_def)
  show "m_timestamps s = [(''Start'', clock 0), (''Configure run and logs directory'', clock 1), (''Configure simulator'', clock 2)]"
    "sim_clock_reads s = 3" "m_counter_progress_updates s = 0" "m_progress_interval_ns s = Fin 10000000000"
    using s3 by (simp_all add: c(5) s4 write_finished_def)
qed

text \<open>Setting up the components: each asks for parameters and registers times.\<close>

datatype use = Ask_or_fail string | Ask_or_default string string | Stamp string

definition use_step :: "(nat \<Rightarrow> int) \<Rightarrow> use \<Rightarrow> basic_simulation \<Rightarrow> basic_simulation res" where
  "use_step clock u s = (case u of
     Ask_or_fail key \<Rightarrow> bindr (get_config_param_or_fail key s) (\<lambda>(_, s1). Inr s1)
   | Ask_or_default key v \<Rightarrow> Inr (snd (get_config_param_or_default key v s))
   | Stamp label \<Rightarrow> Inr (register_timestamp clock label s))"

definition asked :: "use list \<Rightarrow> string set" where
  "asked us = {key. Ask_or_fail key \<in> set us \<or> (\<exists>v. Ask_or_default key v \<in> set us)}"

fun stamps :: "use list \<Rightarrow> string list" where
  "stamps [] = []"
| "stamps (Stamp label # us) = label # stamps us"
| "stamps (Ask_or_fail key # us) = stamps us"
| "stamps (Ask_or_default key v # us) = stamps us"

definition same_files :: "basic_simulation \<Rightarrow> basic_simulation \<Rightarrow> bool" where
  "same_files s s1 \<longleftrightarrow> sim_fs s1 = sim_fs s \<and> m_finished_filename s1 = m_finished_filename s \<and>
     m_timing_results_txt_filename s1 = m_timing_results_txt_filename s \<and>
     m_timing_results_csv_filename s1 = m_timing_results_csv_filename s"

lemma same_files_trans: "same_files s s1 \<Longrightarrow> same_files s1 s2 \<Longrightarrow> same_files s s2"
  by (simp add: same_files_def)

lemma uses_ok:
  assumes "foldr_res (use_step clock) us s = Inr s1" "simulation_ok clock m fs run_dir keys s"
  shows "simulation_ok clock m fs run_dir (keys \<union> asked us) s1 \<and> same_files s s1 \<and>
    m_counter_progress_updates s1 = m_counter_progress_updates s \<and> m_progress_interval_ns s1 = m_progress_interval_ns s \<and>
    sim_clock_reads s1 = sim_clock_reads s + length (stamps us) \<and>
    m_timestamps s1 = m_timestamps s @ zip (stamps us) (map clock [sim_clock_reads s..<sim_clock_reads s + length (stamps us)])"
  using assms
proof (induction us arbitrary: s keys)
  case Nil
  then show ?case by (simp add: asked_def same_files_def)
next
  case (Cons u us)
  then obtain t where t: "use_step clock u s = Inr t" "foldr_res (use_step clock) us t = Inr s1" by (auto simp: bindr_eq_Inr)
  have u: "simulation_ok clock m fs run_dir (keys \<union> asked [u]) t" "same_files s t"
    "m_counter_progress_updates t = m_counter_progress_updates s" "m_progress_interval_ns t = m_progress_interval_ns s"
    "sim_clock_reads t = sim_clock_reads s + length (stamps [u])"
    "m_timestamps t = m_timestamps s @ zip (stamps [u]) (map clock [sim_clock_reads s..<sim_clock_reads s + length (stamps [u])])"
    using t(1) Cons.prems(2)
    by (cases u; auto simp: use_step_def get_config_param_or_fail_def get_config_param_or_default_def bindr_eq_Inr simulation_ok_def
        same_files_def asked_def log_file_name_def systems_ok_def set_insort_insert dir_exists_def)+
  note IH = Cons.IH [OF t(2) u(1)]
  let ?n = "sim_clock_reads s" and ?k = "length (stamps [u])" and ?l = "length (stamps us)"
  have all: "asked (u # us) = asked [u] \<union> asked us" by (auto simp: asked_def)
  have st: "stamps (u # us) = stamps [u] @ stamps us" by (cases u) auto
  have "[?n..<?n + ?k + ?l] = [?n..<?n + ?k] @ [?n + ?k..<?n + ?k + ?l]" by (rule upt_add_eq_append) simp
  then have z: "zip (stamps [u] @ stamps us) (map clock [?n..<?n + ?k + ?l]) =
      zip (stamps [u]) (map clock [?n..<?n + ?k]) @ zip (stamps us) (map clock [?n + ?k..<?n + ?k + ?l])" by simp
  show ?case
    using IH u(2-) same_files_trans [OF u(2)] unfolding all st length_append add.assoc [symmetric] z Un_assoc [symmetric] by simp
qed

section \<open>Running\<close>

lemma foldr_res_checkr:
  "foldr_res (\<lambda>x _. checkr (P x) (E x)) xs () = (case find (\<lambda>x. \<not> P x) xs of None \<Rightarrow> Inr () | Some x \<Rightarrow> Inl (E x))"
  by (induction xs) (auto simp: checkr_def)

text \<open>The keys that were never asked for, ascending.\<close>

definition unused_keys :: "basic_simulation \<Rightarrow> string list" where
  "unused_keys s = filter (\<lambda>key. key \<notin> set (m_config_requested_keys s)) (sort (map fst (m_config s)))"

lemma find_hd_filter: "find P xs = (case filter P xs of [] \<Rightarrow> None | x # _ \<Rightarrow> Some x)"
  by (induction xs) auto

lemma map_sort_key_fst: "map fst (sort_key fst xs) = sort (map fst xs)"
  for xs :: "('a::linorder \<times> 'b) list"
proof -
  have "map fst (insort_key fst x ys) = insort (fst x) (map fst ys)" for x :: "'a \<times> 'b" and ys by (induction ys) auto
  then show ?thesis by (induction xs) auto
qed

lemma confirm_eq: "confirm_all_config_param_keys_requested s = (case unused_keys s of [] \<Rightarrow> Inr () | key # _ \<Rightarrow> Inl (unused_key_error key))"
proof -
  have "foldr_res (\<lambda>(k, _) _. checkr (k \<in> A) (f k)) xs () = foldr_res (\<lambda>k _. checkr (k \<in> A) (f k)) (map fst xs) ()"
    for A f and xs :: "(string \<times> string) list" by (induction xs) (auto simp: checkr_def)
  then have "confirm_all_config_param_keys_requested s =
      foldr_res (\<lambda>key _. checkr (key \<in> set (m_config_requested_keys s)) (unused_key_error key)) (map fst (sort_key fst (m_config s))) ()"
    by (simp add: confirm_all_config_param_keys_requested_def)
  then show ?thesis
    unfolding foldr_res_checkr find_hd_filter map_sort_key_fst unused_keys_def by (simp split: list.splits)
qed

lemma unused_keys_Nil: "unused_keys s = [] \<longleftrightarrow> fst ` set (m_config s) \<subseteq> set (m_config_requested_keys s)"
  by (auto simp: unused_keys_def filter_empty_conv)

lemma start_run_eq:
  "start_run clock s = (case unused_keys s of
     [] \<Rightarrow> Inr ((register_timestamp clock ''Whatever is between previous timestamp and the simulation run'' s)\<lparr>sim_clock_reads := Suc (Suc (sim_clock_reads s)),
       m_sim_start_time_ns_since_epoch := clock (Suc (sim_clock_reads s)), m_last_log_time_ns_since_epoch := clock (Suc (sim_clock_reads s))\<rparr>)
   | key # _ \<Rightarrow> Inl (unused_key_error key))"
proof -
  have "unused_keys (register_timestamp clock l s) = unused_keys s" for l by (simp add: unused_keys_def)
  then show ?thesis
    by (simp add: start_run_def Let_def confirm_eq now_ns_since_epoch_def split: list.splits)
qed

lemma start_run_cases:
  assumes "set (m_config_requested_keys s) = keys"
  shows "case start_run clock s of
      Inr s1 \<Rightarrow> fst ` set (m_config s) \<subseteq> keys
    | Inl e \<Rightarrow> (\<exists>key \<in> fst ` set (m_config s) - keys. e = unused_key_error key \<and>
        (\<forall>key1 \<in> fst ` set (m_config s) - keys. key \<le> key1))"
proof (cases "unused_keys s")
  case Nil
  then show ?thesis using unused_keys_Nil [of s] by (simp add: start_run_eq assms)
next
  case (Cons key rest)
  have set: "set (unused_keys s) = fst ` set (m_config s) - keys"
    by (auto simp: unused_keys_def assms)
  have "sorted (unused_keys s)" by (simp add: unused_keys_def sorted_wrt_filter)
  then have "\<forall>key1 \<in> set (unused_keys s). key \<le> key1" by (auto simp: Cons)
  then show ?thesis unfolding set start_run_eq using Cons set by (auto intro!: bexI [of _ key])
qed

text \<open>
  A simulation that was created and set up runs exactly if every parameter of its configuration was asked for,
  in the construction or by a component; otherwise it is refused, and the error names the least parameter that was not.
\<close>

theorem simulation_runs_iff_all_requested:
  assumes "new_basic_simulation clock m fs run_dir = Inr s0" "foldr_res (use_step clock) us s0 = Inr s"
  shows "case start_run clock s of
      Inr s1 \<Rightarrow> fst ` set (m_config s) \<subseteq> base_keys (m_enable_distributed s) \<union> asked us
    | Inl e \<Rightarrow> (\<exists>key \<in> fst ` set (m_config s) - (base_keys (m_enable_distributed s) \<union> asked us). e = unused_key_error key \<and>
        (\<forall>key1 \<in> fst ` set (m_config s) - (base_keys (m_enable_distributed s) \<union> asked us). key \<le> key1))"
proof -
  have "set (m_config_requested_keys s) = base_keys (m_enable_distributed s) \<union> asked us"
    using uses_ok [OF assms(2) new_basic_simulation_ok(1) [OF assms(1)]] by (simp add: simulation_ok_def)
  then show ?thesis by (rule start_run_cases)
qed

text \<open>The interval before progress number \<open>n\<close> is shown.\<close>

definition shown_interval :: "int \<Rightarrow> double" where
  "shown_interval n = (if n < 5 then Fin 10000000000 else if n < 20 then Fin 20000000000
     else if n < 100 then Fin 60000000000 else Fin 360000000000)"

definition progress_calls :: "(nat \<Rightarrow> int) \<Rightarrow> double list \<Rightarrow> basic_simulation \<Rightarrow> (remainder option list \<times> basic_simulation) res" where
  "progress_calls clock progress_times s =
     foldr_res (\<lambda>sim_s (shown, s). bindr (show_simulation_progress clock sim_s s) (\<lambda>(p, s').
       Inr (case p of None \<Rightarrow> shown | Some e \<Rightarrow> shown @ [e], s'))) progress_times ([], s)"

lemma show_simulation_progress_ok:
  assumes "show_simulation_progress clock sim_s s = Inr (p, s1)"
  shows "same_files s s1" "m_timestamps s1 = m_timestamps s" "sim_clock_reads s1 = Suc (sim_clock_reads s)"
    "simulation_ok clock m fs run_dir keys s \<Longrightarrow> simulation_ok clock m fs run_dir keys s1"
    "m_enable_distributed s1 = m_enable_distributed s"
    "(p \<noteq> None) = d_lt (m_progress_interval_ns s) (d_of_int (clock (sim_clock_reads s) - m_last_log_time_ns_since_epoch s))"
    "m_last_log_time_ns_since_epoch s1 = (if p = None then m_last_log_time_ns_since_epoch s else clock (sim_clock_reads s))"
    "m_counter_progress_updates s1 = m_counter_progress_updates s + (if p = None then 0 else 1)"
    "m_progress_interval_ns s1 = (if p = None then m_progress_interval_ns s else next_progress_interval_ns (m_counter_progress_updates s))"
    "p = Some e \<Longrightarrow> (e \<noteq> None) = (m_counter_progress_updates s < 8 \<or> m_counter_progress_updates s mod 5 = 0)"
proof -
  let ?now = "clock (sim_clock_reads s)" and ?n = "m_counter_progress_updates s"
  let ?due = "d_lt (m_progress_interval_ns s) (d_of_int (?now - m_last_log_time_ns_since_epoch s))"
  obtain ev where c: "if ?due then p \<noteq> None \<and> (\<forall>e. p = Some e \<longrightarrow> (e \<noteq> None) = (?n < 8 \<or> ?n mod 5 = 0)) \<and>
        s1 = s\<lparr>sim_clock_reads := Suc (sim_clock_reads s), m_last_log_time_ns_since_epoch := ?now,
          m_progress_interval_ns := next_progress_interval_ns ?n, m_counter_progress_updates := ?n + 1, m_simulation_event_interval_s := ev\<rparr>
      else p = None \<and> s1 = s\<lparr>sim_clock_reads := Suc (sim_clock_reads s), m_simulation_event_interval_s := ev\<rparr>"
  proof (cases ?due)
    case True
    then obtain estimate where "(if ?n < 8 \<or> ?n mod 5 = 0
          then bindr (remaining_s ?now sim_s (s\<lparr>sim_clock_reads := Suc (sim_clock_reads s)\<rparr>)) (\<lambda>r. Inr (Some (remaining_time r)))
          else Inr None) = Inr estimate" "p = Some estimate"
        "\<exists>ev. s1 = s\<lparr>sim_clock_reads := Suc (sim_clock_reads s), m_last_log_time_ns_since_epoch := ?now,
          m_progress_interval_ns := next_progress_interval_ns ?n, m_counter_progress_updates := ?n + 1, m_simulation_event_interval_s := ev\<rparr>"
      using assms by (simp add: show_simulation_progress_def now_ns_since_epoch_def Let_def bindr_eq_Inr) (elim exE conjE, rule that, assumption, simp, blast)
    with True that show thesis by (auto simp: bindr_eq_Inr split: if_splits)
  next
    case False
    with assms that show thesis by (auto simp: show_simulation_progress_def now_ns_since_epoch_def Let_def)
  qed
  then show "same_files s s1" "m_timestamps s1 = m_timestamps s" "sim_clock_reads s1 = Suc (sim_clock_reads s)"
    "simulation_ok clock m fs run_dir keys s \<Longrightarrow> simulation_ok clock m fs run_dir keys s1"
    "m_enable_distributed s1 = m_enable_distributed s"
    "(p \<noteq> None) = ?due"
    "m_last_log_time_ns_since_epoch s1 = (if p = None then m_last_log_time_ns_since_epoch s else ?now)"
    "m_counter_progress_updates s1 = ?n + (if p = None then 0 else 1)"
    "m_progress_interval_ns s1 = (if p = None then m_progress_interval_ns s else next_progress_interval_ns ?n)"
    "p = Some e \<Longrightarrow> (e \<noteq> None) = (?n < 8 \<or> ?n mod 5 = 0)"
    by (auto simp: same_files_def simulation_ok_def log_file_name_def systems_ok_def split: if_splits)
qed

lemma progress_calls_ok:
  assumes "progress_calls clock ts s = Inr (shown, s1)" "simulation_ok clock m fs run_dir keys s"
    and "m_counter_progress_updates s = 0" "m_progress_interval_ns s = Fin 10000000000"
  shows "simulation_ok clock m fs run_dir keys s1 \<and> same_files s s1 \<and> m_timestamps s1 = m_timestamps s \<and>
    sim_clock_reads s1 = sim_clock_reads s + length ts \<and> m_counter_progress_updates s1 = int (length shown) \<and>
    m_progress_interval_ns s1 = shown_interval (int (length shown))"
proof -
  define I where "I xs r \<longleftrightarrow> (case r of (shown, s1) \<Rightarrow> simulation_ok clock m fs run_dir keys s1 \<and> same_files s s1 \<and>
    m_timestamps s1 = m_timestamps s \<and> sim_clock_reads s1 = sim_clock_reads s + length xs \<and>
    m_counter_progress_updates s1 = int (length shown) \<and> m_progress_interval_ns s1 = shown_interval (int (length shown)))"
    for xs :: "double list" and r :: "remainder option list \<times> basic_simulation"
  have "I ts (shown, s1)"
  proof (rule foldr_res_inv_prefix [OF assms(1) [unfolded progress_calls_def]])
    show "I [] ([], s)" using assms(2-) by (simp add: I_def same_files_def shown_interval_def)
    fix ys x zs r r1
    assume I: "I ys r" and step: "(case r of (shown, s) \<Rightarrow> bindr (show_simulation_progress clock x s) (\<lambda>(p, s').
       Inr (case p of None \<Rightarrow> shown | Some e \<Rightarrow> shown @ [e], s'))) = Inr r1"
    obtain sh t p t1 where r: "r = (sh, t)" "show_simulation_progress clock x t = Inr (p, t1)"
        "r1 = (case p of None \<Rightarrow> sh | Some e \<Rightarrow> sh @ [e], t1)"
      using step by (auto simp: bindr_eq_Inr split: prod.splits)
    note ok = show_simulation_progress_ok [OF r(2)]
    show "I (ys @ [x]) r1"
      using I ok(1-3) ok(4) [of m fs run_dir keys] ok(8,9) same_files_trans
      by (cases p) (auto simp: I_def r next_progress_interval_ns_def shown_interval_def)
  qed
  then show ?thesis by (simp add: I_def)
qed

lemma start_run_ok:
  assumes "start_run clock s = Inr s1" "simulation_ok clock m fs run_dir keys s"
  shows "simulation_ok clock m fs run_dir keys s1" "same_files s s1" "sim_clock_reads s1 = sim_clock_reads s + 2"
    "m_timestamps s1 = m_timestamps s @ [(''Whatever is between previous timestamp and the simulation run'', clock (sim_clock_reads s))]"
    "m_counter_progress_updates s1 = m_counter_progress_updates s" "m_progress_interval_ns s1 = m_progress_interval_ns s"
    "m_last_log_time_ns_since_epoch s1 = m_sim_start_time_ns_since_epoch s1"
  using assms by (auto simp: start_run_eq simulation_ok_def same_files_def log_file_name_def systems_ok_def split: list.splits)

text \<open>
  C18. While a simulation runs, progress is shown exactly when more than an interval has passed on the wall clock since it was
  last shown or the run was started: ten seconds for the first five, twenty for the next fifteen, sixty for the next eighty
  and 360 from then on. An estimate of the remaining time is shown with the first eight and with every fifth.
\<close>

theorem progress_shown:
  assumes "new_basic_simulation clock m fs run_dir = Inr s0" "foldr_res (use_step clock) us s0 = Inr s1" "start_run clock s1 = Inr s2"
    and "progress_calls clock ts s2 = Inr (shown, s3)" "show_simulation_progress clock sim_s s3 = Inr (p, s4)"
  shows "(p \<noteq> None) = d_lt (shown_interval (int (length shown))) (d_of_int (clock (sim_clock_reads s3) - m_last_log_time_ns_since_epoch s3)) \<and>
    m_last_log_time_ns_since_epoch s4 = (if p = None then m_last_log_time_ns_since_epoch s3 else clock (sim_clock_reads s3)) \<and>
    (\<forall>e. p = Some e \<longrightarrow> (e \<noteq> None) = (length shown < 8 \<or> length shown mod 5 = 0))"
proof -
  note n = new_basic_simulation_ok [OF assms(1)]
  note u = uses_ok [OF assms(2) n(1)]
  note r = start_run_ok [OF assms(3) conjunct1 [OF u]]
  have "m_counter_progress_updates s3 = int (length shown) \<and> m_progress_interval_ns s3 = shown_interval (int (length shown))"
    using progress_calls_ok [OF assms(4) r(1)] u n(6,7) r(5,6) by simp
  then show ?thesis
    using show_simulation_progress_ok(6,7,10) [OF assms(5)] by (auto simp: zmod_int [symmetric, of _ 5, simplified])
qed

text \<open>
  The estimate splits the remaining seconds: no second is lost if less than an hour remains, and with hours shown
  less than a minute is left out.
\<close>

theorem remaining_time_correct:
  assumes "0 \<le> n"
  shows "case remaining_time n of
      Hours_minutes h mins \<Rightarrow> 0 < h \<and> 0 \<le> mins \<and> mins < 60 \<and> 3600 * h + 60 * mins \<le> n \<and> n < 3600 * h + 60 * mins + 60
    | Minutes_seconds mins secs \<Rightarrow> 0 < mins \<and> mins < 60 \<and> 0 \<le> secs \<and> secs < 60 \<and> n = 60 * mins + secs
    | Seconds_only secs \<Rightarrow> secs < 60 \<and> n = secs"
proof -
  define q where "q = n div 60"
  have n: "n = 60 * q + n mod 60" "0 \<le> n mod 60" "n mod 60 < 60" "0 \<le> q" using assms by (auto simp: q_def)
  have q: "q = 60 * (q div 60) + q mod 60" "0 \<le> q mod 60" "q mod 60 < 60" "0 \<le> q div 60" using n(4) by auto
  have 1: "c_mod n 60 = n mod 60" using assms by (simp add: c_mod_def)
  have "n - n mod 60 = 60 * q" using n(1) by simp
  then have 2: "c_mod (c_div (n - n mod 60) 60) 60 = q mod 60" using n(4) by (simp add: c_mod_def c_div_def)
  have "n - n mod 60 - q mod 60 * 60 = 3600 * (q div 60)" using n(1) q(1) by linarith
  then have 3: "c_div (n - n mod 60 - q mod 60 * 60) 3600 = q div 60" using q(4) by (simp add: c_div_def)
  have 4: "n = 3600 * (q div 60) + 60 * (q mod 60) + n mod 60" using n(1) q(1) by linarith
  then have "0 < q div 60 \<Longrightarrow> 3600 * (q div 60) + 60 * (q mod 60) \<le> n \<and> n < 3600 * (q div 60) + 60 * (q mod 60) + 60"
    and "\<not> 0 < q div 60 \<Longrightarrow> n = 60 * (q mod 60) + n mod 60"
    and "\<not> 0 < q div 60 \<Longrightarrow> \<not> 0 < q mod 60 \<Longrightarrow> n = n mod 60 \<and> n < 60" using n q by linarith+
  then show ?thesis unfolding remaining_time_def Let_def 1 2 3 using n(2,3) q(2,3) by (simp split: if_splits)
qed

theorem remaining_time_correct_witness:
  "remaining_time 7325 = Hours_minutes 2 2 \<and> 3600 * 2 + 60 * 2 \<le> (7325 :: int)"
proof -
  have "remaining_time 7325 = Hours_minutes 2 2" by (simp add: remaining_time_def c_mod_def c_div_def)
  with remaining_time_correct [of 7325] show ?thesis by simp
qed

section \<open>The end\<close>

lemma timing_rows_spec:
  assumes "0 \<le> t" "\<forall>x \<in> set ts. 0 \<le> snd x"
  shows "map fst (timing_rows t ts) = map fst ts \<and> sum_list (map snd (timing_rows t ts)) = snd (last ((l, t) # ts)) - t \<and>
    (sorted (t # map snd ts) \<longrightarrow> (\<forall>x \<in> set (timing_rows t ts). 0 \<le> snd x))"
  using assms
proof (induction ts arbitrary: t l)
  case (Cons x ts)
  obtain label u where x: "x = (label, u)" by fastforce
  then have "timing_rows t (x # ts) = (label, u - t) # timing_rows u ts" "0 \<le> u" "\<forall>x \<in> set ts. 0 \<le> snd x"
    using Cons.prems by auto
  with Cons.IH [of u label] x show ?case by simp
qed simp

lemma finalize_simulation_ok:
  shows "fs_files (sim_fs (finalize_simulation clock txt s)) f =
     (if f = m_finished_filename s then Some (''Yes'' @ [newline])
      else if f = m_timing_results_csv_filename s then Some (timing_csv (timing_rows (-1) (m_timestamps (finalize_simulation clock txt s))))
      else if f = m_timing_results_txt_filename s then Some (txt (m_timestamps (finalize_simulation clock txt s)))
      else fs_files (sim_fs s) f)"
    "m_timestamps (finalize_simulation clock txt s) = m_timestamps s @ [(''Destroy simulator'', clock (sim_clock_reads s))] @
      (if m_enable_distributed s then [(''Disable MPI interface'', clock (Suc (sim_clock_reads s)))] else [])"
  by (simp_all add: finalize_simulation_def clean_up_simulation_def store_timing_results_def write_finished_def write_file_def Let_def)

lemma run_simulation_calls:
  assumes "run_simulation clock ts s = Inr (shown, s3)"
  obtains s1 s2 where "start_run clock s = Inr s1" "progress_calls clock ts s1 = Inr (shown, s2)"
    "s3 = register_timestamp clock ''Run simulation'' (s2\<lparr>sim_clock_reads := Suc (sim_clock_reads s2)\<rparr>)"
  using assms by (auto simp: run_simulation_def progress_calls_def bindr_eq_Inr now_ns_since_epoch_def)

text \<open>
  C17. From its creation until it is finalised the finished file of a simulation says No, whatever is asked, stamped and
  shown, and afterwards Yes. The rows of the timing results then are the stages of the run in order, from the
  configuration of the directories to the clean-up, and on a clock that is not negative their durations
  add up to the time from the first to the last reading; no duration is negative if the clock never goes back.
\<close>

theorem simulation_lifecycle:
  assumes "new_basic_simulation clock m fs run_dir = Inr s0" "foldr_res (use_step clock) us s0 = Inr s1"
    and "run_simulation clock ts s1 = Inr (shown, s2)" "\<forall>n. 0 \<le> clock n"
  shows "(\<forall>s \<in> {s0, s1, s2}. fs_files (sim_fs s) (m_finished_filename s0) = Some (''No'' @ [newline])) \<and>
    (let s3 = finalize_simulation clock txt s2 in
      fs_files (sim_fs s3) (m_finished_filename s0) = Some (''Yes'' @ [newline]) \<and>
      (\<exists>rows. fs_files (sim_fs s3) (m_timing_results_csv_filename s0) = Some (timing_csv rows) \<and>
        map fst rows = [''Configure run and logs directory'', ''Configure simulator''] @ stamps us @
          [''Whatever is between previous timestamp and the simulation run'', ''Run simulation'', ''Destroy simulator''] @
          (if m_enable_distributed s2 then [''Disable MPI interface''] else []) \<and>
        sum_list (map snd rows) = snd (last (m_timestamps s3)) - clock 0 \<and>
        (mono clock \<longrightarrow> (\<forall>row \<in> set rows. 0 \<le> snd row))))"
proof -
  note n = new_basic_simulation_ok [OF assms(1)]
  note u = uses_ok [OF assms(2) n(1)]
  obtain s1' s2' where r: "start_run clock s1 = Inr s1'" "progress_calls clock ts s1' = Inr (shown, s2')"
      "s2 = register_timestamp clock ''Run simulation'' (s2'\<lparr>sim_clock_reads := Suc (sim_clock_reads s2')\<rparr>)"
    using run_simulation_calls [OF assms(3)] by blast
  note st = start_run_ok [OF r(1) conjunct1 [OF u]]
  have pc: "simulation_ok clock m fs run_dir ({} \<union> asked us) s2'" "same_files s1' s2'" "m_timestamps s2' = m_timestamps s1'"
      "sim_clock_reads s2' = sim_clock_reads s1' + length ts"
    using progress_calls_ok [OF r(2) st(1)] u n(6,7) st(5,6) by simp_all
  have same: "same_files s0 s1" "same_files s0 s2"
    using u st(2) pc(2) same_files_trans by (fastforce simp: r(3) same_files_def)+
  have names: "m_finished_filename s0 \<noteq> m_timing_results_csv_filename s0"
    using n(1) by (simp add: simulation_ok_def)
  have No: "fs_files (sim_fs s0) (m_finished_filename s0) = Some (''No'' @ [newline])" by (simp add: n(3))
  define k where "k = length (stamps us)"
  define c where "c = [(''Start'', 0), (''Configure run and logs directory'', 1), (''Configure simulator'', 2)] @
    zip (stamps us) [3..<3 + k] @ [(''Whatever is between previous timestamp and the simulation run'', 3 + k), (''Run simulation'', k + length ts + 6),
      (''Destroy simulator'', k + length ts + 7)] @ (if m_enable_distributed s2 then [(''Disable MPI interface'', k + length ts + 8)] else [])"
  let ?s3 = "finalize_simulation clock txt s2"
  have t3: "m_timestamps ?s3 = map (\<lambda>(l, i). (l, clock i)) c"
    using n(4,5) u st(3,4) pc(3,4)
    by (simp add: finalize_simulation_ok(2) r(3) c_def k_def zip_map2 numeral_eq_Suc add_ac)
  have sorted: "sorted (map snd c)"
    by (auto simp: c_def k_def sorted_append map_snd_zip_take set_zip)
  let ?rest = "tl (m_timestamps ?s3)"
  have hd: "m_timestamps ?s3 = (''Start'', clock 0) # ?rest" by (simp add: t3 c_def)
  have nn: "\<forall>x \<in> set ?rest. 0 \<le> snd x" using assms(4) by (auto simp: t3 c_def)
  have rows: "timing_rows (-1) (m_timestamps ?s3) = timing_rows (clock 0) ?rest" by (subst hd) simp
  note spec = timing_rows_spec [OF assms(4) [rule_format, of 0] nn, of "''Start''", folded hd]
  have labels: "map fst ?rest = [''Configure run and logs directory'', ''Configure simulator''] @ stamps us @
      [''Whatever is between previous timestamp and the simulation run'', ''Run simulation'', ''Destroy simulator''] @
      (if m_enable_distributed s2 then [''Disable MPI interface''] else [])"
    by (simp add: t3 c_def k_def case_prod_beta comp_def)
  have srt: "mono clock \<longrightarrow> sorted (clock 0 # map snd ?rest)"
  proof
    assume "mono clock"
    then have "sorted (map clock (map snd c))" using sorted by (simp add: sorted_iff_nth_mono monoD)
    moreover have "map clock (map snd c) = clock 0 # map snd ?rest" by (simp add: t3 c_def case_prod_beta comp_def)
    ultimately show "sorted (clock 0 # map snd ?rest)" by simp
  qed
  have spec1: "map fst (timing_rows (clock 0) ?rest) = map fst ?rest"
      "sum_list (map snd (timing_rows (clock 0) ?rest)) = snd (last (m_timestamps ?s3)) - clock 0"
      "mono clock \<longrightarrow> (\<forall>row \<in> set (timing_rows (clock 0) ?rest). 0 \<le> snd row)"
    using spec srt by simp_all
  have fnames: "m_finished_filename s2 = m_finished_filename s0" "m_timing_results_csv_filename s2 = m_timing_results_csv_filename s0"
    using same by (simp_all add: same_files_def)
  have "fs_files (sim_fs ?s3) (m_timing_results_csv_filename s0) = Some (timing_csv (timing_rows (clock 0) ?rest))"
    unfolding finalize_simulation_ok(1) fnames rows using names by simp
  moreover have "fs_files (sim_fs ?s3) (m_finished_filename s0) = Some (''Yes'' @ [newline])"
    unfolding finalize_simulation_ok(1) fnames by simp
  moreover have "\<forall>s \<in> {s0, s1, s2}. fs_files (sim_fs s) (m_finished_filename s0) = Some (''No'' @ [newline])"
    using No same by (simp add: same_files_def)
  ultimately show ?thesis unfolding Let_def using spec1 [unfolded labels] by blast
qed

section \<open>What a simulation that was created satisfies\<close>

text \<open>
  A simulation that is created has an existing run directory and logs directory, the configuration of the run directory, an
  end time that is not negative and at which the simulator stops, and in its logs directory No in its finished file and none of the
  timing results of an earlier run, every other file untouched. Not distributed it is system 0 of 1; distributed
  it is the system MPI says, and every node is assigned to one of the systems.
\<close>

theorem simulation_created:
  assumes "new_basic_simulation clock m fs run_dir = Inr s"
  shows "dir_exists fs run_dir \<and> m_run_dir s = run_dir \<and> m_logs_dir s = run_dir @ ''/logs_ns3'' \<and> dir_exists (sim_fs s) (m_logs_dir s) \<and>
    read_config fs (run_dir @ ''/config_ns3.properties'') = Inr (m_config s) \<and>
    0 \<le> m_simulation_end_time_ns s \<and> sim_stop_ns s = Some (m_simulation_end_time_ns s) \<and> 0 \<le> m_simulation_seed s \<and>
    (\<forall>f. fs_files (sim_fs s) f = (if f = log_file_name s ''finished.txt'' then Some (''No'' @ [newline])
       else if f \<in> {log_file_name s ''timing_results.txt'', log_file_name s ''timing_results.csv''} then None else fs_files fs f)) \<and>
    (if m_enable_distributed s
     then m = Mpi (m_system_id s) (m_systems_count s) \<and>
       (\<forall>a \<in> set (m_distributed_node_system_id_assignment s). 0 \<le> a \<and> a < m_systems_count s)
     else m_distributed_node_system_id_assignment s = [] \<and> m_system_id s = 0 \<and> m_systems_count s = 1)"
  using new_basic_simulation_ok(1-2) [OF assms] new_basic_simulation_ok(3) [OF assms]
  by (auto simp: simulation_ok_def systems_ok_def own_files_def split: if_splits)

definition demo_config :: string where
  "demo_config = ''simulation_end_time_ns=100'' @ [newline] @ ''simulation_seed=1'' @ [newline] @ ''enable_distributed=true'' @ [newline] @
     ''distributed_simulator_implementation_type=default'' @ [newline] @ ''distributed_systems_count=2'' @ [newline] @
     ''distributed_node_system_id_assignment=list(0,1,0)'' @ [newline] @ ''colour=red'' @ [newline]"

definition demo_run_dir :: fsys where
  "demo_run_dir = \<lparr>fs_files = (\<lambda>f. if f = ''r/config_ns3.properties'' then Some demo_config else None), fs_dirs = (\<lambda>d. d = ''r''),
     fs_readable = (\<lambda>_. True), fs_unlink_ok = (\<lambda>_. True), fs_rmdir_ok = (\<lambda>_. True), fs_mkdir_ok = (\<lambda>_. True)\<rparr>"

definition demo_created :: basic_simulation where
  "demo_created = (case new_basic_simulation int (Mpi 1 2) demo_run_dir ''r'' of Inr s \<Rightarrow> s | Inl _ \<Rightarrow> basic_simulation_init demo_run_dir ''r'')"

lemma demo_created_eval:
  "case new_basic_simulation int (Mpi 1 2) demo_run_dir ''r'' of Inl _ \<Rightarrow> False
   | Inr s \<Rightarrow> m_enable_distributed s \<and> m_distributed_node_system_id_assignment s = [0, 1, 0] \<and> m_system_id s = 1 \<and> m_systems_count s = 2 \<and>
       m_simulation_end_time_ns s = 100 \<and> map fst (m_config s) = [''simulation_end_time_ns'', ''simulation_seed'', ''enable_distributed'',
         ''distributed_simulator_implementation_type'', ''distributed_systems_count'', ''distributed_node_system_id_assignment'', ''colour'']"
  by code_simp

lemma demo_created: "new_basic_simulation int (Mpi 1 2) demo_run_dir ''r'' = Inr demo_created"
  and demo_created_fields: "m_enable_distributed demo_created" "m_distributed_node_system_id_assignment demo_created = [0, 1, 0]"
    "m_system_id demo_created = 1" "m_systems_count demo_created = 2"
    "map fst (m_config demo_created) = [''simulation_end_time_ns'', ''simulation_seed'', ''enable_distributed'',
         ''distributed_simulator_implementation_type'', ''distributed_systems_count'', ''distributed_node_system_id_assignment'', ''colour'']"
  using demo_created_eval by (auto simp: demo_created_def split: sum.splits)

lemma show_int_1: "show_int 1 = ''1''"
  by code_simp

theorem simulation_created_witness:
  "log_file_name demo_created ''finished.txt'' = ''r/logs_ns3/system_1_finished.txt'' \<and>
   fs_files (sim_fs demo_created) ''r/logs_ns3/system_1_finished.txt'' = Some (''No'' @ [newline])"
proof -
  note c = simulation_created [OF demo_created]
  have n: "log_file_name demo_created ''finished.txt'' = ''r/logs_ns3/system_1_finished.txt''"
    using c by (simp add: log_file_name_def demo_created_fields show_int_1)
  show ?thesis using c n by simp
qed

lemma demo_uses: "\<exists>s. foldr_res (use_step int) [Ask_or_fail ''colour'', Stamp ''Paint''] demo_created = Inr s"
proof -
  have "''colour'' \<in> fst ` set (m_config demo_created)" unfolding set_map [symmetric] demo_created_fields by simp
  then obtain v where "map_of (m_config demo_created) ''colour'' = Some v" by (metis map_of_eq_None_iff not_None_eq)
  then show ?thesis by (simp add: use_step_def get_config_param_or_fail_def get_param_or_fail_def)
qed

theorem simulation_runs_iff_all_requested_witness:
  "\<exists>e. start_run int demo_created = Inl e \<and> e = unused_key_error ''colour''"
proof -
  have u: "foldr_res (use_step int) [] demo_created = Inr demo_created" by simp
  have keys: "fst ` set (m_config demo_created) = {''simulation_end_time_ns'', ''simulation_seed'', ''enable_distributed'',
      ''distributed_simulator_implementation_type'', ''distributed_systems_count'', ''distributed_node_system_id_assignment'', ''colour''}"
    unfolding set_map [symmetric] demo_created_fields by simp
  have rest: "fst ` set (m_config demo_created) - (base_keys (m_enable_distributed demo_created) \<union> asked []) = {''colour''}"
    unfolding keys by (simp add: base_keys_def demo_created_fields asked_def insert_Diff_if)
  show ?thesis
    using simulation_runs_iff_all_requested [OF demo_created u] unfolding rest Diff_eq_empty_iff [symmetric]
    by (auto split: sum.splits simp: rest)
qed

lemma demo_simulation_started:
  "\<exists>s1 s2. foldr_res (use_step int) [Ask_or_fail ''colour'', Stamp ''Paint''] demo_created = Inr s1 \<and> start_run int s1 = Inr s2"
proof -
  obtain s where s: "foldr_res (use_step int) [Ask_or_fail ''colour'', Stamp ''Paint''] demo_created = Inr s" using demo_uses by blast
  then have "m_config s = m_config demo_created" "set (m_config_requested_keys s) = insert ''colour'' (set (m_config_requested_keys demo_created))"
    by (auto simp: use_step_def get_config_param_or_fail_def bindr_eq_Inr set_insort_insert)
  moreover have "set (m_config_requested_keys demo_created) = base_keys True"
    using new_basic_simulation_ok(1) [OF demo_created] by (simp add: simulation_ok_def demo_created_fields)
  ultimately have "unused_keys s = []"
    unfolding unused_keys_Nil set_map [symmetric] by (simp add: demo_created_fields base_keys_def)
  with s show ?thesis by (auto simp: start_run_eq)
qed

theorem progress_shown_witness:
  "\<exists>s1 s2 s3 s4. foldr_res (use_step int) [Ask_or_fail ''colour'', Stamp ''Paint''] demo_created = Inr s1 \<and> start_run int s1 = Inr s2 \<and>
     show_simulation_progress int (Fin 1) s2 = Inr (None, s4)"
proof -
  obtain s1 s2 where s: "foldr_res (use_step int) [Ask_or_fail ''colour'', Stamp ''Paint''] demo_created = Inr s1" "start_run int s1 = Inr s2"
    using demo_simulation_started by blast
  note ok = start_run_ok [OF s(2) conjunct1 [OF uses_ok [OF s(1) new_basic_simulation_ok(1) [OF demo_created]]]]
  have fresh: "m_progress_interval_ns s2 = Fin 10000000000"
    using ok(6) uses_ok [OF s(1) new_basic_simulation_ok(1) [OF demo_created]] new_basic_simulation_ok(7) [OF demo_created] by simp
  have last: "m_last_log_time_ns_since_epoch s2 = int (sim_clock_reads s2) - 1"
    using s(2) by (auto simp: start_run_eq split: list.splits)
  have one: "d_of_int 1 = Fin 1" using d_of_int_exact [of 1] by simp
  have not_due: "\<not> d_lt (m_progress_interval_ns s2) (d_of_int (int (sim_clock_reads s2) - m_last_log_time_ns_since_epoch s2))"
    by (simp add: fresh last one)
  then obtain p s4 where p: "show_simulation_progress int (Fin 1) s2 = Inr (p, s4)"
    by (simp add: show_simulation_progress_def now_ns_since_epoch_def Let_def)
  have "progress_calls int [] s2 = Inr ([], s2)" by (simp add: progress_calls_def)
  from progress_shown [OF demo_created s this p] have "p = None"
    by (auto simp: shown_interval_def last one)
  with s p show ?thesis by blast
qed

theorem simulation_lifecycle_witness:
  "\<exists>(s :: basic_simulation) rows. fs_files (sim_fs s) ''r/logs_ns3/system_1_finished.txt'' = Some (''Yes'' @ [newline]) \<and>
     fs_files (sim_fs s) (m_timing_results_csv_filename demo_created) = Some (timing_csv rows) \<and>
     take 3 (map fst rows) = [''Configure run and logs directory'', ''Configure simulator'', ''Paint'']"
proof -
  obtain s1 s2 where s: "foldr_res (use_step int) [Ask_or_fail ''colour'', Stamp ''Paint''] demo_created = Inr s1" "start_run int s1 = Inr s2"
    using demo_simulation_started by blast
  then obtain s3 where r: "run_simulation int [] s1 = Inr ([], s3)" by (simp add: run_simulation_def now_ns_since_epoch_def)
  have n: "m_finished_filename demo_created = ''r/logs_ns3/system_1_finished.txt''"
    using new_basic_simulation_ok(1) [OF demo_created]
    by (simp add: simulation_ok_def log_file_name_def demo_created_fields show_int_1)
  have "\<forall>n. 0 \<le> int n" by simp
  note life = simulation_lifecycle [OF demo_created s(1) r this, of "\<lambda>_. []", unfolded n Let_def stamps.simps]
  obtain rows where "fs_files (sim_fs (finalize_simulation int (\<lambda>_. []) s3)) ''r/logs_ns3/system_1_finished.txt'' = Some (''Yes'' @ [newline])"
      "fs_files (sim_fs (finalize_simulation int (\<lambda>_. []) s3)) (m_timing_results_csv_filename demo_created) = Some (timing_csv rows)"
      "map fst rows = [''Configure run and logs directory'', ''Configure simulator''] @ [''Paint''] @
        [''Whatever is between previous timestamp and the simulation run'', ''Run simulation'', ''Destroy simulator''] @
        (if m_enable_distributed s3 then [''Disable MPI interface''] else [])"
    using life by (elim conjE exE)
  then show ?thesis by (intro exI [of _ "finalize_simulation int (\<lambda>_. []) s3"] exI [of _ rows]) simp
qed

text \<open>If the wall clock was set back, the progress is to be shown next before now, which the simulator does not accept.\<close>

lemma progress_after_clock_set_back:
  "case show_simulation_progress (\<lambda>_. 4000000000) (Fin 1) ((basic_simulation_init demo_run_dir ''r'')\<lparr>m_sim_start_time_ns_since_epoch := 5000000000,
      m_last_log_time_ns_since_epoch := 5000000000\<rparr>) of
     Inl _ \<Rightarrow> False | Inr (shown, s) \<Rightarrow> shown = None \<and> m_simulation_event_interval_s s = Fin (- 2)"
  by code_simp

end
