(* ===== verification/Schedules.thy ===== *)
theory Schedules
  imports Exp_Util
begin

text \<open>
  basic-sim: the schedules that are read from file, udp-burst-schedule-reader.cc with the entries of
  udp-burst-info.cc and tcp-flow-schedule-reader.cc. The two readers check the same things in the
  same order; what a schedule satisfies after that is proved once, for any reader that obeys the
  contract of the locale \<open>schedule_reader\<close>.

  \<open>valid\<close> is \<open>IsValidEndpoint\<close> of the topology, \<open>end_ns\<close> the end of the simulation.
\<close>

section \<open>The UDP burst schedule\<close>

record udp_burst_info =
  ub_id :: int
  ub_from :: int
  ub_to :: int
  ub_rate :: double
  ub_start :: int
  ub_duration :: int
  ub_params :: string
  ub_metadata :: string

text \<open>The state of a loop: the schedule so far, the number of the line and the last start time.\<close>

type_synonym 'e reading = "'e list \<times> int \<times> int"

definition check_endpoints :: "(int \<Rightarrow> bool) \<Rightarrow> int \<Rightarrow> int \<Rightarrow> unit res" where
  "check_endpoints valid from_id to_id =
     bindr (checkr (valid from_id) (Invalid_argument
       (''Invalid from-endpoint for a schedule entry based on topology: '' @ show_int (to_int32 from_id)))) (\<lambda>_.
     checkr (valid to_id) (Invalid_argument
       (''Invalid to-endpoint for a schedule entry based on topology: '' @ show_int (to_int32 to_id))))"

definition read_burst_line :: "(int \<Rightarrow> bool) \<Rightarrow> int \<Rightarrow> string \<Rightarrow> udp_burst_info reading \<Rightarrow> udp_burst_info reading res" where
  "read_burst_line valid end_ns line s = (case s of (schedule, line_counter, prev_start_time_ns) \<Rightarrow>
     bindr (split_string_n line '','' 8) (\<lambda>spl.
     bindr (parse_positive_int64 (spl ! 0)) (\<lambda>burst_id.
     bindr (checkr (burst_id = line_counter) (Invalid_argument
       (''UDP burst ID is not ascending by one each line (violation: '' @ show_int burst_id @ '')'' @ newline # []))) (\<lambda>_.
     bindr (parse_positive_int64 (spl ! 1)) (\<lambda>from_id.
     bindr (parse_positive_int64 (spl ! 2)) (\<lambda>to_id.
     bindr (parse_positive_double (spl ! 3)) (\<lambda>rate.
     bindr (parse_positive_int64 (spl ! 4)) (\<lambda>start.
     bindr (parse_positive_int64 (spl ! 5)) (\<lambda>duration.
     bindr (checkr (\<not> d_eq rate (Fin 0)) (Invalid_argument ''UDP burst target rate is zero.'')) (\<lambda>_.
     bindr (checkr (\<not> prev_start_time_ns > start) (Invalid_argument
       (''Start time is not weakly ascending (on line with UDP burst ID: '' @ show_int burst_id @ '', violation: '' @
        show_int start @ '')'' @ newline # []))) (\<lambda>_.
     bindr (checkr (from_id \<noteq> to_id) (Invalid_argument (''UDP burst to itself at node ID: '' @ show_int to_id @ ''.''))) (\<lambda>_.
     bindr (check_endpoints valid from_id to_id) (\<lambda>_.
     bindr (checkr (\<not> start \<ge> end_ns) (Invalid_argument
       (''UDP burst '' @ show_int burst_id @ '' has invalid start time '' @ show_int start @ '' >= '' @ show_int end_ns @ ''.''))) (\<lambda>_.
     Inr (schedule @ [\<lparr>ub_id = burst_id, ub_from = from_id, ub_to = to_id, ub_rate = rate, ub_start = start,
            ub_duration = duration, ub_params = spl ! 6, ub_metadata = spl ! 7\<rparr>], line_counter + 1, start)))))))))))))))"

definition read_udp_burst_schedule :: "fsys \<Rightarrow> string \<Rightarrow> (int \<Rightarrow> bool) \<Rightarrow> int \<Rightarrow> udp_burst_info list res" where
  "read_udp_burst_schedule fs filename valid end_ns =
     (if \<not> file_exists fs filename then Inl (Runtime_error (''File '' @ filename @ '' does not exist.''))
      else bindr (open_lines fs filename) (\<lambda>ls.
           bindr (foldr_res (read_burst_line valid end_ns) ls ([], 0, 0)) (\<lambda>(schedule, _, _). Inr schedule)))"

section \<open>The TCP flow schedule\<close>

record tcp_flow_entry =
  tf_id :: int
  tf_from :: int
  tf_to :: int
  tf_size :: int
  tf_start :: int
  tf_params :: string
  tf_metadata :: string

definition read_flow_line :: "(int \<Rightarrow> bool) \<Rightarrow> int \<Rightarrow> string \<Rightarrow> tcp_flow_entry reading \<Rightarrow> tcp_flow_entry reading res" where
  "read_flow_line valid end_ns line s = (case s of (schedule, line_counter, prev_start_time_ns) \<Rightarrow>
     bindr (split_string_n line '','' 7) (\<lambda>spl.
     bindr (parse_positive_int64 (spl ! 0)) (\<lambda>flow_id.
     bindr (checkr (flow_id = line_counter) (Invalid_argument
       (''TCP flow ID is not ascending by one each line (violation: '' @ show_int flow_id @ '')'' @ newline # []))) (\<lambda>_.
     bindr (parse_positive_int64 (spl ! 1)) (\<lambda>from_id.
     bindr (parse_positive_int64 (spl ! 2)) (\<lambda>to_id.
     bindr (parse_positive_int64 (spl ! 3)) (\<lambda>size_byte.
     bindr (parse_positive_int64 (spl ! 4)) (\<lambda>start.
     bindr (checkr (\<not> prev_start_time_ns > start) (Invalid_argument
       (''Start time is not weakly ascending (on line with TCP flow ID: '' @ show_int flow_id @ '', violation: '' @
        show_int start @ '')'' @ newline # []))) (\<lambda>_.
     bindr (checkr (from_id \<noteq> to_id) (Invalid_argument (''TCP flow to itself at node ID: '' @ show_int to_id @ ''.''))) (\<lambda>_.
     bindr (check_endpoints valid from_id to_id) (\<lambda>_.
     bindr (checkr (\<not> start \<ge> end_ns) (Invalid_argument
       (''TCP flow '' @ show_int flow_id @ '' has invalid start time '' @ show_int start @ '' >= '' @ show_int end_ns @ ''.''))) (\<lambda>_.
     Inr (schedule @ [\<lparr>tf_id = flow_id, tf_from = from_id, tf_to = to_id, tf_size = size_byte, tf_start = start,
            tf_params = spl ! 5, tf_metadata = spl ! 6\<rparr>], line_counter + 1, start)))))))))))))"

definition read_tcp_flow_schedule :: "fsys \<Rightarrow> string \<Rightarrow> (int \<Rightarrow> bool) \<Rightarrow> int \<Rightarrow> tcp_flow_entry list res" where
  "read_tcp_flow_schedule fs filename valid end_ns =
     (if \<not> file_exists fs filename then Inl (Runtime_error (''File '' @ filename @ '' does not exist.''))
      else bindr (open_lines fs filename) (\<lambda>ls.
           bindr (foldr_res (read_flow_line valid end_ns) ls ([], 0, 0)) (\<lambda>(schedule, _, _). Inr schedule)))"

section \<open>What a schedule satisfies\<close>

text \<open>
  A reader of schedules: every line it accepts adds one entry, whose identifier is the number of the
  line, which starts no earlier than the entry before it, and which is good.
\<close>

locale schedule_reader =
  fixes read_line :: "string \<Rightarrow> 'e reading \<Rightarrow> 'e reading res"
    and entry_id :: "'e \<Rightarrow> int" and entry_start :: "'e \<Rightarrow> int" and good :: "'e \<Rightarrow> bool"
  assumes read_line: "read_line line (es, n, prev) = Inr s \<Longrightarrow>
    \<exists>e. s = (es @ [e], n + 1, entry_start e) \<and> entry_id e = n \<and> prev \<le> entry_start e \<and> good e"
begin

definition ordered :: "'e reading \<Rightarrow> bool" where
  "ordered s \<longleftrightarrow> (case s of (es, n, prev) \<Rightarrow> n = int (length es) \<and> map entry_id es = map int [0..<length es] \<and>
     sorted (map entry_start es) \<and> (\<forall>e \<in> set es. entry_start e \<le> prev \<and> good e))"

lemma ordered_step:
  assumes "ordered s" "read_line line s = Inr s'"
  shows "ordered s'"
proof -
  obtain es n prev where s: "s = (es, n, prev)" by (cases s)
  obtain e where "s' = (es @ [e], n + 1, entry_start e)" "entry_id e = n" "prev \<le> entry_start e" "good e"
    using read_line assms(2) unfolding s by blast
  then show ?thesis using assms(1) by (fastforce simp: ordered_def s sorted_append)
qed

lemma ordered_all:
  assumes "foldr_res read_line ls ([], 0, 0) = Inr (es, n, prev)"
  shows "map entry_id es = map int [0..<length es]" "sorted (map entry_start es)" "\<forall>e \<in> set es. good e"
proof -
  have "ordered (es, n, prev)"
    by (rule foldr_res_inv [OF assms, where I = ordered]) (simp add: ordered_def, rule ordered_step)
  then show "map entry_id es = map int [0..<length es]" "sorted (map entry_start es)" "\<forall>e \<in> set es. good e"
    by (simp_all add: ordered_def)
qed

lemma length_all:
  assumes "foldr_res read_line ls (es0, n0, prev0) = Inr (es, n, prev)"
  shows "length es = length es0 + length ls"
  using assms
proof (induction ls arbitrary: es0 n0 prev0)
  case (Cons l ls)
  then obtain s where s: "read_line l (es0, n0, prev0) = Inr s" "foldr_res read_line ls s = Inr (es, n, prev)"
    by (auto simp: bindr_eq_Inr)
  obtain e where "s = (es0 @ [e], n0 + 1, entry_start e)" using read_line [OF s(1)] by blast
  then show ?case using Cons.IH s(2) by fastforce
qed simp

end

definition good_burst :: "(int \<Rightarrow> bool) \<Rightarrow> int \<Rightarrow> udp_burst_info \<Rightarrow> bool" where
  "good_burst valid end_ns b \<longleftrightarrow> valid (ub_from b) \<and> valid (ub_to b) \<and> ub_from b \<noteq> ub_to b \<and>
     ub_start b < end_ns \<and>
     (\<forall>v \<in> {ub_id b, ub_from b, ub_to b, ub_start b, ub_duration b}. 0 \<le> v \<and> in_int64 v) \<and>
     \<not> d_lt (ub_rate b) (Fin 0) \<and> \<not> d_eq (ub_rate b) (Fin 0)"

definition good_flow :: "(int \<Rightarrow> bool) \<Rightarrow> int \<Rightarrow> tcp_flow_entry \<Rightarrow> bool" where
  "good_flow valid end_ns f \<longleftrightarrow> valid (tf_from f) \<and> valid (tf_to f) \<and> tf_from f \<noteq> tf_to f \<and>
     tf_start f < end_ns \<and> (\<forall>v \<in> {tf_id f, tf_from f, tf_to f, tf_size f, tf_start f}. 0 \<le> v \<and> in_int64 v)"

lemma check_endpoints_ok: "check_endpoints valid a b = Inr u \<longleftrightarrow> valid a \<and> valid b"
  by (auto simp: check_endpoints_def bindr_eq_Inr checkr_eq_Inr)

lemma parse_positive_double_not_less: "parse_positive_double s = Inr v \<Longrightarrow> \<not> d_lt v (Fin 0)"
  by (auto simp: parse_positive_double_def bindr_eq_Inr split: if_splits)

lemma read_burst_line_ok:
  assumes "read_burst_line valid end_ns line (es, n, prev) = Inr s"
  shows "\<exists>b. s = (es @ [b], n + 1, ub_start b) \<and> ub_id b = n \<and> prev \<le> ub_start b \<and> good_burst valid end_ns b"
  using assms unfolding read_burst_line_def prod.case bindr_eq_Inr checkr_eq_Inr check_endpoints_ok
  by (elim exE conjE)
     (auto dest!: parse_positive_int64_range parse_positive_double_not_less simp: good_burst_def)

lemma read_flow_line_ok:
  assumes "read_flow_line valid end_ns line (es, n, prev) = Inr s"
  shows "\<exists>f. s = (es @ [f], n + 1, tf_start f) \<and> tf_id f = n \<and> prev \<le> tf_start f \<and> good_flow valid end_ns f"
  using assms unfolding read_flow_line_def prod.case bindr_eq_Inr checkr_eq_Inr check_endpoints_ok
  by (elim exE conjE) (auto dest!: parse_positive_int64_range simp: good_flow_def)

interpretation bursts: schedule_reader "read_burst_line valid end_ns" ub_id ub_start "good_burst valid end_ns" for valid end_ns
  by unfold_locales (rule read_burst_line_ok)

interpretation flows: schedule_reader "read_flow_line valid end_ns" tf_id tf_start "good_flow valid end_ns" for valid end_ns
  by unfold_locales (rule read_flow_line_ok)

section \<open>Reading back a printed schedule\<close>

lemma newline_char: "newline = CHR 0x0A"
  unfolding newline_def by code_simp

lemma getlines_line: "newline \<notin> set l \<Longrightarrow> getlines (l @ newline # s) = l # getlines s"
  by (induction l) auto

lemma getlines_lines: "\<forall>l \<in> set ls. newline \<notin> set l \<Longrightarrow> getlines (concat (map (\<lambda>l. l @ [newline]) ls)) = ls"
  by (induction ls) (simp_all add: getlines_line)

definition flow_line :: "tcp_flow_entry \<Rightarrow> string" where
  "flow_line f = join '','' [show_int (tf_id f), show_int (tf_from f), show_int (tf_to f), show_int (tf_size f),
     show_int (tf_start f), tf_params f, tf_metadata f]"

definition one_line :: "string \<Rightarrow> bool" where
  "one_line s \<longleftrightarrow> CHR '','' \<notin> set s \<and> newline \<notin> set s"

lemma one_line_show_int: "one_line (show_int v)"
  using show_int_chars [of "CHR '',''" v] show_int_chars [of newline v]
  by (auto simp: one_line_def newline_char is_digit_def)

lemma split_flow_line:
  assumes "one_line (tf_params f)" "one_line (tf_metadata f)"
  shows "split_string_n (flow_line f) '','' 7 = Inr [show_int (tf_id f), show_int (tf_from f), show_int (tf_to f),
     show_int (tf_size f), show_int (tf_start f), tf_params f, tf_metadata f]"
proof -
  have "split_string (flow_line f) '','' = Inr [show_int (tf_id f), show_int (tf_from f), show_int (tf_to f),
     show_int (tf_size f), show_int (tf_start f), tf_params f, tf_metadata f]"
    unfolding flow_line_def using assms one_line_show_int by (intro split_join_char) (auto simp: one_line_def)
  then show ?thesis by (simp add: split_string_n_def)
qed

lemma read_flow_line_line:
  assumes "one_line (tf_params f)" "one_line (tf_metadata f)" "good_flow valid end_ns f" "tf_id f = n" "prev \<le> tf_start f"
  shows "read_flow_line valid end_ns (flow_line f) (es, n, prev) = Inr (es @ [f], n + 1, tf_start f)"
  using assms unfolding read_flow_line_def
  by (simp add: split_flow_line good_flow_def checkr_def check_endpoints_def)

lemma read_flow_lines:
  assumes "\<forall>f \<in> set fs. one_line (tf_params f) \<and> one_line (tf_metadata f) \<and> good_flow valid end_ns f"
    "map tf_id fs = map (\<lambda>i. n + int i) [0..<length fs]" "sorted (prev # map tf_start fs)"
  shows "\<exists>s. foldr_res (read_flow_line valid end_ns) (map flow_line fs) (es, n, prev) = Inr (es @ fs, s)"
  using assms
proof (induction fs arbitrary: es n prev)
  case (Cons f fs)
  have "tf_id f = n" "map tf_id fs = map (\<lambda>i. (n + 1) + int i) [0..<length fs]"
    using Cons.prems(2) by (simp_all add: upt_conv_Cons map_Suc_upt [symmetric] del: upt_Suc)
  then show ?case
    using Cons.IH [of "n + 1" "tf_start f" "es @ [f]"] Cons.prems by (simp add: read_flow_line_line)
qed simp

text \<open>
  C26. A TCP flow schedule that was printed line by line is read back as it is, exactly if its
  identifiers count from 0, its start times are weakly ascending and every flow is good: between
  two different valid endpoints, started before the end of the simulation, all values non-negative
  within 64 bits.
\<close>

theorem tcp_flow_schedule_roundtrip:
  assumes "fs_files fs filename = Some (concat (map (\<lambda>f. flow_line f @ [newline]) es))" "fs_readable fs filename"
    "\<forall>f \<in> set es. one_line (tf_params f) \<and> one_line (tf_metadata f)"
  shows "read_tcp_flow_schedule fs filename valid end_ns = Inr es \<longleftrightarrow>
    map tf_id es = map int [0..<length es] \<and> sorted (map tf_start es) \<and> (\<forall>f \<in> set es. good_flow valid end_ns f)"
proof -
  have "newline \<notin> set (flow_line f)" if "f \<in> set es" for f
    using assms(3) that one_line_show_int unfolding flow_line_def
    by (auto simp: one_line_def newline_char dest!: subsetD [OF set_join])
  then have "getlines (concat (map (\<lambda>f. flow_line f @ [newline]) es)) = map flow_line es"
    using getlines_lines [of "map flow_line es"] by (simp add: comp_def)
  then have r: "read_tcp_flow_schedule fs filename valid end_ns =
      bindr (foldr_res (read_flow_line valid end_ns) (map flow_line es) ([], 0, 0)) (\<lambda>(schedule, _, _). Inr schedule)"
    using assms(1,2) by (simp add: read_tcp_flow_schedule_def open_lines_def file_exists_def)
  show ?thesis
  proof
    assume "read_tcp_flow_schedule fs filename valid end_ns = Inr es"
    then obtain n prev where "foldr_res (read_flow_line valid end_ns) (map flow_line es) ([], 0, 0) = Inr (es, n, prev)"
      unfolding r by (auto simp: bindr_eq_Inr)
    from flows.ordered_all [OF this]
    show "map tf_id es = map int [0..<length es] \<and> sorted (map tf_start es) \<and> (\<forall>f \<in> set es. good_flow valid end_ns f)"
      by simp
  next
    assume g: "map tf_id es = map int [0..<length es] \<and> sorted (map tf_start es) \<and> (\<forall>f \<in> set es. good_flow valid end_ns f)"
    then have "sorted (0 # map tf_start es)" by (auto simp: good_flow_def)
    then show "read_tcp_flow_schedule fs filename valid end_ns = Inr es"
      using read_flow_lines [of es valid end_ns 0 0 "[]"] g assms(3) unfolding r by auto
  qed
qed

definition two_flows :: "tcp_flow_entry list" where
  "two_flows = [\<lparr>tf_id = 0, tf_from = 1, tf_to = 2, tf_size = 1000, tf_start = 5, tf_params = '''', tf_metadata = ''a''\<rparr>,
     \<lparr>tf_id = 1, tf_from = 2, tf_to = 1, tf_size = 0, tf_start = 5, tf_params = '''', tf_metadata = ''''\<rparr>]"

definition one_file :: "string \<Rightarrow> fsys" where
  "one_file content = \<lparr>fs_files = (\<lambda>f. if f = ''s'' then Some content else None), fs_dirs = (\<lambda>_. False),
     fs_readable = (\<lambda>_. True), fs_unlink_ok = (\<lambda>_. True), fs_rmdir_ok = (\<lambda>_. True), fs_mkdir_ok = (\<lambda>_. True)\<rparr>"

theorem tcp_flow_schedule_roundtrip_witness:
  "read_tcp_flow_schedule (one_file (concat (map (\<lambda>f. flow_line f @ [newline]) two_flows))) ''s'' (\<lambda>v. v \<in> {1, 2}) 10 = Inr two_flows"
  by (subst tcp_flow_schedule_roundtrip)
     (auto simp: one_file_def two_flows_def one_line_def newline_char good_flow_def in_int64_def)

text \<open>
  C25. Every entry of a UDP burst schedule that is read is well-formed: identifiers count from 0,
  start times are weakly ascending and before the end of the simulation, the endpoints are valid and
  different, all values are non-negative within 64 bits and the target rate is neither zero nor
  negative; there is one entry for every line of the file.
\<close>

theorem udp_burst_schedule_wellformed:
  assumes "read_udp_burst_schedule fs filename valid end_ns = Inr es"
  shows "map ub_id es = map int [0..<length es] \<and> sorted (map ub_start es) \<and> (\<forall>b \<in> set es. good_burst valid end_ns b) \<and>
    (\<exists>content. fs_files fs filename = Some content \<and> length es = length (getlines content))"
proof -
  obtain content n prev where c: "fs_files fs filename = Some content"
    and f: "foldr_res (read_burst_line valid end_ns) (getlines content) ([], 0, 0) = Inr (es, n, prev)"
    using assms by (auto simp: read_udp_burst_schedule_def open_lines_def bindr_eq_Inr split: if_splits option.splits)
  show ?thesis using c bursts.ordered_all [OF f] bursts.length_all [OF f] by simp
qed

lemma one_burst_read:
  "read_udp_burst_schedule (one_file ''0,1,2,8,5,7,,x'') ''s'' (\<lambda>v. v \<in> {1, 2}) 10 =
   Inr [\<lparr>ub_id = 0, ub_from = 1, ub_to = 2, ub_rate = Fin 8, ub_start = 5, ub_duration = 7, ub_params = '''', ub_metadata = ''x''\<rparr>]"
  by code_simp

theorem udp_burst_schedule_wellformed_witness:
  "good_burst (\<lambda>v. v \<in> {1, 2}) 10
     \<lparr>ub_id = 0, ub_from = 1, ub_to = 2, ub_rate = Fin 8, ub_start = 5, ub_duration = 7, ub_params = '''', ub_metadata = ''x''\<rparr>"
  using udp_burst_schedule_wellformed [OF one_burst_read] by simp

end
