(* ===== verification/Udp_Burst.thy ===== *)
theory Udp_Burst
  imports Schedules "HOL-Library.Multiset"
begin

text \<open>
  basic-sim: the UDP burst application, udp-burst-application.cc, with the header of its packets,
  id-seq-header.cc, and the scheduler that installs it on the endpoints, udp-burst-scheduler.cc. The
  theorems say when exactly the packets of every burst are sent, that no event of a started
  application fails, that every burst of a schedule is registered where it belongs, and that the
  header survives the wire.

  The simulator of ns-3 is used through \<open>Schedule\<close> and \<open>Cancel\<close>: an application keeps the events it
  has pending, each with its number and time, and the step relation \<open>burst_step\<close> runs one with the
  least time, as the simulator does. What is handed to the socket is kept in order, with the time.
\<close>

section \<open>IdSeqHeader\<close>

record id_seq =
  ih_id :: int
  ih_seq :: int

text \<open>\<open>WriteHtonU64\<close> and \<open>ReadNtohU64\<close>: eight bytes, the most significant first.\<close>

definition write_u64 :: "int \<Rightarrow> int list" where
  "write_u64 v = map (\<lambda>i. v div 256 ^ (7 - i) mod 256) [0..<8]"

definition read_u64 :: "int list \<Rightarrow> int" where
  "read_u64 bs = foldl (\<lambda>a b. a * 256 + b) 0 (take 8 bs)"

definition id_seq_size :: int where
  "id_seq_size = 8 + 8"

definition id_seq_serialize :: "id_seq \<Rightarrow> int list" where
  "id_seq_serialize h = write_u64 (ih_id h) @ write_u64 (ih_seq h)"

definition id_seq_deserialize :: "int list \<Rightarrow> id_seq res" where
  "id_seq_deserialize bs =
     bindr (checkr (id_seq_size \<le> int (length bs)) (Assert_failed ''read beyond the end of the buffer'')) (\<lambda>_.
       Inr \<lparr>ih_id = read_u64 bs, ih_seq = read_u64 (drop 8 bs)\<rparr>)"

section \<open>UdpBurstApplication\<close>

datatype burst_event = Start_next_burst | Burst_send_out nat

text \<open>
  The state of an application on a node; \<open>'a\<close> are the socket addresses. \<open>ua_files\<close> are the log files
  written so far, \<open>ua_wire\<close> the packets handed to the socket: time, header, size of the rest of the
  payload and target; \<open>ua_scheduled\<close> the events pending in the simulator: number, time and event.
\<close>

record 'a udp_app =
  ua_node :: int
  ua_max_udp_payload_size_byte :: int
  ua_logs_dir :: string
  ua_socket :: bool
  ua_receiving :: bool
  ua_start_next_burst_event :: "nat option"
  ua_outgoing :: "(udp_burst_info \<times> 'a) list"
  ua_sent :: "int list"
  ua_event_id :: "nat option list"
  ua_outgoing_logging :: "bool list"
  ua_next_internal_burst_idx :: nat
  ua_incoming :: "udp_burst_info list"
  ua_received :: "int \<Rightarrow> int option"
  ua_incoming_logging :: "int \<Rightarrow> bool option"
  ua_files :: "string \<Rightarrow> string list option"
  ua_wire :: "(int \<times> id_seq \<times> int \<times> 'a) list"
  ua_scheduled :: "(nat \<times> int \<times> burst_event) list"
  ua_next_uid :: nat

definition udp_app_init :: "int \<Rightarrow> string \<Rightarrow> 'a udp_app" where
  "udp_app_init node logs_dir = \<lparr>ua_node = node, ua_max_udp_payload_size_byte = 1472, ua_logs_dir = logs_dir,
     ua_socket = False, ua_receiving = False, ua_start_next_burst_event = None, ua_outgoing = [], ua_sent = [], ua_event_id = [],
     ua_outgoing_logging = [], ua_next_internal_burst_idx = 0, ua_incoming = [], ua_received = Map.empty,
     ua_incoming_logging = Map.empty, ua_files = Map.empty, ua_wire = [], ua_scheduled = [], ua_next_uid = 0\<rparr>"

definition burst_log_name :: "'a udp_app \<Rightarrow> int \<Rightarrow> string \<Rightarrow> string" where
  "burst_log_name a burst_id direction =
     ua_logs_dir a @ ''/udp_burst_'' @ show_int (to_uint64 burst_id) @ ''_'' @ direction @ ''.csv''"

definition register_outgoing :: "udp_burst_info \<Rightarrow> 'a \<Rightarrow> bool \<Rightarrow> 'a udp_app \<Rightarrow> 'a udp_app res" where
  "register_outgoing info target logging a =
     bindr (checkr (ub_from info = ua_node a) (Aborted ''Source node identifier is not that of this node.'')) (\<lambda>_.
     if ua_outgoing a \<noteq> [] \<and> ub_start info < ub_start (fst (last (ua_outgoing a)))
     then Inl (Runtime_error ''Bursts must be added weakly ascending on start time'')
     else Inr (a\<lparr>ua_outgoing := ua_outgoing a @ [(info, target)], ua_sent := ua_sent a @ [0],
            ua_event_id := ua_event_id a @ [None], ua_outgoing_logging := ua_outgoing_logging a @ [logging],
            ua_files := (if logging then (ua_files a)(burst_log_name a (ub_id info) ''outgoing'' \<mapsto> []) else ua_files a)\<rparr>))"

definition register_incoming :: "udp_burst_info \<Rightarrow> bool \<Rightarrow> 'a udp_app \<Rightarrow> 'a udp_app res" where
  "register_incoming info logging a =
     bindr (checkr (ub_to info = ua_node a) (Aborted ''Destination node identifier is not that of this node.'')) (\<lambda>_.
     Inr (a\<lparr>ua_incoming := ua_incoming a @ [info], ua_received := (ua_received a)(ub_id info \<mapsto> 0),
            ua_incoming_logging := (ua_incoming_logging a)(ub_id info \<mapsto> logging),
            ua_files := (if logging then (ua_files a)(burst_log_name a (ub_id info) ''incoming'' \<mapsto> []) else ua_files a)\<rparr>))"

text \<open>\<open>Simulator::Schedule\<close> and \<open>Simulator::Cancel\<close>; the default event identifier is of no event.\<close>

definition schedule_event :: "int \<Rightarrow> int \<Rightarrow> burst_event \<Rightarrow> 'a udp_app \<Rightarrow> (nat \<times> 'a udp_app) res" where
  "schedule_event now delay ev a =
     bindr (checkr (0 \<le> delay) (Assert_failed ''Schedule with a negative delay'')) (\<lambda>_.
       Inr (ua_next_uid a, a\<lparr>ua_scheduled := ua_scheduled a @ [(ua_next_uid a, now + delay, ev)],
                             ua_next_uid := Suc (ua_next_uid a)\<rparr>))"

definition cancel_event :: "nat option \<Rightarrow> 'a udp_app \<Rightarrow> 'a udp_app" where
  "cancel_event uid a = a\<lparr>ua_scheduled := filter (\<lambda>(u, _). Some u \<noteq> uid) (ua_scheduled a)\<rparr>"

definition append_line :: "string \<Rightarrow> string \<Rightarrow> (string \<Rightarrow> string list option) \<Rightarrow> (string \<Rightarrow> string list option)" where
  "append_line name line files = files(name \<mapsto> (case files name of None \<Rightarrow> [] | Some ls \<Rightarrow> ls) @ [line])"

definition log_line :: "id_seq \<Rightarrow> int \<Rightarrow> string" where
  "log_line h now = show_int (ih_id h) @ '','' @ show_int (ih_seq h) @ '','' @ show_int now"

text \<open>\<open>bind_ok\<close> says whether the socket can be bound to the port.\<close>

definition start_application :: "bool \<Rightarrow> int \<Rightarrow> 'a udp_app \<Rightarrow> 'a udp_app res" where
  "start_application bind_ok now a =
     bindr (checkr (ua_socket a \<or> bind_ok) (Aborted ''Failed to bind socket'')) (\<lambda>_.
     let a1 = a\<lparr>ua_socket := True, ua_receiving := True\<rparr> in
     case ua_outgoing a1 of
       [] \<Rightarrow> Inr a1
     | (info, _) # _ \<Rightarrow> bindr (schedule_event now (ub_start info) Start_next_burst a1) (\<lambda>(uid, a2).
         Inr (a2\<lparr>ua_start_next_burst_event := Some uid\<rparr>)))"

text \<open>The gap between two packets of a burst, as an unsigned 64-bit number of nanoseconds.\<close>

definition packet_gap_nanoseconds :: "udp_burst_info \<Rightarrow> int res" where
  "packet_gap_nanoseconds info = d_trunc (d_ceil (d_div (Fin 1500) (d_div (ub_rate info) (Fin 8000)))) 0 (2 ^ 64 - 1)"

definition transmit_full_packet :: "int \<Rightarrow> nat \<Rightarrow> 'a udp_app \<Rightarrow> 'a udp_app" where
  "transmit_full_packet now i a =
     (let (info, target) = ua_outgoing a ! i;
          h = \<lparr>ih_id = to_uint64 (ub_id info), ih_seq = ua_sent a ! i\<rparr>
      in a\<lparr>ua_sent := (ua_sent a)[i := to_uint64 (ua_sent a ! i + 1)],
           ua_files := (if ua_outgoing_logging a ! i
             then append_line (burst_log_name a (ih_id h) ''outgoing'') (log_line h now) (ua_files a) else ua_files a),
           ua_wire := ua_wire a @ [(now, h, to_uint32 (ua_max_udp_payload_size_byte a - id_seq_size), target)]\<rparr>)"

definition burst_send_out :: "int \<Rightarrow> nat \<Rightarrow> 'a udp_app \<Rightarrow> 'a udp_app res" where
  "burst_send_out now i a =
     (let a1 = transmit_full_packet now i a; info = fst (ua_outgoing a1 ! i) in
      bindr (packet_gap_nanoseconds info) (\<lambda>gap.
      bindr (checkr (in_int64 (ub_start info + ub_duration info)) (Undefined ''signed overflow'')) (\<lambda>_.
      if to_uint64 (to_uint64 now + gap) < to_uint64 (ub_start info + ub_duration info)
      then bindr (schedule_event now (to_int64 gap) (Burst_send_out i) a1) (\<lambda>(uid, a2).
           Inr (a2\<lparr>ua_event_id := (ua_event_id a2)[i := Some uid]\<rparr>))
      else Inr a1)))"

definition start_next_burst :: "int \<Rightarrow> 'a udp_app \<Rightarrow> 'a udp_app res" where
  "start_next_burst now a =
     (let i = ua_next_internal_burst_idx a in
      if i \<ge> length (ua_outgoing a) \<or> ub_start (fst (ua_outgoing a ! i)) \<noteq> now
      then Inl (Runtime_error ''No next burst available; this function should not have been called.'')
      else bindr (burst_send_out now i a) (\<lambda>a1.
           let a2 = a1\<lparr>ua_next_internal_burst_idx := i + 1\<rparr> in
           if i + 1 < length (ua_outgoing a2)
           then bindr (schedule_event now (ub_start (fst (ua_outgoing a2 ! (i + 1))) - now) Start_next_burst a2) (\<lambda>(uid, a3).
                Inr (a3\<lparr>ua_start_next_burst_event := Some uid\<rparr>))
           else Inr a2))"

definition stop_application :: "'a udp_app \<Rightarrow> 'a udp_app" where
  "stop_application a =
     (if ua_socket a
      then fold cancel_event (ua_event_id a) (cancel_event (ua_start_next_burst_event a) (a\<lparr>ua_receiving := False\<rparr>))
      else a)"

text \<open>One packet that was received, then all that wait at the socket.\<close>

definition handle_packet :: "int \<Rightarrow> int list \<Rightarrow> 'a udp_app \<Rightarrow> 'a udp_app res" where
  "handle_packet now packet a =
     bindr (id_seq_deserialize packet) (\<lambda>h.
     let key = to_int64 (ih_id h) in
     case ua_received a key of
       None \<Rightarrow> Inl (Out_of_range ''map::at'')
     | Some n \<Rightarrow> Inr (a\<lparr>ua_received := (ua_received a)(key \<mapsto> to_uint64 (n + 1)),
           ua_files := (if ua_incoming_logging a key = Some True
             then append_line (burst_log_name a (ih_id h) ''incoming'') (log_line h now) (ua_files a) else ua_files a)\<rparr>))"

definition handle_read :: "int \<Rightarrow> int list list \<Rightarrow> 'a udp_app \<Rightarrow> 'a udp_app res" where
  "handle_read now packets a = foldr_res (handle_packet now) packets a"

definition get_outgoing_bursts_information :: "'a udp_app \<Rightarrow> (udp_burst_info \<times> int) list" where
  "get_outgoing_bursts_information a = map (\<lambda>i. (fst (ua_outgoing a ! i), ua_sent a ! i)) [0..<length (ua_outgoing a)]"

definition get_incoming_bursts_information :: "'a udp_app \<Rightarrow> (udp_burst_info \<times> int) list res" where
  "get_incoming_bursts_information a =
     mapr (\<lambda>info. case ua_received a (ub_id info) of
        None \<Rightarrow> Inl (Out_of_range ''map::at'') | Some n \<Rightarrow> Inr (info, n)) (ua_incoming a)"

definition get_sent_counter_of :: "int \<Rightarrow> 'a udp_app \<Rightarrow> int res" where
  "get_sent_counter_of burst_id a =
     (case find (\<lambda>i. ub_id (fst (ua_outgoing a ! i)) = burst_id) [0..<length (ua_outgoing a)] of
        Some i \<Rightarrow> Inr (ua_sent a ! i)
      | None \<Rightarrow> Inl (Runtime_error ''Sent counter for unknown UDP burst ID was requested''))"


section \<open>The header survives the wire\<close>

lemma foldl_bytes: "foldl (\<lambda>a b. a * 256 + b) x (map (\<lambda>i. v div 256 ^ (n - 1 - i) mod 256) [0..<n]) = x * 256 ^ n + v mod 256 ^ n"
  for v x :: int
proof (induction n arbitrary: x v)
  case (Suc n)
  have "map (\<lambda>i. v div 256 ^ (Suc n - 1 - i) mod 256) [0..<Suc n] =
      map (\<lambda>i. (v div 256) div 256 ^ (n - 1 - i) mod 256) [0..<n] @ [v mod 256]"
    by (simp add: zdiv_zmult2_eq [symmetric] Suc_diff_Suc flip: power_Suc)
  then have "foldl (\<lambda>a b. a * 256 + b) x (map (\<lambda>i. v div 256 ^ (Suc n - 1 - i) mod 256) [0..<Suc n]) =
      (x * 256 ^ n + (v div 256) mod 256 ^ n) * 256 + v mod 256"
    using Suc.IH [of x "v div 256"] by (simp only: foldl_append foldl.simps)
  also have "\<dots> = x * 256 ^ Suc n + v mod 256 ^ Suc n"
    by (simp add: zmod_zmult2_eq algebra_simps)
  finally show ?case .
qed simp

lemma read_write_u64: "0 \<le> v \<Longrightarrow> v < 2 ^ 64 \<Longrightarrow> read_u64 (write_u64 v @ bs) = v"
  using foldl_bytes [of 0 v 8] by (simp add: read_u64_def write_u64_def del: upt_Suc)

lemma length_write_u64 [simp]: "length (write_u64 v) = 8"
  by (simp add: write_u64_def)

text \<open>
  A header that is serialized takes 16 byte, and deserializing them gives it back, whatever the
  payload behind; fewer bytes are refused.
\<close>

theorem id_seq_roundtrip:
  assumes "0 \<le> ih_id h" "ih_id h < 2 ^ 64" "0 \<le> ih_seq h" "ih_seq h < 2 ^ 64"
  shows "int (length (id_seq_serialize h)) = id_seq_size \<and> id_seq_deserialize (id_seq_serialize h @ payload) = Inr h \<and>
    (\<forall>b \<in> set (id_seq_serialize h). 0 \<le> b \<and> b < 256) \<and>
    (\<forall>bs. length bs < 16 \<longrightarrow> id_seq_deserialize bs = Inl (Assert_failed ''read beyond the end of the buffer''))"
proof -
  have "read_u64 (write_u64 (ih_id h) @ write_u64 (ih_seq h) @ payload) = ih_id h"
    "read_u64 (write_u64 (ih_seq h) @ payload) = ih_seq h"
    using assms by (simp_all only: read_write_u64)
  then have "id_seq_deserialize (id_seq_serialize h @ payload) = Inr h"
    by (simp add: id_seq_deserialize_def id_seq_serialize_def id_seq_size_def checkr_def)
  then show ?thesis
    by (auto simp: id_seq_serialize_def id_seq_size_def id_seq_deserialize_def checkr_def write_u64_def)
qed

theorem id_seq_roundtrip_witness:
  "id_seq_deserialize (id_seq_serialize \<lparr>ih_id = 2 ^ 63 + 7, ih_seq = 256\<rparr> @ [1, 2, 3]) = Inr \<lparr>ih_id = 2 ^ 63 + 7, ih_seq = 256\<rparr>"
  using id_seq_roundtrip [of "\<lparr>ih_id = 2 ^ 63 + 7, ih_seq = 256\<rparr>" "[1, 2, 3]"] by simp

section \<open>The events of an application\<close>

fun run_event :: "burst_event \<Rightarrow> int \<Rightarrow> 'a udp_app \<Rightarrow> 'a udp_app res" where
  "run_event Start_next_burst t a = start_next_burst t a"
| "run_event (Burst_send_out i) t a = burst_send_out t i a"

text \<open>
  The simulator takes an event with the least time out and runs it; packets arrive while no event is
  overdue.
\<close>

inductive burst_step :: "int \<times> 'a udp_app \<Rightarrow> int \<times> 'a udp_app \<Rightarrow> bool" where
  run: "(uid, t, ev) \<in> set (ua_scheduled a) \<Longrightarrow> \<forall>(_, t', _) \<in> set (ua_scheduled a). t \<le> t' \<Longrightarrow>
    run_event ev t (cancel_event (Some uid) a) = Inr a' \<Longrightarrow> burst_step (now, a) (t, a')"
| receive: "now \<le> t \<Longrightarrow> \<forall>(_, t', _) \<in> set (ua_scheduled a). t \<le> t' \<Longrightarrow> ua_receiving a \<Longrightarrow>
    handle_read t packets a = Inr a' \<Longrightarrow> burst_step (now, a) (t, a')"

section \<open>The invariant of the sending side\<close>

definition burst_gap :: "udp_burst_info \<Rightarrow> int" where
  "burst_gap b = (case packet_gap_nanoseconds b of Inr g \<Rightarrow> g | Inl _ \<Rightarrow> 0)"

definition burst_ok :: "udp_burst_info \<Rightarrow> bool" where
  "burst_ok b \<longleftrightarrow> 0 \<le> ub_start b \<and> 0 \<le> ub_duration b \<and> ub_start b + ub_duration b < 2 ^ 63 \<and>
     packet_gap_nanoseconds b = Inr (burst_gap b) \<and> 0 < burst_gap b \<and> burst_gap b < 2 ^ 63"






text \<open>Packet \<open>k\<close> of a burst is due after \<open>k\<close> gaps, and is one of it if it is the first or due within the duration.\<close>

definition due :: "udp_burst_info \<Rightarrow> nat \<Rightarrow> int" where
  "due b k = ub_start b + int k * burst_gap b"

definition in_burst :: "udp_burst_info \<Rightarrow> nat \<Rightarrow> bool" where
  "in_burst b k \<longleftrightarrow> k = 0 \<or> int k * burst_gap b < ub_duration b"

abbreviation burst_of :: "'a udp_app \<Rightarrow> nat \<Rightarrow> udp_burst_info" where
  "burst_of a i \<equiv> fst (ua_outgoing a ! i)"

definition sent_of :: "'a udp_app \<Rightarrow> nat \<Rightarrow> nat" where
  "sent_of a i = nat (ua_sent a ! i)"

text \<open>The bursts of an application as they were registered.\<close>

definition bursts_ok :: "'a udp_app \<Rightarrow> bool" where
  "bursts_ok a \<longleftrightarrow> length (ua_sent a) = length (ua_outgoing a) \<and>
     (\<forall>i < length (ua_outgoing a). burst_ok (burst_of a i) \<and> 0 \<le> ua_sent a ! i) \<and>
     (\<forall>i j. i \<le> j \<and> j < length (ua_outgoing a) \<longrightarrow> ub_start (burst_of a i) \<le> ub_start (burst_of a j)) \<and>
     distinct (map (\<lambda>(b, _). to_uint64 (ub_id b)) (ua_outgoing a))"

text \<open>The events that are pending: the start of the next burst, and the next packet of every started one.\<close>

fun pending_at :: "'a udp_app \<Rightarrow> int \<Rightarrow> burst_event \<Rightarrow> bool" where
  "pending_at a x Start_next_burst \<longleftrightarrow> ua_next_internal_burst_idx a < length (ua_outgoing a) \<and>
     x = ub_start (burst_of a (ua_next_internal_burst_idx a))"
| "pending_at a x (Burst_send_out i) \<longleftrightarrow> i < ua_next_internal_burst_idx a \<and>
     x = due (burst_of a i) (sent_of a i) \<and> in_burst (burst_of a i) (sent_of a i)"

definition events_ok :: "'a udp_app \<Rightarrow> bool" where
  "events_ok a \<longleftrightarrow> (\<forall>x ev. (x, ev) \<in> snd ` set (ua_scheduled a) \<longleftrightarrow> pending_at a x ev) \<and>
     distinct (map fst (ua_scheduled a)) \<and> distinct (map (\<lambda>e. snd (snd e)) (ua_scheduled a)) \<and>
     (\<forall>e \<in> set (ua_scheduled a). fst e < ua_next_uid a)"

text \<open>The packets sent of a burst that has been started, none of one that has not.\<close>

definition counts_ok :: "int \<Rightarrow> 'a udp_app \<Rightarrow> bool" where
  "counts_ok now a \<longleftrightarrow> ua_next_internal_burst_idx a \<le> length (ua_outgoing a) \<and>
     (\<forall>i < length (ua_outgoing a). let k = sent_of a i in
        if i < ua_next_internal_burst_idx a
        then 0 < k \<and> in_burst (burst_of a i) (k - 1) \<and> due (burst_of a i) (k - 1) \<le> now
        else k = 0)"

definition wire_ok :: "'a udp_app \<Rightarrow> bool" where
  "wire_ok a \<longleftrightarrow> (\<forall>i < length (ua_outgoing a). let b = burst_of a i; ident = to_uint64 (ub_id b) in
     filter (\<lambda>(_, h, _, _). ih_id h = ident) (ua_wire a) =
     map (\<lambda>k. (due b k, \<lparr>ih_id = ident, ih_seq = int k\<rparr>, to_uint32 (ua_max_udp_payload_size_byte a - id_seq_size),
       snd (ua_outgoing a ! i))) [0..<sent_of a i])"

definition burst_inv :: "int \<Rightarrow> 'a udp_app \<Rightarrow> bool" where
  "burst_inv now a \<longleftrightarrow> bursts_ok a \<and> events_ok a \<and> counts_ok now a \<and> wire_ok a \<and>
     (\<forall>e \<in> set (ua_scheduled a). now \<le> fst (snd e))"

lemma in_burst_Suc: "0 < burst_gap b \<Longrightarrow> in_burst b (Suc k) \<Longrightarrow> in_burst b k"
  by (auto simp: in_burst_def algebra_simps)

lemma in_burst_mono:
  assumes "0 < burst_gap b" "in_burst b k" "j \<le> k"
  shows "in_burst b j"
proof -
  have "int j * burst_gap b \<le> int k * burst_gap b" using assms(1,3) by (intro mult_right_mono) auto
  then have "int k * burst_gap b < ub_duration b \<Longrightarrow> int j * burst_gap b < ub_duration b" by (rule le_less_trans)
  with assms(2,3) show ?thesis by (auto simp: in_burst_def)
qed

lemma due_mono: "0 < burst_gap b \<Longrightarrow> j \<le> k \<Longrightarrow> due b j \<le> due b k"
  by (simp add: due_def)

lemma due_bounds:
  assumes "burst_ok b" "in_burst b k"
  shows "0 \<le> due b k" "due b k < 2 ^ 63" "int k < 2 ^ 63"
proof -
  have "int k * burst_gap b \<le> ub_duration b" "0 \<le> int k * burst_gap b" "int k \<le> int k * burst_gap b"
    using assms mult_left_mono [of 1 "burst_gap b" "int k"] by (auto simp: in_burst_def burst_ok_def)
  then show "0 \<le> due b k" "due b k < 2 ^ 63" "int k < 2 ^ 63" using assms(1) by (auto simp: due_def burst_ok_def)
qed

lemma transmit_full_packet_fields [simp]:
  "ua_outgoing (transmit_full_packet t i a) = ua_outgoing a"
  "ua_scheduled (transmit_full_packet t i a) = ua_scheduled a"
  "ua_next_uid (transmit_full_packet t i a) = ua_next_uid a"
  "ua_event_id (transmit_full_packet t i a) = ua_event_id a"
  "ua_next_internal_burst_idx (transmit_full_packet t i a) = ua_next_internal_burst_idx a"
  "ua_max_udp_payload_size_byte (transmit_full_packet t i a) = ua_max_udp_payload_size_byte a"
  "ua_sent (transmit_full_packet t i a) = (ua_sent a)[i := to_uint64 (ua_sent a ! i + 1)]"
  "ua_wire (transmit_full_packet t i a) = ua_wire a @ [(t, \<lparr>ih_id = to_uint64 (ub_id (burst_of a i)), ih_seq = ua_sent a ! i\<rparr>,
     to_uint32 (ua_max_udp_payload_size_byte a - id_seq_size), snd (ua_outgoing a ! i))]"
  by (simp_all add: transmit_full_packet_def Let_def split: prod.splits)

text \<open>Sending the packet that is due.\<close>

lemma burst_send_out_ok:
  assumes "burst_ok (burst_of a i)" "ua_sent a ! i = int k" "in_burst (burst_of a i) k" "t = due (burst_of a i) k"
  shows "burst_send_out t i a = Inr (let a1 = transmit_full_packet t i a in
    if in_burst (burst_of a i) (Suc k)
    then a1\<lparr>ua_scheduled := ua_scheduled a @ [(ua_next_uid a, due (burst_of a i) (Suc k), Burst_send_out i)],
            ua_next_uid := Suc (ua_next_uid a), ua_event_id := (ua_event_id a)[i := Some (ua_next_uid a)]\<rparr>
    else a1)"
proof -
  let ?b = "burst_of a i"
  have b: "0 \<le> t" "t < 2 ^ 63" using due_bounds [OF assms(1,3)] assms(4) by simp_all
  have g: "packet_gap_nanoseconds ?b = Inr (burst_gap ?b)" "0 < burst_gap ?b" "burst_gap ?b < 2 ^ 63"
    and e: "0 \<le> ub_start ?b + ub_duration ?b" "ub_start ?b + ub_duration ?b < 2 ^ 63"
    using assms(1) by (auto simp: burst_ok_def)
  have "to_uint64 (to_uint64 t + burst_gap ?b) = t + burst_gap ?b" using b g by (simp add: to_uint64_def)
  moreover have "to_uint64 (ub_start ?b + ub_duration ?b) = ub_start ?b + ub_duration ?b" using e by (simp add: to_uint64_def)
  moreover have "t + burst_gap ?b < ub_start ?b + ub_duration ?b \<longleftrightarrow> in_burst ?b (Suc k)"
    using assms(4) by (auto simp: in_burst_def due_def algebra_simps)
  moreover have "t + burst_gap ?b = due ?b (Suc k)" using assms(4) by (simp add: due_def algebra_simps)
  moreover have "to_int64 (burst_gap ?b) = burst_gap ?b" "in_int64 (ub_start ?b + ub_duration ?b)"
    using g e by (simp_all add: in_int64_def)
  ultimately show ?thesis
    using g by (simp add: burst_send_out_def schedule_event_def checkr_def Let_def)
qed

lemma pending_unaffected [simp]:
  "bursts_ok (a\<lparr>ua_scheduled := s\<rparr>) = bursts_ok a" "wire_ok (a\<lparr>ua_scheduled := s\<rparr>) = wire_ok a"
  "bursts_ok (a\<lparr>ua_next_uid := n\<rparr>) = bursts_ok a" "wire_ok (a\<lparr>ua_next_uid := n\<rparr>) = wire_ok a"
  "bursts_ok (a\<lparr>ua_event_id := ids\<rparr>) = bursts_ok a" "wire_ok (a\<lparr>ua_event_id := ids\<rparr>) = wire_ok a"
  "bursts_ok (a\<lparr>ua_start_next_burst_event := e\<rparr>) = bursts_ok a" "wire_ok (a\<lparr>ua_start_next_burst_event := e\<rparr>) = wire_ok a"
  "bursts_ok (a\<lparr>ua_next_internal_burst_idx := i\<rparr>) = bursts_ok a" "wire_ok (a\<lparr>ua_next_internal_burst_idx := i\<rparr>) = wire_ok a"
  "sent_of (a\<lparr>ua_scheduled := s\<rparr>) = sent_of a" "sent_of (a\<lparr>ua_next_uid := n\<rparr>) = sent_of a"
  "sent_of (a\<lparr>ua_event_id := ids\<rparr>) = sent_of a" "sent_of (a\<lparr>ua_start_next_burst_event := e\<rparr>) = sent_of a"
  "sent_of (a\<lparr>ua_next_internal_burst_idx := i\<rparr>) = sent_of a"
  by (simp_all add: bursts_ok_def wire_ok_def sent_of_def fun_eq_iff)

lemma remove_event:
  assumes "events_ok a" "(u, t, ev) \<in> set (ua_scheduled a)"
  shows "pending_at a t ev"
    "(x, e) \<in> snd ` set (ua_scheduled (cancel_event (Some u) a)) \<longleftrightarrow> pending_at a x e \<and> e \<noteq> ev"
    "distinct (map fst (ua_scheduled (cancel_event (Some u) a)))"
    "distinct (map (\<lambda>e. snd (snd e)) (ua_scheduled (cancel_event (Some u) a)))"
    "\<forall>e \<in> set (ua_scheduled (cancel_event (Some u) a)). fst e < ua_next_uid a"
proof -
  have pend: "pending_at a x e \<longleftrightarrow> (\<exists>w. (w, x, e) \<in> set (ua_scheduled a))" for x e
    using assms(1) unfolding events_ok_def by (force simp: image_iff)
  then show "pending_at a t ev" using assms(2) by blast
  have sub: "set (ua_scheduled (cancel_event (Some u) a)) \<subseteq> set (ua_scheduled a)" by (auto simp: cancel_event_def)
  then show "\<forall>e \<in> set (ua_scheduled (cancel_event (Some u) a)). fst e < ua_next_uid a"
    using assms(1) by (auto simp: events_ok_def)
  show "distinct (map fst (ua_scheduled (cancel_event (Some u) a)))"
    "distinct (map (\<lambda>e. snd (snd e)) (ua_scheduled (cancel_event (Some u) a)))"
    using assms(1) by (simp_all add: events_ok_def cancel_event_def distinct_map_filter)
  have inj: "inj_on fst (set (ua_scheduled a))" "inj_on (\<lambda>e. snd (snd e)) (set (ua_scheduled a))"
    using assms(1) by (auto simp: events_ok_def distinct_map)
  have "w \<noteq> u \<longleftrightarrow> e \<noteq> ev" if "(w, x, e) \<in> set (ua_scheduled a)" for w
    using inj_onD [OF inj(1) _ that assms(2)] inj_onD [OF inj(2) _ that assms(2)] by auto
  then show "(x, e) \<in> snd ` set (ua_scheduled (cancel_event (Some u) a)) \<longleftrightarrow> pending_at a x e \<and> e \<noteq> ev"
    unfolding pend by (auto simp: cancel_event_def image_iff)
qed

section \<open>A packet that is sent\<close>

lemma sent_of_transmit:
  assumes "ua_sent a ! i = int k" "int k < 2 ^ 63" "i < length (ua_sent a)"
  shows "sent_of (transmit_full_packet t i a) = (sent_of a)(i := Suc k)"
  using assms by (auto simp: sent_of_def fun_eq_iff to_uint64_def nth_list_update)

lemma bursts_ok_transmit:
  assumes "bursts_ok a" "i < length (ua_outgoing a)"
  shows "bursts_ok (transmit_full_packet t i a)"
  using assms by (auto simp: bursts_ok_def nth_list_update to_uint64_def)

lemma wire_ok_transmit:
  assumes "bursts_ok a" "wire_ok a" "i < length (ua_outgoing a)" "ua_sent a ! i = int k" "int k < 2 ^ 63"
    "t = due (burst_of a i) k"
  shows "wire_ok (transmit_full_packet t i a)"
proof -
  let ?id = "\<lambda>j. to_uint64 (ub_id (burst_of a j))"
  have "sent_of a i = k" using assms(4) by (simp add: sent_of_def)
  have "sent_of (transmit_full_packet t i a) = (sent_of a)(i := Suc k)"
    using assms by (intro sent_of_transmit) (auto simp: bursts_ok_def)
  moreover have "?id i = ?id j \<longleftrightarrow> i = j" if "j < length (ua_outgoing a)" for j
    using assms(1,3) that nth_eq_iff_index_eq [of "map (\<lambda>(b, _). to_uint64 (ub_id b)) (ua_outgoing a)" i j]
    by (simp add: bursts_ok_def case_prod_beta)
  ultimately show ?thesis
    using assms(2,3,4,6) \<open>sent_of a i = k\<close> unfolding wire_ok_def by (auto simp: Let_def)
qed

section \<open>The invariant is kept\<close>

lemma cancel_event_fields [simp]:
  "ua_outgoing (cancel_event u a) = ua_outgoing a" "ua_sent (cancel_event u a) = ua_sent a"
  "ua_next_uid (cancel_event u a) = ua_next_uid a" "ua_wire (cancel_event u a) = ua_wire a"
  "ua_next_internal_burst_idx (cancel_event u a) = ua_next_internal_burst_idx a"
  "bursts_ok (cancel_event u a) = bursts_ok a" "wire_ok (cancel_event u a) = wire_ok a"
  "sent_of (cancel_event u a) = sent_of a"
  by (simp_all add: cancel_event_def)

text \<open>The state after the packet of burst \<open>i\<close> that is due is sent.\<close>

definition after_send :: "int \<Rightarrow> nat \<Rightarrow> 'a udp_app \<Rightarrow> 'a udp_app" where
  "after_send t i a = (let a1 = transmit_full_packet t i a in
    if in_burst (burst_of a i) (Suc (sent_of a i))
    then a1\<lparr>ua_scheduled := ua_scheduled a @ [(ua_next_uid a, due (burst_of a i) (Suc (sent_of a i)), Burst_send_out i)],
            ua_next_uid := Suc (ua_next_uid a), ua_event_id := (ua_event_id a)[i := Some (ua_next_uid a)]\<rparr>
    else a1)"

lemma after_send_fields [simp]:
  "ua_outgoing (after_send t i a) = ua_outgoing a"
  "ua_next_internal_burst_idx (after_send t i a) = ua_next_internal_burst_idx a"
  "ua_scheduled (after_send t i a) = ua_scheduled a @ (if in_burst (burst_of a i) (Suc (sent_of a i))
     then [(ua_next_uid a, due (burst_of a i) (Suc (sent_of a i)), Burst_send_out i)] else [])"
  "ua_next_uid (after_send t i a) = ua_next_uid a + (if in_burst (burst_of a i) (Suc (sent_of a i)) then 1 else 0)"
  by (simp_all add: after_send_def Let_def)

lemma send_due_packet:
  assumes "bursts_ok a" "wire_ok a" "i < length (ua_outgoing a)" "in_burst (burst_of a i) (sent_of a i)"
    "t = due (burst_of a i) (sent_of a i)"
  shows "burst_send_out t i a = Inr (after_send t i a)" "bursts_ok (after_send t i a)" "wire_ok (after_send t i a)"
    "sent_of (after_send t i a) = (sent_of a)(i := Suc (sent_of a i))"
proof -
  have ok: "burst_ok (burst_of a i)" and k: "ua_sent a ! i = int (sent_of a i)" and len: "i < length (ua_sent a)"
    using assms(1,3) by (auto simp: bursts_ok_def sent_of_def)
  note b = due_bounds [OF ok assms(4)]
  show "burst_send_out t i a = Inr (after_send t i a)"
    unfolding burst_send_out_ok [OF ok k assms(4,5)] after_send_def ..
  show "bursts_ok (after_send t i a)" "wire_ok (after_send t i a)"
    "sent_of (after_send t i a) = (sent_of a)(i := Suc (sent_of a i))"
    using bursts_ok_transmit [OF assms(1,3)] wire_ok_transmit [OF assms(1-3) k b(3) assms(5)] sent_of_transmit [OF k b(3) len]
    by (simp_all add: after_send_def Let_def)
qed

text \<open>
  \<open>less\<close> are the events that are pending beside the one that is run; adding what the handler schedules gives
  those of the next state.
\<close>

lemma events_ok_add:
  assumes "\<And>x e. (x, e) \<in> snd ` set s \<longleftrightarrow> pending_at a x e \<and> e \<noteq> ev" "distinct (map fst s)"
    "distinct (map (\<lambda>e. snd (snd e)) s)" "\<forall>e \<in> set s. fst e < n" "ua_scheduled a' = s @ new"
    "distinct (map fst new)" "distinct (map (\<lambda>e. snd (snd e)) new)" "\<forall>e \<in> set new. n \<le> fst e \<and> fst e < ua_next_uid a'"
    "n \<le> ua_next_uid a'" "\<And>x e. e \<in> (\<lambda>e. snd (snd e)) ` set new \<Longrightarrow> \<not> (pending_at a x e \<and> e \<noteq> ev)"
    "\<And>x e. pending_at a' x e \<longleftrightarrow> pending_at a x e \<and> e \<noteq> ev \<or> (x, e) \<in> snd ` set new"
  shows "events_ok a'"
proof -
  have "(x, e) \<in> snd ` set (ua_scheduled a') \<longleftrightarrow> pending_at a' x e" for x e
    unfolding assms(5,11) assms(1) [symmetric] by (simp add: image_Un)
  moreover have "distinct (map fst (ua_scheduled a'))" using assms(2,4,5,6,8) by fastforce
  moreover have "snd (snd e) \<notin> (\<lambda>e. snd (snd e)) ` set new" if "e \<in> set s" for e
    using assms(1) [of "fst (snd e)" "snd (snd e)"] assms(10) [of "snd (snd e)" "fst (snd e)"] that by force
  then have "distinct (map (\<lambda>e. snd (snd e)) (ua_scheduled a'))" using assms(3,5,7) by auto
  moreover have "\<forall>e \<in> set (ua_scheduled a'). fst e < ua_next_uid a'" using assms(4,5,8,9) by auto
  ultimately show ?thesis by (simp add: events_ok_def)
qed

lemma counts_ok_iff:
  "counts_ok now a \<longleftrightarrow> ua_next_internal_burst_idx a \<le> length (ua_outgoing a) \<and>
     (\<forall>j < ua_next_internal_burst_idx a. 0 < sent_of a j \<and> in_burst (burst_of a j) (sent_of a j - 1) \<and>
        due (burst_of a j) (sent_of a j - 1) \<le> now) \<and>
     (\<forall>j < length (ua_outgoing a). ua_next_internal_burst_idx a \<le> j \<longrightarrow> sent_of a j = 0)"
  unfolding counts_ok_def Let_def by (metis less_le_trans not_le)

lemma send_event_keeps:
  assumes "burst_inv now a" "(u, t, Burst_send_out i) \<in> set (ua_scheduled a)" "\<forall>(_, t', _) \<in> set (ua_scheduled a). t \<le> t'"
  shows "\<exists>a'. burst_send_out t i (cancel_event (Some u) a) = Inr a' \<and> burst_inv t a'"
proof -
  have inv: "bursts_ok a" "events_ok a" "counts_ok now a" "wire_ok a" "now \<le> t"
    using assms(1,2) by (auto simp: burst_inv_def)
  note r = remove_event [OF inv(2) assms(2)]
  have i: "i < ua_next_internal_burst_idx a" "t = due (burst_of a i) (sent_of a i)" "in_burst (burst_of a i) (sent_of a i)"
    using r(1) by simp_all
  have n: "ua_next_internal_burst_idx a \<le> length (ua_outgoing a)" using inv(3) by (simp add: counts_ok_def)
  let ?c = "cancel_event (Some u) a"
  have s: "burst_send_out t i ?c = Inr (after_send t i ?c)" "bursts_ok (after_send t i ?c)" "wire_ok (after_send t i ?c)"
    "sent_of (after_send t i ?c) = (sent_of a)(i := Suc (sent_of a i))"
    using send_due_packet [of ?c i t] inv(1,4) i n by simp_all
  have g: "0 < burst_gap (burst_of a i)" using inv(1) i(1) n by (auto simp: bursts_ok_def burst_ok_def)
  have "counts_ok t (after_send t i ?c)"
    using inv(3,5) i s(4) unfolding counts_ok_iff by (auto intro: order_trans)
  moreover have "events_ok (after_send t i ?c)"
  proof (rule events_ok_add [where a = a and ev = "Burst_send_out i" and s = "ua_scheduled ?c" and n = "ua_next_uid a", OF r(2-5)])
    fix x e show "pending_at (after_send t i ?c) x e \<longleftrightarrow> pending_at a x e \<and> e \<noteq> Burst_send_out i \<or>
        (x, e) \<in> snd ` set (if in_burst (burst_of a i) (Suc (sent_of a i))
          then [(ua_next_uid a, due (burst_of a i) (Suc (sent_of a i)), Burst_send_out i)] else [])"
      using i(1) s(4) by (cases e) auto
  qed auto
  moreover have "t \<le> due (burst_of a i) (Suc (sent_of a i))" unfolding i(2) using g by (simp add: due_mono)
  then have "\<forall>e \<in> set (ua_scheduled (after_send t i ?c)). t \<le> fst (snd e)"
    using assms(3) by (auto simp: cancel_event_def)
  ultimately show ?thesis using s(1-3) by (auto simp: burst_inv_def)
qed

text \<open>The state after the next burst is started.\<close>

definition after_start :: "int \<Rightarrow> 'a udp_app \<Rightarrow> 'a udp_app" where
  "after_start t a = (let i = ua_next_internal_burst_idx a; a2 = (after_send t i a)\<lparr>ua_next_internal_burst_idx := i + 1\<rparr> in
     if i + 1 < length (ua_outgoing a)
     then a2\<lparr>ua_scheduled := ua_scheduled a2 @ [(ua_next_uid a2, ub_start (burst_of a (i + 1)), Start_next_burst)],
             ua_next_uid := Suc (ua_next_uid a2), ua_start_next_burst_event := Some (ua_next_uid a2)\<rparr>
     else a2)"

lemma after_start_fields [simp]:
  "ua_outgoing (after_start t a) = ua_outgoing a"
  "ua_next_internal_burst_idx (after_start t a) = Suc (ua_next_internal_burst_idx a)"
  "bursts_ok (after_start t a) = bursts_ok (after_send t (ua_next_internal_burst_idx a) a)"
  "wire_ok (after_start t a) = wire_ok (after_send t (ua_next_internal_burst_idx a) a)"
  "sent_of (after_start t a) = sent_of (after_send t (ua_next_internal_burst_idx a) a)"
  by (simp_all add: after_start_def Let_def)

lemma after_start_scheduled:
  "ua_scheduled (after_start t a) = (let i = ua_next_internal_burst_idx a; b = in_burst (burst_of a i) (Suc (sent_of a i)) in
     ua_scheduled a @ (if b then [(ua_next_uid a, due (burst_of a i) (Suc (sent_of a i)), Burst_send_out i)] else []) @
     (if Suc i < length (ua_outgoing a)
      then [(ua_next_uid a + (if b then 1 else 0), ub_start (burst_of a (Suc i)), Start_next_burst)] else []))"
  "ua_next_uid (after_start t a) = (let i = ua_next_internal_burst_idx a in
     ua_next_uid a + (if in_burst (burst_of a i) (Suc (sent_of a i)) then 1 else 0) +
     (if Suc i < length (ua_outgoing a) then 1 else 0))"
  by (simp_all add: after_start_def Let_def)

lemma start_event_keeps:
  assumes "burst_inv now a" "(u, t, Start_next_burst) \<in> set (ua_scheduled a)" "\<forall>(_, t', _) \<in> set (ua_scheduled a). t \<le> t'"
  shows "\<exists>a'. start_next_burst t (cancel_event (Some u) a) = Inr a' \<and> burst_inv t a'"
proof -
  have inv: "bursts_ok a" "events_ok a" "counts_ok now a" "wire_ok a" "now \<le> t"
    using assms(1,2) by (auto simp: burst_inv_def)
  note r = remove_event [OF inv(2) assms(2)]
  let ?i = "ua_next_internal_burst_idx a" and ?c = "cancel_event (Some u) a"
  have i: "?i < length (ua_outgoing a)" "t = ub_start (burst_of a ?i)" using r(1) by simp_all
  have k: "sent_of a ?i = 0" using inv(3) i(1) by (simp add: counts_ok_iff)
  have s: "burst_send_out t ?i ?c = Inr (after_send t ?i ?c)" "bursts_ok (after_send t ?i ?c)" "wire_ok (after_send t ?i ?c)"
    "sent_of (after_send t ?i ?c) = (sent_of a)(?i := Suc 0)"
    using send_due_packet [of ?c ?i t] inv(1,4) i k by (simp_all add: in_burst_def due_def)
  have next_t: "t \<le> ub_start (burst_of a (Suc ?i))" if "Suc ?i < length (ua_outgoing a)"
    using inv(1) that i(2) by (simp add: bursts_ok_def)
  have "start_next_burst t ?c = Inr (after_start t ?c)"
    using i s(1) next_t by (auto simp: start_next_burst_def after_start_def schedule_event_def checkr_def Let_def)
  moreover have "counts_ok t (after_start t ?c)"
    using inv(3,5) i s(4) unfolding counts_ok_iff by (auto simp: in_burst_def due_def less_Suc_eq intro: order_trans)
  moreover
  let ?b = "in_burst (burst_of a ?i) (Suc 0)" and ?m = "Suc ?i < length (ua_outgoing a)"
  let ?new = "(if ?b then [(ua_next_uid a, due (burst_of a ?i) (Suc 0), Burst_send_out ?i)] else []) @
    (if ?m then [(ua_next_uid a + (if ?b then 1 else 0), ub_start (burst_of a (Suc ?i)), Start_next_burst)] else [])"
  have "events_ok (after_start t ?c)"
  proof (rule events_ok_add [where a = a and ev = Start_next_burst and s = "ua_scheduled ?c" and n = "ua_next_uid a" and new = ?new,
        OF r(2-5)])
    fix x e show "pending_at (after_start t ?c) x e \<longleftrightarrow> pending_at a x e \<and> e \<noteq> Start_next_burst \<or> (x, e) \<in> snd ` set ?new"
      using s(4) by (cases e) (auto simp: less_Suc_eq)
  qed (auto simp: after_start_scheduled Let_def k)
  moreover have "\<forall>e \<in> set (ua_scheduled (after_start t ?c)). t \<le> fst (snd e)"
    using assms(3) next_t inv(1) i
    by (auto simp: cancel_event_def after_start_scheduled Let_def k due_def bursts_ok_def burst_ok_def)
  ultimately show ?thesis using s(2,3) by (auto simp: burst_inv_def)
qed

lemma handle_packet_keeps:
  assumes "handle_packet now p a = Inr a'"
  shows "ua_outgoing a' = ua_outgoing a \<and> ua_sent a' = ua_sent a \<and> ua_scheduled a' = ua_scheduled a \<and>
    ua_next_uid a' = ua_next_uid a \<and> ua_next_internal_burst_idx a' = ua_next_internal_burst_idx a \<and>
    ua_wire a' = ua_wire a \<and> ua_max_udp_payload_size_byte a' = ua_max_udp_payload_size_byte a"
  using assms by (auto simp: handle_packet_def bindr_eq_Inr Let_def split: option.splits)

lemma handle_read_keeps:
  assumes "handle_read now ps a = Inr a'"
  shows "ua_outgoing a' = ua_outgoing a \<and> ua_sent a' = ua_sent a \<and> ua_scheduled a' = ua_scheduled a \<and>
    ua_next_uid a' = ua_next_uid a \<and> ua_next_internal_burst_idx a' = ua_next_internal_burst_idx a \<and>
    ua_wire a' = ua_wire a \<and> ua_max_udp_payload_size_byte a' = ua_max_udp_payload_size_byte a"
  using assms unfolding handle_read_def
  by (rule foldr_res_inv [where I = "\<lambda>b. ua_outgoing b = ua_outgoing a \<and> ua_sent b = ua_sent a \<and> ua_scheduled b = ua_scheduled a \<and>
    ua_next_uid b = ua_next_uid a \<and> ua_next_internal_burst_idx b = ua_next_internal_burst_idx a \<and>
    ua_wire b = ua_wire a \<and> ua_max_udp_payload_size_byte b = ua_max_udp_payload_size_byte a"])
     (simp_all add: handle_packet_keeps)

lemma pending_at_cong:
  assumes "ua_outgoing a' = ua_outgoing a" "ua_sent a' = ua_sent a" "ua_next_internal_burst_idx a' = ua_next_internal_burst_idx a"
  shows "pending_at a' x ev = pending_at a x ev"
  using assms by (cases ev) (simp_all add: sent_of_def)

lemma burst_inv_cong:
  assumes "burst_inv now a" "ua_outgoing a' = ua_outgoing a \<and> ua_sent a' = ua_sent a \<and> ua_scheduled a' = ua_scheduled a \<and>
    ua_next_uid a' = ua_next_uid a \<and> ua_next_internal_burst_idx a' = ua_next_internal_burst_idx a \<and>
    ua_wire a' = ua_wire a \<and> ua_max_udp_payload_size_byte a' = ua_max_udp_payload_size_byte a"
    "now \<le> t" "\<forall>(_, t', _) \<in> set (ua_scheduled a). t \<le> t'"
  shows "burst_inv t a'"
proof -
  have "sent_of a' = sent_of a" using assms(2) by (simp add: sent_of_def fun_eq_iff)
  moreover have "pending_at a' x ev = pending_at a x ev" for x ev using assms(2) by (intro pending_at_cong) simp_all
  moreover have "counts_ok t a" using assms(1,3) unfolding burst_inv_def counts_ok_iff by (auto intro: order_trans)
  ultimately show ?thesis
    using assms by (auto simp: burst_inv_def bursts_ok_def events_ok_def counts_ok_iff wire_ok_def)
qed

lemma burst_step_keeps:
  assumes "burst_step s s'" "burst_inv (fst s) (snd s)"
  shows "burst_inv (fst s') (snd s') \<and> fst s \<le> fst s'"
  using assms
proof (induction rule: burst_step.induct)
  case (run uid t ev a a' now)
  have "now \<le> t" using run.hyps(1) run.prems by (auto simp: burst_inv_def)
  moreover have "\<exists>b. run_event ev t (cancel_event (Some uid) a) = Inr b \<and> burst_inv t b"
  proof (cases ev)
    case Start_next_burst
    then show ?thesis using start_event_keeps [of now a uid t] run by simp
  next
    case (Burst_send_out i)
    then show ?thesis using send_event_keeps [of now a uid t i] run by simp
  qed
  ultimately show ?case using run.hyps(3) by simp
next
  case (receive now t a packets a')
  then show ?case using burst_inv_cong [OF _ handle_read_keeps [OF receive.hyps(4)]] by simp
qed

lemma burst_run_keeps:
  "burst_step\<^sup>*\<^sup>* s s' \<Longrightarrow> burst_inv (fst s) (snd s) \<Longrightarrow> burst_inv (fst s') (snd s')"
  by (induction rule: rtranclp_induct) (use burst_step_keeps in auto)

text \<open>What the invariant says at a moment all events before which have been run.\<close>

lemma burst_inv_sent:
  assumes "burst_inv now a" "i < length (ua_outgoing a)" "now < T" "\<forall>(_, t, _) \<in> set (ua_scheduled a). T \<le> t"
  shows "{k. in_burst (burst_of a i) k \<and> due (burst_of a i) k < T} = {0..<sent_of a i}"
proof -
  let ?b = "burst_of a i" and ?k = "sent_of a i" and ?next = "ua_next_internal_burst_idx a"
  have ok: "bursts_ok a" "events_ok a" "counts_ok now a" using assms(1) by (auto simp: burst_inv_def)
  have g: "0 < burst_gap ?b" using ok(1) assms(2) by (auto simp: bursts_ok_def burst_ok_def)
  have pend: "T \<le> x" if "pending_at a x ev" for x ev
    using ok(2) that assms(4) by (fastforce simp: events_ok_def)
  have later: "T \<le> due ?b k" if "in_burst ?b k" "?k \<le> k" for k
  proof (cases "i < ?next")
    case True
    then have "pending_at a (due ?b ?k) (Burst_send_out i)" using in_burst_mono [OF g that] by simp
    then show ?thesis using pend due_mono [OF g that(2)] by (meson order_trans)
  next
    case False
    then have "pending_at a (ub_start (burst_of a ?next)) Start_next_burst" using assms(2) by simp
    moreover have "ub_start (burst_of a ?next) \<le> ub_start ?b" using ok(1) False assms(2) by (auto simp: bursts_ok_def)
    moreover have "ub_start ?b \<le> due ?b k" using g by (simp add: due_def)
    ultimately show ?thesis using pend by (meson order_trans)
  qed
  have earlier: "in_burst ?b k \<and> due ?b k < T" if "k < ?k" for k
  proof -
    have "i < ?next" using ok(3) assms(2) that by (fastforce simp: counts_ok_iff)
    then have "in_burst ?b (?k - 1)" "due ?b (?k - 1) \<le> now" using ok(3) by (auto simp: counts_ok_iff)
    moreover have "k \<le> ?k - 1" using that by simp
    ultimately show ?thesis using in_burst_mono [OF g] due_mono [OF g, of k "?k - 1"] assms(3) by (meson le_less_trans)
  qed
  show ?thesis using later earlier by (force simp: not_le [symmetric])
qed

section \<open>UdpBurstScheduler\<close>

text \<open>
  Of the simulation the scheduler reads the configuration, the directories, the end time and, in
  distributed mode, the own system and the assignment of nodes to systems. \<open>address_of\<close> gives the socket
  address of a node.
\<close>

record burst_simulation =
  bs_fs :: fsys
  bs_run_dir :: string
  bs_logs_dir :: string
  bs_config :: config
  bs_end_ns :: int
  bs_system :: "(int \<times> int list) option"

record 'a burst_scheduler =
  bh_enabled :: bool
  bh_schedule :: "udp_burst_info list"
  bh_file_names :: "string list"
  bh_fs :: fsys
  bh_apps :: "(int \<times> 'a udp_app) list"
  bh_responsible_outgoing :: "(udp_burst_info \<times> int) list"
  bh_responsible_incoming :: "(udp_burst_info \<times> int) list"

definition on_this_system :: "(int \<times> int list) option \<Rightarrow> int \<Rightarrow> bool" where
  "on_this_system sys node = (case sys of None \<Rightarrow> True | Some (system_id, ids) \<Rightarrow> ids ! nat node = system_id)"

definition register_entry :: "(int \<Rightarrow> 'a) \<Rightarrow> int list \<Rightarrow> int \<Rightarrow> udp_burst_info \<Rightarrow> 'a udp_app \<Rightarrow> 'a udp_app res" where
  "register_entry address_of logging endpoint entry a =
     bindr (if ub_from entry = endpoint
            then register_outgoing entry (address_of (ub_to entry)) (ub_id entry \<in> set logging) a else Inr a) (\<lambda>a1.
     if ub_to entry = endpoint then register_incoming entry (ub_id entry \<in> set logging) a1 else Inr a1)"

definition setup_endpoint :: "(int \<Rightarrow> 'a) \<Rightarrow> int list \<Rightarrow> string \<Rightarrow> udp_burst_info list \<Rightarrow> int \<Rightarrow> (int \<times> 'a udp_app) res" where
  "setup_endpoint address_of logging logs_dir schedule endpoint =
     bindr (foldr_res (register_entry address_of logging endpoint) schedule (udp_app_init endpoint logs_dir)) (\<lambda>a.
       Inr (endpoint, a))"

definition burst_file_names :: "burst_simulation \<Rightarrow> string list" where
  "burst_file_names sim = (let p = bs_logs_dir sim @ ''/'' @
      (case bs_system sim of None \<Rightarrow> '''' | Some (system_id, _) \<Rightarrow> ''system_'' @ show_int system_id @ ''_'')
     in [p @ ''udp_bursts_outgoing.csv'', p @ ''udp_bursts_outgoing.txt'', p @ ''udp_bursts_incoming.csv'',
         p @ ''udp_bursts_incoming.txt''])"

definition responsible :: "(udp_burst_info \<Rightarrow> int) \<Rightarrow> udp_burst_info list \<Rightarrow> int list \<Rightarrow> (udp_burst_info \<times> int) list" where
  "responsible node_of schedule endpoints =
     concat (map (\<lambda>e. map (\<lambda>b. (b, e)) (filter (\<lambda>b. node_of b = e) schedule)) endpoints)"

definition setup_udp_bursts ::
  "burst_simulation \<Rightarrow> (int \<Rightarrow> bool) \<Rightarrow> int list \<Rightarrow> (int \<Rightarrow> 'a) \<Rightarrow> 'a burst_scheduler res" where
  "setup_udp_bursts sim valid endpoints address_of =
     bindr (parse_set_positive_int64
       (get_param_or_default ''udp_burst_enable_logging_for_udp_burst_ids'' ''set()'' (bs_config sim))) (\<lambda>logging.
     bindr (get_param_or_fail ''udp_burst_schedule_filename'' (bs_config sim)) (\<lambda>name.
     bindr (read_udp_burst_schedule (bs_fs sim) (bs_run_dir sim @ ''/'' @ name) valid (bs_end_ns sim)) (\<lambda>schedule.
     bindr (foldr_res (\<lambda>burst_id _. checkr (\<not> burst_id \<ge> int (length schedule)) (Invalid_argument
       (''Invalid UDP burst ID in udp_burst_enable_logging_for_udp_burst_ids: '' @ show_int burst_id))) logging ()) (\<lambda>_.
     bindr (foldr_res remove_file_if_exists (burst_file_names sim) (bs_fs sim)) (\<lambda>fs.
     let here = filter (on_this_system (bs_system sim)) endpoints in
     bindr (mapr (setup_endpoint address_of logging (bs_logs_dir sim) schedule) here) (\<lambda>apps.
       Inr \<lparr>bh_enabled = True, bh_schedule = schedule, bh_file_names = burst_file_names sim, bh_fs = fs, bh_apps = apps,
            bh_responsible_outgoing = responsible ub_from schedule here,
            bh_responsible_incoming = responsible ub_to schedule here\<rparr>))))))"

definition udp_burst_scheduler ::
  "burst_simulation \<Rightarrow> (int \<Rightarrow> bool) \<Rightarrow> int list \<Rightarrow> (int \<Rightarrow> 'a) \<Rightarrow> 'a burst_scheduler res" where
  "udp_burst_scheduler sim valid endpoints address_of =
     bindr (parse_boolean (get_param_or_default ''enable_udp_burst_scheduler'' ''false'' (bs_config sim))) (\<lambda>enabled.
     if \<not> enabled
     then Inr \<lparr>bh_enabled = False, bh_schedule = [], bh_file_names = [], bh_fs = bs_fs sim, bh_apps = [],
            bh_responsible_outgoing = [], bh_responsible_incoming = []\<rparr>
     else setup_udp_bursts sim valid endpoints address_of)"






section \<open>Registering a schedule\<close>

definition registered :: "(int \<Rightarrow> 'a) \<Rightarrow> int \<Rightarrow> udp_burst_info list \<Rightarrow> 'a udp_app \<Rightarrow> bool" where
  "registered address_of endpoint bs a \<longleftrightarrow> ua_node a = endpoint \<and>
     ua_outgoing a = map (\<lambda>b. (b, address_of (ub_to b))) (filter (\<lambda>b. ub_from b = endpoint) bs) \<and>
     ua_sent a = replicate (length (ua_outgoing a)) 0 \<and> ua_incoming a = filter (\<lambda>b. ub_to b = endpoint) bs \<and>
     ua_received a = (\<lambda>i. if i \<in> ub_id ` set (ua_incoming a) then Some 0 else None) \<and>
     ua_next_internal_burst_idx a = 0 \<and> ua_wire a = [] \<and> ua_scheduled a = [] \<and> ua_max_udp_payload_size_byte a = 1472"

lemma register_entry_ok:
  assumes "registered address_of endpoint bs a" "\<forall>b' \<in> set bs. ub_start b' \<le> ub_start b"
  shows "\<exists>a'. register_entry address_of logging endpoint b a = Inr a' \<and> registered address_of endpoint (bs @ [b]) a'"
proof -
  have "ub_start (fst (last (ua_outgoing a))) \<le> ub_start b" if "ua_outgoing a \<noteq> []"
    using last_in_set [OF that] assms by (auto simp: registered_def)
  then show ?thesis
    using assms(1) unfolding register_entry_def register_outgoing_def register_incoming_def
    by (auto simp: registered_def checkr_def fun_eq_iff replicate_append_same)
qed

lemma register_entries_ok:
  assumes "registered address_of endpoint bs a" "sorted (map ub_start (bs @ cs))"
  shows "\<exists>a'. foldr_res (register_entry address_of logging endpoint) cs a = Inr a' \<and> registered address_of endpoint (bs @ cs) a'"
  using assms
proof (induction cs arbitrary: bs a)
  case (Cons c cs)
  then have "\<forall>b' \<in> set bs. ub_start b' \<le> ub_start c" by (auto simp: sorted_append)
  from register_entry_ok [OF Cons.prems(1) this] obtain a1 where
    "register_entry address_of logging endpoint c a = Inr a1" "registered address_of endpoint (bs @ [c]) a1" by blast
  then show ?case using Cons.IH [of "bs @ [c]" a1] Cons.prems(2) by simp
qed simp

lemma setup_endpoint_ok:
  assumes "sorted (map ub_start schedule)"
  shows "\<exists>a. setup_endpoint address_of logging logs_dir schedule endpoint = Inr (endpoint, a) \<and>
    registered address_of endpoint schedule a"
proof -
  have "registered address_of endpoint [] (udp_app_init endpoint logs_dir)"
    by (simp add: registered_def udp_app_init_def)
  from register_entries_ok [OF this, of schedule logging] assms
  show ?thesis by (auto simp: setup_endpoint_def bindr_eq_Inr)
qed

text \<open>A schedule as it was read, with bursts that can be sent.\<close>

definition schedule_ok :: "udp_burst_info list \<Rightarrow> bool" where
  "schedule_ok schedule \<longleftrightarrow> sorted (map ub_start schedule) \<and> map ub_id schedule = map int [0..<length schedule] \<and>
     (\<forall>b \<in> set schedule. burst_ok b \<and> in_int64 (ub_id b))"

lemma schedule_ok_ids:
  assumes "schedule_ok schedule" "b \<in> set schedule"
  shows "to_uint64 (ub_id b) = ub_id b"
proof -
  have "ub_id b \<in> set (map ub_id schedule)" using assms(2) by simp
  then have "ub_id b \<in> set (map int [0..<length schedule])" using assms(1) by (simp only: schedule_ok_def)
  then show ?thesis using assms by (auto simp: schedule_ok_def to_uint64_def in_int64_def)
qed

lemma registered_bursts_ok:
  assumes "registered address_of endpoint schedule a" "schedule_ok schedule"
  shows "bursts_ok a"
proof -
  let ?out = "filter (\<lambda>b. ub_from b = endpoint) schedule"
  have out: "ua_outgoing a = map (\<lambda>b. (b, address_of (ub_to b))) ?out" using assms(1) by (simp add: registered_def)
  have "distinct (map ub_id schedule)" using assms(2) by (simp add: schedule_ok_def distinct_map)
  then have "distinct (map ub_id ?out)" by (rule distinct_map_filter)
  moreover have "map (\<lambda>(b, _). to_uint64 (ub_id b)) (ua_outgoing a) = map ub_id ?out"
    using schedule_ok_ids [OF assms(2)] by (simp add: out)
  ultimately have "distinct (map (\<lambda>(b, _). to_uint64 (ub_id b)) (ua_outgoing a))" by (simp only:)
  moreover have "sorted (map ub_start ?out)" using assms(2) by (simp add: schedule_ok_def sorted_filter)
  then have "ub_start (?out ! i) \<le> ub_start (?out ! j)" if "i \<le> j" "j < length ?out" for i j
    using sorted_nth_mono [of "map ub_start ?out" i j] that by simp
  then have "\<forall>i j. i \<le> j \<and> j < length (ua_outgoing a) \<longrightarrow> ub_start (burst_of a i) \<le> ub_start (burst_of a j)"
    by (simp add: out)
  moreover have "burst_ok (?out ! i)" if "i < length ?out" for i
    using nth_mem [OF that] assms(2) by (auto simp: schedule_ok_def)
  then have "\<forall>i < length (ua_outgoing a). burst_ok (burst_of a i) \<and> 0 \<le> ua_sent a ! i"
    using assms(1) by (simp add: out registered_def)
  moreover have "length (ua_sent a) = length (ua_outgoing a)" using assms(1) by (simp add: registered_def)
  ultimately show ?thesis unfolding bursts_ok_def by blast
qed

text \<open>An application that has been set up from a schedule and is started at time 0.\<close>

lemma started_inv:
  assumes "registered address_of endpoint schedule a" "schedule_ok schedule"
  shows "\<exists>a0. start_application True 0 a = Inr a0 \<and> burst_inv 0 a0 \<and> ua_outgoing a0 = ua_outgoing a \<and>
    ua_max_udp_payload_size_byte a0 = 1472"
proof (cases "ua_outgoing a")
  note bursts = registered_bursts_ok [OF assms]
  case Nil
  let ?a0 = "a\<lparr>ua_socket := True, ua_receiving := True\<rparr>"
  have "pending_at ?a0 x ev \<longleftrightarrow> False" for x ev
    using assms(1) Nil by (cases ev) (auto simp: registered_def)
  then have "burst_inv 0 ?a0"
    using assms(1) Nil bursts
    by (auto simp: burst_inv_def events_ok_def registered_def bursts_ok_def counts_ok_def wire_ok_def)
  then show ?thesis using assms(1) Nil by (simp add: start_application_def checkr_def registered_def)
next
  note bursts = registered_bursts_ok [OF assms]
  case (Cons p ps)
  obtain b addr where p: "p = (b, addr)" by (cases p)
  have start: "0 \<le> ub_start b" using bursts Cons p by (auto simp: bursts_ok_def burst_ok_def)
  have sched: "ua_scheduled a = []" using assms(1) by (simp add: registered_def)
  let ?a0 = "a\<lparr>ua_socket := True, ua_receiving := True, ua_scheduled := [(ua_next_uid a, ub_start b, Start_next_burst)],
      ua_next_uid := Suc (ua_next_uid a), ua_start_next_burst_event := Some (ua_next_uid a)\<rparr>"
  have "start_application True 0 a = Inr ?a0"
    using sched Cons p start by (simp add: start_application_def schedule_event_def checkr_def)
  moreover have "pending_at ?a0 x ev \<longleftrightarrow> x = ub_start b \<and> ev = Start_next_burst" for x ev
    using assms(1) Cons p by (cases ev) (auto simp: registered_def)
  then have "events_ok ?a0" by (auto simp: events_ok_def)
  moreover have "sent_of a i = 0" if "i < length (ua_outgoing a)" for i
    using assms(1) that by (simp add: registered_def sent_of_def)
  then have "counts_ok 0 ?a0" "wire_ok ?a0"
    using assms(1) by (auto simp: counts_ok_def wire_ok_def registered_def sent_of_def)
  moreover have "bursts_ok ?a0" using bursts by (simp add: bursts_ok_def)
  ultimately show ?thesis using assms(1) start by (auto simp: burst_inv_def registered_def)
qed

section \<open>What the scheduler sets up\<close>


lemma read_schedule_ok:
  assumes "read_udp_burst_schedule fs filename valid end_ns = Inr schedule" "\<forall>b \<in> set schedule. burst_ok b"
  shows "schedule_ok schedule"
proof -
  obtain content n prev
    where f: "foldr_res (read_burst_line valid end_ns) (getlines content) ([], 0, 0) = Inr (schedule, n, prev)"
    using assms(1) by (auto simp: read_udp_burst_schedule_def open_lines_def bindr_eq_Inr split: if_splits option.splits)
  show ?thesis using bursts.ordered_all [OF f] assms(2) by (auto simp: schedule_ok_def good_burst_def)
qed

lemma scheduler_cases:
  assumes "udp_burst_scheduler sim valid endpoints address_of = Inr s" "bh_enabled s"
  obtains filename logging where
    "read_udp_burst_schedule (bs_fs sim) filename valid (bs_end_ns sim) = Inr (bh_schedule s)"
    "mapr (setup_endpoint address_of logging (bs_logs_dir sim) (bh_schedule s))
       (filter (on_this_system (bs_system sim)) endpoints) = Inr (bh_apps s)"
    "bh_responsible_outgoing s = responsible ub_from (bh_schedule s) (filter (on_this_system (bs_system sim)) endpoints)"
    "bh_responsible_incoming s = responsible ub_to (bh_schedule s) (filter (on_this_system (bs_system sim)) endpoints)"
proof -
  have "setup_udp_bursts sim valid endpoints address_of = Inr s"
    using assms by (auto simp: udp_burst_scheduler_def bindr_eq_Inr split: if_splits)
  then show thesis
    unfolding setup_udp_bursts_def bindr_eq_Inr Let_def sum.inject
    by (elim exE conjE) (rule that, auto)
qed



lemma scheduler_apps:
  assumes "udp_burst_scheduler sim valid endpoints address_of = Inr s" "bh_enabled s"
  shows "map fst (bh_apps s) = filter (on_this_system (bs_system sim)) endpoints"
    "(e, a) \<in> set (bh_apps s) \<Longrightarrow> registered address_of e (bh_schedule s) a"
proof -
  obtain filename logging where r: "read_udp_burst_schedule (bs_fs sim) filename valid (bs_end_ns sim) = Inr (bh_schedule s)"
    and m: "mapr (setup_endpoint address_of logging (bs_logs_dir sim) (bh_schedule s))
       (filter (on_this_system (bs_system sim)) endpoints) = Inr (bh_apps s)"
    using scheduler_cases [OF assms] by metis
  obtain content n prev
    where f: "foldr_res (read_burst_line valid (bs_end_ns sim)) (getlines content) ([], 0, 0) = Inr (bh_schedule s, n, prev)"
    using r by (auto simp: read_udp_burst_schedule_def open_lines_def bindr_eq_Inr split: if_splits option.splits)
  note ok = setup_endpoint_ok [OF bursts.ordered_all(2) [OF f], of address_of logging "bs_logs_dir sim"]
  show "map fst (bh_apps s) = filter (on_this_system (bs_system sim)) endpoints"
  proof (rule nth_equalityI)
    fix i assume "i < length (map fst (bh_apps s))"
    then show "map fst (bh_apps s) ! i = filter (on_this_system (bs_system sim)) endpoints ! i"
      using m ok [of "filter (on_this_system (bs_system sim)) endpoints ! i"] by (auto simp: mapr_eq_Inr)
  qed (use m in \<open>simp add: mapr_eq_Inr\<close>)
  have "registered address_of (fst p) (bh_schedule s) (snd p)"
    if "setup_endpoint address_of logging (bs_logs_dir sim) (bh_schedule s) x = Inr p" for x p
    using ok [of x] that by auto
  then have "\<forall>p \<in> set (bh_apps s). registered address_of (fst p) (bh_schedule s) (snd p)" by (rule mapr_all [OF m])
  then show "(e, a) \<in> set (bh_apps s) \<Longrightarrow> registered address_of e (bh_schedule s) a" by fastforce
qed

text \<open>What is registered stays so: the bursts, and the identifiers whose packets are counted.\<close>

definition same_registration :: "'a udp_app \<Rightarrow> 'a udp_app \<Rightarrow> bool" where
  "same_registration a a' \<longleftrightarrow> ua_outgoing a' = ua_outgoing a \<and> length (ua_sent a') = length (ua_sent a) \<and>
     ua_max_udp_payload_size_byte a' = ua_max_udp_payload_size_byte a \<and> dom (ua_received a') = dom (ua_received a)"

lemma transmit_full_packet_received [simp]: "ua_received (transmit_full_packet t i a) = ua_received a"
  by (simp add: transmit_full_packet_def Let_def split: prod.splits)

lemma same_registration_simps [simp]:
  "same_registration a a"
  "same_registration a (b\<lparr>ua_event_id := ids\<rparr>) = same_registration a b"
  "same_registration a (b\<lparr>ua_start_next_burst_event := e\<rparr>) = same_registration a b"
  "same_registration a (b\<lparr>ua_next_internal_burst_idx := k\<rparr>) = same_registration a b"
  "same_registration (a\<lparr>ua_next_internal_burst_idx := k\<rparr>) b = same_registration a b"
  "same_registration (transmit_full_packet t i a) b = same_registration a b"
  "same_registration a (transmit_full_packet t i b) = same_registration a b"
  by (simp_all add: same_registration_def)

lemma same_registration_trans: "same_registration a b \<Longrightarrow> same_registration b c \<Longrightarrow> same_registration a c"
  by (simp add: same_registration_def)

lemma schedule_event_static: "schedule_event now d ev a = Inr (u, a') \<Longrightarrow> same_registration a a'"
  by (auto simp: schedule_event_def bindr_eq_Inr same_registration_def)

lemma burst_send_out_static: "burst_send_out t i a = Inr a' \<Longrightarrow> same_registration a a'"
  unfolding burst_send_out_def Let_def
  by (auto simp: bindr_eq_Inr split: if_splits dest!: schedule_event_static)

lemma start_next_burst_static: "start_next_burst t a = Inr a' \<Longrightarrow> same_registration a a'"
  unfolding start_next_burst_def Let_def
  by (auto simp: bindr_eq_Inr split: if_splits dest!: schedule_event_static burst_send_out_static intro: same_registration_trans)


lemma handle_read_static:
  assumes "handle_read now ps a = Inr a'"
  shows "same_registration a a'"
  using assms unfolding handle_read_def
proof (rule foldr_res_inv [where I = "same_registration a"])
  fix p b c assume same: "same_registration a b" and "handle_packet now p b = Inr c"
  then obtain key n v files where c: "ua_received b key = Some n"
      "c = b\<lparr>ua_received := (ua_received b)(key \<mapsto> v), ua_files := files\<rparr>"
    by (auto simp: handle_packet_def bindr_eq_Inr Let_def split: option.splits)
  have "dom (ua_received c) = dom (ua_received b)" unfolding c(2) using c(1) by (simp add: insert_absorb domI)
  then show "same_registration a c" using same unfolding same_registration_def by (simp add: c(2))
qed simp

lemma run_event_static: "run_event ev t a = Inr a' \<Longrightarrow> same_registration a a'"
  by (cases ev) (auto dest: burst_send_out_static start_next_burst_static)

lemma burst_step_static: "burst_step s s' \<Longrightarrow> same_registration (snd s) (snd s')"
proof (induction rule: burst_step.induct)
  case (run uid t ev a a' now)
  then show ?case using run_event_static [OF run.hyps(3)] by (simp add: cancel_event_def same_registration_def)
next
  case (receive now t a packets a')
  then show ?case using handle_read_static [OF receive.hyps(4)] by simp
qed

lemma burst_run_static: "burst_step\<^sup>*\<^sup>* s s' \<Longrightarrow> same_registration (snd s) (snd s')"
  by (induction rule: rtranclp_induct) (auto intro: same_registration_trans burst_step_static)









lemma get_sent_counter_of_ok:
  assumes "bursts_ok a" "i < length (ua_outgoing a)"
  shows "get_sent_counter_of (ub_id (burst_of a i)) a = Inr (int (sent_of a i))"
proof -
  have "ub_id (burst_of a j) \<noteq> ub_id (burst_of a i)" if "j < i" for j
    using assms that nth_eq_iff_index_eq [of "map (\<lambda>(b, _). to_uint64 (ub_id b)) (ua_outgoing a)" j i]
    by (auto simp: bursts_ok_def case_prod_beta)
  then have "find (\<lambda>j. ub_id (burst_of a j) = ub_id (burst_of a i)) [0..<length (ua_outgoing a)] = Some i"
    using assms(2) by (auto simp: find_Some_iff)
  moreover have "0 \<le> ua_sent a ! i" using assms by (simp add: bursts_ok_def)
  ultimately show ?thesis by (simp add: get_sent_counter_of_def sent_of_def)
qed

text \<open>
  C22. When and what an application sends. After any run of its events, started at time 0, the packets of
  a burst that it has handed to the socket are packet 0, 1, 2 and so on, each one gap after the last from
  the start of the burst on, with the identifier of the burst and the packet's number in the header; the counter of the
  burst is their number. Once all events before a time T have been run they are exactly the first packet and those within the
  duration of the burst that are due before T.
\<close>

theorem udp_burst_packets:
  assumes "udp_burst_scheduler sim valid endpoints address_of = Inr s" "bh_enabled s" "\<forall>b \<in> set (bh_schedule s). burst_ok b"
    and "(e, a) \<in> set (bh_apps s)" "start_application True 0 a = Inr a0" "burst_step\<^sup>*\<^sup>* (0, a0) (now, a')"
    and "b \<in> set (bh_schedule s)" "ub_from b = e"
  shows "\<exists>n. get_sent_counter_of (ub_id b) a' = Inr (int n) \<and>
    filter (\<lambda>(_, h, _, _). ih_id h = ub_id b) (ua_wire a') =
      map (\<lambda>k. (ub_start b + int k * burst_gap b, \<lparr>ih_id = ub_id b, ih_seq = int k\<rparr>, 1456, address_of (ub_to b))) [0..<n] \<and>
    (\<forall>T. now < T \<and> (\<forall>(_, t, _) \<in> set (ua_scheduled a'). T \<le> t) \<longrightarrow>
      {k. (k = 0 \<or> int k * burst_gap b < ub_duration b) \<and> ub_start b + int k * burst_gap b < T} = {0..<n})"
proof -
  obtain filename where r: "read_udp_burst_schedule (bs_fs sim) filename valid (bs_end_ns sim) = Inr (bh_schedule s)"
    using scheduler_cases [OF assms(1,2)] by metis
  note sok = read_schedule_ok [OF r assms(3)] and reg = scheduler_apps(2) [OF assms(1,2,4)]
  have inv: "burst_inv now a'" and out: "ua_outgoing a' = ua_outgoing a" and size: "ua_max_udp_payload_size_byte a' = 1472"
    using started_inv [OF reg sok] assms(5) burst_run_keeps [OF assms(6)] burst_run_static [OF assms(6)]
    by (auto simp: same_registration_def)
  have "(b, address_of (ub_to b)) \<in> set (ua_outgoing a')" using reg assms(7,8) by (auto simp: out registered_def)
  then obtain i where i: "i < length (ua_outgoing a')" "ua_outgoing a' ! i = (b, address_of (ub_to b))"
    by (metis in_set_conv_nth)
  have id: "to_uint64 (ub_id b) = ub_id b" by (rule schedule_ok_ids [OF sok assms(7)])
  have "get_sent_counter_of (ub_id b) a' = Inr (int (sent_of a' i))"
    using get_sent_counter_of_ok [of a' i] inv i by (auto simp: burst_inv_def)
  moreover have "filter (\<lambda>(_, h, _, _). ih_id h = ub_id b) (ua_wire a') =
      map (\<lambda>k. (due b k, \<lparr>ih_id = ub_id b, ih_seq = int k\<rparr>, 1456, address_of (ub_to b))) [0..<sent_of a' i]"
    using inv i id size by (auto simp: burst_inv_def wire_ok_def Let_def id_seq_size_def)
  ultimately show ?thesis
    using burst_inv_sent [OF inv i(1)] i(2) unfolding due_def in_burst_def by (intro exI [of _ "sent_of a' i"]) simp
qed

text \<open>One burst of two packets between two endpoints, and the run that sends them.\<close>

definition two_packets_file :: fsys where
  "two_packets_file = \<lparr>fs_files = (\<lambda>f. if f = ''r/s'' then Some ''0,1,2,1e9,5,2,,x'' else None), fs_dirs = (\<lambda>_. False),
     fs_readable = (\<lambda>_. True), fs_unlink_ok = (\<lambda>_. True), fs_rmdir_ok = (\<lambda>_. True), fs_mkdir_ok = (\<lambda>_. True)\<rparr>"

definition two_packets_sim :: burst_simulation where
  "two_packets_sim = \<lparr>bs_fs = two_packets_file, bs_run_dir = ''r'', bs_logs_dir = ''l'',
     bs_config = [(''enable_udp_burst_scheduler'', ''1''), (''udp_burst_schedule_filename'', ''s'')],
     bs_end_ns = 10, bs_system = None\<rparr>"

definition two_packets_burst :: udp_burst_info where
  "two_packets_burst = \<lparr>ub_id = 0, ub_from = 1, ub_to = 2, ub_rate = Fin 1000000000, ub_start = 5, ub_duration = 2,
     ub_params = '''', ub_metadata = ''x''\<rparr>"

definition two_packets_app :: "int \<Rightarrow> int udp_app" where
  "two_packets_app e = (case setup_endpoint (\<lambda>v. v) [] ''l'' [two_packets_burst] e of Inr p \<Rightarrow> snd p | Inl _ \<Rightarrow> udp_app_init e '''')"

definition two_packets_scheduler :: "int burst_scheduler" where
  "two_packets_scheduler = \<lparr>bh_enabled = True, bh_schedule = [two_packets_burst], bh_file_names = burst_file_names two_packets_sim,
     bh_fs = two_packets_file, bh_apps = [(1, two_packets_app 1), (2, two_packets_app 2)],
     bh_responsible_outgoing = [(two_packets_burst, 1)], bh_responsible_incoming = [(two_packets_burst, 2)]\<rparr>"

lemma two_packets_read:
  "read_udp_burst_schedule two_packets_file ''r/s'' (\<lambda>v. v = 1 \<or> v = 2) 10 = Inr [two_packets_burst]"
  by code_simp

lemma two_packets_parse:
  "parse_boolean ''1'' = Inr True" "parse_set_positive_int64 ''set()'' = Inr []"
  by code_simp+

lemma two_packets_gap: "packet_gap_nanoseconds two_packets_burst = Inr 1"
  by code_simp

lemma two_packets_endpoint:
  "setup_endpoint (\<lambda>v. v) [] ''l'' [two_packets_burst] e = Inr (e, two_packets_app e)"
  using setup_endpoint_ok [of "[two_packets_burst]" "\<lambda>v. v" "[]" "''l''" e] by (auto simp: two_packets_app_def)

lemma two_packets_built:
  "udp_burst_scheduler two_packets_sim (\<lambda>v. v = 1 \<or> v = 2) [1, 2] (\<lambda>v. v) = Inr two_packets_scheduler"
proof -
  have "foldr_res remove_file_if_exists (burst_file_names two_packets_sim) two_packets_file = Inr two_packets_file"
    by (simp add: burst_file_names_def two_packets_sim_def two_packets_file_def remove_file_if_exists_def file_exists_def)
  moreover have "responsible ub_from [two_packets_burst] [1, 2] = [(two_packets_burst, 1)]"
    "responsible ub_to [two_packets_burst] [1, 2] = [(two_packets_burst, 2)]"
    by (simp_all add: responsible_def two_packets_burst_def)
  moreover have "on_this_system None e" for e by (simp add: on_this_system_def)
  ultimately show ?thesis
    by (simp add: udp_burst_scheduler_def setup_udp_bursts_def two_packets_sim_def get_param_or_default_def get_param_or_fail_def
        two_packets_read two_packets_parse two_packets_endpoint two_packets_scheduler_def)
qed

lemma two_packets_app_1:
  "two_packets_app 1 = (udp_app_init 1 ''l'')\<lparr>ua_outgoing := [(two_packets_burst, 2)], ua_sent := [0], ua_event_id := [None],
     ua_outgoing_logging := [False]\<rparr>"
  by (simp add: two_packets_app_def setup_endpoint_def register_entry_def register_outgoing_def register_incoming_def
      checkr_def udp_app_init_def two_packets_burst_def)

lemma two_packets_ok: "burst_ok two_packets_burst" "burst_gap two_packets_burst = 1"
  using two_packets_gap by (simp_all add: burst_ok_def burst_gap_def) (simp_all add: two_packets_burst_def)

lemma two_packets_run:
  "\<exists>a0 a1 a2. start_application True 0 (two_packets_app 1) = Inr a0 \<and> burst_step (0, a0) (5, a1) \<and> burst_step (5, a1) (6, a2) \<and>
     ua_scheduled a2 = []"
proof -
  have b: "ub_start two_packets_burst = 5" "ub_duration two_packets_burst = 2" by (simp_all add: two_packets_burst_def)
  let ?A = "two_packets_app 1"
  let ?a0 = "?A\<lparr>ua_socket := True, ua_receiving := True, ua_scheduled := [(0, 5, Start_next_burst)], ua_next_uid := 1,
    ua_start_next_burst_event := Some 0\<rparr>"
  have s: "start_application True 0 ?A = Inr ?a0"
    by (simp add: two_packets_app_1 start_application_def schedule_event_def checkr_def udp_app_init_def b)
  obtain a1 where 1: "start_next_burst 5 (cancel_event (Some 0) ?a0) = Inr a1" "ua_scheduled a1 = [(1, 6, Burst_send_out 0)]"
      "ua_outgoing a1 = [(two_packets_burst, 2)]" "ua_sent a1 = [1]"
    by (simp add: start_next_burst_def burst_send_out_def transmit_full_packet_def schedule_event_def cancel_event_def
        checkr_def two_packets_app_1 udp_app_init_def b two_packets_gap Let_def in_int64_def to_uint64_def)
  moreover obtain a2 where "burst_send_out 6 0 (cancel_event (Some 1) a1) = Inr a2" "ua_scheduled a2 = []"
    using 1 by (simp add: burst_send_out_def transmit_full_packet_def schedule_event_def cancel_event_def
        checkr_def b two_packets_gap Let_def in_int64_def to_uint64_def)
  ultimately have "burst_step (0, ?a0) (5, a1)" "burst_step (5, a1) (6, a2)"
    by (auto intro!: burst_step.run [of 0 5 Start_next_burst] burst_step.run [of 1 6 "Burst_send_out 0"])
  with s \<open>ua_scheduled a2 = []\<close> show ?thesis by blast
qed


theorem udp_burst_packets_witness:
  "\<exists>a0 a'. start_application True 0 (two_packets_app 1) = Inr a0 \<and> burst_step\<^sup>*\<^sup>* (0, a0) (6, a') \<and>
     get_sent_counter_of 0 a' = Inr 2 \<and>
     filter (\<lambda>(_, h, _, _). ih_id h = 0) (ua_wire a') =
       [(5, \<lparr>ih_id = 0, ih_seq = 0\<rparr>, 1456, 2), (6, \<lparr>ih_id = 0, ih_seq = 1\<rparr>, 1456, 2)]"
proof -
  obtain a0 a1 a2 where r: "start_application True 0 (two_packets_app 1) = Inr a0" "burst_step (0, a0) (5, a1)"
      "burst_step (5, a1) (6, a2)" "ua_scheduled a2 = []"
    using two_packets_run by blast
  have run: "burst_step\<^sup>*\<^sup>* (0, a0) (6, a2)" using r(2,3) by (meson converse_rtranclp_into_rtranclp r_into_rtranclp)
  have "bh_enabled two_packets_scheduler" "\<forall>b \<in> set (bh_schedule two_packets_scheduler). burst_ok b"
    "(1, two_packets_app 1) \<in> set (bh_apps two_packets_scheduler)" "two_packets_burst \<in> set (bh_schedule two_packets_scheduler)"
    "ub_from two_packets_burst = 1"
    using two_packets_ok by (simp_all add: two_packets_scheduler_def two_packets_burst_def)
  from udp_burst_packets [OF two_packets_built this(1-3) r(1) run this(4,5)]
  obtain n where n: "get_sent_counter_of 0 a2 = Inr (int n)"
    "filter (\<lambda>(_, h, _, _). ih_id h = 0) (ua_wire a2) =
      map (\<lambda>k. (5 + int k, \<lparr>ih_id = 0, ih_seq = int k\<rparr>, 1456, 2)) [0..<n]"
    "{k. (k = 0 \<or> int k < 2) \<and> 5 + int k < 100} = {0..<n}"
    using r(4) two_packets_ok(2) by (auto simp: two_packets_burst_def dest: spec [of _ 100])
  have "{k. (k = 0 \<or> int k < 2) \<and> 5 + int k < 100} = {0..<2}" by auto
  then have "n = 2" using n(3) by (metis card_atLeastLessThan minus_nat.diff_0)
  then show ?thesis using r(1) run n(1,2) by (auto simp: numeral_2_eq_2)
qed




text \<open>
  Outside these conditions an event can fail: the end of a burst is computed in 64 signed bits whenever a packet of it is sent.
\<close>

lemma burst_end_overflows:
  assumes "packet_gap_nanoseconds (burst_of a i) = Inr gap" "\<not> in_int64 (ub_start (burst_of a i) + ub_duration (burst_of a i))"
  shows "burst_send_out now i a = Inl (Undefined ''signed overflow'')"
  using assms by (simp add: burst_send_out_def checkr_def Let_def)



end
