(* ===== verification/Tcp_Flow.thy ===== *)
theory Tcp_Flow
  imports Udp_Burst
begin

text \<open>
  basic-sim: the TCP flows, with the sending application, tcp-flow-send-application.cc, the sink,
  tcp-flow-sink.cc, and the scheduler that starts the flows and writes the results,
  tcp-flow-scheduler.cc. The theorems say that handing data to the socket returns and never exceeds the size of the
  flow, what the counters and flags of an application mean in every state it can reach, that every flow is
  started at its time, and what its row of the results is.

  The TCP socket of ns-3 is a parameter, \<open>tcp_ops\<close>: \<open>'s\<close> is its state, \<open>so_send\<close> hands a packet of a size to it
  and gives the number of bytes taken or -1, \<open>so_tx_size\<close> is the size of the send buffer. What the application
  relies on is the contract \<open>tcp_contract\<close> of the documented interface of a stream socket.
\<close>

section \<open>TcpFlowSendApplication\<close>

record 's tcp_ops =
  so_send :: "'s \<Rightarrow> int \<Rightarrow> int \<times> 's"
  so_close :: "'s \<Rightarrow> 's"
  so_tx_size :: "'s \<Rightarrow> int"

text \<open>
  The members without an initial value, \<open>m_current_cwnd_byte\<close> and \<open>m_current_rtt_ns\<close>, are None until they are
  assigned. \<open>ts_files\<close> are the log files.
\<close>

record 's tcp_send_app =
  ts_socket :: "'s option"
  ts_connected :: bool
  ts_send_size :: int
  ts_max_bytes :: int
  ts_flow_id :: int
  ts_tot_bytes :: int
  ts_completion_time_ns :: int
  ts_conn_failed :: bool
  ts_closed_normally :: bool
  ts_closed_by_error :: bool
  ts_acked_bytes :: int
  ts_is_completed :: bool
  ts_current_cwnd_byte :: "int option"
  ts_current_rtt_ns :: "int option"
  ts_enable_detailed_logging :: bool
  ts_base_logs_dir :: string
  ts_files :: "string \<Rightarrow> string list option"

definition tcp_send_app_init :: "int \<Rightarrow> int \<Rightarrow> bool \<Rightarrow> string \<Rightarrow> 's tcp_send_app" where
  "tcp_send_app_init max_bytes flow_id logging logs_dir =
     \<lparr>ts_socket = None, ts_connected = False, ts_send_size = 100000, ts_max_bytes = to_uint64 max_bytes,
      ts_flow_id = to_uint64 flow_id, ts_tot_bytes = 0, ts_completion_time_ns = -1, ts_conn_failed = False,
      ts_closed_normally = False, ts_closed_by_error = False, ts_acked_bytes = 0, ts_is_completed = False,
      ts_current_cwnd_byte = None, ts_current_rtt_ns = None, ts_enable_detailed_logging = logging,
      ts_base_logs_dir = logs_dir, ts_files = Map.empty\<rparr>"

definition flow_log_name :: "'s tcp_send_app \<Rightarrow> string \<Rightarrow> string" where
  "flow_log_name a kind = ts_base_logs_dir a @ ''/tcp_flow_'' @ show_int (ts_flow_id a) @ ''_'' @ kind @ ''.csv''"

definition flow_log_line :: "'s tcp_send_app \<Rightarrow> int \<Rightarrow> int \<Rightarrow> string" where
  "flow_log_line a timestamp v = show_int (ts_flow_id a) @ '','' @ show_int timestamp @ '','' @ show_int v"

definition insert_cwnd_log :: "int \<Rightarrow> int \<Rightarrow> 's tcp_send_app \<Rightarrow> 's tcp_send_app" where
  "insert_cwnd_log timestamp cwnd_byte a =
     a\<lparr>ts_files := append_line (flow_log_name a ''cwnd'') (flow_log_line a timestamp cwnd_byte) (ts_files a),
       ts_current_cwnd_byte := Some cwnd_byte\<rparr>"

definition insert_rtt_log :: "int \<Rightarrow> int \<Rightarrow> 's tcp_send_app \<Rightarrow> 's tcp_send_app" where
  "insert_rtt_log timestamp rtt_ns a =
     a\<lparr>ts_files := append_line (flow_log_name a ''rtt'') (flow_log_line a timestamp rtt_ns) (ts_files a),
       ts_current_rtt_ns := Some rtt_ns\<rparr>"

definition insert_progress_log :: "int \<Rightarrow> int \<Rightarrow> 's tcp_send_app \<Rightarrow> 's tcp_send_app" where
  "insert_progress_log timestamp progress_byte a =
     a\<lparr>ts_files := append_line (flow_log_name a ''progress'') (flow_log_line a timestamp progress_byte) (ts_files a)\<rparr>"

definition get_acked_bytes :: "'s tcp_ops \<Rightarrow> 's tcp_send_app \<Rightarrow> int res" where
  "get_acked_bytes ops a =
     (if ts_conn_failed a \<or> ts_closed_normally a \<or> ts_closed_by_error a then Inr (to_int64 (ts_acked_bytes a))
      else case ts_socket a of
        None \<Rightarrow> Inl (Undefined ''null pointer'')
      | Some s \<Rightarrow> Inr (to_int64 (to_uint64 (ts_tot_bytes a - so_tx_size ops s))))"

text \<open>The loop that hands packets to the socket until it takes less than it was given, or all is sent.\<close>

partial_function (option) send_loop :: "'s tcp_ops \<Rightarrow> int \<Rightarrow> int \<Rightarrow> int \<Rightarrow> 's \<Rightarrow> (int \<times> 's) option" where
  "send_loop ops send_size max_bytes tot s =
     (if max_bytes = 0 \<or> tot < max_bytes
      then (let to_send = (if max_bytes > 0 then min send_size (max_bytes - tot) else send_size);
                (actual, s') = so_send ops s to_send;
                tot' = (if actual > 0 then to_uint64 (tot + actual) else tot)
            in if to_uint32 actual \<noteq> to_send then Some (tot', s') else send_loop ops send_size max_bytes tot' s')
      else Some (tot, s))"

definition send_data :: "'s tcp_ops \<Rightarrow> 's tcp_send_app \<Rightarrow> 's tcp_send_app res" where
  "send_data ops a =
     (case ts_socket a of
        None \<Rightarrow> if ts_max_bytes a = 0 \<or> ts_tot_bytes a < ts_max_bytes a \<or> (ts_tot_bytes a = ts_max_bytes a \<and> ts_connected a)
                then Inl (Undefined ''null pointer'') else Inr a
      | Some s \<Rightarrow> (case send_loop ops (ts_send_size a) (ts_max_bytes a) (ts_tot_bytes a) s of
          None \<Rightarrow> Inl Diverges
        | Some (tot, s1) \<Rightarrow>
            if tot = ts_max_bytes a \<and> ts_connected a
            then Inr (a\<lparr>ts_tot_bytes := tot, ts_socket := Some (so_close ops s1), ts_connected := False\<rparr>)
            else Inr (a\<lparr>ts_tot_bytes := tot, ts_socket := Some s1\<rparr>)))"

text \<open>
  \<open>stream\<close> is whether the socket type is a stream, \<open>bind_ok\<close> whether binding succeeds and \<open>new_socket\<close> the socket
  after \<open>Connect\<close> and \<open>ShutdownRecv\<close>.
\<close>

definition tcp_start_application ::
  "'s tcp_ops \<Rightarrow> bool \<Rightarrow> bool \<Rightarrow> 's \<Rightarrow> int \<Rightarrow> 's tcp_send_app \<Rightarrow> 's tcp_send_app res" where
  "tcp_start_application ops stream bind_ok new_socket now a =
     bindr (if ts_socket a \<noteq> None then Inr a
            else bindr (checkr stream (Aborted ''Using TcpFlowSendApplication with an incompatible socket type.'')) (\<lambda>_.
                 bindr (checkr bind_ok (Aborted ''Failed to bind socket'')) (\<lambda>_.
                 let a1 = a\<lparr>ts_socket := Some new_socket\<rparr> in
                 if \<not> ts_enable_detailed_logging a1 then Inr a1
                 else bindr (get_acked_bytes ops a1) (\<lambda>acked.
                      Inr (a1\<lparr>ts_files := (ts_files a1)(flow_log_name a1 ''progress'' \<mapsto> [flow_log_line a1 now acked],
                             flow_log_name a1 ''cwnd'' \<mapsto> [], flow_log_name a1 ''rtt'' \<mapsto> [])\<rparr>))))) (\<lambda>a2.
     if ts_connected a2 then send_data ops a2 else Inr a2)"

definition tcp_stop_application :: "'s tcp_ops \<Rightarrow> 's tcp_send_app \<Rightarrow> 's tcp_send_app" where
  "tcp_stop_application ops a =
     (case ts_socket a of None \<Rightarrow> a | Some s \<Rightarrow> a\<lparr>ts_socket := Some (so_close ops s), ts_connected := False\<rparr>)"

definition connection_succeeded :: "'s tcp_ops \<Rightarrow> 's tcp_send_app \<Rightarrow> 's tcp_send_app res" where
  "connection_succeeded ops a = send_data ops (a\<lparr>ts_connected := True\<rparr>)"

definition connection_failed :: "int \<Rightarrow> 's tcp_send_app \<Rightarrow> 's tcp_send_app" where
  "connection_failed now a = a\<lparr>ts_completion_time_ns := now, ts_conn_failed := True, ts_closed_by_error := False,
     ts_closed_normally := False, ts_acked_bytes := 0, ts_is_completed := False, ts_socket := None\<rparr>"

definition data_send :: "'s tcp_ops \<Rightarrow> int \<Rightarrow> 's tcp_send_app \<Rightarrow> 's tcp_send_app res" where
  "data_send ops now a =
     bindr (if ts_connected a then send_data ops a else Inr a) (\<lambda>a1.
     if ts_enable_detailed_logging a1
     then bindr (get_acked_bytes ops a1) (\<lambda>acked. Inr (insert_progress_log now acked a1)) else Inr a1)"

definition socket_closed_normal :: "'s tcp_ops \<Rightarrow> int \<Rightarrow> 's tcp_send_app \<Rightarrow> 's tcp_send_app res" where
  "socket_closed_normal ops now a =
     (case ts_socket a of
        None \<Rightarrow> Inl (Undefined ''null pointer'')
      | Some s \<Rightarrow>
          bindr (checkr (so_tx_size ops s = 0) (Runtime_error ''Socket closed normally but send buffer is not empty'')) (\<lambda>_.
          let acked = to_uint64 (ts_tot_bytes a - so_tx_size ops s) in
          Inr (a\<lparr>ts_completion_time_ns := now, ts_conn_failed := False, ts_closed_by_error := False,
                 ts_closed_normally := True, ts_acked_bytes := acked, ts_is_completed := (acked = ts_max_bytes a),
                 ts_socket := None\<rparr>)))"

definition socket_closed_error :: "'s tcp_ops \<Rightarrow> int \<Rightarrow> 's tcp_send_app \<Rightarrow> 's tcp_send_app res" where
  "socket_closed_error ops now a =
     (case ts_socket a of
        None \<Rightarrow> Inl (Undefined ''null pointer'')
      | Some s \<Rightarrow>
          Inr (a\<lparr>ts_completion_time_ns := now, ts_conn_failed := False, ts_closed_by_error := True,
                 ts_closed_normally := False, ts_acked_bytes := to_uint64 (ts_tot_bytes a - so_tx_size ops s),
                 ts_is_completed := False, ts_socket := None\<rparr>))"

definition cwnd_change :: "int \<Rightarrow> int \<Rightarrow> 's tcp_send_app \<Rightarrow> 's tcp_send_app" where
  "cwnd_change now new_cwnd a = insert_cwnd_log now new_cwnd a"

definition rtt_change :: "int \<Rightarrow> int \<Rightarrow> 's tcp_send_app \<Rightarrow> 's tcp_send_app" where
  "rtt_change now new_rtt a = insert_rtt_log now new_rtt a"

text \<open>The last values are written once more; reading a member that was never assigned is undefined.\<close>

definition finalize_detailed_logs :: "'s tcp_ops \<Rightarrow> int \<Rightarrow> 's tcp_send_app \<Rightarrow> 's tcp_send_app res" where
  "finalize_detailed_logs ops now a =
     (if \<not> ts_enable_detailed_logging a then Inr a
      else let timestamp = (if ts_conn_failed a \<or> ts_closed_by_error a \<or> ts_closed_normally a
                            then ts_completion_time_ns a else now) in
      case ts_current_cwnd_byte a of
        None \<Rightarrow> Inl (Undefined ''uninitialized m_current_cwnd_byte'')
      | Some cwnd \<Rightarrow> (case ts_current_rtt_ns a of
          None \<Rightarrow> Inl (Undefined ''uninitialized m_current_rtt_ns'')
        | Some rtt \<Rightarrow>
            bindr (get_acked_bytes ops a) (\<lambda>acked.
            Inr (insert_progress_log timestamp acked (insert_rtt_log timestamp rtt (insert_cwnd_log timestamp cwnd a))))))"

section \<open>TcpFlowSink\<close>

text \<open>\<open>'c\<close> are the accepted sockets; \<open>tk_closed\<close> those the application has closed itself.\<close>

record 'c tcp_sink =
  tk_socket :: bool
  tk_listening :: bool
  tk_socket_list :: "'c list"
  tk_total_rx :: int
  tk_closed :: "'c list"

definition tcp_sink_init :: "'c tcp_sink" where
  "tcp_sink_init = \<lparr>tk_socket = False, tk_listening = False, tk_socket_list = [], tk_total_rx = 0, tk_closed = []\<rparr>"

definition tcp_sink_start :: "bool \<Rightarrow> bool \<Rightarrow> 'c tcp_sink \<Rightarrow> 'c tcp_sink res" where
  "tcp_sink_start bind_ok multicast k =
     (if tk_socket k then Inr (k\<lparr>tk_listening := True\<rparr>)
      else bindr (checkr bind_ok (Aborted ''Failed to bind socket'')) (\<lambda>_.
           bindr (checkr (\<not> multicast) (Runtime_error ''No support for UDP here'')) (\<lambda>_.
           Inr (k\<lparr>tk_socket := True, tk_listening := True\<rparr>))))"

definition tcp_sink_stop :: "'c tcp_sink \<Rightarrow> 'c tcp_sink" where
  "tcp_sink_stop k = k\<lparr>tk_closed := tk_closed k @ tk_socket_list k, tk_socket_list := [],
     tk_listening := (if tk_socket k then False else tk_listening k)\<rparr>"

definition handle_accept :: "'c \<Rightarrow> 'c tcp_sink \<Rightarrow> 'c tcp_sink" where
  "handle_accept c k = k\<lparr>tk_socket_list := tk_socket_list k @ [c]\<rparr>"

text \<open>The sizes of the packets that wait at a socket; one of size 0 is the end of the stream.\<close>

definition tcp_sink_handle_read :: "int list \<Rightarrow> 'c tcp_sink \<Rightarrow> 'c tcp_sink" where
  "tcp_sink_handle_read sizes k =
     k\<lparr>tk_total_rx := fold (\<lambda>size total. to_uint64 (total + size)) (takeWhile (\<lambda>size. size \<noteq> 0) sizes) (tk_total_rx k)\<rparr>"

definition clean_up :: "'c \<Rightarrow> 'c tcp_sink \<Rightarrow> 'c tcp_sink" where
  "clean_up c k = k\<lparr>tk_socket_list := remove1 c (tk_socket_list k)\<rparr>"

definition handle_peer_close :: "'c \<Rightarrow> 'c tcp_sink \<Rightarrow> 'c tcp_sink" where
  "handle_peer_close c k = clean_up c k"

definition handle_peer_error :: "'c \<Rightarrow> 'c tcp_sink \<Rightarrow> 'c tcp_sink" where
  "handle_peer_error c k = clean_up c k"

section \<open>TcpFlowScheduler\<close>

text \<open>
  \<open>th_pending\<close> are the events \<open>StartNextFlow\<close> that are pending, time and index; \<open>th_apps\<close> the applications with the
  node and the time they are installed at, \<open>th_sinks\<close> the nodes with a sink. An application with start time 0 is started
  by ns-3 as soon as it is installed.
\<close>

record 's tcp_scheduler =
  th_enabled :: bool
  th_end_ns :: int
  th_logs_dir :: string
  th_logging :: "int list"
  th_schedule :: "tcp_flow_entry list"
  th_file_names :: "string list"
  th_fs :: fsys
  th_sinks :: "int list"
  th_apps :: "(int \<times> int \<times> 's tcp_send_app) list"
  th_pending :: "(int \<times> nat) list"

definition start_next_flow :: "int \<Rightarrow> nat \<Rightarrow> 's tcp_scheduler \<Rightarrow> 's tcp_scheduler res" where
  "start_next_flow now i h =
     bindr (checkr (i < length (th_schedule h)) (Undefined ''vector index'')) (\<lambda>_.
     let entry = th_schedule h ! i in
     bindr (checkr (now = tf_start entry) (Assert_failed ''now_ns == entry.GetStartTimeNs()'')) (\<lambda>_.
     let h1 = h\<lparr>th_apps := th_apps h @ [(tf_from entry, now,
           tcp_send_app_init (tf_size entry) (tf_id entry) (tf_id entry \<in> set (th_logging h)) (th_logs_dir h))]\<rparr> in
     if i + 1 \<noteq> length (th_schedule h1)
     then let next_flow_ns = tf_start (th_schedule h1 ! (i + 1)) in
          bindr (checkr (0 \<le> next_flow_ns - now) (Assert_failed ''Schedule with a negative delay'')) (\<lambda>_.
          Inr (h1\<lparr>th_pending := th_pending h1 @ [(now + (next_flow_ns - now), i + 1)]\<rparr>))
     else Inr h1))"

definition flow_file_names :: "burst_simulation \<Rightarrow> string list" where
  "flow_file_names sim = (let p = bs_logs_dir sim @ ''/'' @
      (case bs_system sim of None \<Rightarrow> '''' | Some (system_id, _) \<Rightarrow> ''system_'' @ show_int system_id @ ''_'')
     in [p @ ''tcp_flows.csv'', p @ ''tcp_flows.txt''])"

definition tcp_flow_scheduler :: "burst_simulation \<Rightarrow> (int \<Rightarrow> bool) \<Rightarrow> int list \<Rightarrow> 's tcp_scheduler res" where
  "tcp_flow_scheduler sim valid endpoints =
     bindr (parse_boolean (get_param_or_default ''enable_tcp_flow_scheduler'' ''false'' (bs_config sim))) (\<lambda>enabled.
     if \<not> enabled
     then Inr \<lparr>th_enabled = False, th_end_ns = 0, th_logs_dir = '''', th_logging = [], th_schedule = [], th_file_names = [],
               th_fs = bs_fs sim, th_sinks = [], th_apps = [], th_pending = []\<rparr>
     else
     bindr (parse_set_positive_int64
       (get_param_or_default ''tcp_flow_enable_logging_for_tcp_flow_ids'' ''set()'' (bs_config sim))) (\<lambda>logging.
     bindr (get_param_or_fail ''tcp_flow_schedule_filename'' (bs_config sim)) (\<lambda>name.
     bindr (read_tcp_flow_schedule (bs_fs sim) (bs_run_dir sim @ ''/'' @ name) valid (bs_end_ns sim)) (\<lambda>complete_schedule.
     bindr (foldr_res (\<lambda>flow_id _. checkr (\<not> flow_id \<ge> int (length complete_schedule)) (Invalid_argument
       (''Invalid TCP flow ID in tcp_flow_enable_logging_for_tcp_flow_ids: '' @ show_int flow_id))) logging ()) (\<lambda>_.
     let schedule = filter (\<lambda>entry. on_this_system (bs_system sim) (tf_from entry)) complete_schedule in
     bindr (foldr_res remove_file_if_exists (flow_file_names sim) (bs_fs sim)) (\<lambda>fs.
     Inr \<lparr>th_enabled = True, th_end_ns = bs_end_ns sim, th_logs_dir = bs_logs_dir sim, th_logging = logging,
          th_schedule = schedule, th_file_names = flow_file_names sim, th_fs = fs,
          th_sinks = filter (on_this_system (bs_system sim)) endpoints, th_apps = [],
          th_pending = (case schedule of [] \<Rightarrow> [] | entry # _ \<Rightarrow> [(tf_start entry, 0)])\<rparr>))))))"

section \<open>The results\<close>

datatype finished_state = YES | NO_CONN_FAIL | NO_BAD_CLOSE | NO_ERR_CLOSE | NO_ONGOING

definition finished_state_of :: "'s tcp_send_app \<Rightarrow> finished_state" where
  "finished_state_of a =
     (if ts_is_completed a then YES else if ts_conn_failed a then NO_CONN_FAIL
      else if ts_closed_normally a then NO_BAD_CLOSE else if ts_closed_by_error a then NO_ERR_CLOSE else NO_ONGOING)"

text \<open>
  A row of tcp_flows.csv: identifier, source, target, size, start, end, duration, byte acknowledged, state and metadata.
\<close>

type_synonym flow_result = "int \<times> int \<times> int \<times> int \<times> int \<times> int \<times> int \<times> int \<times> finished_state \<times> string"

definition flow_row :: "'s tcp_ops \<Rightarrow> int \<Rightarrow> int \<Rightarrow> tcp_flow_entry \<Rightarrow> 's tcp_send_app \<Rightarrow> flow_result res" where
  "flow_row ops now end_ns entry a =
     bindr (finalize_detailed_logs ops now a) (\<lambda>a1.
     bindr (get_acked_bytes ops a1) (\<lambda>sent_byte.
     let fct_ns = (if ts_is_completed a1 then ts_completion_time_ns a1 - tf_start entry else end_ns - tf_start entry)
     in Inr (tf_id entry, tf_from entry, tf_to entry, tf_size entry, tf_start entry, tf_start entry + fct_ns, fct_ns, sent_byte,
          finished_state_of a1, tf_metadata entry)))"

definition flow_results :: "'s tcp_ops \<Rightarrow> int \<Rightarrow> 's tcp_scheduler \<Rightarrow> flow_result list res" where
  "flow_results ops now h =
     (if \<not> th_enabled h then Inr []
      else mapr (\<lambda>i. if i < length (th_apps h)
          then flow_row ops now (th_end_ns h) (th_schedule h ! i) (snd (snd (th_apps h ! i)))
          else Inl (Out_of_range ''vector::at'')) [0..<length (th_schedule h)])"

section \<open>Handing data to the socket\<close>

text \<open>
  A socket takes all of a packet, a part of it or, with -1, nothing, and what it takes is in its send buffer;
  closing it leaves the buffer as it is.
\<close>

definition tcp_contract :: "'s tcp_ops \<Rightarrow> bool" where
  "tcp_contract ops \<longleftrightarrow> (\<forall>s. 0 \<le> so_tx_size ops s \<and> so_tx_size ops (so_close ops s) = so_tx_size ops s) \<and>
     (\<forall>s n. 0 < n \<longrightarrow> (case so_send ops s n of (r, s') \<Rightarrow>
        (r = -1 \<and> so_tx_size ops s' = so_tx_size ops s) \<or> (0 \<le> r \<and> r \<le> n \<and> so_tx_size ops s' = so_tx_size ops s + r)))"

lemma tcp_contract_send:
  assumes "tcp_contract ops" "0 < n" "so_send ops s n = (r, s')"
  shows "r = -1 \<and> so_tx_size ops s' = so_tx_size ops s \<or> 0 \<le> r \<and> r \<le> n \<and> so_tx_size ops s' = so_tx_size ops s + r"
proof -
  have "case so_send ops s n of (r, s') \<Rightarrow> (r = -1 \<and> so_tx_size ops s' = so_tx_size ops s) \<or>
      (0 \<le> r \<and> r \<le> n \<and> so_tx_size ops s' = so_tx_size ops s + r)"
    by (rule assms(1) [unfolded tcp_contract_def, THEN conjunct2, rule_format, OF assms(2)])
  then show ?thesis using assms(3) by simp
qed

lemma send_loop_ok:
  assumes "tcp_contract ops" "0 < sz" "sz < 2 ^ 31" "0 < mx" "mx < 2 ^ 63" "0 \<le> tot" "tot \<le> mx"
  shows "\<exists>tot' s'. send_loop ops sz mx tot s = Some (tot', s') \<and> tot \<le> tot' \<and> tot' \<le> mx \<and>
    so_tx_size ops s' = so_tx_size ops s + (tot' - tot) \<and>
    (tot' < mx \<longrightarrow> (\<exists>s0 n. 0 < n \<and> fst (so_send ops s0 n) < n \<and> s' = snd (so_send ops s0 n)))"
  using assms(6,7)
proof (induction "nat (mx - tot)" arbitrary: tot s rule: less_induct)
  case less
  show ?case
  proof (cases "tot < mx")
    case False
    then show ?thesis using less.prems assms(4) by (subst send_loop.simps) simp
  next
    case True
    let ?n = "min sz (mx - tot)"
    obtain r s1 where s: "so_send ops s ?n = (r, s1)" by force
    have n: "0 < ?n" "?n < 2 ^ 31" "?n \<le> mx - tot" using True assms(2,3) by auto
    note c = tcp_contract_send [OF assms(1) n(1) s]
    have r: "to_uint32 r = ?n \<longleftrightarrow> r = ?n"
    proof (cases "r = -1")
      case True
      then show ?thesis using n by (auto simp: to_uint32_def)
    next
      case False
      then have "to_uint32 r = r" using c n(2) by (intro to_uint32_id) auto
      then show ?thesis by simp
    qed
    have tot: "to_uint64 (tot + r) = tot + r" if "0 < r"
      using c that n(3) less.prems assms(5) unfolding to_uint64_def by (intro mod_pos_pos_trivial) auto
    have "send_loop ops sz mx tot s = (let tot' = (if 0 < r then to_uint64 (tot + r) else tot) in
        if r \<noteq> ?n then Some (tot', s1) else send_loop ops sz mx tot' s1)"
      using True assms(4) by (subst send_loop.simps) (simp add: Let_def s r split del: if_split)
    moreover have "(if 0 < r then to_uint64 (tot + r) else tot) = (if 0 < r then tot + r else tot)" using tot by simp
    ultimately have step: "send_loop ops sz mx tot s = (let tot' = (if 0 < r then tot + r else tot) in
        if r \<noteq> ?n then Some (tot', s1) else send_loop ops sz mx tot' s1)" by (simp only:)
    show ?thesis
    proof (cases "r = ?n")
      case True
      have "nat (mx - (tot + r)) < nat (mx - tot)" "0 \<le> tot + r" "tot + r \<le> mx" using n less.prems True by auto
      from less.hyps [OF this, of s1] obtain tot' s' where
        "send_loop ops sz mx (tot + r) s1 = Some (tot', s')" "tot + r \<le> tot'" "tot' \<le> mx"
        "so_tx_size ops s' = so_tx_size ops s1 + (tot' - (tot + r))"
        "tot' < mx \<longrightarrow> (\<exists>s0 n. 0 < n \<and> fst (so_send ops s0 n) < n \<and> s' = snd (so_send ops s0 n))" by blast
      then show ?thesis using True n(1) c by (intro exI [of _ tot'] exI [of _ s']) (auto simp: step Let_def)
    next
      case False
      then have "send_loop ops sz mx tot s = Some (if 0 < r then tot + r else tot, s1)" by (simp add: step Let_def)
      moreover have "r < ?n" using False c n(1) by auto
      then have "\<exists>s0 n. 0 < n \<and> fst (so_send ops s0 n) < n \<and> s1 = snd (so_send ops s0 n)"
        using s n(1) by (intro exI [of _ s] exI [of _ ?n]) simp
      ultimately show ?thesis using c n(3) less.prems by auto
    qed
  qed
qed


section \<open>The events of an application\<close>

text \<open>
  The application is started once. Until the socket is closed it runs the callbacks of the application; the network
  acknowledges data, which leaves the send buffer, and moves the socket on in any other way. A connection fails only if no data has
  been handed over, and is closed normally only with an empty send buffer.
\<close>

inductive tcp_step :: "'s tcp_ops \<Rightarrow> int \<times> 's tcp_send_app \<Rightarrow> int \<times> 's tcp_send_app \<Rightarrow> bool" for ops where
  start: "now \<le> t \<Longrightarrow> ts_socket a = None \<Longrightarrow> ts_completion_time_ns a = -1 \<Longrightarrow> so_tx_size ops s = 0 \<Longrightarrow>
    tcp_start_application ops True True s t a = Inr a' \<Longrightarrow> tcp_step ops (now, a) (t, a')"
| connected: "now \<le> t \<Longrightarrow> ts_socket a = Some s \<Longrightarrow> connection_succeeded ops a = Inr a' \<Longrightarrow> tcp_step ops (now, a) (t, a')"
| failed: "now \<le> t \<Longrightarrow> ts_socket a = Some s \<Longrightarrow> ts_tot_bytes a = 0 \<Longrightarrow> tcp_step ops (now, a) (t, connection_failed t a)"
| space: "now \<le> t \<Longrightarrow> ts_socket a = Some s \<Longrightarrow> data_send ops t a = Inr a' \<Longrightarrow> tcp_step ops (now, a) (t, a')"
| network: "now \<le> t \<Longrightarrow> ts_socket a = Some s \<Longrightarrow> so_tx_size ops s' \<le> so_tx_size ops s \<Longrightarrow>
    tcp_step ops (now, a) (t, a\<lparr>ts_socket := Some s'\<rparr>)"
| closed: "now \<le> t \<Longrightarrow> ts_socket a = Some s \<Longrightarrow> so_tx_size ops s = 0 \<Longrightarrow> socket_closed_normal ops t a = Inr a' \<Longrightarrow>
    tcp_step ops (now, a) (t, a')"
| error: "now \<le> t \<Longrightarrow> ts_socket a = Some s \<Longrightarrow> socket_closed_error ops t a = Inr a' \<Longrightarrow> tcp_step ops (now, a) (t, a')"
| cwnd: "now \<le> t \<Longrightarrow> ts_socket a = Some s \<Longrightarrow> tcp_step ops (now, a) (t, cwnd_change t v a)"
| rtt: "now \<le> t \<Longrightarrow> ts_socket a = Some s \<Longrightarrow> tcp_step ops (now, a) (t, rtt_change t v a)"

section \<open>The invariant of an application\<close>

definition size_ok :: "'s tcp_send_app \<Rightarrow> bool" where
  "size_ok a \<longleftrightarrow> ts_send_size a = 100000 \<and> 0 < ts_max_bytes a \<and> ts_max_bytes a < 2 ^ 63 \<and>
     0 \<le> ts_tot_bytes a \<and> ts_tot_bytes a \<le> ts_max_bytes a"

text \<open>Not started, open with so many byte in the send buffer, and closed, in one of three ways.\<close>

definition unused :: "'s tcp_send_app \<Rightarrow> bool" where
  "unused a \<longleftrightarrow> \<not> ts_conn_failed a \<and> \<not> ts_closed_normally a \<and> \<not> ts_closed_by_error a \<and> \<not> ts_is_completed a \<and>
     ts_completion_time_ns a = -1"

definition closed_ok :: "int \<Rightarrow> 's tcp_send_app \<Rightarrow> bool" where
  "closed_ok now a \<longleftrightarrow> 0 \<le> ts_completion_time_ns a \<and> ts_completion_time_ns a \<le> now \<and>
     0 \<le> ts_acked_bytes a \<and> ts_acked_bytes a \<le> ts_tot_bytes a \<and>
     (ts_is_completed a \<longleftrightarrow> ts_closed_normally a \<and> ts_acked_bytes a = ts_max_bytes a) \<and>
     (if ts_conn_failed a then \<not> ts_closed_normally a \<and> \<not> ts_closed_by_error a \<and> ts_acked_bytes a = 0
      else ts_closed_normally a \<noteq> ts_closed_by_error a \<and> (ts_closed_normally a \<longrightarrow> ts_acked_bytes a = ts_tot_bytes a))"

definition tcp_inv :: "'s tcp_ops \<Rightarrow> int \<Rightarrow> 's tcp_send_app \<Rightarrow> bool" where
  "tcp_inv ops now a \<longleftrightarrow> 0 \<le> now \<and> size_ok a \<and> (case ts_socket a of
     Some s \<Rightarrow> unused a \<and> so_tx_size ops s \<le> ts_tot_bytes a
   | None \<Rightarrow> (unused a \<and> \<not> ts_connected a \<and> ts_tot_bytes a = 0) \<or> closed_ok now a)"

lemma tcp_inv_init: "0 \<le> now \<Longrightarrow> 0 < size_byte \<Longrightarrow> size_byte < 2 ^ 63 \<Longrightarrow> tcp_inv ops now (tcp_send_app_init size_byte flow_id logging dir)"
  by (simp add: tcp_inv_def tcp_send_app_init_def size_ok_def unused_def to_uint64_def)

lemma log_fields [simp]:
  "tcp_inv ops now (insert_cwnd_log t v a) = tcp_inv ops now a"
  "tcp_inv ops now (insert_rtt_log t v a) = tcp_inv ops now a"
  "tcp_inv ops now (insert_progress_log t v a) = tcp_inv ops now a"
  "get_acked_bytes ops (insert_cwnd_log t v a) = get_acked_bytes ops a"
  "get_acked_bytes ops (insert_rtt_log t v a) = get_acked_bytes ops a"
  "get_acked_bytes ops (insert_progress_log t v a) = get_acked_bytes ops a"
  "ts_socket (insert_cwnd_log t v a) = ts_socket a" "ts_socket (insert_rtt_log t v a) = ts_socket a"
  "ts_socket (insert_progress_log t v a) = ts_socket a"
  by (auto simp: tcp_inv_def get_acked_bytes_def insert_cwnd_log_def insert_rtt_log_def insert_progress_log_def size_ok_def unused_def
      closed_ok_def split: option.splits)

text \<open>The byte acknowledged, as a number: what was handed over and is not in the send buffer any more.\<close>

definition acked :: "'s tcp_ops \<Rightarrow> 's tcp_send_app \<Rightarrow> int" where
  "acked ops a = (case ts_socket a of Some s \<Rightarrow> ts_tot_bytes a - so_tx_size ops s | None \<Rightarrow> ts_acked_bytes a)"

lemma acked_log [simp]:
  "acked ops (insert_cwnd_log t v a) = acked ops a" "acked ops (insert_rtt_log t v a) = acked ops a"
  "acked ops (insert_progress_log t v a) = acked ops a"
  by (simp_all add: acked_def insert_cwnd_log_def insert_rtt_log_def insert_progress_log_def split: option.splits)

lemma get_acked_bytes_open:
  assumes "tcp_contract ops" "tcp_inv ops now a" "ts_socket a = Some s"
  shows "get_acked_bytes ops a = Inr (acked ops a)" "0 \<le> acked ops a" "acked ops a \<le> ts_tot_bytes a"
proof -
  have tx: "0 \<le> so_tx_size ops s" using assms(1) by (simp add: tcp_contract_def)
  have r: "0 \<le> ts_tot_bytes a - so_tx_size ops s" "ts_tot_bytes a - so_tx_size ops s < 2 ^ 63" "0 \<le> so_tx_size ops s"
    using assms(2,3) tx by (auto simp: tcp_inv_def size_ok_def)
  then have "to_uint64 (ts_tot_bytes a - so_tx_size ops s) = ts_tot_bytes a - so_tx_size ops s"
    unfolding to_uint64_def by (intro mod_pos_pos_trivial) auto
  then show "get_acked_bytes ops a = Inr (acked ops a)" "0 \<le> acked ops a" "acked ops a \<le> ts_tot_bytes a"
    using assms(2,3) r by (auto simp: get_acked_bytes_def acked_def tcp_inv_def unused_def in_int64_def)
qed

lemma get_acked_bytes_closed:
  assumes "tcp_inv ops now a" "ts_socket a = None" "ts_completion_time_ns a \<noteq> -1"
  shows "get_acked_bytes ops a = Inr (acked ops a)" "0 \<le> acked ops a" "acked ops a \<le> ts_tot_bytes a"
  using assms by (auto simp: get_acked_bytes_def acked_def tcp_inv_def unused_def closed_ok_def size_ok_def in_int64_def split: if_splits)

lemma send_data_ok:
  assumes "tcp_contract ops" "tcp_inv ops now a" "ts_socket a = Some s"
  shows "\<exists>a' s'. send_data ops a = Inr a' \<and> tcp_inv ops now a' \<and> ts_socket a' = Some s' \<and> acked ops a' = acked ops a \<and>
    ts_tot_bytes a \<le> ts_tot_bytes a' \<and> (ts_connected a' \<longleftrightarrow> ts_connected a \<and> ts_tot_bytes a' < ts_max_bytes a') \<and>
    (ts_tot_bytes a' < ts_max_bytes a' \<longrightarrow> (\<exists>s0 n. 0 < n \<and> fst (so_send ops s0 n) < n \<and> s' = snd (so_send ops s0 n))) \<and>
    a' = a\<lparr>ts_socket := ts_socket a', ts_connected := ts_connected a', ts_tot_bytes := ts_tot_bytes a'\<rparr>"
proof -
  have sz: "size_ok a" using assms(2) by (simp add: tcp_inv_def)
  then obtain tot' s' where l: "send_loop ops (ts_send_size a) (ts_max_bytes a) (ts_tot_bytes a) s = Some (tot', s')"
    "ts_tot_bytes a \<le> tot'" "tot' \<le> ts_max_bytes a" "so_tx_size ops s' = so_tx_size ops s + (tot' - ts_tot_bytes a)"
    "tot' < ts_max_bytes a \<longrightarrow> (\<exists>s0 n. 0 < n \<and> fst (so_send ops s0 n) < n \<and> s' = snd (so_send ops s0 n))"
    using send_loop_ok [OF assms(1), of "ts_send_size a" "ts_max_bytes a" "ts_tot_bytes a" s] by (auto simp: size_ok_def)
  have cl: "so_tx_size ops (so_close ops s') = so_tx_size ops s'" using assms(1) by (simp add: tcp_contract_def)
  show ?thesis
  proof (cases "tot' = ts_max_bytes a \<and> ts_connected a")
    case True
    let ?a = "a\<lparr>ts_tot_bytes := tot', ts_socket := Some (so_close ops s'), ts_connected := False\<rparr>"
    have "send_data ops a = Inr ?a" using True l(1) assms(3) by (simp add: send_data_def)
    moreover have "tcp_inv ops now ?a" using assms(2,3) l cl by (simp add: tcp_inv_def size_ok_def unused_def)
    ultimately show ?thesis using True assms(3) l(2,4) cl by (intro exI [of _ ?a] exI [of _ "so_close ops s'"]) (simp add: acked_def)
  next
    case False
    let ?a = "a\<lparr>ts_tot_bytes := tot', ts_socket := Some s'\<rparr>"
    have "send_data ops a = Inr ?a" using False l(1) assms(3) by (auto simp: send_data_def)
    moreover have "tcp_inv ops now ?a" using assms(2,3) l by (simp add: tcp_inv_def size_ok_def unused_def)
    moreover have "ts_connected a \<longrightarrow> tot' < ts_max_bytes a" using False l(3) by auto
    ultimately show ?thesis using assms(3) l by (intro exI [of _ ?a] exI [of _ s']) (auto simp: acked_def)
  qed
qed

lemma tcp_inv_later: "tcp_inv ops now a \<Longrightarrow> now \<le> t \<Longrightarrow> tcp_inv ops t a"
  by (auto simp: tcp_inv_def closed_ok_def split: option.splits)

lemma tcp_inv_open: "tcp_inv ops now a \<Longrightarrow> ts_socket a = Some s \<Longrightarrow> unused a \<and> so_tx_size ops s \<le> ts_tot_bytes a \<and> size_ok a \<and> 0 \<le> now"
  by (simp add: tcp_inv_def)

lemma start_inv:
  assumes "tcp_inv ops t a" "ts_socket a = None" "ts_completion_time_ns a = -1" "so_tx_size ops s = 0"
    "tcp_start_application ops True True s t a = Inr a'"
  shows "tcp_inv ops t a' \<and> acked ops a' = 0"
proof -
  have a: "unused a" "\<not> ts_connected a" "ts_tot_bytes a = 0" "size_ok a" "0 \<le> t"
    using assms(1-3) by (auto simp: tcp_inv_def closed_ok_def)
  then have "\<exists>files. a' = a\<lparr>ts_socket := Some s, ts_files := files\<rparr>"
    using assms(2,5) by (intro exI [of _ "ts_files a'"]) (auto simp: tcp_start_application_def Let_def bindr_eq_Inr split: if_splits)
  then show ?thesis using a assms(4) by (auto simp: tcp_inv_def size_ok_def unused_def acked_def)
qed

lemma data_send_ok:
  assumes "tcp_contract ops" "tcp_inv ops now a" "ts_socket a = Some s"
  shows "\<exists>a'. data_send ops t a = Inr a' \<and> tcp_inv ops now a' \<and> acked ops a' = acked ops a"
proof -
  obtain a1 s1 where a1: "(if ts_connected a then send_data ops a else Inr a) = Inr a1" "tcp_inv ops now a1"
    "ts_socket a1 = Some s1" "acked ops a1 = acked ops a"
    using send_data_ok [OF assms] assms(2,3) by (cases "ts_connected a") auto
  then show ?thesis
    using a1 get_acked_bytes_open [OF assms(1) a1(2,3)] by (simp add: data_send_def split del: if_split) simp
qed

lemma connected_ok:
  assumes "tcp_contract ops" "tcp_inv ops now a" "ts_socket a = Some s"
  shows "\<exists>a'. connection_succeeded ops a = Inr a' \<and> tcp_inv ops now a' \<and> acked ops a' = acked ops a"
proof -
  have "tcp_inv ops now (a\<lparr>ts_connected := True\<rparr>)" using assms(2,3) by (simp add: tcp_inv_def size_ok_def unused_def)
  from send_data_ok [OF assms(1) this] assms(3) show ?thesis
    by (auto simp: connection_succeeded_def acked_def split: option.splits)
qed

lemma closed_ok_of:
  assumes "tcp_contract ops" "tcp_inv ops t a" "ts_socket a = Some s"
  shows "so_tx_size ops s = 0 \<Longrightarrow> \<exists>a'. socket_closed_normal ops t a = Inr a' \<and> tcp_inv ops t a' \<and> acked ops a' = acked ops a"
    "\<exists>a'. socket_closed_error ops t a = Inr a' \<and> tcp_inv ops t a' \<and> acked ops a' = acked ops a"
proof -
  have tx: "0 \<le> so_tx_size ops s" using assms(1) by (simp add: tcp_contract_def)
  note o = tcp_inv_open [OF assms(2,3)]
  have u: "to_uint64 (ts_tot_bytes a - so_tx_size ops s) = ts_tot_bytes a - so_tx_size ops s"
    unfolding to_uint64_def using o tx by (intro mod_pos_pos_trivial) (auto simp: size_ok_def)
  show "\<exists>a'. socket_closed_error ops t a = Inr a' \<and> tcp_inv ops t a' \<and> acked ops a' = acked ops a"
    using o tx u assms(3) by (simp add: socket_closed_error_def tcp_inv_def closed_ok_def size_ok_def acked_def)
  show "\<exists>a'. socket_closed_normal ops t a = Inr a' \<and> tcp_inv ops t a' \<and> acked ops a' = acked ops a"
    if "so_tx_size ops s = 0"
    using o u assms(3) that by (simp add: socket_closed_normal_def Let_def tcp_inv_def closed_ok_def size_ok_def acked_def)
qed

lemma tcp_step_inv:
  assumes "tcp_step ops r r'" "tcp_contract ops" "tcp_inv ops (fst r) (snd r)"
  shows "tcp_inv ops (fst r') (snd r') \<and> fst r \<le> fst r' \<and>
    (\<not> ts_conn_failed (snd r') \<and> ts_socket (snd r) \<noteq> None \<longrightarrow> acked ops (snd r) \<le> acked ops (snd r'))"
  using assms
proof (induction rule: tcp_step.induct)
  case (start now t a s a')
  then show ?case using start_inv [of ops t a s a'] tcp_inv_later [of ops now a t] by auto
next
  case (connected now t a s a')
  then show ?case using connected_ok [of ops t a s] tcp_inv_later [of ops now a t] by auto
next
  case (failed now t a s)
  then have o: "unused a" "size_ok a" "0 \<le> now" using tcp_inv_open [of ops now a s] by auto
  then show ?case using failed by (simp add: tcp_inv_def connection_failed_def closed_ok_def size_ok_def)
next
  case (space now t a s a')
  then show ?case using data_send_ok [of ops t a s t] tcp_inv_later [of ops now a t] by auto
next
  case (network now t a s s')
  then show ?case by (auto simp: tcp_inv_def size_ok_def unused_def acked_def)
next
  case (closed now t a s a')
  then show ?case using closed_ok_of(1) [of ops t a s] tcp_inv_later [of ops now a t] by auto
next
  case (error now t a s a')
  then show ?case using closed_ok_of(2) [of ops t a s] tcp_inv_later [of ops now a t] by auto
next
  case (cwnd now t a s v)
  then show ?case using tcp_inv_later [of ops now a t] by (simp add: cwnd_change_def)
next
  case (rtt now t a s v)
  then show ?case using tcp_inv_later [of ops now a t] by (simp add: rtt_change_def)
qed

lemma tcp_reachable:
  assumes "(tcp_step ops)\<^sup>*\<^sup>* (t0, tcp_send_app_init size_byte flow_id logging dir) (now, a)" "tcp_contract ops" "0 \<le> t0"
    "0 < size_byte" "size_byte < 2 ^ 63"
  shows "tcp_inv ops now a"
proof -
  have "tcp_inv ops (fst r') (snd r')" if "(tcp_step ops)\<^sup>*\<^sup>* r r'" "tcp_inv ops (fst r) (snd r)" for r r'
    using that by (induction rule: rtranclp_induct) (auto dest: tcp_step_inv [OF _ assms(2)])
  note inv = this [OF assms(1)]
  show ?thesis by (rule inv [simplified]) (rule tcp_inv_init [OF assms(3-5)])
qed

lemma send_data_max:
  "send_data ops a = Inr a' \<Longrightarrow> ts_max_bytes a' = ts_max_bytes a \<and> ts_send_size a' = ts_send_size a"
  by (auto simp: send_data_def split: if_splits option.splits prod.splits)

lemma start_max:
  "tcp_start_application ops st ok s t a = Inr a' \<Longrightarrow> ts_max_bytes a' = ts_max_bytes a \<and> ts_send_size a' = ts_send_size a"
  by (auto simp: tcp_start_application_def Let_def bindr_eq_Inr dest!: send_data_max split: if_splits)

lemma max_bytes_const:
  "tcp_step ops r r' \<Longrightarrow> ts_max_bytes (snd r') = ts_max_bytes (snd r) \<and> ts_send_size (snd r') = ts_send_size (snd r)"
proof (induction rule: tcp_step.induct)
  case (start now t a s a')
  then show ?case by (simp add: start_max)
next
  case (connected now t a s a')
  then show ?case by (auto simp: connection_succeeded_def dest: send_data_max)
next
  case (space now t a s a')
  then show ?case by (auto simp: data_send_def insert_progress_log_def bindr_eq_Inr dest: send_data_max split: if_splits)
qed (auto simp: connection_failed_def socket_closed_normal_def socket_closed_error_def cwnd_change_def rtt_change_def
     insert_cwnd_log_def insert_rtt_log_def Let_def bindr_eq_Inr)

lemma tcp_reachable_size:
  assumes "(tcp_step ops)\<^sup>*\<^sup>* (t0, tcp_send_app_init size_byte flow_id logging dir) (now, a)" "0 \<le> size_byte" "size_byte < 2 ^ 63"
  shows "ts_max_bytes a = size_byte" "ts_send_size a = 100000"
proof -
  have "ts_max_bytes (snd r') = ts_max_bytes (snd r) \<and> ts_send_size (snd r') = ts_send_size (snd r)" if "(tcp_step ops)\<^sup>*\<^sup>* r r'" for r r'
    using that by (induction rule: rtranclp_induct) (auto dest: max_bytes_const)
  from this [OF assms(1)] show "ts_max_bytes a = size_byte" "ts_send_size a = 100000"
    using assms(2,3) by (simp_all add: tcp_send_app_init_def to_uint64_def)
qed

text \<open>
  C31. Against any socket that keeps the contract, an application of a flow with a positive size never hands over more
  than the size of the flow. While the socket is open or once it is closed, the acknowledged byte are what was
  handed over less what is in the send buffer; at most one of the three ends is recorded, together with its time; and
  the flow is completed exactly if it was closed normally with every byte of it acknowledged.
\<close>

theorem tcp_flow_accounting:
  assumes "(tcp_step ops)\<^sup>*\<^sup>* (t0, tcp_send_app_init size_byte flow_id logging dir) (now, a)" "tcp_contract ops" "0 \<le> t0"
    "0 < size_byte" "size_byte < 2 ^ 63"
  shows "0 \<le> ts_tot_bytes a \<and> ts_tot_bytes a \<le> size_byte \<and>
    (ts_socket a \<noteq> None \<or> ts_completion_time_ns a \<noteq> -1 \<longrightarrow>
      (\<exists>v. get_acked_bytes ops a = Inr v \<and> 0 \<le> v \<and> v \<le> ts_tot_bytes a \<and>
        (\<forall>s. ts_socket a = Some s \<longrightarrow> v = ts_tot_bytes a - so_tx_size ops s) \<and>
        (ts_is_completed a \<longleftrightarrow> ts_closed_normally a \<and> v = size_byte))) \<and>
    length (filter id [ts_conn_failed a, ts_closed_normally a, ts_closed_by_error a]) \<le> 1 \<and>
    (ts_completion_time_ns a = -1 \<longleftrightarrow> \<not> ts_conn_failed a \<and> \<not> ts_closed_normally a \<and> \<not> ts_closed_by_error a) \<and>
    ts_completion_time_ns a \<le> now"
proof -
  have inv: "tcp_inv ops now a" by (rule tcp_reachable [OF assms])
  have mx: "ts_max_bytes a = size_byte" by (rule tcp_reachable_size(1) [OF assms(1) less_imp_le [OF assms(4)] assms(5)])
  have sz: "0 \<le> ts_tot_bytes a" "ts_tot_bytes a \<le> size_byte" "0 \<le> now" using inv mx by (auto simp: tcp_inv_def size_ok_def)
  show ?thesis
  proof (cases "ts_socket a")
    case (Some s)
    then have "unused a" using tcp_inv_open [OF inv] by simp
    then show ?thesis using get_acked_bytes_open [OF assms(2) inv Some] sz Some by (auto simp: unused_def acked_def)
  next
    case None
    then consider "unused a" | "closed_ok now a" using inv by (auto simp: tcp_inv_def)
    then show ?thesis
    proof cases
      case 1
      then show ?thesis using sz None by (simp add: unused_def)
    next
      case 2
      then have "ts_completion_time_ns a \<noteq> -1" by (auto simp: closed_ok_def)
      with 2 show ?thesis using get_acked_bytes_closed [OF inv None] sz None mx by (auto simp: closed_ok_def acked_def split: if_splits)
    qed
  qed
qed


text \<open>A run against a socket with a buffer of 10 byte: a flow of 5 byte is sent, acknowledged and closed.\<close>

definition demo_ops :: "nat tcp_ops" where
  "demo_ops = \<lparr>so_send = (\<lambda>s n. if int s + n \<le> 10 then (n, nat (int s + n)) else (-1, s)), so_close = id, so_tx_size = int\<rparr>"

definition demo_flow :: "nat tcp_send_app" where
  "demo_flow = tcp_send_app_init 5 0 False ''l''"

definition demo_closed :: "nat tcp_send_app" where
  "demo_closed = demo_flow\<lparr>ts_tot_bytes := 5, ts_connected := False, ts_completion_time_ns := 7, ts_closed_normally := True,
     ts_acked_bytes := 5, ts_is_completed := True\<rparr>"

lemma demo_contract: "tcp_contract demo_ops"
  by (simp add: tcp_contract_def demo_ops_def)

lemma demo_started: "tcp_step demo_ops (2, demo_flow) (3, demo_flow\<lparr>ts_socket := Some 0\<rparr>)"
  by (rule tcp_step.start [of _ _ _ _ 0]) (simp_all add: demo_flow_def tcp_send_app_init_def demo_ops_def tcp_start_application_def Let_def)

lemma demo_finished: "(tcp_step demo_ops)\<^sup>*\<^sup>* (2, demo_flow) (7, demo_closed)"
proof -
  let ?d2 = "demo_flow\<lparr>ts_socket := Some 5, ts_tot_bytes := 5, ts_connected := False\<rparr>"
  have l: "send_loop demo_ops 100000 5 0 0 = Some (5, 5)"
    by (subst send_loop.simps, subst send_loop.simps) (simp add: demo_ops_def to_uint64_def Let_def)
  have "tcp_step demo_ops (3, demo_flow\<lparr>ts_socket := Some 0\<rparr>) (4, ?d2)"
    by (rule tcp_step.connected [of _ _ _ 0])
       (simp_all add: connection_succeeded_def send_data_def demo_flow_def tcp_send_app_init_def to_uint64_def l, simp add: demo_ops_def)
  moreover have "tcp_step demo_ops (4, ?d2) (6, ?d2\<lparr>ts_socket := Some 0\<rparr>)"
    by (rule tcp_step.network [of _ _ _ 5]) (simp_all add: demo_ops_def)
  moreover have "tcp_step demo_ops (6, ?d2\<lparr>ts_socket := Some 0\<rparr>) (7, demo_closed)"
    by (rule tcp_step.closed [of _ _ _ 0])
       (simp_all add: demo_ops_def socket_closed_normal_def demo_closed_def demo_flow_def tcp_send_app_init_def to_uint64_def Let_def)
  ultimately show ?thesis using demo_started by (meson converse_rtranclp_into_rtranclp rtranclp.rtrancl_refl)
qed

theorem tcp_flow_accounting_witness:
  "get_acked_bytes demo_ops demo_closed = Inr 5"
  using tcp_flow_accounting [OF demo_finished [unfolded demo_flow_def] demo_contract]
  by (auto simp: demo_closed_def demo_flow_def tcp_send_app_init_def)


section \<open>The row of a flow\<close>

lemma send_data_completion: "send_data ops a = Inr a' \<Longrightarrow> ts_completion_time_ns a' = ts_completion_time_ns a"
  by (auto simp: send_data_def split: if_splits option.splits prod.splits)

lemma start_completion: "tcp_start_application ops st ok s t a = Inr a' \<Longrightarrow> ts_completion_time_ns a' = ts_completion_time_ns a"
  by (auto simp: tcp_start_application_def Let_def bindr_eq_Inr dest!: send_data_completion split: if_splits)

lemma completion_after:
  "tcp_step ops r r' \<Longrightarrow> t0 \<le> fst r \<and> (ts_completion_time_ns (snd r) = -1 \<or> t0 \<le> ts_completion_time_ns (snd r)) \<Longrightarrow>
   t0 \<le> fst r' \<and> (ts_completion_time_ns (snd r') = -1 \<or> t0 \<le> ts_completion_time_ns (snd r'))"
proof (induction rule: tcp_step.induct)
  case (start now t a s a')
  then show ?case by (simp add: start_completion)
next
  case (connected now t a s a')
  then have "ts_completion_time_ns a' = ts_completion_time_ns a"
    using send_data_completion [of ops "a\<lparr>ts_connected := True\<rparr>" a'] by (simp add: connection_succeeded_def)
  then show ?case using connected by simp
next
  case (space now t a s a')
  then have "ts_completion_time_ns a' = ts_completion_time_ns a"
    using send_data_completion [of ops a] by (auto simp: data_send_def insert_progress_log_def bindr_eq_Inr split: if_splits)
  then show ?case using space by simp
qed (auto simp: connection_failed_def socket_closed_normal_def socket_closed_error_def cwnd_change_def rtt_change_def
     insert_cwnd_log_def insert_rtt_log_def Let_def bindr_eq_Inr)

lemma completion_reachable:
  assumes "(tcp_step ops)\<^sup>*\<^sup>* (t0, tcp_send_app_init size_byte flow_id logging dir) (now, a)"
  shows "t0 \<le> now \<and> (ts_completion_time_ns a = -1 \<or> t0 \<le> ts_completion_time_ns a)"
proof -
  have "t0 \<le> fst r' \<and> (ts_completion_time_ns (snd r') = -1 \<or> t0 \<le> ts_completion_time_ns (snd r'))"
    if "(tcp_step ops)\<^sup>*\<^sup>* r r'" "t0 \<le> fst r \<and> (ts_completion_time_ns (snd r) = -1 \<or> t0 \<le> ts_completion_time_ns (snd r))" for r r'
    using that by (induction rule: rtranclp_induct) (auto dest: completion_after)
  from this [OF assms] show ?thesis by (simp add: tcp_send_app_init_def)
qed

lemma finalize_cases:
  assumes "finalize_detailed_logs ops now a = Inr a1"
  obtains "a1 = a" | t x y z where "a1 = insert_progress_log t x (insert_rtt_log t y (insert_cwnd_log t z a))"
  using assms by (auto simp: finalize_detailed_logs_def Let_def bindr_eq_Inr split: if_splits option.splits)

lemma log_state [simp]:
  "finished_state_of (insert_cwnd_log t v a) = finished_state_of a" "ts_is_completed (insert_cwnd_log t v a) = ts_is_completed a"
  "ts_completion_time_ns (insert_cwnd_log t v a) = ts_completion_time_ns a"
  "finished_state_of (insert_rtt_log t v a) = finished_state_of a" "ts_is_completed (insert_rtt_log t v a) = ts_is_completed a"
  "ts_completion_time_ns (insert_rtt_log t v a) = ts_completion_time_ns a"
  "finished_state_of (insert_progress_log t v a) = finished_state_of a" "ts_is_completed (insert_progress_log t v a) = ts_is_completed a"
  "ts_completion_time_ns (insert_progress_log t v a) = ts_completion_time_ns a"
  by (simp_all add: finished_state_of_def insert_progress_log_def insert_rtt_log_def insert_cwnd_log_def)

lemma finalize_fields:
  assumes "finalize_detailed_logs ops now a = Inr a1"
  shows "get_acked_bytes ops a1 = get_acked_bytes ops a" "finished_state_of a1 = finished_state_of a"
    "ts_is_completed a1 = ts_is_completed a" "ts_completion_time_ns a1 = ts_completion_time_ns a"
  using assms by (elim finalize_cases; simp)+

text \<open>An application whose socket has been created, and whose members that are logged have been assigned.\<close>

definition can_report :: "'s tcp_send_app \<Rightarrow> bool" where
  "can_report a \<longleftrightarrow> (ts_socket a \<noteq> None \<or> ts_completion_time_ns a \<noteq> -1) \<and>
     (ts_enable_detailed_logging a \<longrightarrow> ts_current_cwnd_byte a \<noteq> None \<and> ts_current_rtt_ns a \<noteq> None)"

lemma flow_row_correct:
  assumes "(tcp_step ops)\<^sup>*\<^sup>* (tf_start entry, tcp_send_app_init (tf_size entry) flow_id logging dir) (now, a)" "tcp_contract ops"
    "0 \<le> tf_start entry" "0 < tf_size entry" "tf_size entry < 2 ^ 63" "now \<le> end_ns" "can_report a"
  shows "\<exists>v fct. flow_row ops end_ns end_ns entry a = Inr (tf_id entry, tf_from entry, tf_to entry, tf_size entry, tf_start entry,
      tf_start entry + fct, fct, v, finished_state_of a, tf_metadata entry) \<and>
    0 \<le> fct \<and> tf_start entry + fct \<le> end_ns \<and> 0 \<le> v \<and> v \<le> tf_size entry \<and> get_acked_bytes ops a = Inr v \<and> v = acked ops a \<and>
    (ts_closed_normally a \<longrightarrow> v = ts_tot_bytes a) \<and> (ts_conn_failed a \<longrightarrow> v = 0) \<and>
    (finished_state_of a = YES \<longleftrightarrow> ts_closed_normally a \<and> v = tf_size entry) \<and>
    (finished_state_of a = NO_ONGOING \<longleftrightarrow> ts_socket a \<noteq> None) \<and>
    tf_start entry + fct = (if finished_state_of a = YES then ts_completion_time_ns a else end_ns)"
proof -
  note acc = tcp_reachable [OF assms(1-5)]
  have inv: "tcp_inv ops now a" by (rule acc)
  have mx: "ts_max_bytes a = tf_size entry" by (rule tcp_reachable_size(1) [OF assms(1) less_imp_le [OF assms(4)] assms(5)])
  note comp = completion_reachable [OF assms(1)]
  obtain v where v: "get_acked_bytes ops a = Inr v" "0 \<le> v" "v \<le> ts_tot_bytes a" "v = acked ops a"
    using get_acked_bytes_open [OF assms(2) inv] get_acked_bytes_closed [OF inv] assms(7)
    by (cases "ts_socket a") (auto simp: can_report_def)
  have tot: "ts_tot_bytes a \<le> tf_size entry" using inv mx by (simp add: tcp_inv_def size_ok_def)
  have "is_ok (finalize_detailed_logs ops end_ns a)"
    using assms(7) v(1) by (auto simp: finalize_detailed_logs_def can_report_def Let_def)
  then obtain a1 where a1: "finalize_detailed_logs ops end_ns a = Inr a1" by (auto simp: is_ok_iff)
  have yes: "finished_state_of a = YES \<longleftrightarrow> ts_is_completed a" by (simp add: finished_state_of_def)
  have closed: "ts_is_completed a \<longleftrightarrow> ts_closed_normally a \<and> v = tf_size entry" "ts_completion_time_ns a \<le> now"
    "ts_is_completed a \<longrightarrow> ts_completion_time_ns a \<noteq> -1" "finished_state_of a = NO_ONGOING \<longleftrightarrow> ts_socket a \<noteq> None"
    using inv assms(7) mx v(4) comp
    by (auto simp: tcp_inv_def unused_def closed_ok_def can_report_def acked_def finished_state_of_def split: option.splits if_splits)
  have ends: "ts_closed_normally a \<longrightarrow> v = ts_tot_bytes a" "ts_conn_failed a \<longrightarrow> v = 0"
    using inv v(4) by (auto simp: tcp_inv_def unused_def closed_ok_def acked_def split: option.splits if_splits)
  let ?fct = "if ts_is_completed a then ts_completion_time_ns a - tf_start entry else end_ns - tf_start entry"
  have "flow_row ops end_ns end_ns entry a = Inr (tf_id entry, tf_from entry, tf_to entry, tf_size entry, tf_start entry,
      tf_start entry + ?fct, ?fct, v, finished_state_of a, tf_metadata entry)"
    using v(1) by (simp add: flow_row_def a1 finalize_fields [OF a1] Let_def)
  moreover have "0 \<le> ?fct" "tf_start entry + ?fct \<le> end_ns"
    using comp closed(2,3) assms(6) by auto
  moreover have "v \<le> tf_size entry" using v(3) tot by linarith
  moreover have "finished_state_of a = YES \<longleftrightarrow> ts_closed_normally a \<and> v = tf_size entry" using yes closed(1) by (simp only:)
  moreover have "tf_start entry + ?fct = (if finished_state_of a = YES then ts_completion_time_ns a else end_ns)" using yes by simp
  ultimately show ?thesis using v(1,2,4) closed(4) ends by (intro exI [of _ v] exI [of _ ?fct] conjI) assumption+
qed

section \<open>The flows of a schedule\<close>

text \<open>
  The simulator runs the pending event with the least time; while none is overdue, the applications run their own events.
\<close>

inductive flow_step :: "'s tcp_ops \<Rightarrow> int \<times> 's tcp_scheduler \<Rightarrow> int \<times> 's tcp_scheduler \<Rightarrow> bool" for ops where
  start: "(t, i) \<in> set (th_pending h) \<Longrightarrow> \<forall>(t', _) \<in> set (th_pending h). t \<le> t' \<Longrightarrow>
    start_next_flow t i (h\<lparr>th_pending := remove1 (t, i) (th_pending h)\<rparr>) = Inr h' \<Longrightarrow> flow_step ops (now, h) (t, h')"
| apps: "now \<le> t \<Longrightarrow> \<forall>(t', _) \<in> set (th_pending h). t \<le> t' \<Longrightarrow>
    list_all2 (\<lambda>(node, st, a) (node', st', a'). node' = node \<and> st' = st \<and> (\<exists>t' \<le> t. (tcp_step ops)\<^sup>*\<^sup>* (now, a) (t', a')))
      (th_apps h) apps \<Longrightarrow> flow_step ops (now, h) (t, h\<lparr>th_apps := apps\<rparr>)"

definition app_of :: "'s tcp_ops \<Rightarrow> 's tcp_scheduler \<Rightarrow> int \<Rightarrow> tcp_flow_entry \<Rightarrow> int \<times> int \<times> 's tcp_send_app \<Rightarrow> bool" where
  "app_of ops h now entry p \<longleftrightarrow> fst p = tf_from entry \<and> fst (snd p) = tf_start entry \<and>
     (\<exists>t \<le> now. (tcp_step ops)\<^sup>*\<^sup>* (tf_start entry, tcp_send_app_init (tf_size entry) (tf_id entry)
        (tf_id entry \<in> set (th_logging h)) (th_logs_dir h)) (t, snd (snd p)))"

definition flows_inv :: "'s tcp_ops \<Rightarrow> int \<Rightarrow> 's tcp_scheduler \<Rightarrow> bool" where
  "flows_inv ops now h \<longleftrightarrow> sorted (map tf_start (th_schedule h)) \<and>
     (let k = length (th_apps h) in k \<le> length (th_schedule h) \<and>
       th_pending h = (if k < length (th_schedule h) then [(tf_start (th_schedule h ! k), k)] else []) \<and>
       (\<forall>i < k. tf_start (th_schedule h ! i) \<le> now \<and> app_of ops h now (th_schedule h ! i) (th_apps h ! i)) \<and>
       (k < length (th_schedule h) \<longrightarrow> now \<le> tf_start (th_schedule h ! k)))"

lemma tcp_steps_earlier:
  assumes "(tcp_step ops)\<^sup>*\<^sup>* (now, a) (t, a')" "s \<le> now"
  shows "\<exists>t' \<le> t. (tcp_step ops)\<^sup>*\<^sup>* (s, a) (t', a')"
proof -
  have e: "tcp_step ops (now, a) r \<Longrightarrow> tcp_step ops (s, a) r" for r
    using assms(2) by (auto elim!: tcp_step.cases intro: tcp_step.intros)
  from assms(1) show ?thesis
  proof (cases rule: converse_rtranclpE)
    case base
    then show ?thesis using assms(2) by (intro exI [of _ s]) simp
  next
    case (step r)
    show ?thesis using converse_rtranclp_into_rtranclp [of "tcp_step ops", OF e [OF step(1)] step(2)] by blast
  qed
qed

lemma start_next_flow_ok:
  assumes "i < length (th_schedule h)" "sorted (map tf_start (th_schedule h))" "now = tf_start (th_schedule h ! i)"
  shows "start_next_flow now i h = Inr (h\<lparr>
    th_apps := th_apps h @ [(tf_from (th_schedule h ! i), now, tcp_send_app_init (tf_size (th_schedule h ! i)) (tf_id (th_schedule h ! i))
      (tf_id (th_schedule h ! i) \<in> set (th_logging h)) (th_logs_dir h))],
    th_pending := th_pending h @ (if Suc i < length (th_schedule h) then [(tf_start (th_schedule h ! Suc i), Suc i)] else [])\<rparr>)"
proof -
  have "Suc i < length (th_schedule h) \<Longrightarrow> tf_start (th_schedule h ! i) \<le> tf_start (th_schedule h ! Suc i)"
    using sorted_nth_mono [OF assms(2), of i "Suc i"] by simp
  then show ?thesis using assms(1,3) by (simp add: start_next_flow_def Let_def)
qed

lemma app_of_init:
  "app_of ops h (tf_start entry) entry (tf_from entry, tf_start entry,
     tcp_send_app_init (tf_size entry) (tf_id entry) (tf_id entry \<in> set (th_logging h)) (th_logs_dir h))"
  by (auto simp: app_of_def)

lemma app_of_later: "app_of ops h now entry p \<Longrightarrow> now \<le> t \<Longrightarrow> app_of ops h t entry p"
  unfolding app_of_def by (meson order_trans)

lemma app_of_same: "th_logging h' = th_logging h \<Longrightarrow> th_logs_dir h' = th_logs_dir h \<Longrightarrow> app_of ops h' = app_of ops h"
  by (simp add: app_of_def fun_eq_iff)

lemma app_of_steps:
  assumes "app_of ops h now entry (node, st, a)" "(tcp_step ops)\<^sup>*\<^sup>* (now, a) (t', a')" "t' \<le> t" "now \<le> t"
  shows "app_of ops h t entry (node, st, a')"
proof -
  let ?init = "(tf_start entry, tcp_send_app_init (tf_size entry) (tf_id entry) (tf_id entry \<in> set (th_logging h)) (th_logs_dir h))"
  obtain s where s: "node = tf_from entry" "st = tf_start entry" "s \<le> now" "(tcp_step ops)\<^sup>*\<^sup>* ?init (s, a)"
    using assms(1) by (auto simp: app_of_def)
  obtain t2 where "t2 \<le> t'" "(tcp_step ops)\<^sup>*\<^sup>* (s, a) (t2, a')" using tcp_steps_earlier [OF assms(2) s(3)] by blast
  moreover from this have "(tcp_step ops)\<^sup>*\<^sup>* ?init (t2, a')" using s(4) by (meson rtranclp_trans)
  ultimately show ?thesis using s(1,2) assms(3) by (auto simp: app_of_def intro!: exI [of _ t2])
qed

lemma flows_inv_start:
  assumes "flows_inv ops now h" "(t, i) \<in> set (th_pending h)"
  shows "i = length (th_apps h)" "i < length (th_schedule h)" "t = tf_start (th_schedule h ! i)" "now \<le> t"
    "start_next_flow t i (h\<lparr>th_pending := remove1 (t, i) (th_pending h)\<rparr>) = Inr h' \<Longrightarrow> flows_inv ops t h'"
proof -
  let ?k = "length (th_apps h)" and ?e = "th_schedule h ! i"
  have inv: "sorted (map tf_start (th_schedule h))" "?k \<le> length (th_schedule h)"
    "th_pending h = (if ?k < length (th_schedule h) then [(tf_start (th_schedule h ! ?k), ?k)] else [])"
    "\<forall>i < ?k. tf_start (th_schedule h ! i) \<le> now \<and> app_of ops h now (th_schedule h ! i) (th_apps h ! i)"
    "?k < length (th_schedule h) \<longrightarrow> now \<le> tf_start (th_schedule h ! ?k)"
    using assms(1) by (simp_all add: flows_inv_def Let_def)
  show i: "i = ?k" "i < length (th_schedule h)" "t = tf_start ?e" "now \<le> t" using inv(3,5) assms(2) by (auto split: if_splits)
  have p: "th_pending h = [(t, i)]" using inv(3) i by simp
  show "flows_inv ops t h'" if "start_next_flow t i (h\<lparr>th_pending := remove1 (t, i) (th_pending h)\<rparr>) = Inr h'"
  proof -
    have h': "h' = h\<lparr>th_apps := th_apps h @ [(tf_from ?e, t, tcp_send_app_init (tf_size ?e) (tf_id ?e) (tf_id ?e \<in> set (th_logging h)) (th_logs_dir h))],
        th_pending := if Suc i < length (th_schedule h) then [(tf_start (th_schedule h ! Suc i), Suc i)] else []\<rparr>"
      using that start_next_flow_ok [of i "h\<lparr>th_pending := []\<rparr>" t] i inv(1) p by simp
    have "tf_start (th_schedule h ! j) \<le> t \<and> app_of ops h t (th_schedule h ! j) (th_apps h' ! j)" if "j < Suc i" for j
    proof (cases "j = i")
      case True
      then show ?thesis using i(1,3) app_of_init [of ops h ?e] by (simp add: h' nth_append)
    next
      case False
      then have "tf_start (th_schedule h ! j) \<le> now" "app_of ops h now (th_schedule h ! j) (th_apps h ! j)" using that inv(4) i(1) by auto
      then show ?thesis using False that i(1,4) app_of_later [OF _ i(4), of ops h "th_schedule h ! j" "th_apps h ! j"]
        by (simp add: h' nth_append)
    qed
    moreover have "Suc i < length (th_schedule h) \<Longrightarrow> t \<le> tf_start (th_schedule h ! Suc i)"
      using sorted_nth_mono [OF inv(1), of i "Suc i"] i(3) by simp
    moreover have "app_of ops h' = app_of ops h" by (rule app_of_same) (simp_all add: h')
    ultimately show ?thesis using inv(1) i(1,2) by (simp add: flows_inv_def h')
  qed
qed

lemma flows_inv_step: "flow_step ops r r' \<Longrightarrow> flows_inv ops (fst r) (snd r) \<Longrightarrow> flows_inv ops (fst r') (snd r')"
proof (induction rule: flow_step.induct)
  case (start t i h h' now)
  then show ?case using flows_inv_start(5) [of ops now h t i h'] by simp
next
  case (apps now t h as)
  let ?h = "h\<lparr>th_apps := as\<rparr>"
  have len: "length as = length (th_apps h)" using apps.hyps(3) by (simp add: list_all2_lengthD)
  have inv: "flows_inv ops now h" using apps.prems by simp
  have "app_of ops h t (th_schedule h ! i) (as ! i)" if i: "i < length as" for i
  proof -
    obtain node st a node' st' a' where p: "th_apps h ! i = (node, st, a)" "as ! i = (node', st', a')" by (metis prod.collapse)
    then obtain t' where "node' = node" "st' = st" "t' \<le> t" "(tcp_step ops)\<^sup>*\<^sup>* (now, a) (t', a')"
      using list_all2_nthD2 [OF apps.hyps(3) i] by auto
    moreover have "app_of ops h now (th_schedule h ! i) (node, st, a)" using inv i len p(1) by (auto simp: flows_inv_def Let_def)
    ultimately show ?thesis using app_of_steps [of ops h now "th_schedule h ! i" node st a t' a' t] apps.hyps(1) p(2) by simp
  qed
  moreover have "app_of ops ?h = app_of ops h" by (rule app_of_same) simp_all
  moreover have "\<forall>i < length as. tf_start (th_schedule h ! i) \<le> t" using inv apps.hyps(1) len by (auto simp: flows_inv_def Let_def)
  moreover have "length as < length (th_schedule h) \<Longrightarrow> t \<le> tf_start (th_schedule h ! length as)"
    using inv apps.hyps(2) len by (auto simp: flows_inv_def Let_def)
  ultimately show ?case using inv len by (simp add: flows_inv_def Let_def)
qed

lemma flow_scheduler_cases:
  assumes "tcp_flow_scheduler sim valid endpoints = Inr h" "th_enabled h"
  obtains filename complete where
    "read_tcp_flow_schedule (bs_fs sim) filename valid (bs_end_ns sim) = Inr complete"
    "th_schedule h = filter (\<lambda>e. on_this_system (bs_system sim) (tf_from e)) complete" "th_end_ns h = bs_end_ns sim"
    "th_apps h = []" "th_pending h = (case th_schedule h of [] \<Rightarrow> [] | e # _ \<Rightarrow> [(tf_start e, 0)])"
    "th_sinks h = filter (on_this_system (bs_system sim)) endpoints"
  using assms unfolding tcp_flow_scheduler_def bindr_eq_Inr Let_def
  by (auto split: if_splits simp: bindr_eq_Inr)

lemma read_flows_ok:
  assumes "read_tcp_flow_schedule fs filename valid end_ns = Inr es"
  shows "map tf_id es = map int [0..<length es]" "sorted (map tf_start es)" "\<forall>f \<in> set es. good_flow valid end_ns f"
proof -
  obtain content n prev where f: "foldr_res (read_flow_line valid end_ns) (getlines content) ([], 0, 0) = Inr (es, n, prev)"
    using assms by (auto simp: read_tcp_flow_schedule_def open_lines_def bindr_eq_Inr split: if_splits option.splits)
  show "map tf_id es = map int [0..<length es]" "sorted (map tf_start es)" "\<forall>f \<in> set es. good_flow valid end_ns f"
    using flows.ordered_all [OF f] by simp_all
qed

lemma flow_scheduler_inv:
  assumes "tcp_flow_scheduler sim valid endpoints = Inr h" "th_enabled h"
  shows "flows_inv ops 0 h" "\<forall>e \<in> set (th_schedule h). good_flow valid (bs_end_ns sim) e"
    "sorted (map tf_start (th_schedule h))" "distinct (map tf_id (th_schedule h))"
proof -
  obtain filename complete where r: "read_tcp_flow_schedule (bs_fs sim) filename valid (bs_end_ns sim) = Inr complete"
    and s: "th_schedule h = filter (\<lambda>e. on_this_system (bs_system sim) (tf_from e)) complete"
    and i: "th_apps h = []" "th_pending h = (case th_schedule h of [] \<Rightarrow> [] | e # _ \<Rightarrow> [(tf_start e, 0)])"
    using flow_scheduler_cases [OF assms] by metis
  note ok = read_flows_ok [OF r]
  show good: "\<forall>e \<in> set (th_schedule h). good_flow valid (bs_end_ns sim) e" using ok(3) s by simp
  show sorted: "sorted (map tf_start (th_schedule h))" using ok(2) s by (simp add: sorted_filter)
  have "distinct (map tf_id complete)" unfolding ok(1) by (simp add: distinct_map)
  then show "distinct (map tf_id (th_schedule h))" unfolding s by (rule distinct_map_filter)
  show "flows_inv ops 0 h"
    using sorted i good by (cases "th_schedule h") (auto simp: flows_inv_def good_flow_def)
qed

lemma flow_steps_ok:
  assumes "tcp_flow_scheduler sim valid endpoints = Inr h0" "th_enabled h0" "(flow_step ops)\<^sup>*\<^sup>* (0, h0) (now, h)"
  shows "th_schedule h = th_schedule h0 \<and> (\<exists>k \<le> length (th_schedule h0).
    map (\<lambda>(node, st, _). (node, st)) (th_apps h) = map (\<lambda>e. (tf_from e, tf_start e)) (take k (th_schedule h0)) \<and>
    (\<forall>i < length (th_schedule h0). (tf_start (th_schedule h0 ! i) < now \<longrightarrow> i < k) \<and> (i < k \<longrightarrow> tf_start (th_schedule h0 ! i) \<le> now)) \<and>
    (\<forall>i < k. \<exists>t \<le> now. (tcp_step ops)\<^sup>*\<^sup>* (tf_start (th_schedule h0 ! i), tcp_send_app_init (tf_size (th_schedule h0 ! i))
       (tf_id (th_schedule h0 ! i)) (tf_id (th_schedule h0 ! i) \<in> set (th_logging h0)) (th_logs_dir h0)) (t, snd (snd (th_apps h ! i))))) \<and>
    (\<forall>(t, i) \<in> set (th_pending h). now \<le> t \<and> is_ok (start_next_flow t i (h\<lparr>th_pending := remove1 (t, i) (th_pending h)\<rparr>)))"
proof -
  have const: "th_schedule (snd r') = th_schedule (snd r) \<and> th_logging (snd r') = th_logging (snd r) \<and> th_logs_dir (snd r') = th_logs_dir (snd r)"
    if "flow_step ops r r'" for r r'
    using that by (induction rule: flow_step.induct) (auto simp: start_next_flow_def Let_def bindr_eq_Inr split: if_splits)
  have "flows_inv ops (fst r') (snd r') \<and> th_schedule (snd r') = th_schedule (snd r) \<and> th_logging (snd r') = th_logging (snd r) \<and>
      th_logs_dir (snd r') = th_logs_dir (snd r)" if "(flow_step ops)\<^sup>*\<^sup>* r r'" "flows_inv ops (fst r) (snd r)" for r r'
    using that by (induction rule: rtranclp_induct) (auto dest: flows_inv_step const)
  from this [OF assms(3)] have inv: "flows_inv ops now h" and
    same: "th_schedule h = th_schedule h0" "th_logging h = th_logging h0" "th_logs_dir h = th_logs_dir h0"
    using flow_scheduler_inv(1) [OF assms(1,2)] by simp_all
  let ?S = "th_schedule h0" and ?k = "length (th_apps h)"
  have i: "?k \<le> length ?S" "sorted (map tf_start ?S)" "\<forall>i < ?k. tf_start (?S ! i) \<le> now \<and> app_of ops h now (?S ! i) (th_apps h ! i)"
    "?k < length ?S \<longrightarrow> now \<le> tf_start (?S ! ?k)"
    using inv by (simp_all add: flows_inv_def Let_def same(1))
  have apps: "map (\<lambda>(node, st, _). (node, st)) (th_apps h) = map (\<lambda>e. (tf_from e, tf_start e)) (take ?k ?S)"
  proof (rule nth_equalityI)
    fix j assume "j < length (map (\<lambda>(node, st, _). (node, st)) (th_apps h))"
    then show "map (\<lambda>(node, st, _). (node, st)) (th_apps h) ! j = map (\<lambda>e. (tf_from e, tf_start e)) (take ?k ?S) ! j"
      using i(1,3) by (auto simp: app_of_def split: prod.splits)
  qed (use i(1) in simp)
  have due: "i < ?k" if "i < length ?S" "tf_start (?S ! i) < now" for i
  proof (rule ccontr)
    assume "\<not> i < ?k"
    then have "tf_start (?S ! ?k) \<le> tf_start (?S ! i)" using sorted_nth_mono [OF i(2), of ?k i] that(1) by simp
    then show False using i(4) that \<open>\<not> i < ?k\<close> by simp
  qed
  have run: "\<exists>t \<le> now. (tcp_step ops)\<^sup>*\<^sup>* (tf_start (?S ! j), tcp_send_app_init (tf_size (?S ! j)) (tf_id (?S ! j))
      (tf_id (?S ! j) \<in> set (th_logging h0)) (th_logs_dir h0)) (t, snd (snd (th_apps h ! j)))" if "j < ?k" for j
    using i(3) that by (auto simp: app_of_def same split: prod.splits)
  have "now \<le> t \<and> is_ok (start_next_flow t i (h\<lparr>th_pending := remove1 (t, i) (th_pending h)\<rparr>))" if "(t, i) \<in> set (th_pending h)" for t i
    using flows_inv_start(1-4) [OF inv that] start_next_flow_ok [of i "h\<lparr>th_pending := remove1 (t, i) (th_pending h)\<rparr>" t] i(2) same(1) by simp
  then show ?thesis using same(1) i(1,3) apps due run by (intro conjI exI [of _ ?k]) auto
qed

text \<open>
  C33. A scheduler that is enabled starts every flow of its schedule at its start time, in order: at any time the applications are those of
  the flows due before now, in the order of the schedule, with perhaps some that are due now, each on its source node and in a
  state it reaches from its initial one. The pending event never fails.
\<close>

theorem tcp_flows_started:
  assumes "tcp_flow_scheduler sim valid endpoints = Inr h0" "th_enabled h0" "(flow_step ops)\<^sup>*\<^sup>* (0, h0) (now, h)"
  shows "th_schedule h = th_schedule h0 \<and> (\<exists>k \<le> length (th_schedule h0).
    map (\<lambda>(node, st, _). (node, st)) (th_apps h) = map (\<lambda>e. (tf_from e, tf_start e)) (take k (th_schedule h0)) \<and>
    (\<forall>i < length (th_schedule h0). (tf_start (th_schedule h0 ! i) < now \<longrightarrow> i < k) \<and> (i < k \<longrightarrow> tf_start (th_schedule h0 ! i) \<le> now)) \<and>
    (\<forall>i < k. \<exists>t \<le> now. (tcp_step ops)\<^sup>*\<^sup>* (tf_start (th_schedule h0 ! i), tcp_send_app_init (tf_size (th_schedule h0 ! i))
       (tf_id (th_schedule h0 ! i)) (tf_id (th_schedule h0 ! i) \<in> set (th_logging h0)) (th_logs_dir h0)) (t, snd (snd (th_apps h ! i))))) \<and>
    (\<forall>(t, i) \<in> set (th_pending h). now \<le> t \<and> is_ok (start_next_flow t i (h\<lparr>th_pending := remove1 (t, i) (th_pending h)\<rparr>)))"
  by (rule flow_steps_ok [OF assms])

text \<open>
  C34. When a run has reached the end of the simulation, with every flow of a positive size, and every application with its socket created and
  what is logged assigned, the results have one row for every flow of the schedule, in its order. The row says YES exactly if the
  socket was closed normally with all byte of the flow acknowledged, NO_ONGOING exactly if it is still open; its end is the time of the
  completion or else the end of the simulation. Its number of byte is that of the byte acknowledged: what has been handed over less what
  is in the send buffer, while the socket is open, and what that was when it was closed, after a normal close every byte handed over and
  after a failed connection none.
\<close>

theorem tcp_results_complete:
  assumes "tcp_flow_scheduler sim valid endpoints = Inr h0" "th_enabled h0" "(flow_step ops)\<^sup>*\<^sup>* (0, h0) (bs_end_ns sim, h)" "tcp_contract ops"
    "\<forall>e \<in> set (th_schedule h0). 0 < tf_size e" "\<forall>p \<in> set (th_apps h). can_report (snd (snd p))"
  shows "\<exists>rows. flow_results ops (bs_end_ns sim) h = Inr rows \<and> length rows = length (th_schedule h0) \<and> (\<forall>i < length rows.
    let e = th_schedule h0 ! i; a = snd (snd (th_apps h ! i)) in
    \<exists>v fct. rows ! i = (tf_id e, tf_from e, tf_to e, tf_size e, tf_start e, tf_start e + fct, fct, v, finished_state_of a, tf_metadata e) \<and>
      0 \<le> fct \<and> 0 \<le> v \<and> v \<le> tf_size e \<and> v = acked ops a \<and>
      (ts_closed_normally a \<longrightarrow> v = ts_tot_bytes a) \<and> (ts_conn_failed a \<longrightarrow> v = 0) \<and> (finished_state_of a = YES \<longleftrightarrow> ts_closed_normally a \<and> v = tf_size e) \<and>
      (finished_state_of a = NO_ONGOING \<longleftrightarrow> ts_socket a \<noteq> None) \<and>
      tf_start e + fct = (if finished_state_of a = YES then ts_completion_time_ns a else bs_end_ns sim))"
proof -
  let ?S = "th_schedule h0" and ?stop = "bs_end_ns sim" and ?app = "\<lambda>i. snd (snd (th_apps h ! i))"
  have const: "th_enabled (snd r') = th_enabled (snd r) \<and> th_end_ns (snd r') = th_end_ns (snd r)" if "flow_step ops r r'" for r r'
    using that by (induction rule: flow_step.induct) (auto simp: start_next_flow_def Let_def bindr_eq_Inr split: if_splits)
  have "th_enabled (snd r') = th_enabled (snd r) \<and> th_end_ns (snd r') = th_end_ns (snd r)" if "(flow_step ops)\<^sup>*\<^sup>* r r'" for r r'
    using that by (induction rule: rtranclp_induct) (auto dest: const)
  from this [OF assms(3)] have h: "th_enabled h" "th_end_ns h = ?stop"
    using assms(2) flow_scheduler_cases [OF assms(1,2)] by (simp, metis snd_conv)
  obtain k where k: "th_schedule h = ?S" "k \<le> length ?S"
    "map (\<lambda>(node, st, _). (node, st)) (th_apps h) = map (\<lambda>e. (tf_from e, tf_start e)) (take k ?S)"
    "\<forall>i < length ?S. tf_start (?S ! i) < ?stop \<longrightarrow> i < k"
    "\<forall>i < k. \<exists>t \<le> ?stop. (tcp_step ops)\<^sup>*\<^sup>* (tf_start (?S ! i), tcp_send_app_init (tf_size (?S ! i)) (tf_id (?S ! i))
       (tf_id (?S ! i) \<in> set (th_logging h0)) (th_logs_dir h0)) (t, ?app i)"
    using flow_steps_ok [OF assms(1-3)] by blast
  have good: "good_flow valid ?stop (?S ! i)" if "i < length ?S" for i
    using flow_scheduler_inv(2) [OF assms(1,2)] nth_mem [OF that] by blast
  then have all: "i < length ?S \<Longrightarrow> i < k" for i using k(4) by (auto simp: good_flow_def)
  then have "k = length ?S" using k(2) by (metis less_irrefl nat_less_le)
  then have len: "length (th_apps h) = length ?S" using arg_cong [OF k(3), of length] by simp
  define P where "P i row \<longleftrightarrow> (let e = ?S ! i; a = ?app i in
    \<exists>v fct. row = (tf_id e, tf_from e, tf_to e, tf_size e, tf_start e, tf_start e + fct, fct, v, finished_state_of a, tf_metadata e) \<and>
      0 \<le> fct \<and> 0 \<le> v \<and> v \<le> tf_size e \<and> v = acked ops a \<and>
      (ts_closed_normally a \<longrightarrow> v = ts_tot_bytes a) \<and> (ts_conn_failed a \<longrightarrow> v = 0) \<and> (finished_state_of a = YES \<longleftrightarrow> ts_closed_normally a \<and> v = tf_size e) \<and>
      (finished_state_of a = NO_ONGOING \<longleftrightarrow> ts_socket a \<noteq> None) \<and>
      tf_start e + fct = (if finished_state_of a = YES then ts_completion_time_ns a else ?stop))" for i row
  have "\<exists>row. flow_row ops ?stop ?stop (?S ! i) (?app i) = Inr row \<and> P i row" if i: "i < length ?S" for i
  proof -
    obtain t where t: "t \<le> ?stop" "(tcp_step ops)\<^sup>*\<^sup>* (tf_start (?S ! i), tcp_send_app_init (tf_size (?S ! i)) (tf_id (?S ! i))
       (tf_id (?S ! i) \<in> set (th_logging h0)) (th_logs_dir h0)) (t, ?app i)"
      using k(5) all [OF i] by blast
    have e: "0 \<le> tf_start (?S ! i)" "0 < tf_size (?S ! i)" "tf_size (?S ! i) < 2 ^ 63"
      using good [OF i] assms(5) nth_mem [OF i] by (auto simp: good_flow_def in_int64_def)
    have "can_report (?app i)" using assms(6) nth_mem [of i "th_apps h"] len i by simp
    from flow_row_correct [OF t(2) assms(4) e t(1) this]
    show ?thesis unfolding P_def Let_def by auto
  qed
  then obtain row where row: "\<And>i. i < length ?S \<Longrightarrow> flow_row ops ?stop ?stop (?S ! i) (?app i) = Inr (row i) \<and> P i (row i)" by metis
  have "flow_results ops ?stop h = Inr (map row [0..<length ?S])"
    using h k(1) len row by (auto simp: flow_results_def intro!: mapr_ok)
  moreover have "\<forall>i < length (map row [0..<length ?S]). P i (map row [0..<length ?S] ! i)" using row by simp
  ultimately show ?thesis unfolding P_def by (intro exI [of _ "map row [0..<length ?S]"]) simp
qed

definition demo_fs :: fsys where
  "demo_fs = \<lparr>fs_files = (\<lambda>f. if f = ''r/f'' then Some ''0,1,2,5,2,,'' else None), fs_dirs = (\<lambda>_. False),
     fs_readable = (\<lambda>_. True), fs_unlink_ok = (\<lambda>_. True), fs_rmdir_ok = (\<lambda>_. True), fs_mkdir_ok = (\<lambda>_. True)\<rparr>"

definition demo_run_of_flows :: burst_simulation where
  "demo_run_of_flows = \<lparr>bs_fs = demo_fs, bs_run_dir = ''r'', bs_logs_dir = ''l'',
     bs_config = [(''enable_tcp_flow_scheduler'', ''true''), (''tcp_flow_schedule_filename'', ''f'')], bs_end_ns = 7, bs_system = None\<rparr>"

definition demo_entry :: tcp_flow_entry where
  "demo_entry = \<lparr>tf_id = 0, tf_from = 1, tf_to = 2, tf_size = 5, tf_start = 2, tf_params = '''', tf_metadata = ''''\<rparr>"

lemma demo_schedule:
  "case (tcp_flow_scheduler demo_run_of_flows (\<lambda>v. v < 3) [0, 1, 2] :: nat tcp_scheduler res) of Inl _ \<Rightarrow> False
   | Inr h \<Rightarrow> th_enabled h \<and> th_schedule h = [demo_entry] \<and> th_logging h = [] \<and> th_logs_dir h = ''l''"
  by code_simp

lemma demo_flow_run:
  obtains h0 h1 h where "tcp_flow_scheduler demo_run_of_flows (\<lambda>v. v < 3) [0, 1, 2] = Inr h0" "th_enabled h0" "th_schedule h0 = [demo_entry]"
    "flow_step demo_ops (0, h0) (2, h1)" "(flow_step demo_ops)\<^sup>*\<^sup>* (0, h0) (7, h)" "th_apps h1 = [(1, 2, demo_flow)]" "th_apps h = [(1, 2, demo_closed)]"
proof -
  obtain h0 :: "nat tcp_scheduler" where r: "tcp_flow_scheduler demo_run_of_flows (\<lambda>v. v < 3) [0, 1, 2] = Inr h0"
    and h0: "th_enabled h0" "th_schedule h0 = [demo_entry]" "th_logging h0 = []" "th_logs_dir h0 = ''l''"
    using demo_schedule by (auto split: sum.splits)
  have a: "th_apps h0 = []" "th_pending h0 = [(2, 0)]"
    using flow_scheduler_cases [OF r h0(1)] h0(2) by (metis, metis (no_types) list.simps(5) demo_entry_def tcp_flow_entry.select_convs(5))
  let ?h1 = "h0\<lparr>th_apps := [(1, 2, demo_flow)], th_pending := []\<rparr>"
  have "start_next_flow 2 0 (h0\<lparr>th_pending := []\<rparr>) = Inr ?h1"
    by (subst start_next_flow_ok) (simp_all add: h0 a demo_entry_def demo_flow_def)
  then have s: "flow_step demo_ops (0, h0) (2, ?h1)" by (intro flow_step.start [of 2 0]) (simp_all add: a)
  moreover have "flow_step demo_ops (2, ?h1) (7, ?h1\<lparr>th_apps := [(1, 2, demo_closed)]\<rparr>)"
    by (rule flow_step.apps) (use demo_finished in auto)
  ultimately have "(flow_step demo_ops)\<^sup>*\<^sup>* (0, h0) (7, ?h1\<lparr>th_apps := [(1, 2, demo_closed)]\<rparr>)"
    by (meson converse_rtranclp_into_rtranclp rtranclp.rtrancl_refl)
  then show thesis using that [OF r h0(1,2) s] by simp
qed

theorem tcp_flows_started_witness:
  "\<exists>h0 h :: nat tcp_scheduler. tcp_flow_scheduler demo_run_of_flows (\<lambda>v. v < 3) [0, 1, 2] = Inr h0 \<and>
     (flow_step demo_ops)\<^sup>*\<^sup>* (0, h0) (7, h) \<and> map (\<lambda>(node, st, _). (node, st)) (th_apps h) = [(1, 2)]"
proof -
  obtain h0 h1 h where h: "tcp_flow_scheduler demo_run_of_flows (\<lambda>v. v < 3) [0, 1, 2] = Inr h0" "th_enabled h0" "th_schedule h0 = [demo_entry]"
    "(flow_step demo_ops)\<^sup>*\<^sup>* (0, h0) (7, h)"
    by (rule demo_flow_run)
  have "map (\<lambda>(node, st, _). (node, st)) (th_apps h) = [(1, 2)]"
    using tcp_flows_started [OF h(1,2,4)] by (auto simp: h(3) demo_entry_def le_Suc_eq)
  then show ?thesis using h(1,4) by (intro exI [of _ h0] exI [of _ h] conjI)
qed

theorem tcp_results_complete_witness:
  "\<exists>h :: nat tcp_scheduler. flow_results demo_ops 7 h = Inr [(0, 1, 2, 5, 2, 7, 5, 5, YES, [])]"
proof -
  obtain h0 h1 h where h: "tcp_flow_scheduler demo_run_of_flows (\<lambda>v. v < 3) [0, 1, 2] = Inr h0" "th_enabled h0" "th_schedule h0 = [demo_entry]"
    "(flow_step demo_ops)\<^sup>*\<^sup>* (0, h0) (7, h)" "th_apps h = [(1, 2, demo_closed)]"
    by (rule demo_flow_run)
  have e: "bs_end_ns demo_run_of_flows = 7" by (simp add: demo_run_of_flows_def)
  have c: "finished_state_of demo_closed = YES" "ts_completion_time_ns demo_closed = 7" "can_report demo_closed"
    by (simp_all add: demo_closed_def finished_state_of_def can_report_def demo_flow_def tcp_send_app_init_def)
  have "\<exists>rows. flow_results demo_ops 7 h = Inr rows \<and> length rows = 1 \<and> rows ! 0 = (0, 1, 2, 5, 2, 7, 5, 5, YES, [])"
    using tcp_results_complete [OF h(1,2) _ demo_contract, unfolded e, OF h(4)] c
    by (auto simp: h(3,5) demo_entry_def)
  then show ?thesis by (auto simp: length_Suc_conv)
qed

section \<open>The sink\<close>

lemma sink_total:
  "0 \<le> tk_total_rx k \<Longrightarrow> tk_total_rx k < 2 ^ 64 \<Longrightarrow>
   tk_total_rx (tcp_sink_handle_read sizes k) = to_uint64 (tk_total_rx k + sum_list (takeWhile (\<lambda>n. n \<noteq> 0) sizes))"
proof -
  have "fold (\<lambda>n total. to_uint64 (total + n)) xs v = to_uint64 (v + sum_list xs)" if "to_uint64 v = v" for xs and v :: int
    using that
  proof (induction xs arbitrary: v)
    case (Cons x xs)
    have "to_uint64 (to_uint64 (v + x)) = to_uint64 (v + x)" by (simp add: to_uint64_def)
    from Cons.IH [OF this] show ?case by (simp add: to_uint64_def mod_simps algebra_simps)
  qed simp
  then show "0 \<le> tk_total_rx k \<Longrightarrow> tk_total_rx k < 2 ^ 64 \<Longrightarrow> ?thesis"
    by (simp add: tcp_sink_handle_read_def to_uint64_def)
qed

text \<open>The close of a peer may be reported twice: once normally, then as an error.\<close>

lemma clean_up_twice:
  "distinct (tk_socket_list k) \<Longrightarrow> handle_peer_error c (handle_peer_close c k) = handle_peer_close c k \<and>
   set (tk_socket_list (handle_peer_close c k)) = set (tk_socket_list k) - {c}"
  by (simp add: handle_peer_error_def handle_peer_close_def clean_up_def remove1_idem)

end
