(* ===== verification/Pingmesh.thy ===== *)
theory Pingmesh
  imports Udp_Burst "HOL-Library.Product_Lexorder"
begin

text \<open>
  basic-sim: the pingmesh, with the round-trip time client and server, udp-rtt-client.cc and
  udp-rtt-server.cc, and the scheduler that pairs the endpoints and writes the results,
  pingmesh-scheduler.cc. The theorems say when exactly the pings are sent, that what is recorded of
  a ping is what its last reply carried, that no handler fails, that every pair of endpoints is pinged
  with offsets spread over the interval, and what the rows and statistics are.

  The network between client and server may lose, delay, duplicate and reorder packets.
\<close>

section \<open>UdpRttServer\<close>

text \<open>The \<open>SeqTsHeader\<close> of ns-3: a 32-bit number and the time at which the header was created.\<close>

record seq_ts =
  st_seq :: int
  st_ts :: int

text \<open>\<open>'a\<close> are the socket addresses; \<open>rs_out\<close> the replies handed to the socket: target and header.\<close>

record 'a rtt_server =
  rs_socket :: bool
  rs_receiving :: bool
  rs_out :: "('a \<times> seq_ts) list"

definition rtt_server_init :: "'a rtt_server" where
  "rtt_server_init = \<lparr>rs_socket = False, rs_receiving = False, rs_out = []\<rparr>"

definition rtt_server_start :: "bool \<Rightarrow> bool \<Rightarrow> 'a rtt_server \<Rightarrow> 'a rtt_server res" where
  "rtt_server_start bind_ok multicast s =
     (if rs_socket s then Inr (s\<lparr>rs_receiving := True\<rparr>)
      else bindr (checkr bind_ok (Aborted ''Failed to bind socket'')) (\<lambda>_.
           bindr (checkr (\<not> multicast) (Runtime_error ''Multi-cast is not supported.'')) (\<lambda>_.
           Inr (s\<lparr>rs_socket := True, rs_receiving := True\<rparr>))))"

definition rtt_server_stop :: "'a rtt_server \<Rightarrow> 'a rtt_server" where
  "rtt_server_stop s = (if rs_socket s then s\<lparr>rs_receiving := False\<rparr> else s)"

text \<open>Every packet that waits is sent back with its number and the current time.\<close>

definition rtt_server_handle_read :: "int \<Rightarrow> ('a \<times> seq_ts) list \<Rightarrow> 'a rtt_server \<Rightarrow> 'a rtt_server" where
  "rtt_server_handle_read now packets s =
     s\<lparr>rs_out := rs_out s @ map (\<lambda>(from, h). (from, \<lparr>st_seq = st_seq h, st_ts = now\<rparr>)) packets\<rparr>"

section \<open>UdpRttClient\<close>

datatype address_kind = Ipv4_kind | Inet_socket_kind | Other_kind

text \<open>\<open>rc_out\<close> are the packets handed to the socket, \<open>rc_scheduled\<close> the pending \<open>Send\<close> events: number and time.\<close>

record rtt_client =
  rc_from_node_id :: int
  rc_to_node_id :: int
  rc_interval :: int
  rc_socket :: bool
  rc_receiving :: bool
  rc_send_event :: "nat option"
  rc_sent :: int
  rc_send_request_timestamps :: "int list"
  rc_reply_timestamps :: "int list"
  rc_receive_reply_timestamps :: "int list"
  rc_out :: "seq_ts list"
  rc_scheduled :: "(nat \<times> int) list"
  rc_next_uid :: nat

definition rtt_client_init :: "int \<Rightarrow> int \<Rightarrow> int \<Rightarrow> rtt_client" where
  "rtt_client_init from_node_id to_node_id interval =
     \<lparr>rc_from_node_id = to_uint32 from_node_id, rc_to_node_id = to_uint32 to_node_id, rc_interval = interval,
      rc_socket = False, rc_receiving = False, rc_send_event = None, rc_sent = 0, rc_send_request_timestamps = [],
      rc_reply_timestamps = [], rc_receive_reply_timestamps = [], rc_out = [], rc_scheduled = [], rc_next_uid = 0\<rparr>"

definition rtt_schedule_transmit :: "int \<Rightarrow> int \<Rightarrow> rtt_client \<Rightarrow> rtt_client res" where
  "rtt_schedule_transmit now dt c =
     bindr (checkr (0 \<le> dt) (Assert_failed ''Schedule with a negative delay'')) (\<lambda>_.
       Inr (c\<lparr>rc_scheduled := rc_scheduled c @ [(rc_next_uid c, now + dt)], rc_send_event := Some (rc_next_uid c),
              rc_next_uid := Suc (rc_next_uid c)\<rparr>))"

definition rtt_client_start :: "address_kind \<Rightarrow> bool \<Rightarrow> int \<Rightarrow> rtt_client \<Rightarrow> rtt_client res" where
  "rtt_client_start peer bind_ok now c =
     bindr (if rc_socket c then Inr ()
            else if peer = Other_kind then Inl (Assert_failed ''Incompatible address type'')
            else checkr bind_ok (Aborted ''Failed to bind socket'')) (\<lambda>_.
     rtt_schedule_transmit now 0 (c\<lparr>rc_socket := True, rc_receiving := True\<rparr>))"

text \<open>The simulator takes an event out before it runs it; \<open>rtt_cancel\<close> is also \<open>Simulator::Cancel\<close>.\<close>

definition rtt_cancel :: "nat option \<Rightarrow> rtt_client \<Rightarrow> rtt_client" where
  "rtt_cancel uid c = c\<lparr>rc_scheduled := filter (\<lambda>(u, _). Some u \<noteq> uid) (rc_scheduled c)\<rparr>"

definition rtt_client_stop :: "rtt_client \<Rightarrow> rtt_client" where
  "rtt_client_stop c =
     (let c1 = (if rc_socket c then c\<lparr>rc_socket := False, rc_receiving := False\<rparr> else c)
      in rtt_cancel (rc_send_event c1) c1)"

definition is_expired :: "rtt_client \<Rightarrow> bool" where
  "is_expired c \<longleftrightarrow> (\<forall>(u, _) \<in> set (rc_scheduled c). Some u \<noteq> rc_send_event c)"

definition rtt_send :: "int \<Rightarrow> rtt_client \<Rightarrow> rtt_client res" where
  "rtt_send now c =
     bindr (checkr (is_expired c) (Assert_failed ''m_sendEvent.IsExpired()'')) (\<lambda>_.
     let p = \<lparr>st_seq = rc_sent c, st_ts = now\<rparr>;
         c1 = c\<lparr>rc_send_request_timestamps := rc_send_request_timestamps c @ [now],
                rc_reply_timestamps := rc_reply_timestamps c @ [-1],
                rc_receive_reply_timestamps := rc_receive_reply_timestamps c @ [-1],
                rc_sent := to_uint32 (rc_sent c + 1)\<rparr>
     in bindr (checkr (rc_socket c1) (Undefined ''null pointer'')) (\<lambda>_.
        rtt_schedule_transmit now (rc_interval c1) (c1\<lparr>rc_out := rc_out c1 @ [p]\<rparr>)))"

text \<open>One reply; a number outside the vectors is undefined.\<close>

definition rtt_handle_packet :: "int \<Rightarrow> seq_ts \<Rightarrow> rtt_client \<Rightarrow> rtt_client res" where
  "rtt_handle_packet now h c =
     (let seq_no = nat (st_seq h) in
      bindr (checkr (seq_no < length (rc_reply_timestamps c)) (Undefined ''vector index'')) (\<lambda>_.
      let c1 = c\<lparr>rc_reply_timestamps := (rc_reply_timestamps c)[seq_no := st_ts h]\<rparr> in
      bindr (checkr (seq_no < length (rc_receive_reply_timestamps c1)) (Undefined ''vector index'')) (\<lambda>_.
      Inr (c1\<lparr>rc_receive_reply_timestamps := (rc_receive_reply_timestamps c1)[seq_no := now]\<rparr>))))"

definition rtt_handle_read :: "int \<Rightarrow> seq_ts list \<Rightarrow> rtt_client \<Rightarrow> rtt_client res" where
  "rtt_handle_read now packets c = foldr_res (rtt_handle_packet now) packets c"

section \<open>PingmeshScheduler\<close>

text \<open>
  The clients that are installed are kept with the time their application starts and the address they
  send to. Of the simulation the scheduler reads what the record \<open>burst_simulation\<close> holds.
\<close>

record 'a pingmesh =
  pg_enabled :: bool
  pg_interval_ns :: int
  pg_pairs :: "(int \<times> int) list"
  pg_file_names :: "string list"
  pg_fs :: fsys
  pg_servers :: "int list"
  pg_clients :: "(int \<times> 'a \<times> rtt_client) list"

definition all_pairs :: "(int \<times> int list) option \<Rightarrow> int list \<Rightarrow> (int \<times> int) list" where
  "all_pairs sys endpoints =
     concat (map (\<lambda>i. map (\<lambda>j. (i, j)) (filter (\<lambda>j. i \<noteq> j) endpoints)) (filter (on_this_system sys) endpoints))"

definition read_pair :: "(int \<times> int list) option \<Rightarrow> (int \<Rightarrow> bool) \<Rightarrow> string \<Rightarrow> (int \<times> int) list \<Rightarrow> (int \<times> int) list res" where
  "read_pair sys valid s pairs =
     bindr (split_string_n s ''->'' 2) (\<lambda>spl.
     bindr (parse_positive_int64 (spl ! 0)) (\<lambda>a.
     bindr (parse_positive_int64 (spl ! 1)) (\<lambda>b.
     bindr (checkr (a \<noteq> b) (Invalid_argument (''Cannot have pingmesh pair to itself on node '' @ show_int a))) (\<lambda>_.
     bindr (checkr (valid a) (Invalid_argument
       (''Left node identifier in pingmesh pair is not a valid endpoint: '' @ show_int a))) (\<lambda>_.
     bindr (checkr (valid b) (Invalid_argument
       (''Right node identifier in pingmesh pair is not a valid endpoint: '' @ show_int b))) (\<lambda>_.
     Inr (if on_this_system sys a then pairs @ [(a, b)] else pairs)))))))"

definition determine_pairs ::
  "(int \<times> int list) option \<Rightarrow> (int \<Rightarrow> bool) \<Rightarrow> int list \<Rightarrow> string \<Rightarrow> (int \<times> int) list res" where
  "determine_pairs sys valid endpoints str =
     bindr (if str = ''all'' then Inr (all_pairs sys endpoints)
            else bindr (parse_set_string str) (\<lambda>string_set. foldr_res (read_pair sys valid) string_set [])) (\<lambda>pairs.
     Inr (sort pairs))"

text \<open>\<open>int64_t\<close> divided by \<open>size_t\<close> is a division of unsigned 64-bit numbers.\<close>

definition in_between_ns :: "int \<Rightarrow> int list \<Rightarrow> int res" where
  "in_between_ns interval endpoints =
     (let d = to_uint64 (int (length endpoints) - 1) in
      bindr (checkr (d \<noteq> 0) (Undefined ''division by zero'')) (\<lambda>_.
      Inr (to_int64 (to_uint64 interval div d))))"

type_synonym 'a client_loop = "(int \<times> 'a \<times> rtt_client) list \<times> int \<times> int"

definition install_client ::
  "int \<Rightarrow> int \<Rightarrow> (int \<Rightarrow> 'a) \<Rightarrow> int \<times> int \<Rightarrow> 'a client_loop \<Rightarrow> 'a client_loop res" where
  "install_client interval between address_of p st = (case st of (apps, prev_i, counter) \<Rightarrow>
     let (prev_i, counter) = (if fst p \<noteq> prev_i then (fst p, 0) else (prev_i, counter)) in
     bindr (checkr (in_int64 (counter * between)) (Undefined ''signed overflow'')) (\<lambda>_.
     bindr (checkr (in_int32 (counter + 1)) (Undefined ''signed overflow'')) (\<lambda>_.
     Inr (apps @ [(counter * between, address_of (snd p), rtt_client_init (fst p) (snd p) interval)], prev_i, counter + 1))))"

definition pingmesh_file_names :: "burst_simulation \<Rightarrow> string list" where
  "pingmesh_file_names sim = (let p = bs_logs_dir sim @ ''/'' @
      (case bs_system sim of None \<Rightarrow> '''' | Some (system_id, _) \<Rightarrow> ''system_'' @ show_int system_id @ ''_'')
     in [p @ ''pingmesh.csv'', p @ ''pingmesh.txt''])"

definition pingmesh_scheduler ::
  "burst_simulation \<Rightarrow> (int \<Rightarrow> bool) \<Rightarrow> int list \<Rightarrow> (int \<Rightarrow> 'a) \<Rightarrow> 'a pingmesh res" where
  "pingmesh_scheduler sim valid endpoints address_of =
     bindr (parse_boolean (get_param_or_default ''enable_pingmesh_scheduler'' ''false'' (bs_config sim))) (\<lambda>enabled.
     if \<not> enabled
     then Inr \<lparr>pg_enabled = False, pg_interval_ns = 0, pg_pairs = [], pg_file_names = [], pg_fs = bs_fs sim,
               pg_servers = [], pg_clients = []\<rparr>
     else
     bindr (get_param_or_fail ''pingmesh_interval_ns'' (bs_config sim)) (\<lambda>interval_str.
     bindr (parse_positive_int64 interval_str) (\<lambda>interval.
     bindr (determine_pairs (bs_system sim) valid endpoints
       (get_param_or_default ''pingmesh_endpoint_pairs'' ''all'' (bs_config sim))) (\<lambda>pairs.
     bindr (foldr_res remove_file_if_exists (pingmesh_file_names sim) (bs_fs sim)) (\<lambda>fs.
     bindr (in_between_ns interval endpoints) (\<lambda>between.
     bindr (foldr_res (install_client interval between address_of) pairs ([], -1, 0)) (\<lambda>(clients, _, _).
     Inr \<lparr>pg_enabled = True, pg_interval_ns = interval, pg_pairs = pairs, pg_file_names = pingmesh_file_names sim,
          pg_fs = fs, pg_servers = filter (on_this_system (bs_system sim)) endpoints, pg_clients = clients\<rparr>)))))))"

section \<open>The results\<close>

text \<open>
  A row of pingmesh.csv: the pair, the number of the ping, when it was sent, replied to and the reply
  received, the latencies there and back, the round-trip time and whether a reply arrived.
\<close>

type_synonym ping_result = "int \<times> int \<times> int \<times> int \<times> int \<times> int \<times> int \<times> int \<times> int \<times> bool"

definition ping_row :: "rtt_client \<Rightarrow> int \<Rightarrow> ping_result res" where
  "ping_row c j =
     (let k = nat j in
      bindr (checkr (k < length (rc_reply_timestamps c)) (Undefined ''vector index'')) (\<lambda>_.
      let sent = rc_send_request_timestamps c ! k; reply = rc_reply_timestamps c ! k;
          received = rc_receive_reply_timestamps c ! k; reply_arrived = (reply \<noteq> -1);
          there = (if reply_arrived then reply - sent else -1);
          back = (if reply_arrived then received - reply else -1)
      in Inr (rc_from_node_id c, rc_to_node_id c, j, sent, reply, received, there, back,
          (if reply_arrived then there + back else -1), reply_arrived)))"

definition ping_rows :: "rtt_client \<Rightarrow> ping_result list res" where
  "ping_rows c = mapr (ping_row c) (map int [0..<nat (rc_sent c)])"

record ping_stats =
  ps_total :: int
  ps_mean_there :: double
  ps_mean_back :: double
  ps_min_rtt :: int
  ps_mean_rtt :: double
  ps_max_rtt :: int
  ps_std_rtt :: double

text \<open>The number of replies is an \<open>int\<close> of 32 bits.\<close>

definition ping_sums :: "ping_result list \<Rightarrow> (int \<times> double \<times> double \<times> int list) res" where
  "ping_sums rows = foldr_res (\<lambda>(_, _, _, _, _, _, there, back, rtt, reply_arrived) (total, sum_there, sum_back, rtts).
     if reply_arrived
     then bindr (checkr (in_int32 (total + 1)) (Undefined ''signed overflow'')) (\<lambda>_.
       Inr (total + 1, d_add sum_there (d_of_int there), d_add sum_back (d_of_int back), rtts @ [rtt]))
     else Inr (total, sum_there, sum_back, rtts)) rows (0, Fin 0, Fin 0, [])"

text \<open>\<open>std::pow (x, 2)\<close> is the product, as the compiler expands it.\<close>

definition rtt_spread :: "double \<Rightarrow> int list \<Rightarrow> int \<times> int \<times> double" where
  "rtt_spread mean rtts = foldl (\<lambda>(mn, mx, sum_sq) rtt.
     (min mn rtt, max mx rtt, let d = d_sub (d_of_int rtt) mean in d_add sum_sq (d_mul d d)))
     (10000000000000, -1, Fin 0) rtts"

definition ping_statistics :: "ping_result list \<Rightarrow> ping_stats res" where
  "ping_statistics rows = bindr (ping_sums rows) (\<lambda>(total, sum_there, sum_back, rtts).
      let mean = d_div (d_add sum_there sum_back) (d_of_int total);
          (mn, mx, sum_sq) = rtt_spread mean rtts
      in Inr (if rtts = []
         then \<lparr>ps_total = total, ps_mean_there = Fin (-1), ps_mean_back = Fin (-1), ps_min_rtt = -1,
               ps_mean_rtt = Fin (-1), ps_max_rtt = -1, ps_std_rtt = Fin (-1)\<rparr>
         else \<lparr>ps_total = total, ps_mean_there = d_div sum_there (d_of_int total),
               ps_mean_back = d_div sum_back (d_of_int total), ps_min_rtt = mn, ps_mean_rtt = mean, ps_max_rtt = mx,
               ps_std_rtt = (if length rtts > 1
                 then d_sqrt (d_mul (d_div (Fin 1) (d_of_int (int (length rtts) - 1))) sum_sq) else Fin 0)\<rparr>))"

text \<open>The share of replies in percent; the conversion of NaN, when nothing was sent, is undefined.\<close>

definition reply_percentage :: "int \<Rightarrow> int \<Rightarrow> int res" where
  "reply_percentage arrived sent =
     d_trunc (d_round (d_mul (d_div (d_of_int arrived) (d_of_int sent)) (Fin 100))) (- (2 ^ 31)) (2 ^ 31 - 1)"

definition pingmesh_results :: "'a pingmesh \<Rightarrow> (ping_result list \<times> ping_stats \<times> int) list res" where
  "pingmesh_results pg =
     (if \<not> pg_enabled pg then Inr []
      else mapr (\<lambda>(_, _, c).
        bindr (ping_rows c) (\<lambda>rows.
        bindr (ping_statistics rows) (\<lambda>st.
        bindr (reply_percentage (ps_total st) (rc_sent c)) (\<lambda>percentage.
        Inr (rows, st, percentage))))) (pg_clients pg))"

section \<open>A client and the server of its peer\<close>

text \<open>
  The state is the time, the client with address \<open>me\<close>, the server and the replies that reached the client,
  with the time. The simulator runs the pending event; while it is not overdue, the server reads packets,
  of which those from \<open>me\<close> are packets of the client, and the client reads replies of the server to \<open>me\<close>.
  That packets are taken from what was ever sent, any number of times, models loss, delay,
  duplication and reordering.
\<close>

type_synonym 'a rtt_run = "int \<times> rtt_client \<times> 'a rtt_server \<times> (seq_ts \<times> int) list"

inductive rtt_step :: "'a \<Rightarrow> 'a rtt_run \<Rightarrow> 'a rtt_run \<Rightarrow> bool" for me where
  ping: "(uid, t) \<in> set (rc_scheduled c) \<Longrightarrow> \<forall>(_, t') \<in> set (rc_scheduled c). t \<le> t' \<Longrightarrow>
    rtt_send t (rtt_cancel (Some uid) c) = Inr c' \<Longrightarrow> rtt_step me (now, c, s, ds) (t, c', s, ds)"
| serve: "now \<le> t \<Longrightarrow> \<forall>(_, t') \<in> set (rc_scheduled c). t \<le> t' \<Longrightarrow> rs_receiving s \<Longrightarrow>
    \<forall>(from, h) \<in> set packets. from = me \<longrightarrow> h \<in> set (rc_out c) \<Longrightarrow>
    rtt_step me (now, c, s, ds) (t, c, rtt_server_handle_read t packets s, ds)"
| reply: "now \<le> t \<Longrightarrow> \<forall>(_, t') \<in> set (rc_scheduled c). t \<le> t' \<Longrightarrow> rc_receiving c \<Longrightarrow>
    \<forall>h \<in> set packets. (me, h) \<in> set (rs_out s) \<Longrightarrow> rtt_handle_read t packets c = Inr c' \<Longrightarrow>
    rtt_step me (now, c, s, ds) (t, c', s, ds @ map (\<lambda>h. (h, t)) packets)"

text \<open>What is known of ping \<open>j\<close>: the time its last reply carries and when that arrived.\<close>

definition ping_outcome :: "(seq_ts \<times> int) list \<Rightarrow> nat \<Rightarrow> int \<times> int" where
  "ping_outcome ds j = (case find (\<lambda>(h, _). st_seq h = int j) (rev ds) of
     None \<Rightarrow> (-1, -1) | Some (h, t) \<Rightarrow> (st_ts h, t))"

lemma ping_outcome_snoc:
  "ping_outcome (ds @ [(h, t)]) j = (if st_seq h = int j then (st_ts h, t) else ping_outcome ds j)"
  by (simp add: ping_outcome_def)

lemma ping_outcome_cases:
  obtains "ping_outcome ds j = (-1, -1)" "\<forall>(h, t) \<in> set ds. st_seq h \<noteq> int j"
  | h t where "(h, t) \<in> set ds" "st_seq h = int j" "ping_outcome ds j = (st_ts h, t)"
proof (cases "find (\<lambda>(h, _). st_seq h = int j) (rev ds)")
  case None
  then have "\<forall>(h, t) \<in> set ds. st_seq h \<noteq> int j" by (auto simp: find_None_iff)
  then show thesis using None by (intro that(1)) (simp_all add: ping_outcome_def)
next
  case (Some p)
  then have "p \<in> set (rev ds)" "st_seq (fst p) = int j" by (auto simp: find_Some_iff simp del: set_rev intro: nth_mem)
  then show thesis using Some by (intro that(2) [of "fst p" "snd p"]) (auto simp: ping_outcome_def split: prod.splits)
qed

section \<open>The invariant of a run\<close>

definition pings :: "rtt_client \<Rightarrow> nat" where
  "pings c = length (rc_send_request_timestamps c)"

definition ping_due :: "int \<Rightarrow> rtt_client \<Rightarrow> nat \<Rightarrow> int" where
  "ping_due t0 c k = t0 + int k * rc_interval c"

definition sends_ok :: "int \<Rightarrow> int \<Rightarrow> rtt_client \<Rightarrow> bool" where
  "sends_ok t0 now c \<longleftrightarrow> 0 \<le> rc_interval c \<and> rc_socket c \<and> 0 \<le> t0 \<and> t0 \<le> now \<and>
     rc_send_request_timestamps c = map (ping_due t0 c) [0..<pings c] \<and>
     rc_out c = map (\<lambda>k. \<lparr>st_seq = to_uint32 (int k), st_ts = ping_due t0 c k\<rparr>) [0..<pings c] \<and>
     rc_sent c = to_uint32 (int (pings c)) \<and>
     (\<exists>u. rc_scheduled c = [(u, ping_due t0 c (pings c))] \<and> rc_send_event c = Some u) \<and>
     now \<le> ping_due t0 c (pings c) \<and> (\<forall>k < pings c. ping_due t0 c k \<le> now)"

definition replies_ok :: "'a \<Rightarrow> int \<Rightarrow> int \<Rightarrow> rtt_client \<Rightarrow> 'a rtt_server \<Rightarrow> (seq_ts \<times> int) list \<Rightarrow> bool" where
  "replies_ok me t0 now c s ds \<longleftrightarrow>
     (\<forall>(from, h) \<in> set (rs_out s). from = me \<longrightarrow>
        (\<exists>k < pings c. st_seq h = to_uint32 (int k) \<and> ping_due t0 c k \<le> st_ts h \<and> st_ts h \<le> now)) \<and>
     (\<forall>(h, t) \<in> set ds. (me, h) \<in> set (rs_out s) \<and> st_ts h \<le> t \<and> t \<le> now)"

definition records_ok :: "rtt_client \<Rightarrow> (seq_ts \<times> int) list \<Rightarrow> bool" where
  "records_ok c ds \<longleftrightarrow> rc_reply_timestamps c = map (\<lambda>j. fst (ping_outcome ds j)) [0..<pings c] \<and>
     rc_receive_reply_timestamps c = map (\<lambda>j. snd (ping_outcome ds j)) [0..<pings c]"

definition rtt_inv :: "'a \<Rightarrow> int \<Rightarrow> 'a rtt_run \<Rightarrow> bool" where
  "rtt_inv me t0 r \<longleftrightarrow> (case r of (now, c, s, ds) \<Rightarrow>
     sends_ok t0 now c \<and> replies_ok me t0 now c s ds \<and> records_ok c ds)"

definition after_ping :: "int \<Rightarrow> rtt_client \<Rightarrow> rtt_client" where
  "after_ping t c = c\<lparr>rc_send_request_timestamps := rc_send_request_timestamps c @ [t],
     rc_reply_timestamps := rc_reply_timestamps c @ [-1],
     rc_receive_reply_timestamps := rc_receive_reply_timestamps c @ [-1], rc_sent := to_uint32 (rc_sent c + 1),
     rc_out := rc_out c @ [\<lparr>st_seq = rc_sent c, st_ts = t\<rparr>],
     rc_scheduled := [(rc_next_uid c, t + rc_interval c)], rc_send_event := Some (rc_next_uid c),
     rc_next_uid := Suc (rc_next_uid c)\<rparr>"

lemma after_ping_fields [simp]:
  "rc_interval (after_ping t c) = rc_interval c" "rc_socket (after_ping t c) = rc_socket c"
  "rc_receiving (after_ping t c) = rc_receiving c" "pings (after_ping t c) = Suc (pings c)"
  "ping_due t0 (after_ping t c) = ping_due t0 c" "rc_out (after_ping t c) = rc_out c @ [\<lparr>st_seq = rc_sent c, st_ts = t\<rparr>]"
  "rc_reply_timestamps (after_ping t c) = rc_reply_timestamps c @ [-1]"
  "rc_receive_reply_timestamps (after_ping t c) = rc_receive_reply_timestamps c @ [-1]"
  "rc_send_request_timestamps (after_ping t c) = rc_send_request_timestamps c @ [t]"
  "rc_sent (after_ping t c) = to_uint32 (rc_sent c + 1)"
  "rc_scheduled (after_ping t c) = [(rc_next_uid c, t + rc_interval c)]"
  "rc_send_event (after_ping t c) = Some (rc_next_uid c)"
  by (simp_all add: after_ping_def pings_def ping_due_def fun_eq_iff)

lemma rtt_send_ok:
  assumes "rc_scheduled c = [(u, t)]" "rc_socket c" "0 \<le> rc_interval c"
  shows "rtt_send t (rtt_cancel (Some u) c) = Inr (after_ping t c)"
  using assms by (simp add: rtt_send_def rtt_cancel_def is_expired_def rtt_schedule_transmit_def Let_def after_ping_def)

lemma to_uint32_le: "to_uint32 (int k) \<le> int k" "0 \<le> to_uint32 v"
  by (simp_all add: to_uint32_def zmod_le_nonneg_dividend)

lemma to_uint32_Suc: "to_uint32 (to_uint32 v + 1) = to_uint32 (1 + v)" "to_uint32 (1 + to_uint32 v) = to_uint32 (1 + v)"
  by (simp_all add: to_uint32_def mod_add_left_eq mod_add_right_eq add.commute)

lemma ping_due_mono: "0 \<le> rc_interval c \<Longrightarrow> j \<le> k \<Longrightarrow> ping_due t0 c j \<le> ping_due t0 c k"
  by (simp add: ping_due_def mult_right_mono)

lemma ping_due_Suc: "ping_due t0 c (Suc k) = ping_due t0 c k + rc_interval c"
  by (simp add: ping_due_def algebra_simps)

lemma sends_ok_ping:
  assumes "sends_ok t0 now c"
  shows "sends_ok t0 (ping_due t0 c (pings c)) (after_ping (ping_due t0 c (pings c)) c)"
  using assms ping_due_mono [of c _ "pings c"] by (auto simp: sends_ok_def to_uint32_Suc ping_due_Suc less_Suc_eq_le)

lemma reply_unseen:
  assumes "replies_ok me t0 now c s ds"
  shows "ping_outcome ds (pings c) = (-1, -1)"
proof (cases rule: ping_outcome_cases [of ds "pings c"])
  case (2 h t)
  then obtain k where "k < pings c" "st_seq h = to_uint32 (int k)" using assms by (fastforce simp: replies_ok_def)
  then show ?thesis using 2(2) to_uint32_le(1) [of k] by simp
qed

lemma rtt_inv_ping:
  assumes "rtt_inv me t0 (now, c, s, ds)" "(u, t) \<in> set (rc_scheduled c)"
  shows "rtt_send t (rtt_cancel (Some u) c) = Inr (after_ping t c)" "rtt_inv me t0 (t, after_ping t c, s, ds)"
proof -
  have i: "sends_ok t0 now c" "replies_ok me t0 now c s ds" "records_ok c ds" using assms(1) by (auto simp: rtt_inv_def)
  then have t: "t = ping_due t0 c (pings c)" "now \<le> t" "rc_scheduled c = [(u, t)]"
    and c: "rc_socket c" "0 \<le> rc_interval c" using assms(2) by (auto simp: sends_ok_def)
  show "rtt_send t (rtt_cancel (Some u) c) = Inr (after_ping t c)" using t(3) c by (rule rtt_send_ok)
  have "replies_ok me t0 t (after_ping t c) s ds"
    using i(2) t(2) by (fastforce simp: replies_ok_def less_Suc_eq)
  moreover have "records_ok (after_ping t c) ds" using i(3) reply_unseen [OF i(2)] by (simp add: records_ok_def)
  ultimately show "rtt_inv me t0 (t, after_ping t c, s, ds)" using sends_ok_ping [OF i(1)] t(1) by (simp add: rtt_inv_def)
qed

lemma sends_ok_later:
  "sends_ok t0 now c \<Longrightarrow> now \<le> t \<Longrightarrow> \<forall>(_, t') \<in> set (rc_scheduled c). t \<le> t' \<Longrightarrow> sends_ok t0 t c"
  by (fastforce simp: sends_ok_def)

lemma rtt_inv_serve:
  assumes "rtt_inv me t0 (now, c, s, ds)" "now \<le> t" "\<forall>(_, t') \<in> set (rc_scheduled c). t \<le> t'"
    "\<forall>(from, h) \<in> set packets. from = me \<longrightarrow> h \<in> set (rc_out c)"
  shows "rtt_inv me t0 (t, c, rtt_server_handle_read t packets s, ds)"
proof -
  have i: "sends_ok t0 now c" "replies_ok me t0 now c s ds" "records_ok c ds" using assms(1) by (auto simp: rtt_inv_def)
  have "\<exists>k < pings c. st_seq h = to_uint32 (int k) \<and> ping_due t0 c k \<le> t" if "(me, h) \<in> set packets" for h
    using assms(2,4) that i(1) by (fastforce simp: sends_ok_def)
  then have "replies_ok me t0 t c (rtt_server_handle_read t packets s) ds"
    using i(2) assms(2) by (fastforce simp: replies_ok_def rtt_server_handle_read_def)
  then show ?thesis using sends_ok_later [OF i(1) assms(2,3)] i(3) by (simp add: rtt_inv_def)
qed


lemma rtt_handle_read_ok:
  assumes "records_ok c ds" "\<forall>h \<in> set packets. 0 \<le> st_seq h \<and> st_seq h < int (pings c)"
  shows "\<exists>c'. rtt_handle_read t packets c = Inr c' \<and> records_ok c' (ds @ map (\<lambda>h. (h, t)) packets) \<and>
    pings c' = pings c \<and> (\<forall>t0 now. ping_due t0 c' = ping_due t0 c \<and> sends_ok t0 now c' = sends_ok t0 now c)"
  using assms
proof (induction packets arbitrary: c ds)
  case (Cons h packets)
  let ?k = "nat (st_seq h)"
  let ?c = "c\<lparr>rc_reply_timestamps := (rc_reply_timestamps c)[?k := st_ts h],
              rc_receive_reply_timestamps := (rc_receive_reply_timestamps c)[?k := t]\<rparr>"
  have k: "?k < pings c" "\<And>j. st_seq h = int j \<longleftrightarrow> j = ?k" using Cons.prems(2) by auto
  have len: "length (rc_reply_timestamps c) = pings c" "length (rc_receive_reply_timestamps c) = pings c"
    using Cons.prems(1) by (simp_all add: records_ok_def)
  have step: "rtt_handle_packet t h c = Inr ?c" using k(1) len by (simp add: rtt_handle_packet_def Let_def)
  have due: "pings ?c = pings c" "ping_due t0 ?c = ping_due t0 c" for t0
    by (simp_all add: pings_def ping_due_def fun_eq_iff)
  then have same: "pings ?c = pings c" "ping_due t0 ?c = ping_due t0 c" "sends_ok t0 now ?c = sends_ok t0 now c" for t0 now
    by (simp_all only: sends_ok_def due) simp_all
  have "records_ok ?c (ds @ [(h, t)])"
    using Cons.prems(1) k len unfolding records_ok_def same
    by (auto intro!: nth_equalityI simp: ping_outcome_snoc nth_list_update)
  from Cons.IH [OF this] Cons.prems(2) obtain c' where
    "rtt_handle_read t packets ?c = Inr c'" "records_ok c' ((ds @ [(h, t)]) @ map (\<lambda>h. (h, t)) packets)" "pings c' = pings ?c"
    "\<And>t0 now. ping_due t0 c' = ping_due t0 ?c \<and> sends_ok t0 now c' = sends_ok t0 now ?c"
    unfolding same by auto
  then show ?case by (intro exI [of _ c']) (simp add: rtt_handle_read_def step same)
qed (simp add: rtt_handle_read_def)

lemma replies_ok_later:
  assumes "replies_ok me t0 now c s ds" "now \<le> t" "pings c' = pings c" "ping_due t0 c' = ping_due t0 c"
  shows "replies_ok me t0 t c' s ds"
  using assms by (fastforce simp: replies_ok_def)

lemma replies_ok_append:
  assumes "replies_ok me t0 t c s ds" "\<forall>h \<in> set packets. (me, h) \<in> set (rs_out s) \<and> st_ts h \<le> t"
  shows "replies_ok me t0 t c s (ds @ map (\<lambda>h. (h, t)) packets)"
  using assms by (simp add: replies_ok_def ball_Un)

lemma rtt_inv_reply:
  assumes "rtt_inv me t0 (now, c, s, ds)" "now \<le> t" "\<forall>(_, t') \<in> set (rc_scheduled c). t \<le> t'"
    "\<forall>h \<in> set packets. (me, h) \<in> set (rs_out s)"
  shows "\<exists>c'. rtt_handle_read t packets c = Inr c' \<and> rtt_inv me t0 (t, c', s, ds @ map (\<lambda>h. (h, t)) packets)"
proof -
  have i: "sends_ok t0 now c" "replies_ok me t0 now c s ds" "records_ok c ds" using assms(1) by (auto simp: rtt_inv_def)
  have "0 \<le> st_seq h \<and> st_seq h < int (pings c) \<and> st_ts h \<le> t" if "h \<in> set packets" for h
  proof -
    have "(me, h) \<in> set (rs_out s)" using assms(4) that by blast
    then obtain k where "k < pings c" "st_seq h = to_uint32 (int k)" "st_ts h \<le> now"
      using i(2) by (fastforce simp: replies_ok_def)
    then show ?thesis using to_uint32_le(1) [of k] to_uint32_le(2) [of "int k"] assms(2) by linarith
  qed
  note h = this
  then obtain c' where c': "rtt_handle_read t packets c = Inr c'" "records_ok c' (ds @ map (\<lambda>h. (h, t)) packets)"
    "pings c' = pings c" "\<And>t0 now. ping_due t0 c' = ping_due t0 c \<and> sends_ok t0 now c' = sends_ok t0 now c"
    using rtt_handle_read_ok [OF i(3), of packets t] by blast
  have due: "ping_due t0 c' = ping_due t0 c" and sends: "sends_ok t0 t c' = sends_ok t0 t c" using c'(4) by blast+
  have "replies_ok me t0 t c' s ds" by (rule replies_ok_later [OF i(2) assms(2) c'(3) due])
  then have "replies_ok me t0 t c' s (ds @ map (\<lambda>h. (h, t)) packets)"
    by (rule replies_ok_append) (use assms(4) h in blast)
  moreover have "sends_ok t0 t c'" unfolding sends by (rule sends_ok_later [OF i(1) assms(2,3)])
  ultimately have "rtt_inv me t0 (t, c', s, ds @ map (\<lambda>h. (h, t)) packets)" using c'(2) by (simp add: rtt_inv_def)
  then show ?thesis using c'(1) by blast
qed

lemma rtt_inv_step: "rtt_step me r r' \<Longrightarrow> rtt_inv me t0 r \<Longrightarrow> rtt_inv me t0 r'"
proof (induction rule: rtt_step.induct)
  case (ping uid t c c' now s ds)
  then show ?case using rtt_inv_ping [of me t0 now c s ds uid t] by simp
next
  case (serve now t c s packets ds)
  show ?case by (rule rtt_inv_serve [OF serve.prems serve.hyps(1,2,4)])
next
  case (reply now t c packets s c' ds)
  then show ?case using rtt_inv_reply [of me t0 now c s ds t packets] by auto
qed

lemma rtt_inv_reachable: "(rtt_step me)\<^sup>*\<^sup>* r r' \<Longrightarrow> rtt_inv me t0 r \<Longrightarrow> rtt_inv me t0 r'"
  by (induction rule: rtranclp_induct) (auto intro: rtt_inv_step)

text \<open>A client as the scheduler installs it, when its application starts, with a server that has sent nothing.\<close>

definition rtt_initial :: "int \<Rightarrow> int \<Rightarrow> int \<Rightarrow> int \<Rightarrow> bool \<Rightarrow> 'a rtt_run \<Rightarrow> bool" where
  "rtt_initial from_id to_id interval t0 bind_ok r \<longleftrightarrow> (case r of (now, c, s, ds) \<Rightarrow> now = t0 \<and> rs_out s = [] \<and> ds = [] \<and>
     rtt_client_start Ipv4_kind bind_ok t0 (rtt_client_init from_id to_id interval) = Inr c)"

lemma rtt_inv_initial:
  assumes "rtt_initial from_id to_id interval t0 bind_ok r" "0 \<le> interval" "0 \<le> t0"
  shows "rtt_inv me t0 r"
  using assms
  by (auto simp: rtt_initial_def rtt_inv_def rtt_client_start_def rtt_client_init_def rtt_schedule_transmit_def checkr_def
      sends_ok_def replies_ok_def records_ok_def pings_def ping_due_def to_uint32_def split: if_splits)

lemma replies_ok_out:
  assumes "replies_ok me t0 now c s ds" "(me, h) \<in> set (rs_out s)"
  obtains k where "k < pings c" "st_seq h = to_uint32 (int k)" "ping_due t0 c k \<le> st_ts h" "st_ts h \<le> now"
proof -
  have "\<exists>k < pings c. st_seq h = to_uint32 (int k) \<and> ping_due t0 c k \<le> st_ts h \<and> st_ts h \<le> now"
    using bspec [OF conjunct1 [OF assms(1) [unfolded replies_ok_def]] assms(2)] by simp
  then show thesis using that by blast
qed

lemma replies_ok_in:
  assumes "replies_ok me t0 now c s ds" "(h, t) \<in> set ds"
  obtains k where "k < pings c" "st_seq h = to_uint32 (int k)" "ping_due t0 c k \<le> st_ts h" "st_ts h \<le> t" "t \<le> now"
proof -
  have "(me, h) \<in> set (rs_out s) \<and> st_ts h \<le> t \<and> t \<le> now"
    using bspec [OF conjunct2 [OF assms(1) [unfolded replies_ok_def]] assms(2)] by simp
  then show thesis using replies_ok_out [OF assms(1), of h] that by blast
qed

lemma replies_ok_number:
  assumes "replies_ok me t0 now c s ds" "(me, h) \<in> set (rs_out s)"
  shows "0 \<le> st_seq h" "st_seq h < int (pings c)"
proof -
  obtain k where "k < pings c" "st_seq h = to_uint32 (int k)" using assms by (rule replies_ok_out)
  then show "0 \<le> st_seq h" "st_seq h < int (pings c)"
    using to_uint32_le(1) [of k] to_uint32_le(2) [of "int k"] by linarith+
qed

definition rtt_pair :: "rtt_client \<Rightarrow> int \<times> int \<times> int" where
  "rtt_pair c = (rc_from_node_id c, rc_to_node_id c, rc_interval c)"

lemma rtt_handle_packet_pair: "rtt_handle_packet t h c = Inr c' \<Longrightarrow> rtt_pair c' = rtt_pair c"
  by (auto simp: rtt_handle_packet_def rtt_pair_def Let_def bindr_eq_Inr)

lemma rtt_step_pair: "rtt_step me r r' \<Longrightarrow> rtt_pair (fst (snd r)) = p \<Longrightarrow> rtt_pair (fst (snd r')) = p"
proof (induction rule: rtt_step.induct)
  case (ping uid t c c' now s ds)
  then show ?case
    by (auto simp: rtt_send_def rtt_cancel_def rtt_schedule_transmit_def rtt_pair_def Let_def bindr_eq_Inr)
next
  case (reply now t c packets s c' ds)
  have "rtt_pair c' = p"
    by (rule foldr_res_inv [of "rtt_handle_packet t" packets c c' "\<lambda>c. rtt_pair c = p"])
       (use reply in \<open>auto simp: rtt_handle_read_def rtt_handle_packet_pair\<close>)
  then show ?case by simp
qed simp

lemma rtt_reachable:
  assumes "rtt_initial from_id to_id interval t0 bind_ok r" "0 \<le> interval" "0 \<le> t0" "(rtt_step me)\<^sup>*\<^sup>* r (now, c, s, ds)"
  shows "sends_ok t0 now c" "replies_ok me t0 now c s ds" "records_ok c ds"
    "rtt_pair c = (to_uint32 from_id, to_uint32 to_id, interval)"
proof -
  have "rtt_inv me t0 (now, c, s, ds)" using rtt_inv_reachable [OF assms(4)] rtt_inv_initial [OF assms(1-3)] by blast
  then show "sends_ok t0 now c" "replies_ok me t0 now c s ds" "records_ok c ds" by (simp_all add: rtt_inv_def)
  have "rtt_pair (fst (snd r)) = (to_uint32 from_id, to_uint32 to_id, interval)"
    using assms(1) by (auto simp: rtt_initial_def rtt_client_start_def rtt_client_init_def rtt_schedule_transmit_def
      rtt_pair_def checkr_def split: if_splits)
  with assms(4) have "rtt_pair (fst (snd (now, c, s, ds))) = (to_uint32 from_id, to_uint32 to_id, interval)"
    by (induction rule: rtranclp_induct) (auto intro: rtt_step_pair)
  then show "rtt_pair c = (to_uint32 from_id, to_uint32 to_id, interval)" by simp
qed

text \<open>
  C27. A client that is started at time t0 sends ping number k exactly at t0 + k * interval: at any
  time every ping that was due before has been sent and none that is due later, in order, each with its
  number modulo 2^32 and its time in the header. With an interval of 0 the time never passes t0.
\<close>

theorem pingmesh_sends_on_time:
  assumes "rtt_initial from_id to_id interval t0 bind_ok r" "0 \<le> interval" "0 \<le> t0" "(rtt_step me)\<^sup>*\<^sup>* r (now, c, s, ds)"
  shows "rc_send_request_timestamps c = map (\<lambda>k. t0 + int k * interval) [0..<pings c] \<and>
    rc_out c = map (\<lambda>k. \<lparr>st_seq = to_uint32 (int k), st_ts = t0 + int k * interval\<rparr>) [0..<pings c] \<and>
    (\<forall>k. t0 + int k * interval < now \<longrightarrow> k < pings c) \<and> (\<forall>k < pings c. t0 + int k * interval \<le> now) \<and>
    (interval = 0 \<longrightarrow> now = t0)"
proof -
  note r = rtt_reachable [OF assms]
  have due: "ping_due t0 c = (\<lambda>k. t0 + int k * interval)" using r(4) by (simp add: rtt_pair_def ping_due_def fun_eq_iff)
  have "k < pings c" if "t0 + int k * interval < now" for k
  proof (rule ccontr)
    assume "\<not> k < pings c"
    then have "t0 + int (pings c) * interval \<le> t0 + int k * interval" using assms(2) by (simp add: mult_right_mono)
    then show False using that r(1) by (auto simp: sends_ok_def due)
  qed
  then show ?thesis using r(1) by (auto simp: sends_ok_def due)
qed

text \<open>
  C28. What a client records of ping j is what the last reply with number j that reached it carried and the
  time it arrived, and -1 twice if there was none; the reply was written between the sending of the ping and
  its arrival. The row of the ping says that a reply arrived exactly if one did, the latencies are not
  negative and add up to the round-trip time, which is the time from sending to arrival.
\<close>

theorem pingmesh_rows_correct:
  assumes "rtt_initial from_id to_id interval t0 bind_ok r" "0 \<le> interval" "0 \<le> t0" "(rtt_step me)\<^sup>*\<^sup>* r (now, c, s, ds)"
    "pings c < 2 ^ 32"
  shows "\<exists>rows. ping_rows c = Inr rows \<and> length rows = pings c \<and> (\<forall>j < pings c. let sent = t0 + int j * interval in
    (case ping_outcome ds j of (reply, received) \<Rightarrow>
      if \<exists>(h, t) \<in> set ds. st_seq h = int j
      then sent \<le> reply \<and> reply \<le> received \<and> received \<le> now \<and>
        rows ! j = (to_uint32 from_id, to_uint32 to_id, int j, sent, reply, received, reply - sent, received - reply,
          received - sent, True)
      else rows ! j = (to_uint32 from_id, to_uint32 to_id, int j, sent, -1, -1, -1, -1, -1, False)))"
proof -
  note r = rtt_reachable [OF assms(1-4)]
  have due: "ping_due t0 c = (\<lambda>k. t0 + int k * interval)" and ids: "rc_from_node_id c = to_uint32 from_id" "rc_to_node_id c = to_uint32 to_id"
    using r(4) by (simp_all add: rtt_pair_def ping_due_def fun_eq_iff)
  have sends: "rc_send_request_timestamps c = map (\<lambda>k. t0 + int k * interval) [0..<pings c]" and "rc_sent c = to_uint32 (int (pings c))"
    using r(1) by (simp_all add: sends_ok_def due)
  moreover have "to_uint32 (int (pings c)) = int (pings c)" using assms(5) by simp
  ultimately have n: "nat (rc_sent c) = pings c" by simp
  have good: "t0 + int j * interval \<le> st_ts h \<and> st_ts h \<le> t \<and> t \<le> now \<and> st_ts h \<noteq> -1"
    if "(h, t) \<in> set ds" "st_seq h = int j" for h t j
  proof -
    obtain k where k: "k < pings c" "st_seq h = to_uint32 (int k)" "t0 + int k * interval \<le> st_ts h" "st_ts h \<le> t" "t \<le> now"
      using replies_ok_in [OF r(2) \<open>(h, t) \<in> set ds\<close>] unfolding due by blast
    have "to_uint32 (int k) = int k" using k(1) assms(5) by simp
    then have "k = j" using k(2) that(2) by linarith
    moreover have "0 \<le> int k * interval" using assms(2) by simp
    ultimately show ?thesis using k(3-5) assms(3) by simp
  qed
  define row where "row = (\<lambda>j. let sent = t0 + int j * interval; (reply, received) = ping_outcome ds j; arrived = (reply \<noteq> -1) in
    (rc_from_node_id c, rc_to_node_id c, int j, sent, reply, received, if arrived then reply - sent else -1,
     if arrived then received - reply else -1, if arrived then (reply - sent) + (received - reply) else -1, arrived))"
  have "ping_row c (int j) = Inr (row j)" if "j < pings c" for j
    using r(3) that by (simp add: ping_row_def row_def Let_def records_ok_def sends split: prod.splits)
  then have "ping_rows c = Inr (map row [0..<pings c])"
    unfolding ping_rows_def n by (subst mapr_ok [where g = "row \<circ> nat"]) (auto simp: comp_def)
  moreover have row: "let sent = t0 + int j * interval in case ping_outcome ds j of (reply, received) \<Rightarrow>
      if \<exists>(h, t) \<in> set ds. st_seq h = int j
      then sent \<le> reply \<and> reply \<le> received \<and> received \<le> now \<and>
        row j = (to_uint32 from_id, to_uint32 to_id, int j, sent, reply, received, reply - sent, received - reply, received - sent, True)
      else row j = (to_uint32 from_id, to_uint32 to_id, int j, sent, -1, -1, -1, -1, -1, False)" for j
  proof (cases rule: ping_outcome_cases [of ds j])
    case 1
    then show ?thesis by (auto simp: row_def ids)
  next
    case (2 h t)
    then show ?thesis using good [OF 2(1,2)] by (auto simp: row_def ids)
  qed
  ultimately show ?thesis
  proof (intro exI [of _ "map row [0..<pings c]"] conjI allI impI, goal_cases)
    case (3 j)
    then have "map row [0..<pings c] ! j = row j" by simp
    then show ?case using row [of j] by (simp only:)
  qed simp_all
qed

text \<open>
  No handler of a run fails: the pending ping is sent, whatever its number, and any replies of the
  server that reach the client are within its vectors, even after the 32-bit number wrapped.
\<close>

theorem pingmesh_never_fails:
  assumes "rtt_initial from_id to_id interval t0 bind_ok r" "0 \<le> interval" "0 \<le> t0" "(rtt_step me)\<^sup>*\<^sup>* r (now, c, s, ds)"
  shows "(\<exists>u t. rc_scheduled c = [(u, t)] \<and> now \<le> t \<and> is_ok (rtt_send t (rtt_cancel (Some u) c))) \<and>
    (\<forall>packets t. (\<forall>h \<in> set packets. (me, h) \<in> set (rs_out s)) \<longrightarrow> is_ok (rtt_handle_read t packets c))"
proof -
  note r = rtt_reachable [OF assms]
  obtain u where "rc_scheduled c = [(u, ping_due t0 c (pings c))]" "now \<le> ping_due t0 c (pings c)" "rc_socket c" "0 \<le> rc_interval c"
    using r(1) by (auto simp: sends_ok_def)
  moreover have "is_ok (rtt_handle_read t packets c)" if "\<forall>h \<in> set packets. (me, h) \<in> set (rs_out s)" for packets t
  proof -
    have "\<forall>h \<in> set packets. 0 \<le> st_seq h \<and> st_seq h < int (pings c)" using that replies_ok_number [OF r(2)] by blast
    then show ?thesis using rtt_handle_read_ok [OF r(3), of packets t] by auto
  qed
  ultimately show ?thesis using rtt_send_ok [of c u] by (auto simp: is_ok_iff)
qed

text \<open>A run: a ping at 5, answered at 7, the answer received at 9; the next ping is due at 15.\<close>

definition demo_start :: rtt_client where
  "demo_start = (rtt_client_init 1 2 10)\<lparr>rc_socket := True, rc_receiving := True, rc_scheduled := [(0, 5)],
     rc_send_event := Some 0, rc_next_uid := 1\<rparr>"

definition demo_server :: "(unit \<times> seq_ts) list \<Rightarrow> unit rtt_server" where
  "demo_server out = \<lparr>rs_socket = True, rs_receiving = True, rs_out = out\<rparr>"

definition demo_reply :: seq_ts where
  "demo_reply = \<lparr>st_seq = 0, st_ts = 7\<rparr>"

definition demo_end :: "unit rtt_run" where
  "demo_end = (9, (after_ping 5 demo_start)\<lparr>rc_reply_timestamps := [7], rc_receive_reply_timestamps := [9]\<rparr>,
     demo_server [((), demo_reply)], [(demo_reply, 9)])"

lemma demo_initial: "rtt_initial 1 2 10 5 True (5, demo_start, demo_server [], [])"
  by (simp add: rtt_initial_def demo_server_def demo_start_def rtt_client_start_def rtt_schedule_transmit_def rtt_client_init_def)

lemma demo_run: "(rtt_step ())\<^sup>*\<^sup>* (5, demo_start, demo_server [], []) demo_end"
proof -
  let ?c = "after_ping 5 demo_start"
  have send: "rtt_send 5 (rtt_cancel (Some 0) demo_start) = Inr ?c"
    by (rule rtt_send_ok) (simp_all add: demo_start_def rtt_client_init_def)
  have c: "rc_interval demo_start = 10" "rc_sent demo_start = 0" "rc_out demo_start = []" "rc_receiving demo_start"
    "rc_reply_timestamps demo_start = []" "rc_receive_reply_timestamps demo_start = []"
    by (simp_all add: demo_start_def rtt_client_init_def)
  have "rtt_step () (5, demo_start, demo_server [], []) (5, ?c, demo_server [], [])"
    by (rule rtt_step.ping [OF _ _ send]) (simp_all add: demo_start_def)
  moreover have "rtt_step () (5, ?c, demo_server [], []) (7, ?c, rtt_server_handle_read 7 [((), \<lparr>st_seq = 0, st_ts = 5\<rparr>)] (demo_server []), [])"
    by (rule rtt_step.serve) (simp_all add: c demo_server_def)
  moreover have "rtt_server_handle_read 7 [((), \<lparr>st_seq = 0, st_ts = 5\<rparr>)] (demo_server []) = demo_server [((), demo_reply)]"
    by (simp add: rtt_server_handle_read_def demo_server_def demo_reply_def)
  moreover have "rtt_step () (7, ?c, demo_server [((), demo_reply)], [])
    (9, ?c\<lparr>rc_reply_timestamps := [7], rc_receive_reply_timestamps := [9]\<rparr>, demo_server [((), demo_reply)],
     [] @ map (\<lambda>h. (h, 9)) [demo_reply])"
    by (rule rtt_step.reply) (simp_all add: c demo_server_def demo_reply_def rtt_handle_read_def rtt_handle_packet_def Let_def)
  ultimately show ?thesis unfolding demo_end_def
    by (auto intro: converse_rtranclp_into_rtranclp)
qed

theorem pingmesh_sends_on_time_witness:
  "rc_send_request_timestamps (fst (snd demo_end)) = [5]"
  using pingmesh_sends_on_time [OF demo_initial _ _ demo_run [unfolded demo_end_def]]
  by (simp add: demo_end_def) (simp add: pings_def demo_start_def rtt_client_init_def after_ping_def)

theorem pingmesh_rows_correct_witness:
  "ping_rows (fst (snd demo_end)) = Inr [(1, 2, 0, 5, 7, 9, 2, 2, 4, True)]"
proof -
  have n: "pings (fst (snd demo_end)) = 1" by (simp add: demo_end_def pings_def demo_start_def rtt_client_init_def after_ping_def)
  have o: "ping_outcome [(demo_reply, 9)] 0 = (7, 9)" "st_seq demo_reply = 0" by (simp_all add: ping_outcome_def demo_reply_def)
  obtain c where c: "demo_end = (9, c, demo_server [((), demo_reply)], [(demo_reply, 9)])" by (simp add: demo_end_def)
  show ?thesis
    using pingmesh_rows_correct [OF demo_initial _ _ demo_run [unfolded c]] n o
    by (auto simp: c length_Suc_conv to_uint32_def)
qed

theorem pingmesh_never_fails_witness:
  "is_ok (rtt_handle_read 9 [demo_reply, demo_reply] (fst (snd demo_end)))"
  using pingmesh_never_fails [OF demo_initial _ _ demo_run [unfolded demo_end_def]]
  by (simp add: demo_end_def demo_server_def)

section \<open>The pairs of the configuration\<close>

lemma split_arrow:
  assumes "CHR ''-'' \<notin> set a" "CHR ''-'' \<notin> set b"
  shows "split_string_n (a @ ''->'' @ b) ''->'' 2 = Inr [a, b]"
proof -
  have f: "CHR ''-'' \<notin> set p \<Longrightarrow> find_sub ''->'' (p @ ''->'' @ q) = Some (length p)" for p q
    by (induction p) auto
  have n: "CHR ''-'' \<notin> set p \<Longrightarrow> find_sub ''->'' p = None" for p
    by (induction p) auto
  have "split_loop ''->'' (a @ ''->'' @ b) [] = Some [a, b]"
    using f [OF assms(1), of b] n [OF assms(2)] by (simp add: split_loop.simps)
  then show ?thesis by (simp add: split_string_n_def split_string_def)
qed

definition pair_string :: "int \<times> int \<Rightarrow> string" where
  "pair_string p = show_int (fst p) @ ''->'' @ show_int (snd p)"

definition pair_ok :: "(int \<Rightarrow> bool) \<Rightarrow> int \<times> int \<Rightarrow> bool" where
  "pair_ok valid p \<longleftrightarrow> fst p \<noteq> snd p \<and> valid (fst p) \<and> valid (snd p)"

definition pair_in_range :: "int \<times> int \<Rightarrow> bool" where
  "pair_in_range p \<longleftrightarrow> 0 \<le> fst p \<and> in_int64 (fst p) \<and> 0 \<le> snd p \<and> in_int64 (snd p)"

lemma show_int_no_minus: "0 \<le> v \<Longrightarrow> CHR ''-'' \<notin> set (show_int v)"
  using show_nat_digits [of "nat v"] by (auto simp: show_int_def is_digit_def)

lemma split_pair_string:
  "pair_in_range p \<Longrightarrow> split_string_n (pair_string p) ''->'' 2 = Inr [show_int (fst p), show_int (snd p)]"
  by (simp add: pair_string_def pair_in_range_def split_arrow [simplified] show_int_no_minus)

lemma pair_string_inj: "inj_on pair_string {p. pair_in_range p}"
proof (rule inj_onI)
  fix p q assume h: "p \<in> {p. pair_in_range p}" "q \<in> {p. pair_in_range p}" "pair_string p = pair_string q"
  then have "Inr [show_int (fst p), show_int (snd p)] = (Inr [show_int (fst q), show_int (snd q)] :: string list res)"
    using split_pair_string [of p] split_pair_string [of q] by simp
  then have "show_int (fst p) = show_int (fst q)" "show_int (snd p) = show_int (snd q)" by simp_all
  then show "p = q" using h(1,2) by (intro prod_eqI) (auto simp: pair_in_range_def intro: show_int_inj)
qed

lemma read_pair_string:
  assumes "pair_in_range p" "pair_ok valid p"
  shows "read_pair sys valid (pair_string p) ps = Inr (ps @ filter (\<lambda>p. on_this_system sys (fst p)) [p])"
  using assms by (simp add: read_pair_def split_pair_string pair_in_range_def pair_ok_def)

lemma read_pair_bad:
  assumes "pair_in_range p" "\<not> pair_ok valid p"
  shows "\<not> is_ok (read_pair sys valid (pair_string p) ps)"
  using assms by (auto simp: read_pair_def split_pair_string pair_in_range_def pair_ok_def checkr_def)

lemma read_pair_strings:
  assumes "\<forall>s \<in> set ss. \<exists>p. s = pair_string p \<and> pair_in_range p \<and> pair_ok valid p"
  shows "\<exists>qs. map pair_string qs = ss \<and> (\<forall>q \<in> set qs. pair_in_range q) \<and>
    foldr_res (read_pair sys valid) ss ps = Inr (ps @ filter (\<lambda>p. on_this_system sys (fst p)) qs)"
  using assms
proof (induction ss arbitrary: ps)
  case (Cons s ss)
  then obtain p where p: "s = pair_string p" "pair_in_range p" "pair_ok valid p" by auto
  let ?ps = "ps @ filter (\<lambda>p. on_this_system sys (fst p)) [p]"
  have "\<forall>s \<in> set ss. \<exists>p. s = pair_string p \<and> pair_in_range p \<and> pair_ok valid p" using Cons.prems by simp
  from Cons.IH [OF this, of ?ps] obtain qs where "map pair_string qs = ss" "\<forall>q \<in> set qs. pair_in_range q"
    "foldr_res (read_pair sys valid) ss ?ps = Inr (?ps @ filter (\<lambda>p. on_this_system sys (fst p)) qs)" by blast
  then show ?case using p by (intro exI [of _ "p # qs"]) (simp add: read_pair_string)
qed simp

lemma read_pair_strings_bad:
  assumes "pair_string p \<in> set ss" "pair_in_range p" "\<not> pair_ok valid p"
  shows "\<not> is_ok (foldr_res (read_pair sys valid) ss ps)"
  using assms
proof (induction ss arbitrary: ps)
  case (Cons s ss)
  show ?case
  proof (cases "read_pair sys valid s ps")
    case (Inr ps')
    then have "s \<noteq> pair_string p" using read_pair_bad [OF assms(2,3), of sys ps] by auto
    then show ?thesis using Cons.IH [of ps'] Cons.prems Inr by auto
  qed simp
qed simp

lemma parse_pair_set:
  assumes "distinct ps" "\<forall>p \<in> set ps. pair_in_range p"
  shows "parse_set_string (''set('' @ join '','' (map pair_string ps) @ '')'') = Inr (sset_of (map pair_string ps))"
proof (rule parse_set_string_join)
  show "distinct (map pair_string ps)"
    using assms by (simp add: distinct_map inj_on_subset [OF pair_string_inj] subset_iff)
  show "\<forall>s \<in> set (map pair_string ps). s \<noteq> [] \<and> CHR '','' \<notin> set s \<and> (\<forall>c \<in> set s. \<not> is_space c)"
    by (auto simp: pair_string_def dest!: show_int_chars, auto simp: digit_not_space is_space_def is_digit_def)
qed

text \<open>
  Distinct pairs written as a set of arrows in the configuration, in any order, are read as exactly those
  of them whose source is on this system, ascending; they are refused if and only if one of them is a pair of a node
  with itself or names a node that is not a valid endpoint.
\<close>

theorem pingmesh_pairs_roundtrip:
  assumes "distinct ps" "\<forall>p \<in> set ps. pair_in_range p"
  shows "(if \<forall>p \<in> set ps. fst p \<noteq> snd p \<and> valid (fst p) \<and> valid (snd p)
    then determine_pairs sys valid endpoints (''set('' @ join '','' (map pair_string ps) @ '')'') =
      Inr (sort (filter (\<lambda>p. on_this_system sys (fst p)) ps))
    else \<not> is_ok (determine_pairs sys valid endpoints (''set('' @ join '','' (map pair_string ps) @ '')'')))"
proof -
  let ?ss = "sset_of (map pair_string ps)"
  have d: "determine_pairs sys valid endpoints (''set('' @ join '','' (map pair_string ps) @ '')'') =
      bindr (foldr_res (read_pair sys valid) ?ss []) (\<lambda>pairs. Inr (sort pairs))"
    using parse_pair_set [OF assms] by (simp add: determine_pairs_def)
  show ?thesis
  proof (cases "\<forall>p \<in> set ps. pair_ok valid p")
    case True
    then have "\<forall>s \<in> set ?ss. \<exists>p. s = pair_string p \<and> pair_in_range p \<and> pair_ok valid p" using assms(2) by auto
    from read_pair_strings [OF this] obtain qs where q: "map pair_string qs = ?ss" "\<forall>q \<in> set qs. pair_in_range q"
      "foldr_res (read_pair sys valid) ?ss [] = Inr ([] @ filter (\<lambda>p. on_this_system sys (fst p)) qs)" by blast
    have "distinct (map pair_string qs)" unfolding q(1) using is_sset_sset_of [of "map pair_string ps"] by (simp only: is_sset_def)
    moreover have "pair_string ` set qs = pair_string ` set ps" using q(1) by (metis list.set_map set_sset_of)
    then have "set qs = set ps"
      using q(2) assms(2) by (subst (asm) inj_on_image_eq_iff [OF pair_string_inj]) auto
    ultimately have "mset qs = mset ps" using assms(1) by (simp add: distinct_map set_eq_iff_mset_eq_distinct)
    then have "sort (filter (\<lambda>p. on_this_system sys (fst p)) qs) = sort (filter (\<lambda>p. on_this_system sys (fst p)) ps)"
      by (intro properties_for_sort) (simp_all add: mset_filter)
    then show ?thesis using True q(3) d by (simp add: pair_ok_def comp_def)
  next
    case False
    then obtain p where "p \<in> set ps" "\<not> pair_ok valid p" by blast
    then have "\<not> is_ok (foldr_res (read_pair sys valid) ?ss [])"
      using assms(2) by (intro read_pair_strings_bad [of p]) auto
    then have "\<not> is_ok (bindr (foldr_res (read_pair sys valid) ?ss []) (\<lambda>pairs. Inr (sort pairs)))"
      by (auto simp: is_ok_iff bindr_eq_Inr)
    then show ?thesis using False d by (auto simp: pair_ok_def)
  qed
qed

theorem pingmesh_pairs_roundtrip_witness:
  "determine_pairs None (\<lambda>v. v < 3) [0, 1, 2] (''set('' @ join '','' (map pair_string [(2, 0), (0, 1)]) @ '')'') = Inr (sort [(2, 0), (0, 1)]) \<and>
   \<not> is_ok (determine_pairs None (\<lambda>v. v < 3) [0, 1, 2] (''set('' @ join '','' (map pair_string [(2, 2)]) @ '')''))"
  using pingmesh_pairs_roundtrip [of "[(2, 0), (0, 1)]" "\<lambda>v. v < 3" None "[0, 1, 2]"]
    pingmesh_pairs_roundtrip [of "[(2, 2)]" "\<lambda>v. v < 3" None "[0, 1, 2]"]
  by (simp add: pair_in_range_def in_int64_def on_this_system_def)

section \<open>The clients that are installed\<close>

definition earlier :: "(int \<times> int) list \<Rightarrow> nat \<Rightarrow> nat" where
  "earlier ps k = length (filter (\<lambda>p. fst p = fst (ps ! k)) (take k ps))"

definition clients_of :: "int \<Rightarrow> int \<Rightarrow> (int \<Rightarrow> 'a) \<Rightarrow> (int \<times> int) list \<Rightarrow> (int \<times> 'a \<times> rtt_client) list" where
  "clients_of interval between address_of ps = map (\<lambda>k. (int (earlier ps k) * between, address_of (snd (ps ! k)),
     rtt_client_init (fst (ps ! k)) (snd (ps ! k)) interval)) [0..<length ps]"

definition loop_ok :: "int \<Rightarrow> int \<Rightarrow> (int \<Rightarrow> 'a) \<Rightarrow> (int \<times> int) list \<Rightarrow> 'a client_loop \<Rightarrow> bool" where
  "loop_ok interval between address_of ps st \<longleftrightarrow> (case st of (apps, prev, counter) \<Rightarrow>
     apps = clients_of interval between address_of ps \<and>
     counter = int (length (filter (\<lambda>p. fst p = prev) ps)) \<and> (ps \<noteq> [] \<longrightarrow> prev = fst (last ps)))"

lemma earlier_snoc:
  "k < length ps \<Longrightarrow> earlier (ps @ [p]) k = earlier ps k"
  "earlier (ps @ [p]) (length ps) = length (filter (\<lambda>q. fst q = fst p) ps)"
  by (simp_all add: earlier_def nth_append)

lemma clients_of_snoc:
  "clients_of interval between address_of (ps @ [p]) = clients_of interval between address_of ps @
     [(int (length (filter (\<lambda>q. fst q = fst p) ps)) * between, address_of (snd p), rtt_client_init (fst p) (snd p) interval)]"
  by (simp add: clients_of_def earlier_snoc nth_append)

lemma install_client_step:
  assumes "loop_ok interval between address_of ps st" "sorted (ps @ [p])"
    "install_client interval between address_of p st = Inr st'"
  shows "loop_ok interval between address_of (ps @ [p]) st'"
proof -
  obtain apps prev counter where st: "st = (apps, prev, counter)" by (cases st)
  have "filter (\<lambda>q. fst q = fst p) ps = []" if "fst p \<noteq> prev"
  proof (cases "ps = []")
    case False
    then have "prev = fst (last ps)" "last ps \<in> set ps" using assms(1) by (simp_all add: loop_ok_def st)
    moreover have "q \<le> last ps" if "q \<in> set ps" for q
      using assms(2) that False by (cases ps rule: rev_cases) (auto simp: sorted_append)
    moreover have "last ps \<le> p" using assms(2) \<open>last ps \<in> set ps\<close> by (auto simp: sorted_append)
    ultimately show ?thesis using that by (fastforce simp: filter_empty_conv less_eq_prod_def)
  qed simp
  then show ?thesis
    using assms(1,3) by (auto simp: loop_ok_def st install_client_def Let_def bindr_eq_Inr clients_of_snoc split: if_splits)
qed

lemma install_clients:
  assumes "foldr_res (install_client interval between address_of) ps ([], -1, 0) = Inr (clients, st)" "sorted ps"
  shows "clients = clients_of interval between address_of ps"
proof -
  have "loop_ok interval between address_of ps (clients, st)"
  proof (rule foldr_res_inv_prefix [OF assms(1), where I = "loop_ok interval between address_of"])
    show "loop_ok interval between address_of [] ([], -1, 0)" by (simp add: loop_ok_def clients_of_def)
  next
    fix ys p zs s t
    assume "ps = ys @ p # zs" "loop_ok interval between address_of ys s"
      "install_client interval between address_of p s = Inr t"
    then show "loop_ok interval between address_of (ys @ [p]) t"
      using assms(2) by (intro install_client_step) (auto simp: sorted_append)
  qed
  then show ?thesis by (simp add: loop_ok_def split: prod.splits)
qed

lemma earlier_card:
  assumes "sorted ps" "distinct ps" "k < length ps"
  shows "earlier ps k = card {q \<in> set ps. fst q = fst (ps ! k) \<and> snd q < snd (ps ! k)}"
proof -
  obtain us x vs where ps: "ps = us @ x # vs" "take k ps = us" "ps ! k = x"
    using id_take_nth_drop [OF assms(3)] by metis
  have "q < x" if "q \<in> set us" for q
    using assms(1,2) that by (auto simp: ps(1) sorted_append less_le)
  then have us: "fst q = fst x \<Longrightarrow> snd q < snd x" if "q \<in> set us" for q
    using that by (fastforce simp: less_prod_def)
  have "x \<le> q" if "q \<in> set (x # vs)" for q
    using assms(1) that by (auto simp: ps(1) sorted_append)
  then have vs: "fst q = fst x \<Longrightarrow> \<not> snd q < snd x" if "q \<in> set (x # vs)" for q
    using that by (fastforce simp: less_eq_prod_def)
  have "{q \<in> set ps. fst q = fst x \<and> snd q < snd x} = set (filter (\<lambda>p. fst p = fst x) us)"
    unfolding ps(1) set_append set_filter using us vs by blast
  moreover have "distinct (filter (\<lambda>p. fst p = fst x) us)" using assms(2) by (simp add: ps(1))
  ultimately show ?thesis unfolding earlier_def ps(2,3) by (simp only: distinct_card)
qed

lemma scheduler_pingmesh_cases:
  assumes "pingmesh_scheduler sim valid endpoints address_of = Inr pg" "pg_enabled pg"
  obtains between where
    "determine_pairs (bs_system sim) valid endpoints (get_param_or_default ''pingmesh_endpoint_pairs'' ''all'' (bs_config sim)) = Inr (pg_pairs pg)"
    "in_between_ns (pg_interval_ns pg) endpoints = Inr between" "0 \<le> pg_interval_ns pg" "in_int64 (pg_interval_ns pg)"
    "pg_clients pg = clients_of (pg_interval_ns pg) between address_of (pg_pairs pg)"
    "pg_servers pg = filter (on_this_system (bs_system sim)) endpoints"
proof -
  obtain interval_str interval pairs fs between clients st where
    "parse_positive_int64 interval_str = Inr interval"
    "determine_pairs (bs_system sim) valid endpoints (get_param_or_default ''pingmesh_endpoint_pairs'' ''all'' (bs_config sim)) = Inr pairs"
    "in_between_ns interval endpoints = Inr between"
    "foldr_res (install_client interval between address_of) pairs ([], -1, 0) = Inr (clients, st)"
    "pg_interval_ns pg = interval" "pg_pairs pg = pairs" "pg_clients pg = clients"
    "pg_servers pg = filter (on_this_system (bs_system sim)) endpoints"
    using assms unfolding pingmesh_scheduler_def bindr_eq_Inr Let_def
    by (auto split: if_splits simp: bindr_eq_Inr)
  note r = this
  have "sorted pairs" using r(2) by (auto simp: determine_pairs_def bindr_eq_Inr)
  then have "clients = clients_of interval between address_of pairs" by (rule install_clients [OF r(4)])
  then show thesis using r parse_positive_int64_range [OF r(1)] by (intro that [of between]) simp_all
qed

lemma all_pairs_set:
  "set (all_pairs sys endpoints) = {(i, j). i \<in> set endpoints \<and> on_this_system sys i \<and> j \<in> set endpoints \<and> i \<noteq> j}"
  by (auto simp: all_pairs_def)

lemma all_pairs_distinct:
  assumes "distinct endpoints"
  shows "distinct (all_pairs sys endpoints)"
proof -
  have "distinct (concat (map (\<lambda>i. map (\<lambda>j. (i, j)) (filter (\<lambda>j. i \<noteq> j) endpoints)) is))" if "distinct is" for "is"
    using that assms by (induction "is") (auto simp: distinct_map inj_on_def)
  then show ?thesis using assms by (simp add: all_pairs_def)
qed

lemma in_between_eq:
  assumes "in_between_ns interval endpoints = Inr between" "0 \<le> interval" "in_int64 interval"
    "2 \<le> length endpoints" "int (length endpoints) < 2 ^ 64"
  shows "between = interval div (int (length endpoints) - 1)"
proof -
  have "0 \<le> int (length endpoints) - 1" "int (length endpoints) - 1 < 2 ^ 64" using assms(4,5) by linarith+
  moreover have "interval < 2 ^ 64" using assms(3) by (simp add: in_int64_def)
  ultimately have d: "to_uint64 (int (length endpoints) - 1) = int (length endpoints) - 1" "to_uint64 interval = interval"
    using assms(2) unfolding to_uint64_def by (simp_all only: mod_pos_pos_trivial)
  let ?d = "int (length endpoints) - 1"
  have "1 \<le> ?d" using assms(4) by simp
  then have "0 \<le> interval div ?d \<and> interval div ?d \<le> interval"
    using assms(2) zdiv_mono2 [of interval 1 ?d] by (simp add: pos_imp_zdiv_nonneg_iff)
  then have "in_int64 (interval div ?d)" using assms(3) by (simp add: in_int64_def)
  then show ?thesis using assms(1) by (simp add: in_between_ns_def d bindr_eq_Inr)
qed

text \<open>
  C29. With all pairs, every endpoint of the system has one client for every other endpoint, and every one has a
  server. The client for j starts after as many gaps as there are other endpoints below j, where a gap is the
  interval divided by the number of other endpoints: the clients of an endpoint start one gap apart, all of them at
  least one gap before the interval is over. The set-up does not return normally for exactly one endpoint.
\<close>

theorem pingmesh_all_pairs:
  assumes "pingmesh_scheduler sim valid endpoints address_of = Inr pg" "pg_enabled pg"
    "get_param_or_default ''pingmesh_endpoint_pairs'' ''all'' (bs_config sim) = ''all''"
    "is_sset endpoints" "int (length endpoints) < 2 ^ 64"
  shows "length endpoints \<noteq> 1 \<and> is_sset (pg_pairs pg) \<and>
    set (pg_pairs pg) = {(i, j). i \<in> set endpoints \<and> on_this_system (bs_system sim) i \<and> j \<in> set endpoints \<and> i \<noteq> j} \<and>
    pg_servers pg = filter (on_this_system (bs_system sim)) endpoints \<and>
    (let gap = pg_interval_ns pg div (int (length endpoints) - 1) in
     pg_clients pg = map (\<lambda>(i, j). (int (card {v \<in> set endpoints. v \<noteq> i \<and> v < j}) * gap, address_of j,
       rtt_client_init i j (pg_interval_ns pg))) (pg_pairs pg) \<and>
     (\<forall>(start, _, _) \<in> set (pg_clients pg). 0 \<le> start \<and> start + gap \<le> pg_interval_ns pg))"
proof -
  obtain between where c: "determine_pairs (bs_system sim) valid endpoints ''all'' = Inr (pg_pairs pg)"
    "in_between_ns (pg_interval_ns pg) endpoints = Inr between" "0 \<le> pg_interval_ns pg" "in_int64 (pg_interval_ns pg)"
    "pg_clients pg = clients_of (pg_interval_ns pg) between address_of (pg_pairs pg)"
    "pg_servers pg = filter (on_this_system (bs_system sim)) endpoints"
    using scheduler_pingmesh_cases [OF assms(1,2), unfolded assms(3)] by blast
  let ?ps = "pg_pairs pg" and ?I = "pg_interval_ns pg" and ?n = "int (length endpoints) - 1"
  have ps: "?ps = sort (all_pairs (bs_system sim) endpoints)" using c(1) by (simp add: determine_pairs_def)
  then have sset: "is_sset ?ps"
    and set: "set ?ps = {(i, j). i \<in> set endpoints \<and> on_this_system (bs_system sim) i \<and> j \<in> set endpoints \<and> i \<noteq> j}"
    using assms(4) all_pairs_distinct by (auto simp: is_sset_def all_pairs_set)
  have one: "length endpoints \<noteq> 1" using c(2) by (auto simp: in_between_ns_def to_uint64_def Let_def bindr_eq_Inr checkr_def)
  have count: "earlier ?ps k = card {v \<in> set endpoints. v \<noteq> fst (?ps ! k) \<and> v < snd (?ps ! k)}" if "k < length ?ps" for k
  proof -
    let ?p = "?ps ! k"
    have "?p \<in> set ?ps" using that by simp
    then have "{q \<in> set ?ps. fst q = fst ?p \<and> snd q < snd ?p} = Pair (fst ?p) ` {v \<in> set endpoints. v \<noteq> fst ?p \<and> v < snd ?p}"
      unfolding set by force
    then have "card {q \<in> set ?ps. fst q = fst ?p \<and> snd q < snd ?p} = card {v \<in> set endpoints. v \<noteq> fst ?p \<and> v < snd ?p}"
      by (simp add: card_image inj_on_def)
    then show ?thesis using earlier_card [of ?ps k] sset that by (simp add: is_sset_def)
  qed
  have two: "2 \<le> length endpoints" if "p \<in> set ?ps" for p
  proof -
    have "card {fst p, snd p} \<le> card (set endpoints)" using that unfolding set by (intro card_mono) auto
    then show ?thesis using that unfolding set by (auto simp: length_sset [OF assms(4)])
  qed
  have gap: "between = ?I div ?n" if "p \<in> set ?ps" for p
    using in_between_eq [OF c(2-4) two [OF that] assms(5)] .
  have clients: "pg_clients pg = map (\<lambda>(i, j). (int (card {v \<in> set endpoints. v \<noteq> i \<and> v < j}) * (?I div ?n), address_of j,
      rtt_client_init i j ?I)) ?ps"
    unfolding c(5) clients_of_def
    by (rule nth_equalityI) (auto simp: count gap [OF nth_mem] split: prod.splits)
  have "int (card {v \<in> set endpoints. v \<noteq> i \<and> v < j}) + 1 \<le> ?n" if "(i, j) \<in> set ?ps" for i j
  proof -
    have ij: "i \<in> set endpoints" "j \<in> set endpoints" "i \<noteq> j" using that unfolding set by auto
    then have "card ({v \<in> set endpoints. v \<noteq> i \<and> v < j} \<union> {i, j}) = card {v \<in> set endpoints. v \<noteq> i \<and> v < j} + card {i, j}"
      by (intro card_Un_disjoint) auto
    moreover have "card ({v \<in> set endpoints. v \<noteq> i \<and> v < j} \<union> {i, j}) \<le> card (set endpoints)"
      using ij by (intro card_mono) auto
    ultimately show ?thesis using ij(3) by (simp add: length_sset [OF assms(4)])
  qed
  note below = this
  have "0 \<le> int (card {v \<in> set endpoints. v \<noteq> i \<and> v < j}) * (?I div ?n) \<and>
      int (card {v \<in> set endpoints. v \<noteq> i \<and> v < j}) * (?I div ?n) + ?I div ?n \<le> ?I" if "(i, j) \<in> set ?ps" for i j
  proof -
    let ?m = "int (card {v \<in> set endpoints. v \<noteq> i \<and> v < j})"
    have n: "0 < ?n" "0 \<le> ?I div ?n" using two [OF that] c(3) by (simp_all add: pos_imp_zdiv_nonneg_iff)
    have "?m * (?I div ?n) + ?I div ?n = (?m + 1) * (?I div ?n)" by (simp add: algebra_simps)
    also have "\<dots> \<le> ?n * (?I div ?n)" using below [OF that] n(2) by (rule mult_right_mono)
    also have "\<dots> \<le> ?I" using n(1) by (simp add: minus_mod_eq_mult_div [symmetric])
    finally show ?thesis using n(2) by simp
  qed
  then show ?thesis using one sset set clients c(6) by (auto simp: Let_def)
qed

definition demo_simulation :: burst_simulation where
  "demo_simulation = \<lparr>bs_fs = one_file '''', bs_run_dir = ''r'', bs_logs_dir = ''l'',
     bs_config = [(''enable_pingmesh_scheduler'', ''true''), (''pingmesh_interval_ns'', ''100'')], bs_end_ns = 1000,
     bs_system = None\<rparr>"

lemma demo_pingmesh:
  "case pingmesh_scheduler demo_simulation (\<lambda>v. v < 3) [0, 1, 2] (\<lambda>j. j) of
     Inl _ \<Rightarrow> False
   | Inr pg \<Rightarrow> pg_enabled pg \<and> map (\<lambda>(start, j, _). (start, j)) (pg_clients pg) = [(0, 1), (50, 2), (0, 0), (50, 2), (0, 0), (50, 1)]"
  by code_simp

theorem pingmesh_all_pairs_witness:
  "\<exists>pg. pingmesh_scheduler demo_simulation (\<lambda>v. v < 3) [0, 1, 2] (\<lambda>j. j) = Inr pg \<and> pg_servers pg = [0, 1, 2] \<and>
     (1, 2) \<in> set (pg_pairs pg) \<and> (1, 1) \<notin> set (pg_pairs pg)"
proof -
  obtain pg where "pingmesh_scheduler demo_simulation (\<lambda>v. v < 3) [0, 1, 2] (\<lambda>j. j) = Inr pg" "pg_enabled pg"
    using demo_pingmesh by (auto split: sum.splits)
  then show ?thesis
    using pingmesh_all_pairs [of demo_simulation "\<lambda>v. v < 3" "[0, 1, 2]" "\<lambda>j. j" pg]
    by (simp add: demo_simulation_def get_param_or_default_def is_sset_def on_this_system_def)
qed

section \<open>The statistics\<close>

definition row_arrived :: "ping_result \<Rightarrow> bool" where
  "row_arrived r = (case r of (_, _, _, _, _, _, _, _, _, reply_arrived) \<Rightarrow> reply_arrived)"

definition row_there :: "ping_result \<Rightarrow> int" where
  "row_there r = (case r of (_, _, _, _, _, _, there, _, _, _) \<Rightarrow> there)"

definition row_back :: "ping_result \<Rightarrow> int" where
  "row_back r = (case r of (_, _, _, _, _, _, _, back, _, _) \<Rightarrow> back)"

definition row_rtt :: "ping_result \<Rightarrow> int" where
  "row_rtt r = (case r of (_, _, _, _, _, _, _, _, rtt, _) \<Rightarrow> rtt)"

lemma d_add_exact: "0 \<le> a \<Longrightarrow> 0 \<le> b \<Longrightarrow> a + b < 2 ^ 53 \<Longrightarrow> d_add (Fin (of_int a)) (d_of_int b) = Fin (of_int (a + b))"
  using rnd_of_int [of "a + b"] by (simp add: d_of_int_exact)

lemma sum_list_nonneg_int: "\<forall>r \<in> set rs. 0 \<le> f r \<Longrightarrow> 0 \<le> (\<Sum>r \<leftarrow> rs. f r :: int)"
  by (rule sum_list_nonneg) auto

lemma ping_sums_snoc:
  "ping_sums (rows @ [r]) = bindr (ping_sums rows) (\<lambda>(total, sum_there, sum_back, rtts).
     if row_arrived r
     then bindr (checkr (in_int32 (total + 1)) (Undefined ''signed overflow'')) (\<lambda>_.
       Inr (total + 1, d_add sum_there (d_of_int (row_there r)), d_add sum_back (d_of_int (row_back r)), rtts @ [row_rtt r]))
     else Inr (total, sum_there, sum_back, rtts))"
proof -
  obtain a b c d e f g h i j where r: "r = (a, b, c, d, e, f, g, h, i, j)" by (metis surj_pair)
  show ?thesis
    unfolding ping_sums_def foldr_res_append r row_arrived_def row_there_def row_back_def row_rtt_def prod.case
    by (rule arg_cong [where f = "bindr _"]) (auto intro!: ext simp: bindr_assoc bindr_def split: sum.split)
qed

lemma ping_sums_exact:
  assumes "\<forall>r \<in> set rows. row_arrived r \<longrightarrow> 0 \<le> row_there r \<and> 0 \<le> row_back r"
    "(\<Sum>r \<leftarrow> filter row_arrived rows. row_there r) < 2 ^ 53" "(\<Sum>r \<leftarrow> filter row_arrived rows. row_back r) < 2 ^ 53"
  shows "ping_sums rows =
    (if length (filter row_arrived rows) < 2 ^ 31
     then Inr (int (length (filter row_arrived rows)), Fin (of_int (\<Sum>r \<leftarrow> filter row_arrived rows. row_there r)),
       Fin (of_int (\<Sum>r \<leftarrow> filter row_arrived rows. row_back r)), map row_rtt (filter row_arrived rows))
     else Inl (Undefined ''signed overflow''))"
  using assms
proof (induction rows rule: rev_induct)
  case (snoc r rows)
  let ?there = "\<Sum>r \<leftarrow> filter row_arrived rows. row_there r" and ?backward = "\<Sum>r \<leftarrow> filter row_arrived rows. row_back r"
  have nonneg: "0 \<le> ?there" "0 \<le> ?backward" using snoc.prems(1) by (auto intro!: sum_list_nonneg_int)
  have range: "in_int32 (int n + 1) \<longleftrightarrow> Suc n < 2 ^ 31" for n by (auto simp: in_int32_def)
  show ?case
  proof (cases "row_arrived r")
    case True
    have "0 \<le> row_there r" "0 \<le> row_back r" "?there + row_there r < 2 ^ 53" "?backward + row_back r < 2 ^ 53"
      using snoc.prems True by simp_all
    moreover from this nonneg have less: "?there < 2 ^ 53" "?backward < 2 ^ 53" by linarith+
    ultimately have exact: "d_add (Fin (of_int ?there)) (d_of_int (row_there r)) = Fin (of_int (?there + row_there r))"
      "d_add (Fin (of_int ?backward)) (d_of_int (row_back r)) = Fin (of_int (?backward + row_back r))"
      using nonneg by (simp_all only: d_add_exact)
    have IH: "ping_sums rows = (if length (filter row_arrived rows) < 2 ^ 31
       then Inr (int (length (filter row_arrived rows)), Fin (of_int ?there), Fin (of_int ?backward), map row_rtt (filter row_arrived rows))
       else Inl (Undefined ''signed overflow''))"
      by (rule snoc.IH) (use snoc.prems(1) less in simp_all)
    show ?thesis unfolding ping_sums_snoc IH using exact True range [of "length (filter row_arrived rows)"] by simp
  next
    case False
    then have "ping_sums rows = (if length (filter row_arrived rows) < 2 ^ 31
       then Inr (int (length (filter row_arrived rows)), Fin (of_int ?there), Fin (of_int ?backward), map row_rtt (filter row_arrived rows))
       else Inl (Undefined ''signed overflow''))"
      by (intro snoc.IH) (use snoc.prems in simp_all)
    then show ?thesis using False by (simp add: ping_sums_snoc)
  qed
qed (simp add: ping_sums_def)

lemma rtt_spread_bounds:
  "fst (rtt_spread mean rtts) = fold min rtts 10000000000000 \<and> fst (snd (rtt_spread mean rtts)) = fold max rtts (-1)"
  by (induction rtts rule: rev_induct) (auto simp: rtt_spread_def Let_def split: prod.splits)

lemma fold_min_max:
  fixes xs :: "'b list" and f :: "'b \<Rightarrow> int"
  assumes "xs \<noteq> []"
  shows "fold min (map f xs) a = min a (Min (f ` set xs))" "fold max (map f xs) a = max a (Max (f ` set xs))"
  using assms Min.set_eq_fold [of a "map f xs"] Max.set_eq_fold [of a "map f xs"] by simp_all

text \<open>
  C30. If the latencies are not negative and their sums below 2^52, the statistics of a pair with a reply are: the number of
  rows with a reply, the sums divided by it with one rounding, the least and the greatest round-trip time, the former
  capped at 10000 seconds, and the mean round-trip time, which is the sum of all round-trip times divided by
  their number with one rounding. With no reply every figure but the number is -1. From 2^31 replies on their number
  overflows.
\<close>

theorem ping_statistics_exact:
  assumes "\<forall>r \<in> set rows. row_arrived r \<longrightarrow> 0 \<le> row_there r \<and> 0 \<le> row_back r \<and> row_rtt r = row_there r + row_back r"
    "(\<Sum>r \<leftarrow> filter row_arrived rows. row_there r) < 2 ^ 52" "(\<Sum>r \<leftarrow> filter row_arrived rows. row_back r) < 2 ^ 52"
  shows "let rs = filter row_arrived rows; n = length rs in
    if 2 ^ 31 \<le> n then ping_statistics rows = Inl (Undefined ''signed overflow'')
    else \<exists>st. ping_statistics rows = Inr st \<and> ps_total st = int n \<and>
    (if rs = [] then ps_min_rtt st = -1 \<and> ps_max_rtt st = -1 \<and> ps_mean_rtt st = Fin (-1) \<and> ps_std_rtt st = Fin (-1) \<and>
       ps_mean_there st = Fin (-1) \<and> ps_mean_back st = Fin (-1)
     else ps_min_rtt st = min 10000000000000 (Min (row_rtt ` set rs)) \<and> ps_max_rtt st = Max (row_rtt ` set rs) \<and>
       ps_mean_there st = rnd (of_int (\<Sum>r \<leftarrow> rs. row_there r) / of_nat n) \<and>
       ps_mean_back st = rnd (of_int (\<Sum>r \<leftarrow> rs. row_back r) / of_nat n) \<and>
       ps_mean_rtt st = rnd (of_int (\<Sum>r \<leftarrow> rs. row_rtt r) / of_nat n))"
proof -
  let ?rs = "filter row_arrived rows"
  let ?there = "\<Sum>r \<leftarrow> ?rs. row_there r" and ?backward = "\<Sum>r \<leftarrow> ?rs. row_back r" and ?n = "length ?rs"
  have sums: "ping_sums rows = (if ?n < 2 ^ 31 then Inr (int ?n, Fin (of_int ?there), Fin (of_int ?backward), map row_rtt ?rs)
      else Inl (Undefined ''signed overflow''))"
    using assms(1-3) by (intro ping_sums_exact) auto
  have n: "d_of_int (int ?n) = Fin (of_nat ?n)" if "?n < 2 ^ 31"
    using that by (subst d_of_int_exact) simp_all
  have nonneg: "0 \<le> ?there" "0 \<le> ?backward" using assms(1) by (auto intro!: sum_list_nonneg_int)
  have "(\<Sum>r \<leftarrow> ?rs. row_rtt r) = (\<Sum>r \<leftarrow> ?rs. row_there r + row_back r)"
    by (rule arg_cong [where f = sum_list], rule map_cong) (use assms(1) in auto)
  then have rtt: "(\<Sum>r \<leftarrow> ?rs. row_rtt r) = ?there + ?backward" by (simp add: sum_list_addf)
  have "d_add (Fin (of_int ?there)) (Fin (of_int ?backward)) = Fin (of_int (?there + ?backward))"
    using nonneg assms(2,3) rnd_of_int [of "?there + ?backward"] by simp
  note sum = this [folded rtt]
  have bounds: "fold min (map row_rtt ?rs) 10000000000000 = min 10000000000000 (Min (row_rtt ` set ?rs))"
    "fold max (map row_rtt ?rs) (-1) = Max (row_rtt ` set ?rs)" if "?rs \<noteq> []"
  proof -
    have "row_rtt (hd ?rs) \<le> Max (row_rtt ` set ?rs)"
      using imageI [OF hd_in_set [OF that], of row_rtt] by (intro Max_ge) simp_all
    moreover have "0 \<le> row_rtt (hd ?rs)" using hd_in_set [OF that] assms(1) by auto
    ultimately have "max (-1) (Max (row_rtt ` set ?rs)) = Max (row_rtt ` set ?rs)" by linarith
    then show "fold max (map row_rtt ?rs) (-1) = Max (row_rtt ` set ?rs)" using fold_min_max(2) [OF that, of row_rtt "-1"] by (rule trans [rotated])
    show "fold min (map row_rtt ?rs) 10000000000000 = min 10000000000000 (Min (row_rtt ` set ?rs))"
      by (rule fold_min_max(1) [OF that])
  qed
  have div: "d_div (Fin a) (Fin (of_nat ?n)) = rnd (a / of_nat ?n)" if "?rs \<noteq> []" for a
    using that by simp
  obtain mn mx sum_sq where spread:
    "rtt_spread (d_div (Fin (of_int (\<Sum>r \<leftarrow> ?rs. row_rtt r))) (Fin (of_nat ?n))) (map row_rtt ?rs) = (mn, mx, sum_sq)"
    by (metis prod.exhaust)
  then have mn: "mn = fold min (map row_rtt ?rs) 10000000000000" and mx: "mx = fold max (map row_rtt ?rs) (-1)"
    using rtt_spread_bounds [of _ "map row_rtt ?rs"] by (metis fst_conv snd_conv)+
  have st: "ping_statistics rows = Inr (if map row_rtt ?rs = []
     then \<lparr>ps_total = int ?n, ps_mean_there = Fin (-1), ps_mean_back = Fin (-1), ps_min_rtt = -1,
           ps_mean_rtt = Fin (-1), ps_max_rtt = -1, ps_std_rtt = Fin (-1)\<rparr>
     else \<lparr>ps_total = int ?n, ps_mean_there = d_div (Fin (of_int ?there)) (Fin (of_nat ?n)),
           ps_mean_back = d_div (Fin (of_int ?backward)) (Fin (of_nat ?n)), ps_min_rtt = mn,
           ps_mean_rtt = d_div (Fin (of_int (\<Sum>r \<leftarrow> ?rs. row_rtt r))) (Fin (of_nat ?n)), ps_max_rtt = mx,
           ps_std_rtt = (if length (map row_rtt ?rs) > 1
             then d_sqrt (d_mul (d_div (Fin 1) (d_of_int (int (length (map row_rtt ?rs)) - 1))) sum_sq) else Fin 0)\<rparr>)" if less: "?n < 2 ^ 31"
    unfolding ping_statistics_def sums if_P [OF less] bindr_Inr Let_def prod.case n [OF less] sum spread ..
  show ?thesis
  proof (cases "?n < 2 ^ 31")
    case less: True
    show ?thesis
    proof (cases "?rs = []")
      case True
      then show ?thesis using less unfolding st [OF less] by simp
    next
      case False
      note b = bounds [OF False] div [OF False]
      show ?thesis using False less unfolding st [OF less] Let_def mn mx b by simp
    qed
  next
    case False
    then have "ping_statistics rows = Inl (Undefined ''signed overflow'')"
      unfolding ping_statistics_def sums by (simp only: if_False bindr_Inl)
    then show ?thesis using False by (simp add: Let_def)
  qed
qed

definition demo_rows :: "ping_result list" where
  "demo_rows = [(1, 2, 0, 5, 7, 9, 2, 2, 4, True), (1, 2, 1, 15, -1, -1, -1, -1, -1, False), (1, 2, 2, 25, 28, 31, 3, 3, 6, True)]"

theorem ping_statistics_exact_witness:
  "\<exists>st. ping_statistics demo_rows = Inr st \<and> ps_total st = 2 \<and> ps_min_rtt st = 4 \<and> ps_max_rtt st = 6 \<and> ps_mean_rtt st = rnd 5"
  using ping_statistics_exact [of demo_rows]
  by (simp add: demo_rows_def row_arrived_def row_there_def row_back_def row_rtt_def Let_def) blast

lemma percentage_of_nothing: "\<not> is_ok (reply_percentage 0 0)"
  by (simp add: reply_percentage_def d_of_int_def)

end
