(* ===== verification/Tcp_Optimizer.thy ===== *)
theory Tcp_Optimizer
  imports Float64
begin

text \<open>
  basic-sim: tcp-optimizer.cc, the attributes of ns-3's TCP that a run sets before its applications are made:
  fixed ones, and the timers as multiples of an estimate of the worst round-trip time. A setting is the attribute and its
  value; a later setting of an attribute replaces an earlier one.
\<close>

datatype attribute_value = Uinteger_value int | Boolean_value bool | Time_value int | Double_value double | String_value string

type_synonym setting = "string \<times> attribute_value"

definition generic_settings :: "setting list" where
  "generic_settings =
     [(''ns3::TcpSocketBase::ClockGranularity'', Time_value 1),
      (''ns3::TcpSocket::InitialCwnd'', Uinteger_value 10),
      (''ns3::TcpSocket::SndBufSize'', Uinteger_value (131072 * 256)),
      (''ns3::TcpSocket::RcvBufSize'', Uinteger_value (131072 * 256)),
      (''ns3::TcpSocket::SegmentSize'', Uinteger_value 1380),
      (''ns3::TcpSocketBase::Timestamp'', Boolean_value True),
      (''ns3::TcpSocketBase::Sack'', Boolean_value True),
      (''ns3::TcpSocketBase::WindowScaling'', Boolean_value True),
      (''ns3::TcpSocketState::EnablePacing'', Boolean_value False)]"

definition optimize_basic :: "setting list" where
  "optimize_basic = generic_settings"

definition multiple_ns :: "int \<Rightarrow> int \<Rightarrow> int res" where
  "multiple_ns k rtt = bindr (checkr (in_int64 (k * rtt)) (Undefined ''signed overflow'')) (\<lambda>_. Inr (k * rtt))"

definition fraction_ns :: "double \<Rightarrow> int \<Rightarrow> int res" where
  "fraction_ns x rtt = d_trunc (d_mul x (d_of_int rtt)) (- (2 ^ 63)) (2 ^ 63 - 1)"

definition optimize_using_worst_case_rtt :: "int \<Rightarrow> setting list res" where
  "optimize_using_worst_case_rtt worst_case_rtt_ns =
     bindr (multiple_ns 5 worst_case_rtt_ns) (\<lambda>max_seg_lifetime_ns.
     bindr (fraction_ns (Fin (3 / 2)) worst_case_rtt_ns) (\<lambda>min_rto_ns.
     bindr (multiple_ns 2 worst_case_rtt_ns) (\<lambda>initial_rtt_estimate_ns.
     bindr (multiple_ns 2 worst_case_rtt_ns) (\<lambda>connection_timeout_ns.
     bindr (fraction_ns (rnd (1 / 5)) worst_case_rtt_ns) (\<lambda>delayed_ack_timeout_ns.
     bindr (multiple_ns 4 worst_case_rtt_ns) (\<lambda>persist_timeout_ns.
     Inr (generic_settings @
       [(''ns3::TcpSocketBase::MaxSegLifetime'', Double_value (d_div (d_of_int max_seg_lifetime_ns) (Fin 1000000000))),
        (''ns3::TcpSocketBase::MinRto'', Time_value min_rto_ns),
        (''ns3::RttEstimator::InitialEstimation'', Time_value initial_rtt_estimate_ns),
        (''ns3::TcpSocket::ConnTimeout'', Time_value connection_timeout_ns),
        (''ns3::TcpSocket::DelAckTimeout'', Time_value delayed_ack_timeout_ns),
        (''ns3::TcpSocket::PersistTimeout'', Time_value persist_timeout_ns)])))))))"

text \<open>What an attribute is set to.\<close>

definition configured :: "setting list \<Rightarrow> string \<Rightarrow> attribute_value option" where
  "configured settings name = map_of (rev settings) name"

text \<open>
  For an estimate up to 2^50 nanoseconds no timer overflows, the whole multiples are exact, one and a half times is rounded down,
  and a fifth is at most one nanosecond too small.
\<close>

lemma fraction_three_halves:
  assumes "0 \<le> rtt" "rtt \<le> 2 ^ 50"
  shows "fraction_ns (Fin (3 / 2)) rtt = Inr (3 * rtt div 2)"
proof -
  have d: "d_of_int rtt = Fin (of_int rtt)" by (rule d_of_int_exact) (use assms in simp)
  let ?q = "3 / 2 * of_int rtt :: rat" and ?n = "3 * rtt div 2"
  have n: "0 \<le> ?n" "?n \<le> 2 ^ 63 - 1" using assms by simp_all
  have "\<exists>r. rnd ?q = Fin r \<and> of_int ?n \<le> r \<and> r < of_int ?n + 1"
  proof (cases "even rtt")
    case True
    then obtain k where k: "rtt = 2 * k" by blast
    have "\<bar>3 * k\<bar> \<le> 2 ^ 53" using assms by (simp add: k)
    then have "rnd (of_int (3 * k)) = Fin (of_int (3 * k))" using assms by (intro rnd_of_int) (simp add: k)
    moreover have "?q = of_int (3 * k)" by (simp add: k)
    ultimately show ?thesis by (simp add: k)
  next
    case False
    then obtain k where k: "rtt = 2 * k + 1" by (metis oddE)
    have q: "?q = of_int (3 * k + 1) + 1 / 2" by (simp add: k field_simps)
    have n: "?n = 3 * k + 1" by (simp add: k)
    have "(of_int rtt :: rat) \<le> of_int (2 ^ 50)" using assms(2) by (simp only: of_int_le_iff)
    then have b: "\<bar>?q\<bar> \<le> 2 ^ 51" using assms(1) by simp
    then have "\<bar>?q\<bar> \<le> 2 ^ 500" by (rule order_trans) simp
    then obtain r where r: "rnd ?q = Fin r" "\<bar>r - ?q\<bar> \<le> \<bar>?q\<bar> / 2 ^ 53 + pow2 (- 1075)" using rnd_error by blast
    have "\<bar>?q\<bar> / 2 ^ 53 \<le> 2 ^ 51 / 2 ^ 53" using b by (intro divide_right_mono) auto
    moreover have "pow2 (- 1075) \<le> 1 / 8" using pow2_mono [of "- 1075" "- 3"] by (simp add: pow2_def [of "- 3"])
    ultimately have "\<bar>r - ?q\<bar> \<le> 3 / 8" using r(2) by simp
    then have "of_int (3 * k + 1) \<le> r" "r < of_int (3 * k + 1) + 1" unfolding q abs_le_iff by linarith+
    then show ?thesis using r(1) unfolding n by blast
  qed
  then obtain r where "rnd ?q = Fin r" "floor r = ?n" "0 \<le> r"
    using n(1) by (metis floor_unique of_int_0_le_iff order_trans)
  then show ?thesis using n by (simp add: fraction_ns_def d Let_def)
qed

lemma fraction_fifth:
  assumes "0 \<le> rtt" "rtt \<le> 2 ^ 50"
  shows "\<exists>d. fraction_ns (rnd (1 / 5)) rtt = Inr d \<and> rtt div 5 - 1 \<le> d \<and> d \<le> rtt div 5"
proof -
  have d: "d_of_int rtt = Fin (of_int rtt)" by (rule d_of_int_exact) (use assms in simp)
  have R: "0 \<le> (of_int rtt :: rat)" "(of_int rtt :: rat) \<le> 2 ^ 50"
    using assms of_int_le_iff [of rtt "2 ^ 50", where 'a = rat] by simp_all
  have tiny: "pow2 (- 1075) \<le> 1 / 2 ^ 60" using pow2_mono [of "- 1075" "- 60"] by (simp add: pow2_def [of "- 60"])
  have "\<bar>1 / 5 :: rat\<bar> \<le> 2 ^ 500" by simp
  then obtain f where f: "rnd (1 / 5) = Fin f" "\<bar>f - 1 / 5\<bar> \<le> \<bar>1 / 5\<bar> / 2 ^ 53 + pow2 (- 1075)" using rnd_error by blast
  have "\<bar>1 / 5 :: rat\<bar> / 2 ^ 53 + 1 / 2 ^ 60 \<le> 1 / 2 ^ 55" by simp
  then have f2: "\<bar>f - 1 / 5\<bar> \<le> 1 / 2 ^ 55" using f(2) tiny by linarith
  have "\<bar>f * of_int rtt - of_int rtt / 5\<bar> = \<bar>f - 1 / 5\<bar> * of_int rtt"
  proof -
    have "f * of_int rtt - of_int rtt / 5 = (f - 1 / 5) * of_int rtt" by (simp add: algebra_simps)
    then show ?thesis using R(1) by (simp add: abs_mult)
  qed
  also have "\<dots> \<le> 1 / 2 ^ 55 * 2 ^ 50" using f2 R by (intro mult_mono) auto
  finally have p: "\<bar>f * of_int rtt - of_int rtt / 5\<bar> \<le> 1 / 32" by simp
  let ?q = "f * of_int rtt"
  have "\<bar>?q\<bar> \<le> 2 ^ 49" using p R unfolding abs_le_iff by simp
  moreover from this have "\<bar>?q\<bar> \<le> 2 ^ 500" by (rule order_trans) simp
  then obtain r where r: "rnd ?q = Fin r" "\<bar>r - ?q\<bar> \<le> \<bar>?q\<bar> / 2 ^ 53 + pow2 (- 1075)" using rnd_error by blast
  ultimately have "\<bar>?q\<bar> / 2 ^ 53 \<le> 2 ^ 49 / 2 ^ 53" by (intro divide_right_mono) auto
  then have "\<bar>r - ?q\<bar> \<le> 1 / 8" using r(2) tiny by simp
  then have b: "of_int rtt / 5 - 1 / 5 < r" "r < of_int rtt / 5 + 1 / 5" using p unfolding abs_le_iff by linarith+
  let ?k = "rtt div 5"
  have k: "5 * ?k \<le> rtt" "rtt \<le> 5 * ?k + 4" by simp_all
  have "(of_int (5 * ?k) :: rat) \<le> of_int rtt" "(of_int rtt :: rat) \<le> of_int (5 * ?k + 4)" using k by (simp_all only: of_int_le_iff)
  then have kr: "of_int ?k - 1 / 5 < r" "r < of_int ?k + 1" using b by simp_all
  have k0: "0 \<le> ?k" "?k \<le> 2 ^ 63 - 1" using assms by simp_all
  show ?thesis
  proof (cases "0 \<le> r")
    case True
    have "?k - 1 \<le> floor r" "floor r \<le> ?k" using kr by (simp_all add: le_floor_iff floor_le_iff)
    moreover have "floor r \<le> 2 ^ 63 - 1" "- (2 ^ 63) \<le> floor r" using calculation(2) k0(2) True by linarith+
    then have "fraction_ns (rnd (1 / 5)) rtt = Inr (floor r)"
      unfolding fraction_ns_def d f(1) d_mul.simps r(1) d_trunc.simps Let_def using True by (simp only: if_True) simp
    ultimately show ?thesis by blast
  next
    case False
    then have "(of_int ?k :: rat) < 1" using kr(1) by linarith
    then have k: "?k = 0" using k0(1) by simp
    then have "ceiling r = 0" using False kr(1) by (simp add: ceiling_eq_iff)
    then show ?thesis using False r(1) k by (intro exI [of _ 0]) (simp add: fraction_ns_def d f(1))
  qed
qed

lemma worst_case_timers:
  assumes "0 \<le> rtt" "rtt \<le> 2 ^ 50"
  shows "\<exists>settings d. optimize_using_worst_case_rtt rtt = Inr settings \<and> rtt div 5 - 1 \<le> d \<and> d \<le> rtt div 5 \<and>
    configured settings ''ns3::TcpSocketBase::MinRto'' = Some (Time_value (3 * rtt div 2)) \<and>
    configured settings ''ns3::RttEstimator::InitialEstimation'' = Some (Time_value (2 * rtt)) \<and>
    configured settings ''ns3::TcpSocket::ConnTimeout'' = Some (Time_value (2 * rtt)) \<and>
    configured settings ''ns3::TcpSocket::DelAckTimeout'' = Some (Time_value d) \<and>
    configured settings ''ns3::TcpSocket::PersistTimeout'' = Some (Time_value (4 * rtt))"
proof -
  obtain d where d: "fraction_ns (rnd (1 / 5)) rtt = Inr d" "rtt div 5 - 1 \<le> d" "d \<le> rtt div 5" using fraction_fifth [OF assms] by blast
  have "multiple_ns 5 rtt = Inr (5 * rtt)" "multiple_ns 2 rtt = Inr (2 * rtt)" "multiple_ns 4 rtt = Inr (4 * rtt)"
    using assms by (simp_all add: multiple_ns_def in_int64_def checkr_def)
  then have "optimize_using_worst_case_rtt rtt = Inr (generic_settings @
       [(''ns3::TcpSocketBase::MaxSegLifetime'', Double_value (d_div (d_of_int (5 * rtt)) (Fin 1000000000))),
        (''ns3::TcpSocketBase::MinRto'', Time_value (3 * rtt div 2)),
        (''ns3::RttEstimator::InitialEstimation'', Time_value (2 * rtt)),
        (''ns3::TcpSocket::ConnTimeout'', Time_value (2 * rtt)),
        (''ns3::TcpSocket::DelAckTimeout'', Time_value d),
        (''ns3::TcpSocket::PersistTimeout'', Time_value (4 * rtt))])"
    using fraction_three_halves [OF assms] d(1) by (simp add: optimize_using_worst_case_rtt_def)
  then show ?thesis using d(2,3) by (simp add: configured_def)
qed

end
