(* ===== verification/Set_Up.thy ===== *)
theory Set_Up
  imports Basic_Simulation Tcp_Flow Udp_Burst Pingmesh Tcp_Optimizer
begin

text \<open>
  What the two main programs, main_full.cc and main_satnet.cc, share: components are set up one after the other on one
  simulation, and each asks it for parameters and registers times. The state of a component is what its constructor builds.
  A stage of a program builds a component, takes over the files it removed and records what it asked and stamped
  (\<open>uses\<close>); the order of these is the order in the code.
\<close>

section \<open>Stages\<close>

text \<open>What the components see of the simulation.\<close>

definition component_view :: "basic_simulation \<Rightarrow> burst_simulation" where
  "component_view s = \<lparr>bs_fs = sim_fs s, bs_run_dir = m_run_dir s, bs_logs_dir = m_logs_dir s, bs_config = m_config s,
     bs_end_ns = m_simulation_end_time_ns s,
     bs_system = (if m_enable_distributed s then Some (m_system_id s, m_distributed_node_system_id_assignment s) else None)\<rparr>"

definition stage :: "(nat \<Rightarrow> int) \<Rightarrow> (basic_simulation \<Rightarrow> 'c res) \<Rightarrow> ('c \<Rightarrow> use list) \<Rightarrow> ('c \<Rightarrow> fsys \<Rightarrow> fsys) \<Rightarrow> basic_simulation \<Rightarrow> ('c \<times> basic_simulation) res" where
  "stage clock build uses files s =
     bindr (build s) (\<lambda>c.
     bindr (foldr_res (use_step clock) (uses c) (s\<lparr>sim_fs := files c (sim_fs s)\<rparr>)) (\<lambda>s1. Inr (c, s1)))"

text \<open>What ns-3 provides to both: the wall clock, MPI and the address of a node.\<close>

record 'a platform =
  pf_clock :: "nat \<Rightarrow> int"
  pf_mpi :: mpi
  pf_address_of :: "int \<Rightarrow> 'a"

definition keep_files :: "'c \<Rightarrow> fsys \<Rightarrow> fsys" where
  "keep_files c fs = fs"

section \<open>What the schedulers and the optimizer ask and stamp\<close>

definition tcp_optimizer_uses :: "use list" where
  "tcp_optimizer_uses = [Stamp ''Setup TCP parameters'']"

definition flow_uses :: "bool \<Rightarrow> use list" where
  "flow_uses enabled = Ask_or_default ''enable_tcp_flow_scheduler'' ''false'' #
     (if enabled then [Ask_or_default ''tcp_flow_enable_logging_for_tcp_flow_ids'' ''set()'', Ask_or_fail ''tcp_flow_schedule_filename'',
        Stamp ''Read flow schedule'', Stamp ''Remove previous flow log files'', Stamp ''Setup TCP flow sinks'',
        Stamp ''Setup traffic TCP flow starter''] else [])"

definition burst_uses :: "bool \<Rightarrow> use list" where
  "burst_uses enabled = Ask_or_default ''enable_udp_burst_scheduler'' ''false'' #
     (if enabled then [Ask_or_default ''udp_burst_enable_logging_for_udp_burst_ids'' ''set()'', Ask_or_fail ''udp_burst_schedule_filename'',
        Stamp ''Read UDP burst schedule'', Stamp ''Remove previous UDP burst log files'', Stamp ''Setup UDP burst applications''] else [])"

definition ping_uses :: "bool \<Rightarrow> use list" where
  "ping_uses enabled = Ask_or_default ''enable_pingmesh_scheduler'' ''false'' #
     (if enabled then [Ask_or_fail ''pingmesh_interval_ns'', Ask_or_default ''pingmesh_endpoint_pairs'' ''all'',
        Stamp ''Determined pingmesh pairs'', Stamp ''Remove previous pingmesh log files'', Stamp ''Setup pingmesh servers'',
        Stamp ''Setup pingmesh clients''] else [])"

section \<open>What a stage keeps\<close>

lemma uses_keys:
  "foldr_res (use_step clock) us s = Inr s1 \<Longrightarrow>
   set (m_config_requested_keys s1) = set (m_config_requested_keys s) \<union> asked us \<and> m_config s1 = m_config s \<and>
   m_enable_distributed s1 = m_enable_distributed s \<and> component_view s1 = component_view s \<and> sim_fs s1 = sim_fs s"
proof (induction us arbitrary: s)
  case Nil
  then show ?case by (simp add: asked_def)
next
  case (Cons u us)
  then obtain t where t: "use_step clock u s = Inr t" "foldr_res (use_step clock) us t = Inr s1" by (auto simp: bindr_eq_Inr)
  have "set (m_config_requested_keys t) = set (m_config_requested_keys s) \<union> asked [u] \<and> m_config t = m_config s \<and>
      m_enable_distributed t = m_enable_distributed s \<and> component_view t = component_view s \<and> sim_fs t = sim_fs s"
    using t(1) by (cases u; auto simp: use_step_def get_config_param_or_fail_def get_config_param_or_default_def bindr_eq_Inr
      asked_def set_insort_insert component_view_def register_timestamp_def now_ns_since_epoch_def)
  moreover have "asked (u # us) = asked [u] \<union> asked us" by (auto simp: asked_def)
  ultimately show ?case using Cons.IH [OF t(2)] by auto
qed

text \<open>What all stages keep: the configuration; what is asked accumulates.\<close>

definition asked_only :: "string set \<Rightarrow> basic_simulation \<Rightarrow> basic_simulation \<Rightarrow> bool" where
  "asked_only keys s s1 \<longleftrightarrow> set (m_config_requested_keys s1) = set (m_config_requested_keys s) \<union> keys \<and>
     m_config s1 = m_config s \<and> m_enable_distributed s1 = m_enable_distributed s"

lemma asked_only_trans: "asked_only a s s1 \<Longrightarrow> asked_only b s1 s2 \<Longrightarrow> asked_only (a \<union> b) s s2"
  by (auto simp: asked_only_def)

lemma component_view_files: "component_view (s\<lparr>sim_fs := fs\<rparr>) = (component_view s)\<lparr>bs_fs := fs\<rparr>"
  by (simp add: component_view_def)

lemma stage_ok:
  assumes "stage clock build uses files s = Inr (c, s1)"
  shows "build s = Inr c" "asked_only (asked (uses c)) s s1" "sim_fs s1 = files c (sim_fs s)"
    "component_view s1 = (component_view s)\<lparr>bs_fs := files c (sim_fs s)\<rparr>"
proof -
  have b: "build s = Inr c" and u: "foldr_res (use_step clock) (uses c) (s\<lparr>sim_fs := files c (sim_fs s)\<rparr>) = Inr s1"
    using assms by (auto simp: stage_def bindr_eq_Inr)
  show "build s = Inr c" by (rule b)
  note u = uses_keys [OF u]
  show "asked_only (asked (uses c)) s s1" "sim_fs s1 = files c (sim_fs s)" using u by (simp_all add: asked_only_def)
  show "component_view s1 = (component_view s)\<lparr>bs_fs := files c (sim_fs s)\<rparr>" using u component_view_files by metis
qed

lemma asked_Cons [simp]:
  "asked [] = {}" "asked (Ask_or_fail key # us) = insert key (asked us)" "asked (Ask_or_default key v # us) = insert key (asked us)"
  "asked (Stamp label # us) = asked us"
  by (auto simp: asked_def)

section \<open>What the schedulers may be configured with\<close>

definition enabled :: "string \<Rightarrow> config \<Rightarrow> bool" where
  "enabled key config \<longleftrightarrow> parse_boolean (get_param_or_default key ''false'' config) = Inr True"

text \<open>The parameters of the three schedulers.\<close>

definition scheduler_keys :: "config \<Rightarrow> string set" where
  "scheduler_keys config = {''enable_tcp_flow_scheduler'', ''enable_udp_burst_scheduler'', ''enable_pingmesh_scheduler''} \<union>
     (if enabled ''enable_tcp_flow_scheduler'' config then {''tcp_flow_enable_logging_for_tcp_flow_ids'', ''tcp_flow_schedule_filename''} else {}) \<union>
     (if enabled ''enable_udp_burst_scheduler'' config then {''udp_burst_enable_logging_for_udp_burst_ids'', ''udp_burst_schedule_filename''} else {}) \<union>
     (if enabled ''enable_pingmesh_scheduler'' config then {''pingmesh_interval_ns'', ''pingmesh_endpoint_pairs''} else {})"

lemma enabled_schedulers:
  "tcp_flow_scheduler sim valid es = Inr flows \<Longrightarrow> th_enabled flows \<longleftrightarrow> enabled ''enable_tcp_flow_scheduler'' (bs_config sim)"
  "udp_burst_scheduler sim valid es address_of = Inr bursts \<Longrightarrow> bh_enabled bursts \<longleftrightarrow> enabled ''enable_udp_burst_scheduler'' (bs_config sim)"
  "pingmesh_scheduler sim valid es address_of = Inr pm \<Longrightarrow> pg_enabled pm \<longleftrightarrow> enabled ''enable_pingmesh_scheduler'' (bs_config sim)"
  by (auto simp: enabled_def tcp_flow_scheduler_def udp_burst_scheduler_def
      setup_udp_bursts_def pingmesh_scheduler_def bindr_eq_Inr Let_def split: if_splits)

lemma component_config [simp]: "bs_config (component_view s) = m_config s"
  by (simp add: component_view_def)

lemma asked_schedulers: "asked (flow_uses (enabled ''enable_tcp_flow_scheduler'' config)) \<union>
    asked (burst_uses (enabled ''enable_udp_burst_scheduler'' config)) \<union> asked (ping_uses (enabled ''enable_pingmesh_scheduler'' config)) =
  scheduler_keys config"
  by (cases "enabled ''enable_tcp_flow_scheduler'' config"; cases "enabled ''enable_udp_burst_scheduler'' config";
      cases "enabled ''enable_pingmesh_scheduler'' config")
    (simp_all add: flow_uses_def burst_uses_def ping_uses_def scheduler_keys_def insert_commute)

section \<open>Stages that succeed\<close>

lemma uses_succeed:
  assumes "\<forall>key. Ask_or_fail key \<in> set us \<longrightarrow> map_of (m_config s) key \<noteq> None"
  shows "\<exists>s1. foldr_res (use_step clock) us s = Inr s1"
  using assms
proof (induction us arbitrary: s)
  case (Cons u us)
  have "\<exists>t. use_step clock u s = Inr t"
    using Cons.prems by (cases u) (auto simp: use_step_def get_config_param_or_fail_def get_param_or_fail_def)
  then obtain t where t: "use_step clock u s = Inr t" by blast
  then have "foldr_res (use_step clock) [u] s = Inr t" by simp
  then have "m_config t = m_config s" using uses_keys by blast
  then show ?case using Cons.IH [of t] Cons.prems t by simp
qed simp

lemma stage_succeeds:
  assumes "build s = Inr c" "\<forall>key. Ask_or_fail key \<in> set (uses c) \<longrightarrow> map_of (m_config s) key \<noteq> None"
  shows "\<exists>s1. stage clock build uses files s = Inr (c, s1) \<and> m_config s1 = m_config s \<and> m_enable_distributed s1 = m_enable_distributed s \<and>
    component_view s1 = (component_view s)\<lparr>bs_fs := files c (sim_fs s)\<rparr>"
proof -
  obtain s1 where s1: "foldr_res (use_step clock) (uses c) (s\<lparr>sim_fs := files c (sim_fs s)\<rparr>) = Inr s1"
    using uses_succeed [of "uses c" "s\<lparr>sim_fs := files c (sim_fs s)\<rparr>"] assms(2) by auto
  then have "stage clock build uses files s = Inr (c, s1)" using assms(1) by (simp add: stage_def)
  then show ?thesis using stage_ok(2,4) by (fastforce simp: asked_only_def)
qed

lemma switched_off: "map_of config key = None \<Longrightarrow> parse_boolean (get_param_or_default key ''false'' config) = Inr False"
proof -
  have "parse_boolean ''false'' = Inr False" by code_simp
  then show "map_of config key = None \<Longrightarrow> ?thesis" by (simp add: get_param_or_default_def)
qed

lemma schedulers_off:
  assumes "map_of (m_config s) ''enable_tcp_flow_scheduler'' = None" "map_of (m_config s) ''enable_udp_burst_scheduler'' = None"
    and "map_of (m_config s) ''enable_pingmesh_scheduler'' = None"
  shows "\<exists>flows. tcp_flow_scheduler (component_view s) valid es = Inr (flows :: unit tcp_scheduler) \<and> \<not> th_enabled flows"
    "\<exists>bursts. udp_burst_scheduler (component_view s) valid es address_of = Inr bursts \<and> \<not> bh_enabled bursts"
    "\<exists>pm. pingmesh_scheduler (component_view s) valid es address_of = Inr pm \<and> \<not> pg_enabled pm"
  using assms [THEN switched_off] by (simp_all add: tcp_flow_scheduler_def udp_burst_scheduler_def pingmesh_scheduler_def)

text \<open>So the three stages of the schedulers succeed when all of them are off.\<close>

lemma scheduler_stages_off:
  assumes "map_of (m_config s) ''enable_tcp_flow_scheduler'' = None" "map_of (m_config s) ''enable_udp_burst_scheduler'' = None"
    and "map_of (m_config s) ''enable_pingmesh_scheduler'' = None"
  shows "\<exists>flows s1 bursts s2 pm s3.
    stage clock (\<lambda>s. tcp_flow_scheduler (component_view s) valid es) (flow_uses \<circ> th_enabled) (\<lambda>h _. th_fs h) s = Inr (flows :: unit tcp_scheduler, s1) \<and>
    stage clock (\<lambda>s. udp_burst_scheduler (component_view s) valid es address_of) (burst_uses \<circ> bh_enabled) (\<lambda>h _. bh_fs h) s1 = Inr (bursts, s2) \<and>
    stage clock (\<lambda>s. pingmesh_scheduler (component_view s) valid es address_of) (ping_uses \<circ> pg_enabled) (\<lambda>h _. pg_fs h) s2 = Inr (pm, s3) \<and>
    m_config s3 = m_config s \<and> m_enable_distributed s3 = m_enable_distributed s"
proof -
  obtain flows :: "unit tcp_scheduler" where f: "tcp_flow_scheduler (component_view s) valid es = Inr flows" "\<not> th_enabled flows"
    using schedulers_off(1) [OF assms] by blast
  obtain s1 where s1: "stage clock (\<lambda>s. tcp_flow_scheduler (component_view s) valid es) (flow_uses \<circ> th_enabled) (\<lambda>h _. th_fs h) s = Inr (flows, s1)"
      "m_config s1 = m_config s" "m_enable_distributed s1 = m_enable_distributed s"
    using stage_succeeds [where build = "\<lambda>s. tcp_flow_scheduler (component_view s) valid es" and uses = "flow_uses \<circ> th_enabled", OF f(1)] f(2)
    by (fastforce simp: flow_uses_def)
  obtain bursts where b: "udp_burst_scheduler (component_view s1) valid es address_of = Inr bursts" "\<not> bh_enabled bursts"
    using schedulers_off(2) [of s1] assms s1(2) by (simp only:) blast
  obtain s2 where s2: "stage clock (\<lambda>s. udp_burst_scheduler (component_view s) valid es address_of) (burst_uses \<circ> bh_enabled) (\<lambda>h _. bh_fs h) s1 = Inr (bursts, s2)"
      "m_config s2 = m_config s" "m_enable_distributed s2 = m_enable_distributed s"
    using stage_succeeds [where build = "\<lambda>s. udp_burst_scheduler (component_view s) valid es address_of" and uses = "burst_uses \<circ> bh_enabled", OF b(1)] b(2) s1(2,3)
    by (fastforce simp: burst_uses_def)
  obtain pm where p: "pingmesh_scheduler (component_view s2) valid es address_of = Inr pm" "\<not> pg_enabled pm"
    using schedulers_off(3) [of s2] assms s2(2) by (simp only:) blast
  obtain s3 where "stage clock (\<lambda>s. pingmesh_scheduler (component_view s) valid es address_of) (ping_uses \<circ> pg_enabled) (\<lambda>h _. pg_fs h) s2 = Inr (pm, s3)"
      "m_config s3 = m_config s" "m_enable_distributed s3 = m_enable_distributed s"
    using stage_succeeds [where build = "\<lambda>s. pingmesh_scheduler (component_view s) valid es address_of" and uses = "ping_uses \<circ> pg_enabled", OF p(1)] p(2) s2(2,3)
    by (fastforce simp: ping_uses_def)
  with s1(1) s2(1) show ?thesis by blast
qed

end
