(* ===== verification/Arbiter.thy ===== *)
theory Arbiter
  imports Prelude
begin

text \<open>
  basic-sim/model/core/arbiter.cc and ipv4-arbiter-routing.cc: how a node decides where an IPv4
  packet goes. The routing protocol asks its arbiter, the arbiter resolves the node ids of the
  addresses and asks the subclass. The subclass is the interface \<open>routing_arbiter\<close>; the ECMP and
  the single-forward arbiter are its two providers, each in its own theory.

  An IPv4 address is the 32-bit number it is, as a natural number. What ns-3 itself computes
  (address classes, source address selection, the packet headers peeked at) is a parameter.
\<close>

type_synonym ip = nat

section \<open>What ns-3 provides\<close>

text \<open>The IPv4 header fields read, and what PeekHeader finds behind it as UDP or TCP ports.\<close>

record ip_header =
  hdr_source :: ip
  hdr_destination :: ip
  hdr_protocol :: nat

record packet =
  pkt_udp_ports :: "nat \<times> nat"
  pkt_tcp_ports :: "nat \<times> nat"

text \<open>The IPv4 object of a node: its interfaces are numbered from 0, the loop-back.\<close>

record ipv4_object =
  ip4_node_id :: nat
  ip4_n_interfaces :: nat
  ip4_addresses :: "nat \<Rightarrow> (ip \<times> ip) list"
  ip4_is_up :: "nat \<Rightarrow> bool"
  ip4_is_forwarding :: "nat \<Rightarrow> bool"
  ip4_is_destination :: "ip \<Rightarrow> nat \<Rightarrow> bool"
  ip4_source_selection :: "nat \<Rightarrow> ip \<Rightarrow> ip"

text \<open>Ipv4Address::IsMulticast and IsLocalMulticast, and Ipv4Mask::IsMatch of mask and two addresses.\<close>

record address_library =
  al_is_multicast :: "ip \<Rightarrow> bool"
  al_is_local_multicast :: "ip \<Rightarrow> bool"
  al_mask_match :: "ip \<Rightarrow> ip \<Rightarrow> ip \<Rightarrow> bool"

section \<open>ArbiterResult\<close>

record arbiter_result =
  ar_failed :: bool
  ar_out_if_idx :: nat
  ar_gateway_ip_address :: ip

definition arbiter_result_of :: "bool \<Rightarrow> nat \<Rightarrow> ip \<Rightarrow> arbiter_result" where
  "arbiter_result_of failed out_if_idx gateway =
     \<lparr>ar_failed = failed, ar_out_if_idx = out_if_idx, ar_gateway_ip_address = gateway\<rparr>"

definition get_out_if_idx :: "arbiter_result \<Rightarrow> nat res" where
  "get_out_if_idx r =
     (if ar_failed r
      then Inl (Runtime_error ''Cannot retrieve out interface index if the arbiter did not succeed in finding a next hop'')
      else Inr (ar_out_if_idx r))"

definition get_gateway_ip_address :: "arbiter_result \<Rightarrow> ip res" where
  "get_gateway_ip_address r =
     (if ar_failed r
      then Inl (Runtime_error ''Cannot retrieve gateway IP address if the arbiter did not succeed in finding a next hop'')
      else Inr (ar_gateway_ip_address r))"

section \<open>Arbiter\<close>

text \<open>
  The address map is built from the interface addresses of every node, the loop-back excepted;
  \<open>std::map::insert\<close> keeps the first entry of an address. A node is its list of interface
  addresses, the loop-back first.
\<close>

record arbiter =
  m_node_id :: nat
  m_ip_to_node_id :: "ip \<Rightarrow> nat option"

definition map_insert :: "'k \<Rightarrow> 'v \<Rightarrow> ('k \<Rightarrow> 'v option) \<Rightarrow> 'k \<Rightarrow> 'v option" where
  "map_insert k v m = (if m k = None then m(k \<mapsto> v) else m)"

definition arbiter_create :: "nat \<Rightarrow> ip list list \<Rightarrow> arbiter" where
  "arbiter_create this_node nodes =
     \<lparr>m_node_id = this_node,
      m_ip_to_node_id =
        fold (\<lambda>i m. fold (\<lambda>j m. map_insert (nodes ! i ! j) i m) [1..<length (nodes ! i)] m)
          [0..<length nodes] Map.empty\<rparr>"

definition resolve_node_id_from_ip :: "arbiter \<Rightarrow> ip \<Rightarrow> nat res" where
  "resolve_node_id_from_ip a addr =
     (case m_ip_to_node_id a addr of
        Some n \<Rightarrow> Inr n
      | None \<Rightarrow> Inl (Invalid_argument (''IP address '' @ show_nat addr @ '' is not mapped to a node id'')))"

text \<open>
  \<open>decide\<close> is the subclass's Decide on its own state. The source address 102.102.102.102 or
  0.0.0.0 marks a socket's request for its source address.
\<close>

type_synonym 's decide = "'s \<Rightarrow> nat \<Rightarrow> nat \<Rightarrow> packet \<Rightarrow> ip_header \<Rightarrow> bool \<Rightarrow> ('s \<times> arbiter_result) res"

definition is_socket_request :: "ip_header \<Rightarrow> bool" where
  "is_socket_request hdr \<longleftrightarrow> hdr_source hdr = 1717986918 \<or> hdr_source hdr = 0"

definition base_decide :: "'s decide \<Rightarrow> arbiter \<Rightarrow> 's \<Rightarrow> packet \<Rightarrow> ip_header \<Rightarrow> ('s \<times> arbiter_result) res" where
  "base_decide decide a s pkt hdr =
     bindr (if is_socket_request hdr then Inr (m_node_id a) else resolve_node_id_from_ip a (hdr_source hdr))
       (\<lambda>source_node_id.
     bindr (resolve_node_id_from_ip a (hdr_destination hdr)) (\<lambda>target_node_id.
       decide s source_node_id target_node_id pkt hdr (is_socket_request hdr)))"

section \<open>Ipv4ArbiterRouting\<close>

record route =
  rt_destination :: ip
  rt_source :: ip
  rt_gateway :: ip
  rt_output_interface :: nat

text \<open>The routing protocol: its IPv4 object and its arbiter, if they have been set.\<close>

record 's arbiter_routing =
  m_ipv4 :: "ipv4_object option"
  m_arbiter :: "(arbiter \<times> 's) option"

definition loopback_ip :: ip where
  "loopback_ip = 2130706433"

definition loopback_mask :: ip where
  "loopback_mask = 4278190080"

definition set_arbiter :: "arbiter \<times> 's \<Rightarrow> 's arbiter_routing \<Rightarrow> 's arbiter_routing" where
  "set_arbiter a r = r\<lparr>m_arbiter := Some a\<rparr>"

text \<open>The lookup; \<open>oif\<close> is the requested output interface. \<open>None\<close> is the null route.\<close>

definition make_route :: "ipv4_object option \<Rightarrow> ip \<Rightarrow> nat \<Rightarrow> ip \<Rightarrow> route res" where
  "make_route ipv4 dest if_idx gateway =
     (case ipv4 of None \<Rightarrow> Inl (Undefined ''m_ipv4 is null'')
      | Some ip4 \<Rightarrow> Inr \<lparr>rt_destination = dest, rt_source = ip4_source_selection ip4 if_idx dest,
          rt_gateway = gateway, rt_output_interface = if_idx\<rparr>)"

definition lookup_arbiter :: "address_library \<Rightarrow> 's decide \<Rightarrow> 's arbiter_routing \<Rightarrow> ip \<Rightarrow> ip_header \<Rightarrow> packet \<Rightarrow> nat option
    \<Rightarrow> ('s arbiter_routing \<times> route option) res" where
  "lookup_arbiter lib decide r dest hdr pkt oif =
     (case m_arbiter r of None \<Rightarrow> Inl (Runtime_error ''Arbiter has not been set'')
      | Some (a, s) \<Rightarrow>
          if al_is_local_multicast lib dest then Inl (Runtime_error ''Multi-cast is not supported'')
          else if oif \<noteq> None then Inl (Runtime_error ''Requested output interfaces are not supported'')
          else if al_mask_match lib loopback_mask dest loopback_ip
            then bindr (make_route (m_ipv4 r) dest 0 0) (\<lambda>rt. Inr (r, Some rt))
          else bindr (base_decide decide a s pkt hdr) (\<lambda>(s', result).
            let r' = r\<lparr>m_arbiter := Some (a, s')\<rparr> in
            if ar_failed result then Inr (r', None)
            else bindr (get_out_if_idx result) (\<lambda>if_idx.
                 bindr (get_gateway_ip_address result) (\<lambda>gateway.
                 bindr (make_route (m_ipv4 r) dest if_idx gateway) (\<lambda>rt. Inr (r', Some rt))))))"

datatype socket_errno = Error_noterror | Error_noroutetohost

definition route_output :: "address_library \<Rightarrow> 's decide \<Rightarrow> 's arbiter_routing \<Rightarrow> packet \<Rightarrow> ip_header \<Rightarrow> nat option
    \<Rightarrow> ('s arbiter_routing \<times> route option \<times> socket_errno) res" where
  "route_output lib decide r pkt hdr oif =
     (if al_is_multicast lib (hdr_destination hdr) then Inl (Runtime_error ''Multi-cast not supported'')
      else if hdr_destination hdr = 0 then Inr (r, None, Error_noroutetohost)
      else bindr (lookup_arbiter lib decide r (hdr_destination hdr) hdr pkt oif) (\<lambda>(r', rt).
        Inr (r', rt, if rt = None then Error_noroutetohost else Error_noterror)))"

text \<open>What RouteInput does with the packet: nothing, or one of the two callbacks it calls.\<close>

datatype input_action = Not_routed | Local_deliver nat | Unicast_forward route

definition route_input :: "address_library \<Rightarrow> 's decide \<Rightarrow> 's arbiter_routing \<Rightarrow> packet \<Rightarrow> ip_header \<Rightarrow> nat option \<Rightarrow> bool
    \<Rightarrow> ('s arbiter_routing \<times> bool \<times> input_action) res" where
  "route_input lib decide r pkt hdr input_interface lcb_is_null =
     (case m_ipv4 r of None \<Rightarrow> Inl (Assert_failed ''m_ipv4 != nullptr'')
      | Some ip4 \<Rightarrow>
        (case input_interface of None \<Rightarrow> Inl (Assert_failed ''GetInterfaceForDevice(idev) >= 0'')
         | Some iif \<Rightarrow>
            if al_is_multicast lib (hdr_destination hdr) then Inl (Runtime_error ''Multi-cast not supported.'')
            else if ip4_is_destination ip4 (hdr_destination hdr) iif
              then (if lcb_is_null then Inl (Runtime_error ''Local callback cannot be null'')
                    else Inr (r, True, Local_deliver iif))
            else if \<not> ip4_is_forwarding ip4 iif
              then Inl (Runtime_error ''Forwarding must be enabled for every interface'')
            else bindr (lookup_arbiter lib decide r (hdr_destination hdr) hdr pkt None) (\<lambda>(r', rt).
              case rt of None \<Rightarrow> Inr (r', False, Not_routed)
              | Some route \<Rightarrow> Inr (r', True, Unicast_forward route))))"

definition notify_interface_up :: "ipv4_object \<Rightarrow> nat \<Rightarrow> unit res" where
  "notify_interface_up ip4 i =
     (if length (ip4_addresses ip4 i) \<noteq> 1
      then Inl (Runtime_error ''Each interface is permitted exactly one IP address.'')
      else let if_addr = fst (ip4_addresses ip4 i ! 0); if_mask = snd (ip4_addresses ip4 i ! 0) in
        if i = 0
        then (if if_addr \<noteq> loopback_ip \<or> if_mask \<noteq> loopback_mask
              then Inl (Runtime_error ''Loopback interface 0 must have IP 127.0.0.1 and mask 255.0.0.0'')
              else Inr ())
        else (if if_mask \<noteq> 4294967040
              then Inl (Runtime_error ''Each interface must have a subnet mask of 255.255.255.0'')
              else Inr ()))"

definition notify_interface_down :: "nat \<Rightarrow> unit res" where
  "notify_interface_down i = Inl (Runtime_error ''Interfaces are not permitted to go down.'')"

definition notify_add_address :: "ipv4_object \<Rightarrow> nat \<Rightarrow> unit res" where
  "notify_add_address ip4 i =
     (if ip4_is_up ip4 i then Inl (Runtime_error ''Not permitted to add IP addresses after the interface has gone up.'')
      else Inr ())"

definition notify_remove_address :: "ipv4_object \<Rightarrow> nat \<Rightarrow> unit res" where
  "notify_remove_address ip4 i =
     (if ip4_is_up ip4 i then Inl (Runtime_error ''Not permitted to remove IP addresses after the interface has gone up.'')
      else Inr ())"

definition set_ipv4 :: "ipv4_object \<Rightarrow> 's arbiter_routing \<Rightarrow> 's arbiter_routing res" where
  "set_ipv4 ip4 r =
     (if m_ipv4 r \<noteq> None then Inl (Assert_failed ''m_ipv4 == nullptr'')
      else bindr (mapr (\<lambda>i. if ip4_is_up ip4 i then notify_interface_up ip4 i else notify_interface_down i)
             [0..<ip4_n_interfaces ip4])
        (\<lambda>_. Inr (r\<lparr>m_ipv4 := Some ip4\<rparr>)))"

section \<open>The address map\<close>

lemma map_insert_Some:
  "map_insert k v m x = Some y \<longleftrightarrow> m x = Some y \<or> m x = None \<and> x = k \<and> y = v"
  by (auto simp: map_insert_def)

lemma node_loop:
  "fold (\<lambda>j m. map_insert (addrs ! j) i m) js m x =
     (if m x = None then (if x \<in> (!) addrs ` set js then Some i else None) else m x)"
  by (induction js arbitrary: m) (auto simp: map_insert_def)

definition owned_addresses :: "ip list list \<Rightarrow> nat \<Rightarrow> ip set" where
  "owned_addresses nodes i = set (tl (nodes ! i))"

lemma set_tl_nth: "(!) xs ` {1..<length xs} = set (tl xs)"
proof -
  have "set (tl xs) = (!) (tl xs) ` {0..<length xs - 1}" by (auto simp: set_conv_nth)
  also have "\<dots> = (!) xs ` Suc ` {0..<length xs - 1}" by (simp add: image_image nth_tl del: image_Suc_atLeastLessThan)
  also have "Suc ` {0..<length xs - 1} = {1..<length xs}"
    by (cases "length xs") (simp_all add: image_Suc_atLeastLessThan)
  finally show ?thesis by simp
qed

lemma find_upt: "find P [0..<n] = Some k \<longleftrightarrow> k < n \<and> P k \<and> (\<forall>i < k. \<not> P i)"
  by (auto simp: find_Some_iff)

lemma address_map:
  "m_ip_to_node_id (arbiter_create this nodes) x = find (\<lambda>i. x \<in> owned_addresses nodes i) [0..<length nodes]"
proof -
  have "fold (\<lambda>i m. fold (\<lambda>j m. map_insert (nodes ! i ! j) i m) [1..<length (nodes ! i)] m) is m x =
      (if m x = None then find (\<lambda>i. x \<in> owned_addresses nodes i) is else m x)" for "is" m
  proof (induction "is" arbitrary: m)
    case (Cons i "is")
    then show ?case
      using set_tl_nth [of "nodes ! i"] by (simp add: node_loop owned_addresses_def)
  qed simp
  then show ?thesis by (simp add: arbiter_create_def)
qed

text \<open>
  An arbiter resolves an address to the first node that has it on an interface other than the
  loop-back, and raises an error for any address no node has.
\<close>

theorem resolve_node_id_correct:
  "resolve_node_id_from_ip (arbiter_create this nodes) x = Inr k \<longleftrightarrow>
     k < length nodes \<and> x \<in> owned_addresses nodes k \<and> list_all (\<lambda>i. x \<notin> owned_addresses nodes i) [0..<k]"
proof -
  have "resolve_node_id_from_ip (arbiter_create this nodes) x = Inr k \<longleftrightarrow>
      find (\<lambda>i. x \<in> owned_addresses nodes i) [0..<length nodes] = Some k"
    by (simp add: resolve_node_id_from_ip_def address_map split: option.split)
  then show ?thesis by (auto simp: find_upt list_all_iff)
qed

text \<open>
  The lookup in terms of who owns the addresses: of the destination, and of the source of a packet
  that is not a socket's request for its source address.
\<close>

definition owner :: "ip list list \<Rightarrow> ip \<Rightarrow> nat option" where
  "owner nodes x = find (\<lambda>i. x \<in> owned_addresses nodes i) [0..<length nodes]"

definition source_node :: "nat \<Rightarrow> ip list list \<Rightarrow> ip_header \<Rightarrow> nat option" where
  "source_node this nodes hdr = (if is_socket_request hdr then Some this else owner nodes (hdr_source hdr))"

definition not_mapped :: "ip \<Rightarrow> exn" where
  "not_mapped x = Invalid_argument (''IP address '' @ show_nat x @ '' is not mapped to a node id'')"

definition route_via :: "ipv4_object \<Rightarrow> ip \<Rightarrow> nat \<Rightarrow> ip \<Rightarrow> route" where
  "route_via ip4 dest if_idx gateway = \<lparr>rt_destination = dest, rt_source = ip4_source_selection ip4 if_idx dest,
     rt_gateway = gateway, rt_output_interface = if_idx\<rparr>"

lemma owner_bound: "owner nodes x = Some k \<Longrightarrow> k < length nodes"
  by (auto simp: owner_def find_upt)

lemma resolve_owner:
  "resolve_node_id_from_ip (arbiter_create this nodes) x =
     (case owner nodes x of None \<Rightarrow> Inl (not_mapped x) | Some k \<Rightarrow> Inr k)"
  by (simp add: resolve_node_id_from_ip_def address_map owner_def not_mapped_def split: option.split)

lemma lookup_by_owner:
  assumes "m_ipv4 r = Some ip4" "m_arbiter r = Some (arbiter_create this nodes, s)"
    and "\<not> al_is_local_multicast lib dest" "hdr_destination hdr = dest"
  shows "lookup_arbiter lib decide r dest hdr pkt None =
    (if al_mask_match lib loopback_mask dest loopback_ip then Inr (r, Some (route_via ip4 dest 0 0))
     else case source_node this nodes hdr of None \<Rightarrow> Inl (not_mapped (hdr_source hdr))
       | Some src \<Rightarrow> (case owner nodes dest of None \<Rightarrow> Inl (not_mapped dest)
           | Some tgt \<Rightarrow> bindr (decide s src tgt pkt hdr (is_socket_request hdr)) (\<lambda>(s', result).
               Inr (r\<lparr>m_arbiter := Some (arbiter_create this nodes, s')\<rparr>,
                 if ar_failed result then None
                 else Some (route_via ip4 dest (ar_out_if_idx result) (ar_gateway_ip_address result))))))"
proof -
  have "m_node_id (arbiter_create this nodes) = this" by (simp add: arbiter_create_def)
  then have "base_decide decide (arbiter_create this nodes) s pkt hdr =
      (case source_node this nodes hdr of None \<Rightarrow> Inl (not_mapped (hdr_source hdr))
       | Some src \<Rightarrow> (case owner nodes dest of None \<Rightarrow> Inl (not_mapped dest)
           | Some tgt \<Rightarrow> decide s src tgt pkt hdr (is_socket_request hdr)))"
    using assms(4) by (auto simp: base_decide_def source_node_def resolve_owner split: option.split)
  then show ?thesis
    using assms(1-3)
    by (auto simp: lookup_arbiter_def make_route_def route_via_def get_out_if_idx_def get_gateway_ip_address_def Let_def
        split: option.split sum.split intro!: arg_cong [of _ _ "bindr _"])
qed

text \<open>An address library as ns-3 documents it, for examples.\<close>

definition unicast_library :: address_library where
  "unicast_library = \<lparr>al_is_multicast = \<lambda>a. 3758096384 \<le> a \<and> a < 4026531840,
     al_is_local_multicast = \<lambda>a. a div 256 = 14680064, al_mask_match = \<lambda>m a b. a div 16777216 = b div 16777216\<rparr>"

section \<open>The interface of the routing subclasses\<close>

text \<open>The state of the routing protocol of node \<open>this\<close> in a network with these addresses.\<close>

definition routing_installed :: "('s \<Rightarrow> bool) \<Rightarrow> ('s \<Rightarrow> nat) \<Rightarrow> ('s \<Rightarrow> nat) \<Rightarrow> nat \<Rightarrow> ip list list
    \<Rightarrow> 's arbiter_routing \<Rightarrow> bool" where
  "routing_installed good interfaces node_count this nodes r \<longleftrightarrow>
     (case (m_ipv4 r, m_arbiter r) of
        (Some ip4, Some (a, s)) \<Rightarrow> a = arbiter_create this nodes \<and> good s \<and> node_count s = length nodes \<and>
          interfaces s = ip4_n_interfaces ip4 \<and> 0 < ip4_n_interfaces ip4
      | _ \<Rightarrow> False)"

text \<open>
  What the routing protocol needs of a subclass: in a good state, and for a target node that
  exists, deciding keeps the state good and the node's interfaces, and a decision that is not
  a failure names one of the node's own interfaces, never the loop-back.
\<close>

locale routing_arbiter =
  fixes decide :: "'s decide"
    and good :: "'s \<Rightarrow> bool"
    and interfaces :: "'s \<Rightarrow> nat"
    and node_count :: "'s \<Rightarrow> nat"
  assumes decide_keeps: "good s \<Longrightarrow> tgt < node_count s \<Longrightarrow> decide s src tgt pkt hdr req = Inr (s', r) \<Longrightarrow>
      good s' \<and> interfaces s' = interfaces s \<and> node_count s' = node_count s"
    and decide_interface: "good s \<Longrightarrow> tgt < node_count s \<Longrightarrow> decide s src tgt pkt hdr req = Inr (s', r) \<Longrightarrow>
      \<not> ar_failed r \<Longrightarrow> 0 < ar_out_if_idx r \<and> ar_out_if_idx r < interfaces s"
begin

lemma base_decide_good:
  assumes "good s" "node_count s = length nodes"
    "base_decide decide (arbiter_create this nodes) s pkt hdr = Inr (s', r)"
  shows "good s' \<and> interfaces s' = interfaces s \<and> node_count s' = node_count s \<and>
    (\<not> ar_failed r \<longrightarrow> 0 < ar_out_if_idx r \<and> ar_out_if_idx r < interfaces s)"
proof -
  obtain src tgt where t: "resolve_node_id_from_ip (arbiter_create this nodes) (hdr_destination hdr) = Inr tgt"
      "decide s src tgt pkt hdr (is_socket_request hdr) = Inr (s', r)"
    using assms(3) by (auto simp: base_decide_def res_simps)
  have "tgt < node_count s"
    using t(1) assms(2) by (auto simp: resolve_node_id_from_ip_def address_map find_upt split: option.splits)
  then show ?thesis using decide_keeps decide_interface assms(1) t(2) by blast
qed

lemma lookup_installed:
  assumes "routing_installed good interfaces node_count this nodes r" "lookup_arbiter lib decide r dest hdr pkt oif = Inr (r', rt)"
  shows "routing_installed good interfaces node_count this nodes r' \<and> m_ipv4 r' = m_ipv4 r \<and>
    (case rt of None \<Rightarrow> True | Some route \<Rightarrow> rt_destination route = dest \<and>
       rt_output_interface route < ip4_n_interfaces (the (m_ipv4 r)) \<and>
       (rt_output_interface route = 0 \<longleftrightarrow> al_mask_match lib loopback_mask dest loopback_ip))"
proof -
  obtain ip4 s where r: "m_ipv4 r = Some ip4" "m_arbiter r = Some (arbiter_create this nodes, s)"
      "good s" "node_count s = length nodes" "interfaces s = ip4_n_interfaces ip4" "0 < ip4_n_interfaces ip4"
    using assms(1) by (auto simp: routing_installed_def split: option.splits)
  show ?thesis
  proof (cases "al_mask_match lib loopback_mask dest loopback_ip")
    case True
    then show ?thesis
      using assms r by (auto simp: lookup_arbiter_def make_route_def split: if_splits)
  next
    case False
    then obtain s' ar where b: "base_decide decide (arbiter_create this nodes) s pkt hdr = Inr (s', ar)"
        and r': "r' = r\<lparr>m_arbiter := Some (arbiter_create this nodes, s')\<rparr>"
        and rt: "rt = (if ar_failed ar then None
          else Some \<lparr>rt_destination = dest, rt_source = ip4_source_selection ip4 (ar_out_if_idx ar) dest,
            rt_gateway = ar_gateway_ip_address ar, rt_output_interface = ar_out_if_idx ar\<rparr>)"
      using assms(2) r by (auto simp: lookup_arbiter_def make_route_def res_simps get_out_if_idx_def
          get_gateway_ip_address_def Let_def split: if_splits)
    then show ?thesis
      using base_decide_good [OF r(3,4) b] r False by (auto simp: routing_installed_def)
  qed
qed

end

end
