(* ===== verification/Ecmp.thy ===== *)
theory Ecmp
  imports Prelude
begin

text \<open>
  basic-sim/helper/core/arbiter-ecmp-helper.cc: the global ECMP state. All-pairs hop distances
  are computed by Floyd-Warshall in one flat array, and the candidate next hops of a node
  towards a target are its neighbours that are one hop closer. The specification is the
  relational one: \<open>(i, j) \<in> E ^^ m\<close> is a walk of \<open>m\<close> edges, and the hop distance is the least
  such \<open>m\<close>.
\<close>

section \<open>CalculateGlobalState\<close>

text \<open>The array has \<open>n * n\<close> cells; the cell of \<open>(i, j)\<close> is \<open>n * i + j\<close>.\<close>

definition infinite_distance :: int where
  "infinite_distance = 100000000"

definition dget :: "nat \<Rightarrow> int list \<Rightarrow> nat \<Rightarrow> nat \<Rightarrow> int" where
  "dget n d i j = d ! (n * i + j)"

definition dput :: "nat \<Rightarrow> nat \<Rightarrow> nat \<Rightarrow> int \<Rightarrow> int list \<Rightarrow> int list" where
  "dput n i j v d = d[n * i + j := v]"

definition dist_init :: "nat \<Rightarrow> int list" where
  "dist_init n = concat (map (\<lambda>i. map (\<lambda>j. if i = j then 0 else infinite_distance) [0..<n]) [0..<n])"

definition dist_edges :: "nat \<Rightarrow> (nat \<times> nat) list \<Rightarrow> int list \<Rightarrow> int list" where
  "dist_edges n edges d = fold (\<lambda>(a, b) d. dput n b a 1 (dput n a b 1 d)) edges d"

definition relax :: "nat \<Rightarrow> nat \<Rightarrow> nat \<Rightarrow> nat \<Rightarrow> int list \<Rightarrow> int list" where
  "relax n k i j d =
     (if dget n d i j > dget n d i k + dget n d k j
      then dput n i j (dget n d i k + dget n d k j) d else d)"

definition floyd_phase :: "nat \<Rightarrow> nat \<Rightarrow> int list \<Rightarrow> int list" where
  "floyd_phase n k d = fold (\<lambda>i d. fold (\<lambda>j d. relax n k i j d) [0..<n] d) [0..<n] d"

definition floyd_warshall :: "nat \<Rightarrow> int list \<Rightarrow> int list" where
  "floyd_warshall n d = fold (floyd_phase n) [0..<n] d"

definition ecmp_dist :: "nat \<Rightarrow> (nat \<times> nat) list \<Rightarrow> int list" where
  "ecmp_dist n edges = floyd_warshall n (dist_edges n edges (dist_init n))"

text \<open>\<open>candidate_list[current][destination]\<close> is the list of next hops.\<close>

type_synonym candidates = "nat list list list"

definition push_candidate :: "nat \<Rightarrow> nat \<Rightarrow> nat \<Rightarrow> candidates \<Rightarrow> candidates" where
  "push_candidate a j b c = c[a := (c ! a)[j := c ! a ! j @ [b]]]"

definition edge_candidates :: "nat \<Rightarrow> int list \<Rightarrow> nat \<times> nat \<Rightarrow> nat \<Rightarrow> candidates \<Rightarrow> candidates" where
  "edge_candidates n d edge j c =
     (let a = fst edge; b = snd edge;
          c1 = (if dget n d a j - 1 = dget n d b j then push_candidate a j b c else c)
      in if dget n d b j - 1 = dget n d a j then push_candidate b j a c1 else c1)"

definition all_candidates :: "nat \<Rightarrow> int list \<Rightarrow> (nat \<times> nat) list \<Rightarrow> candidates" where
  "all_candidates n d edges =
     fold (\<lambda>edge c. fold (edge_candidates n d edge) [0..<n] c) edges (replicate n (replicate n []))"

definition calculate_global_state :: "nat \<Rightarrow> (nat \<times> nat) list \<Rightarrow> candidates res" where
  "calculate_global_state n edges =
     (if n > 40000 then Inl (Runtime_error ''Cannot handle more than 40000 nodes'')
      else Inr (all_candidates n (ecmp_dist n edges) edges))"

section \<open>Specification\<close>

text \<open>What \<open>TopologyPtop\<close> provides: distinct edges between different nodes below \<open>n\<close>, each once.\<close>

definition valid_edges :: "nat \<Rightarrow> (nat \<times> nat) list \<Rightarrow> bool" where
  "valid_edges n edges \<longleftrightarrow> distinct edges \<and> list_all (\<lambda>(a, b). a < b \<and> b < n) edges"

definition links :: "(nat \<times> nat) list \<Rightarrow> (nat \<times> nat) set" where
  "links edges = set edges \<union> (\<lambda>(a, b). (b, a)) ` set edges"

definition reachable :: "(nat \<times> nat) set \<Rightarrow> nat \<Rightarrow> nat \<Rightarrow> bool" where
  "reachable E i j \<longleftrightarrow> (\<exists>m. (i, j) \<in> E ^^ m)"

definition hops :: "(nat \<times> nat) set \<Rightarrow> nat \<Rightarrow> nat \<Rightarrow> nat" where
  "hops E i j = (LEAST m. (i, j) \<in> E ^^ m)"

section \<open>The flat array\<close>

lemma nth_rows: "i < m \<Longrightarrow> j < n \<Longrightarrow> concat (map (\<lambda>i. map (f i) [0..<n]) [0..<m]) ! (n * i + j) = f i j"
proof (induction m)
  case (Suc m)
  let ?c = "concat (map (\<lambda>i. map (f i) [0..<n]) [0..<m])"
  have len: "length ?c = n * m" by (induction m) (auto simp: length_concat algebra_simps)
  show ?case
  proof (cases "i = m")
    case True
    then show ?thesis using Suc.prems len by (simp add: nth_append)
  next
    case False
    then have "i < m" using Suc.prems by simp
    moreover have "n * i + j < n * m"
      using \<open>i < m\<close> Suc.prems(2) by (metis add_less_cancel_left less_le_trans mult_Suc_right mult_le_mono2 Suc_leI add.commute)
    ultimately show ?thesis using Suc len by (simp add: nth_append)
  qed
qed simp

lemma cell_less: "i < n \<Longrightarrow> j < n \<Longrightarrow> n * i + j < n * n" for n :: nat
  by (metis add.commute add_less_cancel_left less_le_trans mult_Suc_right mult_le_mono2 Suc_leI)

lemma cell_eq_iff: "j < n \<Longrightarrow> l < n \<Longrightarrow> n * i + j = n * k + l \<longleftrightarrow> i = k \<and> j = l" for n :: nat
  by (metis add.commute add_right_cancel div_mult_self1 mod_less mod_mult_self1 div_less mult.commute add_0 less_zeroE)

lemma dget_dput:
  "length d = n * n \<Longrightarrow> i < n \<Longrightarrow> j < n \<Longrightarrow> k < n \<Longrightarrow> l < n \<Longrightarrow>
   dget n (dput n i j v d) k l = (if k = i \<and> l = j then v else dget n d k l)"
  by (auto simp: dget_def dput_def nth_list_update cell_less cell_eq_iff)

lemma length_dput [simp]: "length (dput n i j v d) = length d"
  by (simp add: dput_def)

lemma length_relax [simp]: "length (relax n k i j d) = length d"
  by (simp add: relax_def)

lemma length_dist_init [simp]: "length (dist_init n) = n * n"
proof -
  have "length (concat (map (\<lambda>i. map (f i) [0..<n]) [0..<m])) = n * m" for m and f :: "nat \<Rightarrow> nat \<Rightarrow> int"
    by (induction m) auto
  then show ?thesis by (simp add: dist_init_def)
qed

lemma dget_init: "i < n \<Longrightarrow> j < n \<Longrightarrow> dget n (dist_init n) i j = (if i = j then 0 else infinite_distance)"
  by (simp add: dget_def dist_init_def nth_rows)

section \<open>Loops over the array\<close>

text \<open>An invariant of every iteration is one of the loop.\<close>

lemma fold_inv: "P s \<Longrightarrow> (\<And>x s. x \<in> set xs \<Longrightarrow> P s \<Longrightarrow> P (f x s)) \<Longrightarrow> P (fold f xs s)"
  by (induction xs arbitrary: s) auto

text \<open>Every iteration happens between a state above the final one and one below the first.\<close>

lemma fold_visit:
  assumes "\<And>x s. R s (f x s)" "\<And>a. R a a" "\<And>a b c. R a b \<Longrightarrow> R b c \<Longrightarrow> R a c" "x \<in> set xs"
  shows "\<exists>s1. R s s1 \<and> R (f x s1) (fold f xs s)"
proof -
  have all: "R s (fold f ys s)" for ys s
    using fold_inv [of "\<lambda>t. R s t" s ys f] assms(1-3) by blast
  obtain ys zs where "xs = ys @ x # zs" using assms(4) by (auto dest: split_list)
  then show ?thesis using all by (intro exI [of _ "fold f ys s"]) auto
qed

text \<open>Distances only ever shrink.\<close>

definition below :: "nat \<Rightarrow> int list \<Rightarrow> int list \<Rightarrow> bool" where
  "below n d d' \<longleftrightarrow> (length d = n * n \<longrightarrow>
     length d' = n * n \<and> (\<forall>i < n. \<forall>j < n. dget n d' i j \<le> dget n d i j))"

lemma below_refl: "below n d d"
  by (simp add: below_def)

lemma below_trans: "below n a b \<Longrightarrow> below n b c \<Longrightarrow> below n a c"
  unfolding below_def by (meson order_trans)

lemma below_relax: "i < n \<Longrightarrow> j < n \<Longrightarrow> below n d (relax n k i j d)"
  by (auto simp: below_def relax_def dget_dput)

definition relax_guarded :: "nat \<Rightarrow> nat \<Rightarrow> nat \<Rightarrow> nat \<Rightarrow> int list \<Rightarrow> int list" where
  "relax_guarded n k i j d = (if i < n \<and> j < n then relax n k i j d else d)"

lemma below_relax_guarded: "below n d (relax_guarded n k i j d)"
  by (simp add: relax_guarded_def below_relax below_refl)

lemma floyd_phase_relax_guarded: "floyd_phase n k d = fold (\<lambda>i d. fold (relax_guarded n k i) [0..<n] d) [0..<n] d"
proof -
  have "(\<lambda>d. fold (\<lambda>j d. relax n k i j d) [0..<n] d) = (\<lambda>d. fold (relax_guarded n k i) [0..<n] d)" if "i < n" for i
    using that by (intro ext fold_cong) (auto simp: relax_guarded_def)
  then show ?thesis unfolding floyd_phase_def by (intro fold_cong) auto
qed

lemma below_row: "below n d (fold (relax_guarded n k i) xs d)"
  by (rule fold_inv [where P = "below n d"]) (auto intro: below_refl below_trans below_relax_guarded)

lemma below_phase: "below n d (floyd_phase n k d)"
  unfolding floyd_phase_relax_guarded
  by (rule fold_inv [where P = "below n d"]) (auto intro: below_refl below_trans below_row)

lemma phase_relaxes:
  assumes "length d = n * n" "i < n" "j < n" "k < n"
  shows "dget n (floyd_phase n k d) i j \<le> dget n d i k + dget n d k j"
proof -
  obtain s1 where s1: "below n d s1" "below n (fold (relax_guarded n k i) [0..<n] s1) (floyd_phase n k d)"
    using fold_visit [of "below n" "\<lambda>i d. fold (relax_guarded n k i) [0..<n] d" i "[0..<n]" d] assms(2)
    by (auto simp: floyd_phase_relax_guarded intro: below_refl below_trans below_row)
  obtain s2 where s2: "below n s1 s2" "below n (relax_guarded n k i j s2) (fold (relax_guarded n k i) [0..<n] s1)"
    using fold_visit [of "below n" "relax_guarded n k i" j "[0..<n]" s1] assms(3)
    by (auto intro: below_refl below_trans below_relax_guarded)
  have d2: "below n d s2" "below n (relax_guarded n k i j s2) (floyd_phase n k d)"
    using s1 s2 below_trans by blast+
  have len: "length s2 = n * n" using d2(1) assms(1) by (simp add: below_def)
  have "dget n (relax_guarded n k i j s2) i j \<le> dget n s2 i k + dget n s2 k j"
    using assms len by (simp add: relax_guarded_def relax_def dget_dput)
  moreover have "dget n s2 i k \<le> dget n d i k" "dget n s2 k j \<le> dget n d k j"
    using d2(1) assms by (auto simp: below_def)
  moreover have "dget n (floyd_phase n k d) i j \<le> dget n (relax_guarded n k i j s2) i j"
    using d2(2) assms len by (auto simp: below_def relax_guarded_def)
  ultimately show ?thesis by linarith
qed

section \<open>Completeness: no walk is shorter\<close>

text \<open>A walk of length \<open>m\<close> all of whose inner nodes are below \<open>k\<close>.\<close>

inductive via :: "(nat \<times> nat) set \<Rightarrow> nat \<Rightarrow> nat \<Rightarrow> nat \<Rightarrow> nat \<Rightarrow> bool" for E where
  via_refl: "via E k i i 0"
| via_edge: "(i, j) \<in> E \<Longrightarrow> via E k i j 1"
| via_join: "via E k i l a \<Longrightarrow> l < k \<Longrightarrow> via E k l j b \<Longrightarrow> via E k i j (a + b)"

inductive_cases via_0E: "via E 0 i j m"

text \<open>A walk with inner nodes up to \<open>k\<close> avoids \<open>k\<close>, or splits at its first and last visit.\<close>

lemma via_Suc:
  "via E k' i j m \<Longrightarrow> k' = Suc k \<Longrightarrow>
   (\<exists>m'. m' \<le> m \<and> via E k i j m') \<or> (\<exists>a b. a + b \<le> m \<and> via E k i k a \<and> via E k k j b)"
proof (induction rule: via.induct)
  case (via_refl k' i)
  then show ?case by (blast intro: via.via_refl)
next
  case (via_edge i j k')
  then show ?case by (blast intro: via.via_edge)
next
  case (via_join k' i l a j b)
  note ih = via_join.IH(1) [OF via_join.prems] via_join.IH(2) [OF via_join.prems]
  show ?case
  proof (cases "l = k")
    case True
    have "\<exists>a'. a' \<le> a \<and> via E k i k a'" using ih(1) True by (auto intro: le_trans [OF le_add1])
    moreover have "\<exists>b'. b' \<le> b \<and> via E k k j b'" using ih(2) True by (auto intro: le_trans [OF le_add2])
    ultimately show ?thesis by (blast intro: add_le_mono)
  next
    case False
    then have l: "l < k" using via_join.hyps(2) via_join.prems by simp
    from ih show ?thesis
    proof (elim disjE exE conjE)
      fix a' b' assume "a' \<le> a" "via E k i l a'" "b' \<le> b" "via E k l j b'"
      then show ?thesis using l by (blast intro: via.via_join add_le_mono)
    next
      fix a' b1 b2 assume h: "a' \<le> a" "via E k i l a'" "b1 + b2 \<le> b" "via E k l k b1" "via E k k j b2"
      then have "via E k i k (a' + b1)" using l by (blast intro: via.via_join)
      moreover have "(a' + b1) + b2 \<le> a + b" using h by simp
      ultimately show ?thesis using h by blast
    next
      fix a1 a2 b' assume h: "a1 + a2 \<le> a" "via E k i k a1" "via E k k l a2" "b' \<le> b" "via E k l j b'"
      then have "via E k k j (a2 + b')" using l by (blast intro: via.via_join)
      moreover have "a1 + (a2 + b') \<le> a + b" using h by simp
      ultimately show ?thesis using h by blast
    next
      fix a1 a2 b1 b2
      assume h: "a1 + a2 \<le> a" "via E k i k a1" "b1 + b2 \<le> b" "via E k k j b2"
      then have "a1 + b2 \<le> a + b" by simp
      then show ?thesis using h by blast
    qed
  qed
qed

definition complete_upto :: "nat \<Rightarrow> (nat \<times> nat) set \<Rightarrow> nat \<Rightarrow> int list \<Rightarrow> bool" where
  "complete_upto n E k d \<longleftrightarrow> length d = n * n \<and>
     (\<forall>i < n. \<forall>j < n. \<forall>m. via E k i j m \<longrightarrow> dget n d i j \<le> int m)"

lemma complete_phase:
  assumes "complete_upto n E k d" "k < n"
  shows "complete_upto n E (Suc k) (floyd_phase n k d)"
proof -
  let ?d = "floyd_phase n k d"
  have d: "length d = n * n" "\<And>i j m. i < n \<Longrightarrow> j < n \<Longrightarrow> via E k i j m \<Longrightarrow> dget n d i j \<le> int m"
    using assms(1) by (auto simp: complete_upto_def)
  have below: "length ?d = n * n" "\<And>i j. i < n \<Longrightarrow> j < n \<Longrightarrow> dget n ?d i j \<le> dget n d i j"
    using below_phase [of n d k] d(1) by (auto simp: below_def)
  have "dget n ?d i j \<le> int m" if "i < n" "j < n" and v: "via E (Suc k) i j m" for i j m
    using via_Suc [OF v refl]
  proof (elim disjE exE conjE)
    fix m' assume "m' \<le> m" "via E k i j m'"
    then show ?thesis using d(2) [of i j m'] below(2) [of i j] that by linarith
  next
    fix a b assume h: "a + b \<le> m" "via E k i k a" "via E k k j b"
    then have "dget n d i k \<le> int a" "dget n d k j \<le> int b" using d(2) that assms(2) by auto
    then show ?thesis using phase_relaxes [OF d(1), of i j k] that assms(2) h(1) by linarith
  qed
  then show ?thesis using below(1) by (simp add: complete_upto_def)
qed

lemma complete_floyd:
  assumes "complete_upto n E 0 d"
  shows "complete_upto n E n (floyd_warshall n d)"
proof -
  have "k \<le> n \<Longrightarrow> complete_upto n E k (fold (floyd_phase n) [0..<k] d)" for k
    by (induction k) (use assms complete_phase in auto)
  then show ?thesis by (simp add: floyd_warshall_def)
qed

lemma relpow_via:
  assumes "\<And>a b. (a, b) \<in> E \<Longrightarrow> a < n \<and> b < n"
  shows "(i, j) \<in> E ^^ m \<Longrightarrow> via E n i j m"
proof (induction m arbitrary: j)
  case 0
  then show ?case by (auto intro: via.via_refl)
next
  case (Suc m)
  then obtain l where "(i, l) \<in> E ^^ m" "(l, j) \<in> E" by auto
  then show ?case
    using via.via_join [of E n i l m j 1] via.via_edge [of l j E n] Suc.IH assms by auto
qed

section \<open>Soundness: every distance is that of a walk\<close>

definition sound :: "nat \<Rightarrow> (nat \<times> nat) set \<Rightarrow> int list \<Rightarrow> bool" where
  "sound n E d \<longleftrightarrow> length d = n * n \<and> (\<forall>i < n. \<forall>j < n. 0 \<le> dget n d i j \<and> dget n d i j \<le> infinite_distance \<and>
     (dget n d i j < infinite_distance \<longrightarrow> (i, j) \<in> E ^^ nat (dget n d i j)))"

lemma sound_relax: "sound n E d \<Longrightarrow> i < n \<Longrightarrow> j < n \<Longrightarrow> k < n \<Longrightarrow> sound n E (relax n k i j d)"
proof -
  assume s: "sound n E d" and ij: "i < n" "j < n" "k < n"
  let ?a = "dget n d i k" and ?b = "dget n d k j"
  have "(i, j) \<in> E ^^ nat (?a + ?b)" if "?a + ?b < dget n d i j"
  proof -
    have "0 \<le> ?a" "0 \<le> ?b" "dget n d i j \<le> infinite_distance"
      using s ij by (auto simp: sound_def)
    with that have "(i, k) \<in> E ^^ nat ?a" "(k, j) \<in> E ^^ nat ?b"
      using s ij unfolding sound_def by (metis add.commute le_add_same_cancel1 less_le_trans not_less order_trans)+
    with \<open>0 \<le> ?a\<close> \<open>0 \<le> ?b\<close> show ?thesis by (auto simp: nat_add_distrib relpow_add)
  qed
  then show ?thesis
    using s ij unfolding sound_def relax_def
    by (auto simp: dget_dput) (smt (verit, best))+
qed

lemma sound_floyd: "sound n E d \<Longrightarrow> sound n E (floyd_warshall n d)"
  unfolding floyd_warshall_def floyd_phase_def
  by (rule fold_inv, assumption, rule fold_inv, assumption, rule fold_inv, assumption, rule sound_relax) auto

section \<open>The distances are the hop distances\<close>

lemma links_sym: "(a, b) \<in> links edges \<Longrightarrow> (b, a) \<in> links edges"
  by (auto simp: links_def)

lemma links_bound: "valid_edges n edges \<Longrightarrow> (a, b) \<in> links edges \<Longrightarrow> a < n \<and> b < n \<and> a \<noteq> b"
  by (fastforce simp: links_def valid_edges_def list_all_iff)

lemma length_dist_edges [simp]: "length (dist_edges n edges d) = length d"
  unfolding dist_edges_def by (induction edges arbitrary: d) auto

lemma dget_dist_edges:
  assumes "list_all (\<lambda>(a, b). a < b \<and> b < n) edges" "length d = n * n" "i < n" "j < n"
  shows "dget n (dist_edges n edges d) i j = (if (i, j) \<in> links edges then 1 else dget n d i j)"
  using assms
proof (induction edges rule: rev_induct)
  case Nil
  then show ?case by (simp add: dist_edges_def links_def)
next
  case (snoc e edges)
  obtain a b where e: "e = (a, b)" by fastforce
  have "dist_edges n (edges @ [e]) d = dput n b a 1 (dput n a b 1 (dist_edges n edges d))"
    by (simp add: dist_edges_def e)
  then show ?case using snoc e by (auto simp: dget_dput links_def)
qed

lemma complete_initial:
  assumes "valid_edges n edges"
  shows "complete_upto n (links edges) 0 (dist_edges n edges (dist_init n))"
proof -
  have v: "list_all (\<lambda>(a, b). a < b \<and> b < n) edges" using assms by (simp add: valid_edges_def)
  have "dget n (dist_edges n edges (dist_init n)) i j \<le> int m"
    if "via (links edges) 0 i j m" "i < n" "j < n" for i j m
    using that links_bound [OF assms]
    by (elim via_0E) (auto simp: dget_dist_edges [OF v] dget_init)
  then show ?thesis by (simp add: complete_upto_def)
qed

lemma sound_initial:
  assumes "valid_edges n edges"
  shows "sound n (links edges) (dist_edges n edges (dist_init n))"
  using assms unfolding sound_def valid_edges_def
  by (auto simp: dget_dist_edges dget_init infinite_distance_def)

lemma hops_relpow: "reachable E i j \<Longrightarrow> (i, j) \<in> E ^^ hops E i j"
  unfolding reachable_def hops_def by (rule LeastI_ex)

lemma hops_le: "(i, j) \<in> E ^^ m \<Longrightarrow> hops E i j \<le> m"
  unfolding hops_def by (rule Least_le)

lemma hops_prefix:
  assumes "(i, x) \<in> E ^^ m" "hops E i x = m" "t \<le> m"
  shows "\<exists>y. (i, y) \<in> E ^^ t \<and> hops E i y = t"
  using assms
proof (induction m arbitrary: x)
  case 0
  then show ?case by auto
next
  case (Suc m)
  show ?case
  proof (cases "t = Suc m")
    case True
    then show ?thesis using Suc.prems by blast
  next
    case False
    obtain y where y: "(i, y) \<in> E ^^ m" "(y, x) \<in> E" using Suc.prems(1) by auto
    have "hops E i y = m"
    proof (rule antisym)
      show "hops E i y \<le> m" using y(1) by (rule hops_le)
      have "(i, y) \<in> E ^^ hops E i y" using y(1) by (intro hops_relpow) (auto simp: reachable_def)
      then have "(i, x) \<in> E ^^ Suc (hops E i y)" using y(2) by auto
      then show "m \<le> hops E i y" using hops_le Suc.prems(2) by fastforce
    qed
    then show ?thesis using Suc.IH y(1) False Suc.prems(3) by simp
  qed
qed

lemma hops_less:
  assumes "\<And>a b. (a, b) \<in> E \<Longrightarrow> b < n" "i < n" "reachable E i j"
  shows "hops E i j < n"
proof -
  have in_n: "(i, y) \<in> E ^^ t \<Longrightarrow> y < n" for y t
    using assms(1,2) by (cases t) auto
  have "{..hops E i j} \<subseteq> hops E i ` {..<n}"
  proof
    fix t assume "t \<in> {..hops E i j}"
    then obtain y where "(i, y) \<in> E ^^ t" "hops E i y = t"
      using hops_prefix [OF hops_relpow [OF assms(3)] refl] by auto
    then show "t \<in> hops E i ` {..<n}" using in_n by blast
  qed
  then have "card {..hops E i j} \<le> card {..<n}"
    by (meson card_image_le card_mono finite_imageI finite_lessThan le_trans)
  then show ?thesis by simp
qed

lemma ecmp_dist_spec:
  assumes "valid_edges n edges" "n \<le> 40000" "i < n" "j < n"
  shows "dget n (ecmp_dist n edges) i j =
    (if reachable (links edges) i j then int (hops (links edges) i j) else infinite_distance)"
proof -
  let ?E = "links edges" and ?D = "dget n (ecmp_dist n edges) i j"
  have c: "complete_upto n ?E n (ecmp_dist n edges)" and s: "sound n ?E (ecmp_dist n edges)"
    unfolding ecmp_dist_def
    by (simp_all add: complete_floyd complete_initial sound_floyd sound_initial assms(1))
  have S: "0 \<le> ?D" "?D \<le> infinite_distance" "?D < infinite_distance \<Longrightarrow> (i, j) \<in> ?E ^^ nat ?D"
    using s assms(3,4) by (auto simp: sound_def)
  show ?thesis
  proof (cases "reachable ?E i j")
    case True
    have "via ?E n i j (hops ?E i j)"
      by (rule relpow_via [OF _ hops_relpow [OF True]]) (use links_bound [OF assms(1)] in blast)
    then have "?D \<le> int (hops ?E i j)" using c assms(3,4) by (simp add: complete_upto_def)
    moreover have "hops ?E i j < n"
      by (rule hops_less) (use links_bound [OF assms(1)] assms(3) True in auto)
    ultimately have "?D < infinite_distance" using assms(2) by (simp add: infinite_distance_def)
    then have "hops ?E i j \<le> nat ?D" using S(3) by (intro hops_le)
    then show ?thesis using \<open>?D \<le> int (hops ?E i j)\<close> S(1) True by simp
  next
    case False
    then have "\<not> ?D < infinite_distance" using S(3) by (auto simp: reachable_def)
    then show ?thesis using S(2) False by simp
  qed
qed

text \<open>
  C9. For at most 40000 nodes and edges as the topology provides them, every cell of the
  Floyd-Warshall array is the hop distance of its two nodes, or 100000000 when no walk connects
  them, and the sum of any two cells fits the 32-bit integers the code computes it in.
\<close>

theorem ecmp_dist_correct:
  assumes "valid_edges n edges" "n \<le> 40000" "i < n" "j < n" "k < n"
  shows "dget n (ecmp_dist n edges) i j =
      (if reachable (links edges) i j then int (hops (links edges) i j) else infinite_distance) \<and>
    in_int32 (dget n (ecmp_dist n edges) i k + dget n (ecmp_dist n edges) k j)"
proof -
  have r: "0 \<le> dget n (ecmp_dist n edges) a b \<and> dget n (ecmp_dist n edges) a b \<le> infinite_distance"
    if "a < n" "b < n" for a b
    using sound_floyd [OF sound_initial [OF assms(1)]] that unfolding ecmp_dist_def sound_def by blast
  have "in_int32 (dget n (ecmp_dist n edges) i k + dget n (ecmp_dist n edges) k j)"
    using r [of i k] r [of k j] assms(3-5) by (simp add: in_int32_def infinite_distance_def)
  then show ?thesis using ecmp_dist_spec [OF assms(1-4)] by blast
qed

theorem ecmp_dist_correct_witness:
  "dget 4 (ecmp_dist 4 [(0, 1), (1, 2)]) 0 2 = int (hops (links [(0, 1), (1, 2)]) 0 2) \<and>
   dget 4 (ecmp_dist 4 [(0, 1), (1, 2)]) 0 3 = 100000000"
proof -
  have v: "valid_edges 4 [(0, 1), (1, 2)]" by code_simp
  have d: "dget 4 (ecmp_dist 4 [(0, 1), (1, 2)]) 0 2 = 2" "dget 4 (ecmp_dist 4 [(0, 1), (1, 2)]) 0 3 = 100000000"
    by code_simp+
  show ?thesis
    using ecmp_dist_correct [OF v, of 0 2 1] d by (auto simp: infinite_distance_def split: if_splits)
qed

section \<open>The candidates\<close>

definition closer :: "nat \<Rightarrow> int list \<Rightarrow> nat \<Rightarrow> nat \<Rightarrow> nat \<times> nat \<Rightarrow> nat list" where
  "closer n d i t = (\<lambda>(a, b). if a = i \<and> dget n d a t - 1 = dget n d b t then [b]
     else if b = i \<and> dget n d b t - 1 = dget n d a t then [a] else [])"

definition square :: "nat \<Rightarrow> candidates \<Rightarrow> bool" where
  "square n c \<longleftrightarrow> length c = n \<and> (\<forall>row \<in> set c. length row = n)"

lemma square_push: "square n c \<Longrightarrow> a < n \<Longrightarrow> square n (push_candidate a j b c)"
  by (auto simp: square_def push_candidate_def dest!: in_set_conv_nth [THEN iffD1])
    (auto simp: nth_list_update split: if_splits)

lemma nth_push:
  "square n c \<Longrightarrow> a < n \<Longrightarrow> j < n \<Longrightarrow> x < n \<Longrightarrow> y < n \<Longrightarrow>
   push_candidate a j b c ! x ! y = c ! x ! y @ (if x = a \<and> y = j then [b] else [])"
  by (auto simp: square_def push_candidate_def nth_list_update)

lemma edge_step:
  assumes "square n c" "a < n" "b < n" "a \<noteq> b" "j < n"
  shows "square n (edge_candidates n d (a, b) j c) \<and> (\<forall>x < n. \<forall>y < n.
    edge_candidates n d (a, b) j c ! x ! y = c ! x ! y @ (if y = j then closer n d x y (a, b) else []))"
  using assms by (auto simp: edge_candidates_def Let_def square_push nth_push closer_def)

lemma edge_loop:
  assumes "square n c" "a < n" "b < n" "a \<noteq> b" "m \<le> n"
  shows "square n (fold (edge_candidates n d (a, b)) [0..<m] c) \<and> (\<forall>x < n. \<forall>y < n.
    fold (edge_candidates n d (a, b)) [0..<m] c ! x ! y = c ! x ! y @ (if y < m then closer n d x y (a, b) else []))"
  using assms(5)
proof (induction m)
  case (Suc m)
  let ?c = "fold (edge_candidates n d (a, b)) [0..<m] c"
  have "square n ?c" and ih: "\<And>x y. x < n \<Longrightarrow> y < n \<Longrightarrow> ?c ! x ! y = c ! x ! y @ (if y < m then closer n d x y (a, b) else [])"
    using Suc by auto
  from edge_step [OF this(1) assms(2-4), of m d] Suc.prems ih show ?case by (simp add: less_Suc_eq)
qed (use assms in simp)

lemma all_candidates_spec:
  assumes "list_all (\<lambda>(a, b). a < b \<and> b < n) edges"
  shows "square n (all_candidates n d edges) \<and> (\<forall>x < n. \<forall>y < n.
    all_candidates n d edges ! x ! y = concat (map (closer n d x y) edges))"
  using assms
proof (induction edges rule: rev_induct)
  case Nil
  then show ?case by (auto simp: all_candidates_def square_def)
next
  case (snoc e edges)
  obtain a b where e: "e = (a, b)" by fastforce
  have "all_candidates n d (edges @ [e]) = fold (edge_candidates n d e) [0..<n] (all_candidates n d edges)"
    by (simp add: all_candidates_def)
  then show ?case
    using snoc e edge_loop [of n "all_candidates n d edges" a b n d] by simp
qed

lemma set_closer:
  "set (concat (map (closer n d i t) edges)) = {b. (i, b) \<in> links edges \<and> dget n d i t - 1 = dget n d b t}"
proof (induction edges)
  case (Cons e edges)
  obtain a b where e: "e = (a, b)" by fastforce
  have "set (closer n d i t (a, b)) = {x. (i, x) \<in> {(a, b), (b, a)} \<and> dget n d i t - 1 = dget n d x t}"
    by (auto simp: closer_def)
  moreover have "links (e # edges) = {(a, b), (b, a)} \<union> links edges"
    by (auto simp: links_def e)
  ultimately show ?case using Cons e by auto
qed (simp add: links_def)

lemma distinct_closer: "valid_edges n edges \<Longrightarrow> distinct (concat (map (closer n d i t) edges))"
proof (induction edges rule: rev_induct)
  case (snoc e edges)
  obtain a b where e: "e = (a, b)" by fastforce
  have v: "valid_edges n edges" "(a, b) \<notin> set edges" "a < b" and n: "(b, a) \<notin> set edges"
    using snoc.prems e by (auto simp: valid_edges_def list_all_iff)
  have "(a, b) \<notin> links edges" "(b, a) \<notin> links edges" using v(2) n by (auto simp: links_def)
  moreover have "distinct (closer n d i t (a, b))" by (simp add: closer_def)
  moreover have "x \<in> set (closer n d i t (a, b)) \<Longrightarrow> (i, x) \<in> {(a, b), (b, a)}" for x
    by (auto simp: closer_def split: if_splits)
  ultimately show ?case
    using snoc.IH [OF v(1)] set_closer [of n d i t edges] e by auto
qed simp

lemma hops_step: "(a, b) \<in> E \<Longrightarrow> reachable E b t \<Longrightarrow> reachable E a t \<and> hops E a t \<le> Suc (hops E b t)"
proof -
  assume ab: "(a, b) \<in> E" and b: "reachable E b t"
  have "(a, t) \<in> E ^^ Suc (hops E b t)"
    using relpow_Suc_I2 [OF ab hops_relpow [OF b]] .
  then show ?thesis unfolding reachable_def by (blast intro: hops_le)
qed

lemma hops_next:
  assumes "reachable E i t" "i \<noteq> t"
  shows "\<exists>b. (i, b) \<in> E \<and> reachable E b t \<and> hops E i t = Suc (hops E b t)"
proof -
  obtain m where m: "hops E i t = Suc m"
    using hops_relpow [OF assms(1)] assms(2) by (cases "hops E i t") auto
  obtain b where b: "(i, b) \<in> E" "(b, t) \<in> E ^^ m"
    using hops_relpow [OF assms(1)] unfolding m by (meson relpow_Suc_D2)
  then have r: "reachable E b t" by (auto simp: reachable_def)
  have "hops E b t = m" using hops_le [OF b(2)] hops_step [OF b(1) r] m by simp
  then show ?thesis using b r m by blast
qed

lemma hops_self [simp]: "hops E t t = 0"
  using hops_le [where i = t and j = t and m = 0 and E = E] by simp

lemma ecmp_candidates_spec:
  assumes "calculate_global_state n edges = Inr c" "valid_edges n edges" "i < n" "t < n"
  shows "distinct (c ! i ! t) \<and> set (c ! i ! t) =
    {b. (i, b) \<in> links edges \<and> reachable (links edges) b t \<and> Suc (hops (links edges) b t) = hops (links edges) i t}"
proof -
  let ?E = "links edges" and ?d = "ecmp_dist n edges"
  have n: "n \<le> 40000" and c: "c = all_candidates n ?d edges"
    using assms(1) by (auto simp: calculate_global_state_def split: if_splits)
  have ct: "c ! i ! t = concat (map (closer n ?d i t) edges)"
    using all_candidates_spec [of n edges ?d] assms(2-4) c by (auto simp: valid_edges_def)
  have "dget n ?d i t - 1 = dget n ?d b t \<longleftrightarrow> reachable ?E b t \<and> Suc (hops ?E b t) = hops ?E i t"
    if "(i, b) \<in> ?E" for b
  proof -
    have "b < n" using links_bound [OF assms(2) that] by simp
    moreover have "reachable ?E i t \<longleftrightarrow> reachable ?E b t"
      using hops_step that links_sym by blast
    ultimately show ?thesis
      using ecmp_dist_spec [OF assms(2) n] assms(3,4) by auto
  qed
  then have "set (c ! i ! t) = {b. (i, b) \<in> ?E \<and> reachable ?E b t \<and> Suc (hops ?E b t) = hops ?E i t}"
    unfolding ct set_closer by blast
  then show ?thesis using distinct_closer [OF assms(2)] ct by simp
qed

text \<open>
  C7. The candidate next hops of a node towards a target are, without repetition, exactly its
  neighbours from which the target is reachable in one hop less.
\<close>

theorem ecmp_candidates_correct:
  assumes "calculate_global_state n edges = Inr c" "valid_edges n edges" "i < n" "t < n"
  shows "distinct (c ! i ! t) \<and> set (c ! i ! t) =
    {b. (i, b) \<in> links edges \<and> reachable (links edges) b t \<and> Suc (hops (links edges) b t) = hops (links edges) i t}"
  using assms by (rule ecmp_candidates_spec)

theorem ecmp_candidates_correct_witness:
  "Suc (hops (links [(0, 1), (0, 2), (1, 3), (2, 3)]) 2 3) = hops (links [(0, 1), (0, 2), (1, 3), (2, 3)]) 0 3"
proof -
  let ?e = "[(0, 1), (0, 2), (1, 3), (2, 3)] :: (nat \<times> nat) list"
  have v: "valid_edges 4 ?e" by code_simp
  have c: "calculate_global_state 4 ?e = Inr (all_candidates 4 (ecmp_dist 4 ?e) ?e)"
    by (simp add: calculate_global_state_def)
  have "all_candidates 4 (ecmp_dist 4 ?e) ?e ! 0 ! 3 = [1, 2]" by code_simp
  with ecmp_candidates_correct [OF c v, of 0 3] show ?thesis by auto
qed

text \<open>One forwarding step towards a target picks any of the candidates.\<close>

definition next_hops :: "candidates \<Rightarrow> nat \<Rightarrow> (nat \<times> nat) set" where
  "next_hops c t = {(i, b). i < length c \<and> b \<in> set (c ! i ! t)}"

lemma square_global_state:
  "calculate_global_state n edges = Inr c \<Longrightarrow> valid_edges n edges \<Longrightarrow> square n c"
  using all_candidates_spec [of n edges "ecmp_dist n edges"]
  by (auto simp: calculate_global_state_def valid_edges_def split: if_splits)

text \<open>
  C2. ECMP forwarding is loop-free and always arrives: whatever candidate each node picks, after
  m steps from a node that can reach the target the packet is exactly m hops closer, so it never
  takes more steps than the hop distance, and the only node with no candidate is the target.
\<close>

theorem ecmp_forwarding_loop_free:
  assumes "calculate_global_state n edges = Inr c" "valid_edges n edges" "i < n" "t < n"
    and "reachable (links edges) i t" "(i, x) \<in> next_hops c t ^^ m"
  shows "m \<le> hops (links edges) i t \<and> hops (links edges) x t = hops (links edges) i t - m \<and>
    (c ! x ! t = [] \<longleftrightarrow> x = t)"
proof -
  let ?E = "links edges"
  note cand = ecmp_candidates_spec [OF assms(1,2) _ assms(4)]
  have len: "length c = n" using square_global_state [OF assms(1,2)] by (simp add: square_def)
  have walk: "x < n \<and> reachable ?E x t \<and> hops ?E i t = m + hops ?E x t"
    using assms(6)
  proof (induction m arbitrary: x)
    case 0
    then show ?case using assms(3,5) by simp
  next
    case (Suc m)
    then obtain y where y: "(i, y) \<in> next_hops c t ^^ m" "(y, x) \<in> next_hops c t" by auto
    have ih: "y < n" "hops ?E i t = m + hops ?E y t" using Suc.IH [OF y(1)] by auto
    have "x \<in> set (c ! y ! t)" using y(2) by (simp add: next_hops_def)
    then have "(y, x) \<in> ?E" "reachable ?E x t" "Suc (hops ?E x t) = hops ?E y t"
      using cand [OF ih(1)] by auto
    then show ?case using ih links_bound [OF assms(2)] by auto
  qed
  have "c ! x ! t = [] \<longleftrightarrow> x = t"
  proof (cases "x = t")
    case True
    then show ?thesis using cand [of x] walk by (auto simp: set_empty [symmetric] simp del: set_empty)
  next
    case False
    obtain b where "(x, b) \<in> ?E" "reachable ?E b t" "hops ?E x t = Suc (hops ?E b t)"
      using hops_next [of ?E x t] walk False by blast
    then have "b \<in> set (c ! x ! t)" using cand [of x] walk by auto
    then show ?thesis using False by auto
  qed
  then show ?thesis using walk by simp
qed

theorem ecmp_forwarding_loop_free_witness:
  "hops (links [(0, 1), (0, 2), (1, 3), (2, 3)]) 2 3 = hops (links [(0, 1), (0, 2), (1, 3), (2, 3)]) 0 3 - 1"
proof -
  let ?e = "[(0, 1), (0, 2), (1, 3), (2, 3)] :: (nat \<times> nat) list"
  have v: "valid_edges 4 ?e" by code_simp
  let ?c = "all_candidates 4 (ecmp_dist 4 ?e) ?e"
  have c: "calculate_global_state 4 ?e = Inr ?c"
    by (simp add: calculate_global_state_def)
  have cs: "length ?c = 4" "?c ! 0 ! 3 = [1, 2]" by code_simp+
  have "(0, 2) \<in> links ?e" "(2, 3) \<in> links ?e" by (simp_all add: links_def)
  then have r: "reachable (links ?e) 0 3"
    unfolding reachable_def by (intro exI [of _ 2]) (auto simp: numeral_2_eq_2)
  have "(0, 2) \<in> next_hops ?c 3 ^^ 1" using cs by (simp add: next_hops_def)
  from ecmp_forwarding_loop_free [OF c v _ _ r this] show ?thesis by simp
qed

text \<open>No candidate is left towards an unreachable target.\<close>

lemma ecmp_unreachable_empty:
  assumes "calculate_global_state n edges = Inr c" "valid_edges n edges" "i < n" "t < n"
    "\<not> reachable (links edges) i t"
  shows "c ! i ! t = []"
proof -
  have "\<not> ((i, b) \<in> links edges \<and> reachable (links edges) b t)" for b
    using hops_step assms(5) by blast
  then show ?thesis using ecmp_candidates_spec [OF assms(1-4)] by (auto simp: set_empty [symmetric] simp del: set_empty)
qed

end
