(* ===== verification/Arbiter_Ecmp.thy ===== *)
theory Arbiter_Ecmp
  imports Arbiter Ecmp
begin

text \<open>
  basic-sim/model/core/arbiter-ptop.cc and arbiter-ecmp.cc: the arbiter that forwards over
  point-to-point links by equal-cost multi-path. It provides \<open>routing_arbiter\<close>; with the
  candidates of \<open>Ecmp\<close> its decisions are shown to go one hop closer to the target.
\<close>

section \<open>ArbiterPtop\<close>

text \<open>
  What the arbiter reads of the topology: the number of nodes, the undirected edges and, for
  each, the interface index on either side.
\<close>

record ptop_topology =
  pt_num_nodes :: nat
  pt_undirected_edges :: "(nat \<times> nat) list"
  pt_interface_idxs_for_edges :: "(nat \<times> nat) list"

definition save_neighbor_interface :: "nat \<Rightarrow> (nat \<times> nat) \<times> (nat \<times> nat) \<Rightarrow> nat list \<Rightarrow> nat list" where
  "save_neighbor_interface node e m =
     (let edge = fst e; idxs = snd e in
      if fst edge = node then m[snd edge := fst idxs]
      else if snd edge = node then m[fst edge := snd idxs]
      else m)"

definition neighbor_node_id_to_if_idx :: "nat \<Rightarrow> ptop_topology \<Rightarrow> nat list" where
  "neighbor_node_id_to_if_idx node topo =
     fold (save_neighbor_interface node) (zip (pt_undirected_edges topo) (pt_interface_idxs_for_edges topo))
       (replicate (pt_num_nodes topo) 0)"

record ecmp_arbiter =
  ea_node_id :: nat
  ea_num_nodes :: nat
  ea_neighbor_if_idx :: "nat list"
  ea_candidate_list :: "nat list list"
  ea_hash_input_buff :: "nat list"
  ea_interfaces :: nat

text \<open>
  Decide, over the selection \<open>selected\<close> that the subclass makes (-1 is none). A neighbour's
  interface index is 0 when the selected node is not a neighbour.
\<close>

definition ptop_decide :: "ecmp_arbiter \<Rightarrow> int \<Rightarrow> arbiter_result res" where
  "ptop_decide a selected =
     (if selected \<noteq> -1
      then (if selected < 0 \<or> int (ea_num_nodes a) \<le> selected
            then Inl (Runtime_error (''The selected next node '' @ show_int selected @ '' is out of node id range''))
            else let idx = ea_neighbor_if_idx a ! nat selected in
              if idx = 0
              then Inl (Runtime_error (''The selected next node '' @ show_int selected @ '' is not a neighbor of node ''
                     @ show_nat (ea_node_id a)))
              else Inr (arbiter_result_of False idx 0))
      else Inr (arbiter_result_of True 0 0))"

section \<open>ArbiterEcmp\<close>

text \<open>
  The hash input is 17 bytes that stay in the arbiter between calls. \<open>memcpy\<close> copies the bytes
  of a number as the machine stores it, least significant first.
\<close>

definition le_bytes :: "nat \<Rightarrow> nat \<Rightarrow> nat list" where
  "le_bytes k x = map (\<lambda>i. x div 256 ^ i mod 256) [0..<k]"

definition memcpy :: "nat \<Rightarrow> nat list \<Rightarrow> nat list \<Rightarrow> nat list" where
  "memcpy off bs buf = take off buf @ bs @ drop (off + length bs) buf"

definition hash_ports :: "packet \<Rightarrow> nat \<Rightarrow> bool \<Rightarrow> nat list" where
  "hash_ports pkt protocol no_other_headers =
     (if no_other_headers then [0, 0, 0, 0]
      else if protocol = 17 then le_bytes 2 (fst (pkt_udp_ports pkt)) @ le_bytes 2 (snd (pkt_udp_ports pkt))
      else if protocol = 6 then le_bytes 2 (fst (pkt_tcp_ports pkt)) @ le_bytes 2 (snd (pkt_tcp_ports pkt))
      else [0, 0, 0, 0])"

text \<open>The buffer after ComputeFiveTupleHash has filled it in; the hash is \<open>Hasher::GetHash32\<close> of it.\<close>

definition fill_hash_input :: "nat \<Rightarrow> ip_header \<Rightarrow> packet \<Rightarrow> bool \<Rightarrow> nat list \<Rightarrow> nat list" where
  "fill_hash_input node_id hdr pkt no_other_headers buf =
     (let b1 = memcpy 0 (le_bytes 4 node_id) buf;
          b2 = memcpy 4 (le_bytes 4 (hdr_source hdr)) b1;
          b3 = memcpy 8 (le_bytes 4 (hdr_destination hdr)) b2;
          b4 = memcpy 12 (le_bytes 1 (hdr_protocol hdr)) b3
      in memcpy 13 (hash_ports pkt (hdr_protocol hdr) no_other_headers) b4)"

definition compute_five_tuple_hash ::
  "(nat list \<Rightarrow> nat) \<Rightarrow> nat \<Rightarrow> ip_header \<Rightarrow> packet \<Rightarrow> bool \<Rightarrow> nat list \<Rightarrow> nat \<times> nat list" where
  "compute_five_tuple_hash hash32 node_id hdr pkt no_other_headers buf =
     (let buf' = fill_hash_input node_id hdr pkt no_other_headers buf in (hash32 buf', buf'))"

text \<open>\<open>hash % s\<close> is undefined when there is no candidate.\<close>

definition topology_ptop_decide ::
  "(nat list \<Rightarrow> nat) \<Rightarrow> ecmp_arbiter \<Rightarrow> nat \<Rightarrow> packet \<Rightarrow> ip_header \<Rightarrow> bool \<Rightarrow> (ecmp_arbiter \<times> int) res" where
  "topology_ptop_decide hash32 a target_node_id pkt hdr req =
     (let (h, buf) = compute_five_tuple_hash hash32 (ea_node_id a) hdr pkt req (ea_hash_input_buff a);
          hash = h mod 2 ^ 32;
          cands = ea_candidate_list a ! target_node_id;
          s = length cands
      in if s = 0 then Inl (Undefined ''remainder of a division by zero'')
         else Inr (a\<lparr>ea_hash_input_buff := buf\<rparr>, int (cands ! (hash mod s))))"

definition ecmp_decide :: "(nat list \<Rightarrow> nat) \<Rightarrow> ecmp_arbiter decide" where
  "ecmp_decide hash32 a source_node_id target_node_id pkt hdr req =
     bindr (topology_ptop_decide hash32 a target_node_id pkt hdr req) (\<lambda>(a', selected).
     bindr (ptop_decide a' selected) (\<lambda>r. Inr (a', r)))"

text \<open>The arbiter ArbiterEcmpHelper installs on a node, with whatever the new buffer holds.\<close>

definition ecmp_create :: "nat \<Rightarrow> ptop_topology \<Rightarrow> candidates \<Rightarrow> nat \<Rightarrow> nat list \<Rightarrow> ecmp_arbiter" where
  "ecmp_create node topo state interfaces buf =
     \<lparr>ea_node_id = node, ea_num_nodes = pt_num_nodes topo,
      ea_neighbor_if_idx = neighbor_node_id_to_if_idx node topo, ea_candidate_list = state ! node,
      ea_hash_input_buff = buf, ea_interfaces = interfaces\<rparr>"

section \<open>The hash input\<close>

lemma length_le_bytes [simp]: "length (le_bytes k x) = k"
  by (simp add: le_bytes_def)

lemma length_hash_ports [simp]: "length (hash_ports pkt p b) = 4"
  by (simp add: hash_ports_def)

lemma memcpy_at_end: "length done = off \<Longrightarrow> memcpy off bs (done @ rest) = (done @ bs) @ drop (length bs) rest"
  by (simp add: memcpy_def)

lemma fill_hash_input_eq:
  assumes "length buf = 17"
  shows "fill_hash_input node_id hdr pkt b buf =
    le_bytes 4 node_id @ le_bytes 4 (hdr_source hdr) @ le_bytes 4 (hdr_destination hdr) @
    le_bytes 1 (hdr_protocol hdr) @ hash_ports pkt (hdr_protocol hdr) b"
proof -
  have "memcpy 0 (le_bytes 4 node_id) buf = le_bytes 4 node_id @ drop 4 buf"
    by (simp add: memcpy_def)
  then show ?thesis
    using assms by (simp add: fill_hash_input_def Let_def memcpy_at_end del: append_assoc)
qed

text \<open>
  Packets of one flow stay on one path: two packets with the same addresses, protocol and
  ports get the same next hop at a node, whatever was hashed there in between.
\<close>

theorem ecmp_flow_stability:
  assumes "length (ea_hash_input_buff a) = 17" "length buf = 17"
    and "hdr_source hdr = hdr_source hdr'" "hdr_destination hdr = hdr_destination hdr'"
    and "hdr_protocol hdr = hdr_protocol hdr'"
    and "pkt_udp_ports pkt = pkt_udp_ports pkt'" "pkt_tcp_ports pkt = pkt_tcp_ports pkt'"
  shows "map_sum id snd (ecmp_decide hash32 (a\<lparr>ea_hash_input_buff := buf\<rparr>) src' tgt pkt' hdr' req) =
    map_sum id snd (ecmp_decide hash32 a src tgt pkt hdr req)"
proof -
  have "fill_hash_input n hdr' pkt' req buf = fill_hash_input n hdr pkt req (ea_hash_input_buff a)" for n
    using assms by (simp add: fill_hash_input_eq hash_ports_def)
  then show ?thesis
    by (auto simp: ecmp_decide_def topology_ptop_decide_def compute_five_tuple_hash_def Let_def
        ptop_decide_def bindr_def split: sum.split)
qed

lemma save_neighbor_interface_step:
  "save_neighbor_interface node ((c, d), (y, w)) m =
     (if c = node then m[d := y] else if d = node then m[c := w] else m)"
  by (simp add: save_neighbor_interface_def Let_def)

theorem ecmp_flow_stability_witness:
  "map_sum id snd (ecmp_decide sum_list (ecmp_create 0
       \<lparr>pt_num_nodes = 2, pt_undirected_edges = [(0, 1)], pt_interface_idxs_for_edges = [(1, 1)]\<rparr>
       [[[], [1]], [[0], []]] 2 (replicate 17 7)) 0 1 \<lparr>pkt_udp_ports = (1, 2), pkt_tcp_ports = (0, 0)\<rparr>
       \<lparr>hdr_source = 5, hdr_destination = 6, hdr_protocol = 17\<rparr> False) = Inr (arbiter_result_of False 1 0)"
proof -
  let ?a = "ecmp_create 0 \<lparr>pt_num_nodes = 2, pt_undirected_edges = [(0, 1)], pt_interface_idxs_for_edges = [(1, 1)]\<rparr>
       [[[], [1]], [[0], []]] 2 (replicate 17 (0::nat))"
  let ?p = "\<lparr>pkt_udp_ports = (1, 2), pkt_tcp_ports = (0, 0)\<rparr>"
  let ?h = "\<lparr>hdr_source = 5, hdr_destination = 6, hdr_protocol = 17\<rparr>"
  have "map_sum id snd (ecmp_decide sum_list ?a 0 1 ?p ?h False) = Inr (arbiter_result_of False 1 0)"
    by (simp add: ecmp_decide_def topology_ptop_decide_def compute_five_tuple_hash_def Let_def ecmp_create_def
        ptop_decide_def neighbor_node_id_to_if_idx_def save_neighbor_interface_step arbiter_result_of_def)
  then show ?thesis
    using ecmp_flow_stability [of ?a "replicate 17 7" ?h ?h ?p ?p sum_list 0 1 False 0]
    by (simp add: ecmp_create_def)
qed

section \<open>The neighbour interfaces\<close>

text \<open>The interface \<open>i\<close> of \<open>node\<close> leads over one edge to \<open>b\<close>.\<close>

definition leads_to :: "ptop_topology \<Rightarrow> nat \<Rightarrow> nat \<Rightarrow> nat \<Rightarrow> bool" where
  "leads_to topo node i b \<longleftrightarrow> (\<exists>x.
     ((node, b), (i, x)) \<in> set (zip (pt_undirected_edges topo) (pt_interface_idxs_for_edges topo)) \<or>
     ((b, node), (x, i)) \<in> set (zip (pt_undirected_edges topo) (pt_interface_idxs_for_edges topo)))"

definition wf_topology :: "ptop_topology \<Rightarrow> bool" where
  "wf_topology topo \<longleftrightarrow> valid_edges (pt_num_nodes topo) (pt_undirected_edges topo) \<and>
     length (pt_interface_idxs_for_edges topo) = length (pt_undirected_edges topo) \<and>
     list_all (\<lambda>(i, j). 0 < i \<and> 0 < j) (pt_interface_idxs_for_edges topo)"

lemma length_save_loop [simp]: "length (fold (save_neighbor_interface node) zs m) = length m"
  by (induction zs arbitrary: m) (auto simp: save_neighbor_interface_def Let_def)

lemma save_loop:
  assumes "distinct (map fst zs)" "list_all (\<lambda>((a, b), _). a < b \<and> b < n) zs" "length m = n"
    and "((node, b), (i, x)) \<in> set zs \<or> ((b, node), (x, i)) \<in> set zs"
  shows "fold (save_neighbor_interface node) zs m ! b = i"
  using assms
proof (induction zs rule: rev_induct)
  case (snoc z zs)
  obtain c d y w where z: "z = ((c, d), (y, w))" by (metis surj_pair)
  have cd: "c < d" "d < n" "(c, d) \<notin> fst ` set zs" using snoc.prems z by (auto simp: list_all_iff)
  let ?m = "fold (save_neighbor_interface node) zs m"
  consider "z = ((node, b), (i, x))" | "z = ((b, node), (x, i))"
    | "((node, b), (i, x)) \<in> set zs \<or> ((b, node), (x, i)) \<in> set zs"
    using snoc.prems(4) by auto
  then show ?case
  proof cases
    case 3
    then have "?m ! b = i" "node < b \<or> b < node" using snoc by (auto simp: list_all_iff)
    moreover have "(c, d) \<noteq> (node, b)" "(c, d) \<noteq> (b, node)"
    proof -
      have "\<forall>e \<in> set zs. fst (fst e) < snd (fst e)" using snoc.prems(2) by (auto simp: list_all_iff)
      with 3 cd show "(c, d) \<noteq> (node, b)" "(c, d) \<noteq> (b, node)" by force+
    qed
    ultimately show ?thesis using z by (auto simp: save_neighbor_interface_step)
  qed (use z cd snoc.prems(3) in \<open>auto simp: save_neighbor_interface_step\<close>)
qed simp

lemma leads_to_interface:
  assumes "wf_topology topo" "leads_to topo node i b"
  shows "neighbor_node_id_to_if_idx node topo ! b = i"
proof -
  let ?zs = "zip (pt_undirected_edges topo) (pt_interface_idxs_for_edges topo)"
  have "map fst ?zs = pt_undirected_edges topo" using assms(1) by (simp add: wf_topology_def)
  moreover have "list_all (\<lambda>((a, b), _). a < b \<and> b < pt_num_nodes topo) ?zs"
    using assms(1) by (auto simp: wf_topology_def valid_edges_def list_all_iff dest!: set_zip_leftD)
  ultimately show ?thesis
    unfolding neighbor_node_id_to_if_idx_def
    using assms save_loop [of ?zs "pt_num_nodes topo" "replicate (pt_num_nodes topo) 0" node b i]
    by (auto simp: leads_to_def wf_topology_def valid_edges_def)
qed

lemma link_leads_to:
  assumes "wf_topology topo" "(node, b) \<in> links (pt_undirected_edges topo)"
  shows "\<exists>i. leads_to topo node i b \<and> 0 < i"
proof -
  let ?es = "pt_undirected_edges topo" and ?is = "pt_interface_idxs_for_edges topo"
  have "\<exists>x y. (e, (x, y)) \<in> set (zip ?es ?is) \<and> 0 < x \<and> 0 < y" if "e \<in> set ?es" for e
  proof -
    obtain k where k: "k < length ?es" "?es ! k = e" using \<open>e \<in> set ?es\<close> by (auto simp: in_set_conv_nth)
    then have "(e, ?is ! k) \<in> set (zip ?es ?is)" "?is ! k \<in> set ?is"
      using assms(1) by (auto simp: wf_topology_def set_zip)
    moreover obtain x y where "?is ! k = (x, y)" by fastforce
    ultimately show ?thesis using assms(1) by (fastforce simp: wf_topology_def list_all_iff)
  qed
  then show ?thesis using assms(2) by (fastforce simp: links_def leads_to_def)
qed

section \<open>Decisions go one hop closer\<close>

lemma ecmp_decide_spec:
  assumes "wf_topology topo" "calculate_global_state (pt_num_nodes topo) (pt_undirected_edges topo) = Inr state"
    and "node < pt_num_nodes topo" "tgt < pt_num_nodes topo"
  shows "if tgt = node \<or> \<not> reachable (links (pt_undirected_edges topo)) node tgt
    then ecmp_decide hash32 (ecmp_create node topo state ifs buf) src tgt pkt hdr req =
      Inl (Undefined ''remainder of a division by zero'')
    else \<exists>a' i b. ecmp_decide hash32 (ecmp_create node topo state ifs buf) src tgt pkt hdr req =
        Inr (a', arbiter_result_of False i 0) \<and> leads_to topo node i b \<and>
        Suc (hops (links (pt_undirected_edges topo)) b tgt) = hops (links (pt_undirected_edges topo)) node tgt"
proof -
  let ?E = "links (pt_undirected_edges topo)" and ?n = "pt_num_nodes topo"
  let ?cs = "state ! node ! tgt" and ?a = "ecmp_create node topo state ifs buf"
  have v: "valid_edges ?n (pt_undirected_edges topo)" using assms(1) by (simp add: wf_topology_def)
  note cand = ecmp_candidates_spec [OF assms(2) v assms(3,4)]
  have empty: "?cs = [] \<longleftrightarrow> tgt = node \<or> \<not> reachable ?E node tgt"
  proof
    assume "?cs = []"
    then show "tgt = node \<or> \<not> reachable ?E node tgt"
      using cand hops_next [of ?E node tgt] by (auto simp: eq_commute [of "Suc _"])
  next
    assume "tgt = node \<or> \<not> reachable ?E node tgt"
    then show "?cs = []"
      using cand ecmp_unreachable_empty [OF assms(2) v assms(3,4)]
      by (auto simp: set_empty [symmetric] simp del: set_empty)
  qed
  show ?thesis
  proof (cases "?cs = []")
    case True
    then show ?thesis
      using empty by (simp add: ecmp_decide_def topology_ptop_decide_def Let_def ecmp_create_def split: prod.split)
  next
    case False
    obtain h buf' where h: "compute_five_tuple_hash hash32 node hdr pkt req buf = (h, buf')" by fastforce
    define b where "b = ?cs ! (h mod 4294967296 mod length ?cs)"
    have "b \<in> set ?cs" using False by (simp add: b_def)
    then have b: "(node, b) \<in> ?E" "Suc (hops ?E b tgt) = hops ?E node tgt" using cand by auto
    obtain i where i: "leads_to topo node i b" "0 < i" using link_leads_to [OF assms(1) b(1)] by blast
    have "b < ?n" using links_bound [OF v b(1)] by simp
    then have "ecmp_decide hash32 ?a src tgt pkt hdr req =
        Inr (?a\<lparr>ea_hash_input_buff := buf'\<rparr>, arbiter_result_of False i 0)"
      using leads_to_interface [OF assms(1) i(1)] i(2) False h
      by (simp add: ecmp_decide_def topology_ptop_decide_def ptop_decide_def Let_def ecmp_create_def b_def [symmetric])
    then show ?thesis using False empty i(1) b(2) by auto
  qed
qed

text \<open>
  The ECMP arbiter of a node, asked for a target that is another node it can reach, always
  decides, with no gateway, for the interface of an edge to a neighbour that is exactly one hop
  closer to the target, whatever the hash function and the packet.
\<close>

theorem ecmp_decide_one_hop_closer:
  assumes "wf_topology topo" "calculate_global_state (pt_num_nodes topo) (pt_undirected_edges topo) = Inr state"
    and "node < pt_num_nodes topo" "tgt < pt_num_nodes topo"
    and "tgt \<noteq> node" "reachable (links (pt_undirected_edges topo)) node tgt"
  shows "\<exists>a' i b. ecmp_decide hash32 (ecmp_create node topo state ifs buf) src tgt pkt hdr req =
      Inr (a', arbiter_result_of False i 0) \<and> leads_to topo node i b \<and>
      Suc (hops (links (pt_undirected_edges topo)) b tgt) = hops (links (pt_undirected_edges topo)) node tgt"
  using ecmp_decide_spec [OF assms(1-4)] assms(5,6) by presburger

definition line_topology :: ptop_topology where
  "line_topology = \<lparr>pt_num_nodes = 4, pt_undirected_edges = [(0, 1), (1, 2)],
     pt_interface_idxs_for_edges = [(1, 1), (2, 1)]\<rparr>"

lemma line_topology_wf: "wf_topology line_topology"
  by code_simp

lemma line_topology_state:
  "calculate_global_state (pt_num_nodes line_topology) (pt_undirected_edges line_topology) =
     Inr [[[], [1], [1], []], [[0], [], [2], []], [[1], [1], [], []], [[], [], [], []]]"
proof -
  have "all_candidates 4 (ecmp_dist 4 [(0, 1), (1, 2)]) [(0, 1), (1, 2)] =
      [[[], [1], [1], []], [[0], [], [2], []], [[1], [1], [], []], [[], [], [], []]]"
    by code_simp
  then show ?thesis by (simp add: calculate_global_state_def line_topology_def)
qed

lemma line_topology_reachable: "reachable (links (pt_undirected_edges line_topology)) 0 2"
proof -
  have "(0, 1) \<in> links (pt_undirected_edges line_topology)" "(1, 2) \<in> links (pt_undirected_edges line_topology)"
    by (simp_all add: links_def line_topology_def)
  then show ?thesis unfolding reachable_def by (intro exI [of _ 2]) (auto simp: numeral_2_eq_2)
qed

theorem ecmp_decide_one_hop_closer_witness:
  "\<exists>a' i. ecmp_decide sum_list (ecmp_create 0 line_topology
     [[[], [1], [1], []], [[0], [], [2], []], [[1], [1], [], []], [[], [], [], []]] 2 (replicate 17 0)) 0 2
     \<lparr>pkt_udp_ports = (1, 2), pkt_tcp_ports = (0, 0)\<rparr> \<lparr>hdr_source = 5, hdr_destination = 6, hdr_protocol = 17\<rparr> False
     = Inr (a', arbiter_result_of False i 0)"
  using ecmp_decide_one_hop_closer [OF line_topology_wf line_topology_state, of 0 2] line_topology_reachable
  by (simp add: line_topology_def) blast

text \<open>
  C15. Asked for a node it cannot reach, or for its own node, the ECMP arbiter divides by zero:
  it takes the hash modulo an empty candidate list instead of reporting that there is no route.
\<close>

theorem ecmp_decide_no_candidate:
  assumes "wf_topology topo" "calculate_global_state (pt_num_nodes topo) (pt_undirected_edges topo) = Inr state"
    and "node < pt_num_nodes topo" "tgt < pt_num_nodes topo"
    and "\<not> (tgt \<noteq> node \<and> reachable (links (pt_undirected_edges topo)) node tgt)"
  shows "ecmp_decide hash32 (ecmp_create node topo state ifs buf) src tgt pkt hdr req =
    Inl (Undefined ''remainder of a division by zero'')"
  using ecmp_decide_spec [OF assms(1-4)] assms(5) by presburger

theorem ecmp_decide_no_candidate_witness:
  "ecmp_decide sum_list (ecmp_create 1 line_topology
     [[[], [1], [1], []], [[0], [], [2], []], [[1], [1], [], []], [[], [], [], []]] 3 (replicate 17 0)) 1 1
     \<lparr>pkt_udp_ports = (1, 2), pkt_tcp_ports = (0, 0)\<rparr> \<lparr>hdr_source = 5, hdr_destination = 6, hdr_protocol = 17\<rparr> False
     = Inl (Undefined ''remainder of a division by zero'')"
  using ecmp_decide_no_candidate [OF line_topology_wf line_topology_state, of 1 1]
  by (simp add: line_topology_def)

section \<open>The ECMP arbiter provides the routing interface\<close>

definition ecmp_good :: "ecmp_arbiter \<Rightarrow> bool" where
  "ecmp_good a \<longleftrightarrow> length (ea_neighbor_if_idx a) = ea_num_nodes a \<and>
     list_all (\<lambda>i. i < ea_interfaces a) (ea_neighbor_if_idx a)"

lemma ecmp_decide_cases:
  "ecmp_decide hash32 a src tgt pkt hdr req = Inr (a', r) \<Longrightarrow>
   (\<exists>buf. a' = a\<lparr>ea_hash_input_buff := buf\<rparr>) \<and>
   (ar_failed r \<or> (\<exists>b < ea_num_nodes a. ar_out_if_idx r = ea_neighbor_if_idx a ! b \<and> ar_out_if_idx r \<noteq> 0))"
  by (auto simp: ecmp_decide_def topology_ptop_decide_def ptop_decide_def arbiter_result_of_def Let_def res_simps
      split: if_splits prod.splits)
    (metis linorder_not_le)

interpretation ecmp: routing_arbiter "ecmp_decide hash32" ecmp_good ea_interfaces ea_num_nodes for hash32
proof
  fix s tgt src pkt hdr req s' r
  assume g: "ecmp_good s" and d: "ecmp_decide hash32 s src tgt pkt hdr req = Inr (s', r)"
  note c = ecmp_decide_cases [OF d]
  show "ecmp_good s' \<and> ea_interfaces s' = ea_interfaces s \<and> ea_num_nodes s' = ea_num_nodes s"
    using c g by (auto simp: ecmp_good_def)
  show "0 < ar_out_if_idx r \<and> ar_out_if_idx r < ea_interfaces s" if "\<not> ar_failed r"
    using c g that by (auto simp: ecmp_good_def list_all_length)
qed

lemma ecmp_create_buff: "(ecmp_create node topo state ifs buf)\<lparr>ea_hash_input_buff := b\<rparr> = ecmp_create node topo state ifs b"
  by (simp add: ecmp_create_def)

text \<open>
  C14. A lookup through the ECMP arbiter of a node answers for a loop-back address the loop-back
  interface, for an address no node has the error that names it, and for an address of a node that is
  this node itself or that it cannot reach the division by zero. For every other destination it
  answers a route to it, without a gateway, by the interface of a link to a neighbour that is exactly
  one hop closer to the node that owns the address; only the hash input buffer of the arbiter changes.
\<close>

theorem ecmp_lookup_route:
  assumes "routing_installed ecmp_good ea_interfaces ea_num_nodes this nodes r"
    and "m_ipv4 r = Some ip4" "m_arbiter r = Some (a, ecmp_create this topo state ifs buf)"
    and "wf_topology topo" "calculate_global_state (pt_num_nodes topo) (pt_undirected_edges topo) = Inr state"
    and "this < length nodes" "\<not> al_is_local_multicast lib dest" "hdr_destination hdr = dest"
  shows "if al_mask_match lib loopback_mask dest loopback_ip
    then lookup_arbiter lib (ecmp_decide hash32) r dest hdr pkt None = Inr (r, Some (route_via ip4 dest 0 0))
    else if source_node this nodes hdr = None
    then lookup_arbiter lib (ecmp_decide hash32) r dest hdr pkt None = Inl (not_mapped (hdr_source hdr))
    else case owner nodes dest of
      None \<Rightarrow> lookup_arbiter lib (ecmp_decide hash32) r dest hdr pkt None = Inl (not_mapped dest)
    | Some tgt \<Rightarrow>
        if tgt = this \<or> \<not> reachable (links (pt_undirected_edges topo)) this tgt
        then lookup_arbiter lib (ecmp_decide hash32) r dest hdr pkt None =
          Inl (Undefined ''remainder of a division by zero'')
        else \<exists>buf' i b. lookup_arbiter lib (ecmp_decide hash32) r dest hdr pkt None =
            Inr (r\<lparr>m_arbiter := Some (a, ecmp_create this topo state ifs buf')\<rparr>, Some (route_via ip4 dest i 0)) \<and>
          0 < i \<and> i < ip4_n_interfaces ip4 \<and> leads_to topo this i b \<and>
          Suc (hops (links (pt_undirected_edges topo)) b tgt) = hops (links (pt_undirected_edges topo)) this tgt"
proof -
  let ?s = "ecmp_create this topo state ifs buf"
  have a: "a = arbiter_create this nodes" and good: "ecmp_good ?s" "ea_interfaces ?s = ip4_n_interfaces ip4"
    and n: "ea_num_nodes ?s = length nodes"
    using assms(1-3) by (auto simp: routing_installed_def)
  have num: "pt_num_nodes topo = length nodes" using n by (simp add: ecmp_create_def)
  note l = lookup_by_owner [OF assms(2) assms(3) [unfolded a] assms(7,8), of "ecmp_decide hash32" pkt]
  show ?thesis
  proof (cases "al_mask_match lib loopback_mask dest loopback_ip \<or> source_node this nodes hdr = None \<or> owner nodes dest = None")
    case True
    then show ?thesis using l by (auto split: option.splits)
  next
    case False
    then obtain src tgt where st: "\<not> al_mask_match lib loopback_mask dest loopback_ip"
        "source_node this nodes hdr = Some src" "owner nodes dest = Some tgt" by auto
    have bounds: "this < pt_num_nodes topo" "tgt < pt_num_nodes topo"
      using assms(6) owner_bound [OF st(3)] num by simp_all
    note d = ecmp_decide_spec [OF assms(4,5) bounds, of hash32 ifs buf src pkt hdr "is_socket_request hdr"]
    show ?thesis
    proof (cases "tgt = this \<or> \<not> reachable (links (pt_undirected_edges topo)) this tgt")
      case True
      then show ?thesis using d l st by simp
    next
      case False
      then obtain a' i b where c: "ecmp_decide hash32 ?s src tgt pkt hdr (is_socket_request hdr) = Inr (a', arbiter_result_of False i 0)"
          "leads_to topo this i b"
          "Suc (hops (links (pt_undirected_edges topo)) b tgt) = hops (links (pt_undirected_edges topo)) this tgt"
        using d by auto
      obtain buf' where "a' = ecmp_create this topo state ifs buf'"
        using ecmp_decide_cases [OF c(1)] by (auto simp: ecmp_create_buff)
      moreover have "0 < i \<and> i < ip4_n_interfaces ip4"
        using ecmp.decide_interface [OF good(1) _ c(1)] good(2) bounds(2) by (simp add: arbiter_result_of_def ecmp_create_def)
      ultimately show ?thesis
        using False l st c by (auto simp: a arbiter_result_of_def)
    qed
  qed
qed

definition line_routing :: "ecmp_arbiter arbiter_routing" where
  "line_routing = \<lparr>m_ipv4 = Some \<lparr>ip4_node_id = 0, ip4_n_interfaces = 2, ip4_addresses = \<lambda>i. [(10, 4294967040)],
       ip4_is_up = \<lambda>_. True, ip4_is_forwarding = \<lambda>_. True, ip4_is_destination = \<lambda>a i. a = 10,
       ip4_source_selection = \<lambda>i a. 10\<rparr>,
     m_arbiter = Some (arbiter_create 0 [[1, 10], [1, 20, 30], [1, 40], [1]],
       ecmp_create 0 line_topology [[[], [1], [1], []], [[0], [], [2], []], [[1], [1], [], []], [[], [], [], []]]
         2 (replicate 17 0))\<rparr>"

theorem ecmp_lookup_route_witness:
  "\<exists>r' i b. lookup_arbiter unicast_library (ecmp_decide sum_list) line_routing 40
      \<lparr>hdr_source = 10, hdr_destination = 40, hdr_protocol = 17\<rparr> \<lparr>pkt_udp_ports = (1, 2), pkt_tcp_ports = (0, 0)\<rparr> None =
      Inr (r', Some (route_via (the (m_ipv4 line_routing)) 40 i 0)) \<and> leads_to line_topology 0 i b"
proof -
  have r: "replicate 4 (0 :: nat) = [0, 0, 0, 0]" by code_simp
  have i: "routing_installed ecmp_good ea_interfaces ea_num_nodes 0 [[1, 10], [1, 20, 30], [1, 40], [1]] line_routing"
    by (simp add: routing_installed_def line_routing_def ecmp_create_def ecmp_good_def line_topology_def
        neighbor_node_id_to_if_idx_def save_neighbor_interface_step r)
  have "owner [[1, 10], [1, 20, 30], [1, 40], [1]] 10 = Some 0" "owner [[1, 10], [1, 20, 30], [1, 40], [1]] 40 = Some 2"
    by (simp_all add: owner_def owned_addresses_def)
  then show ?thesis
    using ecmp_lookup_route [OF i _ _ line_topology_wf line_topology_state, of "the (m_ipv4 line_routing)" _ 2 "replicate 17 0"
        unicast_library 40 "\<lparr>hdr_source = 10, hdr_destination = 40, hdr_protocol = 17\<rparr>" sum_list
        "\<lparr>pkt_udp_ports = (1, 2), pkt_tcp_ports = (0, 0)\<rparr>"] line_topology_reachable
    by (simp add: line_routing_def unicast_library_def loopback_ip_def source_node_def is_socket_request_def) blast
qed

end
