(* ===== verification/Topology_Ptop.thy ===== *)
theory Topology_Ptop
  imports Arbiter_Ecmp Exp_Util "HOL-Library.Product_Lexorder"
begin

text \<open>
  basic-sim: topology-ptop.cc with its default selectors, topology-ptop-queue-selector-default.cc
  and topology-ptop-tc-qdisc-selector-default.cc. A configuration file is parsed into a graph and the
  properties of its links, checked, and built into nodes, links and interfaces. The theorems say
  what a graph that passes the checks satisfies, that the link properties cover exactly the links,
  and that the built topology is one the ECMP routing is correct on (\<open>wf_topology\<close>).

  \<open>std::map\<close> is a list of pairs ascending in the key, \<open>std::set\<close> an ascending list.
\<close>

section \<open>std::map\<close>

fun smap_put :: "'k::linorder \<Rightarrow> 'v \<Rightarrow> ('k \<times> 'v) list \<Rightarrow> ('k \<times> 'v) list" where
  "smap_put k v [] = [(k, v)]"
| "smap_put k v ((k', v') # m) =
     (if k = k' then (k, v) # m else if k < k' then (k, v) # (k', v') # m else (k', v') # smap_put k v m)"

definition is_smap :: "('k::linorder \<times> 'v) list \<Rightarrow> bool" where
  "is_smap m \<longleftrightarrow> is_sset (map fst m)"

lemma is_smap_Nil [simp]: "is_smap []"
  by (simp add: is_smap_def)

lemma is_smap_Cons: "is_smap ((k, v) # m) \<longleftrightarrow> is_smap m \<and> (\<forall>e \<in> set m. k < fst e)"
  by (auto simp: is_smap_def is_sset_def less_le)

lemma keys_smap_put: "fst ` set (smap_put k v m) = insert k (fst ` set m)"
  by (induction k v m rule: smap_put.induct) auto

lemma is_smap_put: "is_smap m \<Longrightarrow> is_smap (smap_put k v m)"
proof (induction k v m rule: smap_put.induct)
  case (2 k v k' v' m)
  have "\<forall>e \<in> set (smap_put k v m). k' < fst e" if "k' < k"
    using that 2(2) keys_smap_put [of k v m] by (fastforce simp: is_smap_Cons)
  with 2 show ?case by (auto simp: is_smap_Cons)
qed (simp add: is_smap_Cons)

lemma map_of_smap_put: "is_smap m \<Longrightarrow> map_of (smap_put k v m) = (map_of m)(k \<mapsto> v)"
  by (induction k v m rule: smap_put.induct) (auto simp: is_smap_Cons fun_eq_iff)

lemma length_smap_put: "k \<notin> fst ` set m \<Longrightarrow> length (smap_put k v m) = Suc (length m)"
  by (induction k v m rule: smap_put.induct) auto

lemma length_smap: "is_smap m \<Longrightarrow> length m = card (fst ` set m)"
  using length_sset [of "map fst m"] by (simp add: is_smap_def)

section \<open>Parsing the graph\<close>

text \<open>
  \<open>ns-3\<close> reads a maximum queue size such as 100p or 1000B as a number of packets (\<open>True\<close>) or bytes.
\<close>

type_synonym queue_size = "nat \<times> bool"

datatype qdisc = Qdisc_disabled | Qdisc_default | Qdisc_fq_codel int int

type_synonym edge = "int \<times> int"

record ptop =
  tp_config :: config
  tp_all_nodes_are_endpoints :: bool
  tp_num_nodes :: int
  tp_num_undirected_edges :: int
  tp_switches :: "int list"
  tp_tors :: "int list"
  tp_servers :: "int list"
  tp_all_node_ids :: "int list"
  tp_undirected_edges :: "edge list"
  tp_undirected_edges_set :: "edge list"
  tp_adjacency_list :: "int list list"
  tp_has_zero_servers :: bool
  tp_delay_ns :: "(edge \<times> int) list"
  tp_data_rate :: "(edge \<times> double) list"
  tp_queue :: "(edge \<times> queue_size) list"
  tp_worst_case_rtt_ns :: int
  tp_qdisc :: "(edge \<times> qdisc) list"

definition ptop_properties :: "string list" where
  "ptop_properties = [''num_nodes'', ''num_undirected_edges'', ''switches'', ''switches_which_are_tors'', ''servers'',
     ''undirected_edges'', ''all_nodes_are_endpoints'', ''link_channel_delay_ns'',
     ''link_device_data_rate_megabit_per_s'', ''link_device_queue'', ''link_interface_traffic_control_qdisc'']"

text \<open>
  Of the simulation the topology reads the run directory, a parameter and, in distributed mode, the
  assignment of nodes to systems.
\<close>

record ptop_sim =
  ps_fs :: fsys
  ps_run_dir :: string
  ps_config :: config
  ps_system_ids :: "int list option"

definition ptop_init :: ptop where
  "ptop_init = \<lparr>tp_config = [], tp_all_nodes_are_endpoints = False, tp_num_nodes = 0, tp_num_undirected_edges = 0,
     tp_switches = [], tp_tors = [], tp_servers = [], tp_all_node_ids = [], tp_undirected_edges = [],
     tp_undirected_edges_set = [], tp_adjacency_list = [], tp_has_zero_servers = False, tp_delay_ns = [],
     tp_data_rate = [], tp_queue = [], tp_worst_case_rtt_ns = 0, tp_qdisc = []\<rparr>"

text \<open>The configuration is a map: its entries are looked at in the order of the keys.\<close>

definition read_topology_config :: "ptop_sim \<Rightarrow> ptop \<Rightarrow> ptop res" where
  "read_topology_config sim t =
     bindr (get_param_or_fail ''topology_ptop_filename'' (ps_config sim)) (\<lambda>name.
     bindr (read_config (ps_fs sim) (ps_run_dir sim @ ''/'' @ name)) (\<lambda>config.
     bindr (foldr_res (\<lambda>entry _. checkr (fst entry \<in> set ptop_properties)
             (Runtime_error (''Invalid topology property: '' @ fst entry))) (sort_key fst config) ()) (\<lambda>_.
     bindr (parse_boolean (get_param_or_default ''all_nodes_are_endpoints'' ''false'' config)) (\<lambda>b.
       Inr (t\<lparr>tp_config := config, tp_all_nodes_are_endpoints := b\<rparr>)))))"

text \<open>A parameter that is a set of node identifiers.\<close>

definition node_set_param :: "string \<Rightarrow> config \<Rightarrow> int \<Rightarrow> int list res" where
  "node_set_param key config num_nodes =
     bindr (get_param_or_fail key config) (\<lambda>tmp.
     bindr (parse_set_positive_int64 tmp) (\<lambda>s.
     bindr (all_items_are_less_than s num_nodes) (\<lambda>_. Inr s)))"

definition parse_edge :: "string \<Rightarrow> ptop \<Rightarrow> ptop res" where
  "parse_edge s t =
     bindr (split_string_n s ''-'' 2) (\<lambda>spl.
     bindr (parse_positive_int64 (spl ! 0)) (\<lambda>a.
     bindr (parse_positive_int64 (spl ! 1)) (\<lambda>b.
     if a = b then Inl (Invalid_argument (''Cannot have edge to itself on node '' @ show_int a))
     else if a \<ge> tp_num_nodes t
     then Inl (Invalid_argument (''Left node identifier in edge does not exist: '' @ show_int a))
     else if b \<ge> tp_num_nodes t
     then Inl (Invalid_argument (''Right node identifier in edge does not exist: '' @ show_int b))
     else if b < a
     then Inl (Invalid_argument (''As a convention, the left node id must be smaller than the right node id: '' @
            show_int a @ ''-'' @ show_int b))
     else let adj = (tp_adjacency_list t)[nat a := insort_insert b (tp_adjacency_list t ! nat a)] in
       Inr (t\<lparr>tp_undirected_edges := tp_undirected_edges t @ [(a, b)],
              tp_undirected_edges_set := insort_insert (a, b) (tp_undirected_edges_set t),
              tp_adjacency_list := adj[nat b := insort_insert a (adj ! nat b)]\<rparr>))))"

text \<open>Servers must be connected to ToRs only.\<close>

definition check_server :: "ptop \<Rightarrow> int \<Rightarrow> unit \<Rightarrow> unit res" where
  "check_server t node_id u =
     foldr_res (\<lambda>neighbor_id _. checkr (neighbor_id \<in> set (tp_tors t))
       (Invalid_argument (''Server node '' @ show_int node_id @ '' has an edge to node '' @ show_int neighbor_id @
         '' which is not a ToR.''))) (tp_adjacency_list t ! nat node_id) ()"

definition check_graph :: "int list option \<Rightarrow> ptop \<Rightarrow> unit res" where
  "check_graph system_ids t =
     bindr (checkr (length (tp_undirected_edges t) = nat (tp_num_undirected_edges t))
       (Invalid_argument ''Indicated number of undirected edges does not match edge set'')) (\<lambda>_.
     bindr (checkr (length (tp_undirected_edges t) = length (tp_undirected_edges_set t))
       (Invalid_argument ''Duplicates in edge set'')) (\<lambda>_.
     bindr (checkr (direct_set_intersection (tp_servers t) (tp_switches t) = [])
       (Invalid_argument ''Server and switch identifiers are not distinct'')) (\<lambda>_.
     bindr (checkr (length (direct_set_union (tp_servers t) (tp_switches t)) = nat (tp_num_nodes t))
       (Invalid_argument ''The servers and switches do not encompass all nodes'')) (\<lambda>_.
     bindr (checkr (length (direct_set_intersection (tp_switches t) (tp_tors t)) = length (tp_tors t))
       (Invalid_argument ''Servers are marked as ToRs'')) (\<lambda>_.
     bindr (foldr_res (check_server t) (tp_servers t) ()) (\<lambda>_.
       case system_ids of None \<Rightarrow> Inr ()
       | Some ids \<Rightarrow> checkr (length ids = nat (tp_num_nodes t))
           (Invalid_argument ''Incorrect amount of node-to-system-id assignments'')))))))"

text \<open>The loop over the nodes counts with an \<open>int\<close>.\<close>

definition parse_topology_graph :: "int list option \<Rightarrow> ptop \<Rightarrow> ptop res" where
  "parse_topology_graph system_ids t =
     (let config = tp_config t in
     bindr (bindr (get_param_or_fail ''num_nodes'' config) parse_positive_int64) (\<lambda>n.
     bindr (bindr (get_param_or_fail ''num_undirected_edges'' config) parse_positive_int64) (\<lambda>m.
     bindr (node_set_param ''switches'' config n) (\<lambda>switches.
     bindr (node_set_param ''switches_which_are_tors'' config n) (\<lambda>tors.
     bindr (node_set_param ''servers'' config n) (\<lambda>servers.
     bindr (checkr (n < 2 ^ 31) (Undefined ''signed overflow'')) (\<lambda>_.
     let t1 = t\<lparr>tp_num_nodes := n, tp_num_undirected_edges := m, tp_switches := switches, tp_tors := tors,
                tp_servers := servers, tp_all_node_ids := map int [0..<nat n],
                tp_adjacency_list := replicate (nat n) []\<rparr> in
     bindr (get_param_or_fail ''undirected_edges'' config) (\<lambda>tmp.
     bindr (parse_set_string tmp) (\<lambda>string_set.
     bindr (foldr_res parse_edge string_set t1) (\<lambda>t2.
     let t3 = t2\<lparr>tp_undirected_edges := sort (tp_undirected_edges t2)\<rparr> in
     bindr (check_graph system_ids t3) (\<lambda>_.
       Inr (t3\<lparr>tp_has_zero_servers := \<not> length servers > 0\<rparr>))))))))))))"

section \<open>Parsing the link properties\<close>

definition put_undirected :: "ptop \<Rightarrow> string \<times> string \<Rightarrow> (edge \<times> string) list \<Rightarrow> (edge \<times> string) list res" where
  "put_undirected t p result =
     bindr (split_string_n (fst p) ''-'' 2) (\<lambda>l.
     bindr (parse_positive_int64 (l ! 0)) (\<lambda>a.
     bindr (parse_positive_int64 (l ! 1)) (\<lambda>b.
     if b < a
     then Inl (Invalid_argument (''As a convention, the left node id must be smaller than the right node id: '' @
            show_int a @ ''-'' @ show_int b))
     else if (a, b) \<in> fst ` set result
     then Inl (Runtime_error (''Duplicate key in undirected edge mapping: '' @ fst p))
     else if (a, b) \<notin> set (tp_undirected_edges_set t)
     then Inl (Runtime_error (''Unknown undirected edge: '' @ fst p))
     else Inr (smap_put (a, b) (snd p) result))))"

definition parse_undirected_edge_map :: "ptop \<Rightarrow> string \<Rightarrow> (edge \<times> string) list res" where
  "parse_undirected_edge_map t value =
     bindr (parse_map_string value) (\<lambda>pair_list.
     bindr (foldr_res (put_undirected t) pair_list []) (\<lambda>result.
       if length (tp_undirected_edges_set t) \<noteq> length result
       then Inl (Runtime_error ''Not all undirected edges were covered'') else Inr result))"

definition put_directed :: "ptop \<Rightarrow> string \<times> string \<Rightarrow> (edge \<times> string) list \<Rightarrow> (edge \<times> string) list res" where
  "put_directed t p result =
     bindr (split_string_n (fst p) ''->'' 2) (\<lambda>l.
     bindr (parse_positive_int64 (l ! 0)) (\<lambda>a.
     bindr (parse_positive_int64 (l ! 1)) (\<lambda>b.
     if (a, b) \<in> fst ` set result
     then Inl (Runtime_error (''Duplicate key in directed edge mapping: '' @ fst p))
     else if (if a < b then a else b, if b > a then b else a) \<notin> set (tp_undirected_edges_set t)
     then Inl (Runtime_error (''Does not belong to an undirected edge: '' @ fst p))
     else Inr (smap_put (a, b) (snd p) result))))"

definition parse_directed_edge_map :: "ptop \<Rightarrow> string \<Rightarrow> (edge \<times> string) list res" where
  "parse_directed_edge_map t value =
     bindr (parse_map_string value) (\<lambda>pair_list.
     bindr (foldr_res (put_directed t) pair_list []) (\<lambda>result.
       if length (tp_undirected_edges_set t) * 2 \<noteq> length result
       then Inl (Runtime_error ''Not all directed edges were covered'') else Inr result))"

text \<open>A single value for all edges or a map, for the channel of an edge or either device of it.\<close>

definition is_map_value :: "string \<Rightarrow> bool" where
  "is_map_value value \<longleftrightarrow> starts_with (trim value) ''map''"

definition map_values :: "('a \<Rightarrow> 'b res) \<Rightarrow> (edge \<times> 'a) list \<Rightarrow> (edge \<times> 'b) list res" where
  "map_values f m = mapr (\<lambda>(e, s). bindr (f s) (\<lambda>v. Inr (e, v))) m"

definition undirected_property :: "(string \<Rightarrow> 'b res) \<Rightarrow> string \<Rightarrow> ptop \<Rightarrow> (edge \<times> 'b) list res" where
  "undirected_property f key t =
     bindr (get_param_or_fail key (tp_config t)) (\<lambda>value.
     if \<not> is_map_value value
     then bindr (f value) (\<lambda>v. Inr (fold (\<lambda>p. smap_put p v) (tp_undirected_edges_set t) []))
     else bindr (parse_undirected_edge_map t value) (map_values f))"

definition directed_property :: "(string \<Rightarrow> 'b res) \<Rightarrow> string \<Rightarrow> ptop \<Rightarrow> (edge \<times> 'b) list res" where
  "directed_property f key t =
     bindr (get_param_or_fail key (tp_config t)) (\<lambda>value.
     if \<not> is_map_value value
     then bindr (f value) (\<lambda>v.
       Inr (fold (\<lambda>p m. smap_put (snd p, fst p) v (smap_put p v m)) (tp_undirected_edges_set t) []))
     else bindr (parse_directed_edge_map t value) (map_values f))"

section \<open>The default selectors\<close>

text \<open>\<open>queue_size_of\<close> is the conversion of ns-3's \<open>QueueSize\<close>.\<close>

definition parse_queue_value :: "(string \<Rightarrow> queue_size) \<Rightarrow> string \<Rightarrow> queue_size res" where
  "parse_queue_value queue_size_of value =
     (if starts_with value ''drop_tail('' \<and> ends_with value '')''
      then bindr (substr value 10 (length value - 11)) (\<lambda>fifo_max_queue_size_value.
        if \<not> ends_with fifo_max_queue_size_value ''p'' \<and> \<not> ends_with fifo_max_queue_size_value ''B''
        then Inl (Runtime_error (''Invalid maximum drop-tail queue size value: '' @ fifo_max_queue_size_value))
        else bindr (substr fifo_max_queue_size_value 0 (length fifo_max_queue_size_value - 1)) (\<lambda>s.
             bindr (parse_geq_one_int64 s) (\<lambda>_. Inr (queue_size_of fifo_max_queue_size_value))))
      else Inl (Runtime_error (''Invalid queue value: '' @ value)))"

definition parse_tc_qdisc_value :: "int \<Rightarrow> string \<Rightarrow> qdisc res" where
  "parse_tc_qdisc_value worst_case_rtt_ns value =
     (if value = ''disabled'' then Inr Qdisc_disabled
      else if value = ''default'' then Inr Qdisc_default
      else if value = ''fq_codel_better_rtt'' then Inr (Qdisc_fq_codel worst_case_rtt_ns (worst_case_rtt_ns div 20))
      else Inl (Runtime_error (''Invalid traffic control qdisc value: '' @ value)))"

section \<open>The estimate of the worst round-trip time\<close>

text \<open>The queue's size in byte is computed in 32 unsigned bits.\<close>

definition queue_size_byte :: "queue_size \<Rightarrow> int" where
  "queue_size_byte q = (case q of (value, packets) \<Rightarrow>
     if packets then to_uint32 (to_uint32 (int value + 2) * 1502) else to_uint32 (int value + 2 * 1502))"

definition estimate_worst_case_rtt :: "ptop \<Rightarrow> int res" where
  "estimate_worst_case_rtt t =
     (let highest_delay_ns = fold (\<lambda>e h. max h (snd e)) (tp_delay_ns t) 0;
          lowest_data_rate = fold (\<lambda>e l. d_min l (snd e)) (tp_data_rate t) (Fin 1000000);
          highest_queue_byte = fold (\<lambda>e h. max h (queue_size_byte (snd e))) (tp_queue t) 0;
          per_hop = d_add (d_div (d_of_int highest_queue_byte)
                                 (d_div (d_mul lowest_data_rate (Fin 125000)) (Fin 1000000000)))
                          (d_of_int highest_delay_ns);
          num_hops = min 20 (to_int64 (tp_num_undirected_edges t * 2))
      in bindr (checkr (in_int64 (tp_num_undirected_edges t * 2)) (Undefined ''signed overflow'')) (\<lambda>_.
         d_trunc (d_mul (d_of_int num_hops) per_hop) (- (2 ^ 63)) (2 ^ 63 - 1)))"

definition parse_topology_link_properties :: "(string \<Rightarrow> queue_size) \<Rightarrow> ptop \<Rightarrow> ptop res" where
  "parse_topology_link_properties queue_size_of t =
     bindr (undirected_property parse_positive_int64 ''link_channel_delay_ns'' t) (\<lambda>delay.
     bindr (directed_property parse_positive_double ''link_device_data_rate_megabit_per_s'' t) (\<lambda>rate.
     bindr (directed_property (parse_queue_value queue_size_of) ''link_device_queue'' t) (\<lambda>queue.
     let t1 = t\<lparr>tp_delay_ns := delay, tp_data_rate := rate, tp_queue := queue\<rparr> in
     bindr (estimate_worst_case_rtt t1) (\<lambda>rtt.
     bindr (directed_property (parse_tc_qdisc_value rtt) ''link_interface_traffic_control_qdisc'' t1) (\<lambda>qdisc.
       Inr (t1\<lparr>tp_worst_case_rtt_ns := rtt, tp_qdisc := qdisc\<rparr>))))))"

section \<open>Setting up the links\<close>

text \<open>
  One end of a link: its node, the index of its device there (the loop-back device is 0), the data
  rate, queue and queueing discipline it was given, and the host it is on the network of the link.
\<close>

record link_end =
  le_node :: int
  le_if :: nat
  le_data_rate :: double
  le_queue :: queue_size
  le_qdisc :: qdisc

record ptop_link =
  pk_a :: link_end
  pk_b :: link_end
  pk_delay_ns :: int

definition next_if :: "ptop_link list \<Rightarrow> int \<Rightarrow> nat" where
  "next_if lks v = 1 + length (filter (\<lambda>e. le_node e = v) (concat (map (\<lambda>l. [pk_a l, pk_b l]) lks)))"

text \<open>\<open>std::map::at\<close>.\<close>

definition map_at :: "('k \<times> 'v) list \<Rightarrow> 'k \<Rightarrow> 'v res" where
  "map_at m k = (case map_of m k of Some v \<Rightarrow> Inr v | None \<Rightarrow> Inl (Out_of_range ''map::at''))"

definition setup_link :: "ptop \<Rightarrow> edge \<Rightarrow> ptop_link list \<Rightarrow> ptop_link list res" where
  "setup_link t e lks = (case e of (a, b) \<Rightarrow>
     bindr (map_at (tp_data_rate t) (a, b)) (\<lambda>rate_ab.
     bindr (map_at (tp_data_rate t) (b, a)) (\<lambda>rate_ba.
     bindr (map_at (tp_queue t) (a, b)) (\<lambda>queue_ab.
     bindr (map_at (tp_queue t) (b, a)) (\<lambda>queue_ba.
     bindr (map_at (tp_delay_ns t) (a, b)) (\<lambda>delay.
     bindr (map_at (tp_qdisc t) (a, b)) (\<lambda>qdisc_ab.
     bindr (map_at (tp_qdisc t) (b, a)) (\<lambda>qdisc_ba.
       Inr (lks @ [\<lparr>pk_a = \<lparr>le_node = a, le_if = next_if lks a, le_data_rate = rate_ab, le_queue = queue_ab, le_qdisc = qdisc_ab\<rparr>,
         pk_b = \<lparr>le_node = b, le_if = next_if lks b + (if a = b then 1 else 0), le_data_rate = rate_ba, le_queue = queue_ba, le_qdisc = qdisc_ba\<rparr>,
         pk_delay_ns = delay\<rparr>])))))))))"

definition setup_links :: "ptop \<Rightarrow> ptop_link list res" where
  "setup_links t = foldr_res (setup_link t) (tp_undirected_edges t) []"

definition interface_idxs_for_edges :: "ptop_link list \<Rightarrow> (nat \<times> nat) list" where
  "interface_idxs_for_edges lks = map (\<lambda>l. (le_if (pk_a l), le_if (pk_b l))) lks"

text \<open>\<open>GetNetDeviceForLink\<close>: the device of a directed edge; a later link of the same ends would replace it.\<close>

definition get_net_device_for_link :: "ptop_link list \<Rightarrow> edge \<Rightarrow> link_end res" where
  "get_net_device_for_link lks e = map_at (rev (concat (map (\<lambda>l.
     [((le_node (pk_a l), le_node (pk_b l)), pk_a l), ((le_node (pk_b l), le_node (pk_a l)), pk_b l)]) lks))) e"

section \<open>TopologyPtop\<close>

definition build_ptop :: "(string \<Rightarrow> queue_size) \<Rightarrow> ptop_sim \<Rightarrow> (ptop \<times> ptop_link list) res" where
  "build_ptop queue_size_of sim =
     bindr (read_topology_config sim ptop_init) (\<lambda>t.
     bindr (parse_topology_graph (ps_system_ids sim) t) (\<lambda>t.
     bindr (parse_topology_link_properties queue_size_of t) (\<lambda>t.
     bindr (setup_links t) (\<lambda>lks. Inr (t, lks)))))"

definition ptop_is_valid_endpoint :: "ptop \<Rightarrow> int \<Rightarrow> bool" where
  "ptop_is_valid_endpoint t node_id =
     (if tp_all_nodes_are_endpoints t then True
      else if tp_has_zero_servers t then node_id \<in> set (tp_tors t) else node_id \<in> set (tp_servers t))"

definition ptop_get_endpoints :: "ptop \<Rightarrow> int list" where
  "ptop_get_endpoints t =
     (if tp_all_nodes_are_endpoints t then tp_all_node_ids t
      else if tp_has_zero_servers t then tp_tors t else tp_servers t)"

text \<open>What the arbiters read of the topology.\<close>

definition ptop_view :: "ptop \<Rightarrow> ptop_link list \<Rightarrow> ptop_topology" where
  "ptop_view t lks = \<lparr>pt_num_nodes = nat (tp_num_nodes t),
     pt_undirected_edges = map (\<lambda>(a, b). (nat a, nat b)) (tp_undirected_edges t),
     pt_interface_idxs_for_edges = interface_idxs_for_edges lks\<rparr>"

section \<open>What a parsed graph satisfies\<close>

text \<open>The edges read so far and the sets kept beside them agree.\<close>

definition edges_ok :: "ptop \<Rightarrow> bool" where
  "edges_ok t \<longleftrightarrow> (\<forall>(a, b) \<in> set (tp_undirected_edges t). 0 \<le> a \<and> a < b \<and> b < tp_num_nodes t) \<and>
     is_sset (tp_undirected_edges_set t) \<and> set (tp_undirected_edges_set t) = set (tp_undirected_edges t) \<and>
     length (tp_adjacency_list t) = nat (tp_num_nodes t) \<and>
     (\<forall>v. 0 \<le> v \<and> v < tp_num_nodes t \<longrightarrow> is_sset (tp_adjacency_list t ! nat v) \<and>
       set (tp_adjacency_list t ! nat v) = {w. (v, w) \<in> set (tp_undirected_edges t) \<or> (w, v) \<in> set (tp_undirected_edges t)})"

lemma parse_edge_cases:
  assumes "parse_edge s t = Inr t'"
  obtains a b where "0 \<le> a" "a < b" "b < tp_num_nodes t"
    "t' = t\<lparr>tp_undirected_edges := tp_undirected_edges t @ [(a, b)],
       tp_undirected_edges_set := insort_insert (a, b) (tp_undirected_edges_set t),
       tp_adjacency_list := (tp_adjacency_list t)[nat a := insort_insert b (tp_adjacency_list t ! nat a),
         nat b := insort_insert a ((tp_adjacency_list t)[nat a := insort_insert b (tp_adjacency_list t ! nat a)] ! nat b)]\<rparr>"
proof -
  obtain spl a b where p: "parse_positive_int64 (spl ! 0) = Inr a" "a < b" "b < tp_num_nodes t"
    and t': "t' = t\<lparr>tp_undirected_edges := tp_undirected_edges t @ [(a, b)],
       tp_undirected_edges_set := insort_insert (a, b) (tp_undirected_edges_set t),
       tp_adjacency_list := (tp_adjacency_list t)[nat a := insort_insert b (tp_adjacency_list t ! nat a),
         nat b := insort_insert a ((tp_adjacency_list t)[nat a := insort_insert b (tp_adjacency_list t ! nat a)] ! nat b)]\<rparr>"
    using assms unfolding parse_edge_def bindr_eq_Inr Let_def
    by (elim exE conjE) (force split: if_splits)
  have "0 \<le> a" using parse_positive_int64_range [OF p(1)] by simp
  from that [OF this p(2,3) t'] show ?thesis .
qed

lemma edges_ok_step:
  assumes "edges_ok t" "parse_edge s t = Inr t'"
  shows "edges_ok t'"
proof -
  obtain a b where ab: "0 \<le> a" "a < b" "b < tp_num_nodes t"
    and t': "t' = t\<lparr>tp_undirected_edges := tp_undirected_edges t @ [(a, b)],
       tp_undirected_edges_set := insort_insert (a, b) (tp_undirected_edges_set t),
       tp_adjacency_list := (tp_adjacency_list t)[nat a := insort_insert b (tp_adjacency_list t ! nat a),
         nat b := insort_insert a ((tp_adjacency_list t)[nat a := insort_insert b (tp_adjacency_list t ! nat a)] ! nat b)]\<rparr>"
    using parse_edge_cases [OF assms(2)] .
  have len: "nat a < length (tp_adjacency_list t)" "nat b < length (tp_adjacency_list t)" "nat a \<noteq> nat b"
    using ab assms(1) by (auto simp: edges_ok_def)
  have adj: "tp_adjacency_list t' ! nat v =
      (if v = a then insort_insert b (tp_adjacency_list t ! nat v)
       else if v = b then insort_insert a (tp_adjacency_list t ! nat v) else tp_adjacency_list t ! nat v)" if "0 \<le> v" for v
    using len ab that by (auto simp: t' nth_list_update eq_nat_nat_iff)
  have "is_sset (tp_adjacency_list t' ! nat v) \<and>
      set (tp_adjacency_list t' ! nat v) = {w. (v, w) \<in> set (tp_undirected_edges t') \<or> (w, v) \<in> set (tp_undirected_edges t')}"
    if "0 \<le> v" "v < tp_num_nodes t" for v
  proof -
    have old: "is_sset (tp_adjacency_list t ! nat v)"
      "set (tp_adjacency_list t ! nat v) = {w. (v, w) \<in> set (tp_undirected_edges t) \<or> (w, v) \<in> set (tp_undirected_edges t)}"
      using assms(1) that unfolding edges_ok_def by blast+
    show ?thesis
      unfolding adj [OF that(1)] using old ab by (auto simp: t' set_insort_insert)
  qed
  then show ?thesis
    using assms(1) ab unfolding edges_ok_def by (auto simp: t' set_insort_insert)
qed

lemma foldr_res_unit: "foldr_res f xs () = Inr u \<longleftrightarrow> (\<forall>x \<in> set xs. f x () = Inr ())"
  by (induction xs) (auto simp: bindr_eq_Inr)

lemma node_set_param_ok:
  assumes "node_set_param key config n = Inr s"
  shows "is_sset s \<and> set s \<subseteq> {0..<n}"
proof -
  obtain tmp where p: "parse_set_positive_int64 tmp = Inr s" "all_items_are_less_than s n = Inr ()"
    using assms by (auto simp: node_set_param_def res_simps)
  show ?thesis using parse_set_positive_int64_sound [OF p(1)] p(2) by (auto simp: all_items_are_less_than_iff)
qed

text \<open>
  The graph of a topology that passes all checks: the undirected edges are strictly ascending pairs
  of different nodes, the left one smaller, as many as announced; the adjacency lists are their
  neighbourhoods; servers and switches partition the nodes, the ToRs are switches, and a server is
  linked to ToRs only.
\<close>

definition graph_ok :: "ptop \<Rightarrow> bool" where
  "graph_ok t \<longleftrightarrow> edges_ok t \<and> is_sset (tp_undirected_edges t) \<and> tp_undirected_edges_set t = tp_undirected_edges t \<and>
     length (tp_undirected_edges t) = nat (tp_num_undirected_edges t) \<and> 0 \<le> tp_num_nodes t \<and>
     is_sset (tp_servers t) \<and> is_sset (tp_switches t) \<and> is_sset (tp_tors t) \<and>
     set (tp_servers t) \<inter> set (tp_switches t) = {} \<and> set (tp_servers t) \<union> set (tp_switches t) = {0..<tp_num_nodes t} \<and>
     set (tp_tors t) \<subseteq> set (tp_switches t) \<and>
     (\<forall>v \<in> set (tp_servers t). set (tp_adjacency_list t ! nat v) \<subseteq> set (tp_tors t)) \<and>
     set (tp_all_node_ids t) = {0..<tp_num_nodes t} \<and> (tp_has_zero_servers t \<longleftrightarrow> tp_servers t = [])"

lemma check_graph_ok:
  assumes "check_graph ids t = Inr u" "edges_ok t" "0 \<le> tp_num_nodes t"
    "is_sset (tp_servers t) \<and> set (tp_servers t) \<subseteq> {0..<tp_num_nodes t}"
    "is_sset (tp_switches t) \<and> set (tp_switches t) \<subseteq> {0..<tp_num_nodes t}" "is_sset (tp_tors t)"
  shows "length (tp_undirected_edges t) = nat (tp_num_undirected_edges t)" "distinct (tp_undirected_edges t)"
    "set (tp_servers t) \<inter> set (tp_switches t) = {}" "set (tp_servers t) \<union> set (tp_switches t) = {0..<tp_num_nodes t}"
    "set (tp_tors t) \<subseteq> set (tp_switches t)" "\<forall>v \<in> set (tp_servers t). set (tp_adjacency_list t ! nat v) \<subseteq> set (tp_tors t)"
proof -
  have c: "length (tp_undirected_edges t) = nat (tp_num_undirected_edges t)"
      "length (tp_undirected_edges t) = length (tp_undirected_edges_set t)"
      "direct_set_intersection (tp_servers t) (tp_switches t) = []"
      "length (direct_set_union (tp_servers t) (tp_switches t)) = nat (tp_num_nodes t)"
      "length (direct_set_intersection (tp_switches t) (tp_tors t)) = length (tp_tors t)"
      "foldr_res (check_server t) (tp_servers t) () = Inr ()"
    using assms(1) unfolding check_graph_def bindr_eq_Inr checkr_eq_Inr by auto
  show "length (tp_undirected_edges t) = nat (tp_num_undirected_edges t)" by (fact c(1))
  show "distinct (tp_undirected_edges t)"
    using c(2) assms(2) length_sset [of "tp_undirected_edges_set t"] by (auto simp: edges_ok_def intro: card_distinct)
  show "set (tp_servers t) \<inter> set (tp_switches t) = {}"
    using direct_set_intersection_set [of "tp_servers t" "tp_switches t"] assms(4,5) c(3) by simp
  have "card (set (tp_servers t) \<union> set (tp_switches t)) = card {0..<tp_num_nodes t}"
    using length_sset [OF direct_set_union_sset, of "tp_servers t" "tp_switches t"] assms(3,4,5) c(4)
    by (simp add: direct_set_union_set)
  then show "set (tp_servers t) \<union> set (tp_switches t) = {0..<tp_num_nodes t}"
    using assms(4,5) by (intro card_subset_eq) auto
  have "card (set (tp_switches t) \<inter> set (tp_tors t)) = card (set (tp_tors t))"
    using length_sset [OF direct_set_intersection_sset, of "tp_switches t" "tp_tors t"] length_sset [OF assms(6)]
      assms(5,6) c(5) by (simp add: direct_set_intersection_set)
  then have "set (tp_switches t) \<inter> set (tp_tors t) = set (tp_tors t)" by (intro card_subset_eq) auto
  then show "set (tp_tors t) \<subseteq> set (tp_switches t)" by blast
  show "\<forall>v \<in> set (tp_servers t). set (tp_adjacency_list t ! nat v) \<subseteq> set (tp_tors t)"
    using c(6) by (auto simp: foldr_res_unit check_server_def checkr_eq_Inr)
qed

lemma edges_ok_sort: "edges_ok t \<Longrightarrow> edges_ok (t\<lparr>tp_undirected_edges := sort (tp_undirected_edges t)\<rparr>)"
  by (simp add: edges_ok_def)

lemma parse_edges_keep:
  assumes "foldr_res parse_edge ss t = Inr t'"
  shows "tp_num_nodes t' = tp_num_nodes t \<and> tp_num_undirected_edges t' = tp_num_undirected_edges t \<and>
    tp_switches t' = tp_switches t \<and> tp_tors t' = tp_tors t \<and> tp_servers t' = tp_servers t \<and>
    tp_all_node_ids t' = tp_all_node_ids t \<and> tp_config t' = tp_config t \<and>
    tp_all_nodes_are_endpoints t' = tp_all_nodes_are_endpoints t"
proof (rule foldr_res_inv [OF assms, where I = "\<lambda>u. tp_num_nodes u = tp_num_nodes t \<and>
    tp_num_undirected_edges u = tp_num_undirected_edges t \<and>
    tp_switches u = tp_switches t \<and> tp_tors u = tp_tors t \<and> tp_servers u = tp_servers t \<and>
    tp_all_node_ids u = tp_all_node_ids t \<and> tp_config u = tp_config t \<and>
    tp_all_nodes_are_endpoints u = tp_all_nodes_are_endpoints t"])
  fix s u v
  assume i: "tp_num_nodes u = tp_num_nodes t \<and> tp_num_undirected_edges u = tp_num_undirected_edges t \<and>
    tp_switches u = tp_switches t \<and> tp_tors u = tp_tors t \<and> tp_servers u = tp_servers t \<and>
    tp_all_node_ids u = tp_all_node_ids t \<and> tp_config u = tp_config t \<and>
    tp_all_nodes_are_endpoints u = tp_all_nodes_are_endpoints t" and p: "parse_edge s u = Inr v"
  from p show "tp_num_nodes v = tp_num_nodes t \<and> tp_num_undirected_edges v = tp_num_undirected_edges t \<and>
    tp_switches v = tp_switches t \<and> tp_tors v = tp_tors t \<and> tp_servers v = tp_servers t \<and>
    tp_all_node_ids v = tp_all_node_ids t \<and> tp_config v = tp_config t \<and>
    tp_all_nodes_are_endpoints v = tp_all_nodes_are_endpoints t"
    by (rule parse_edge_cases) (simp add: i)
qed simp

lemma parse_topology_graph_ok:
  assumes "parse_topology_graph ids t = Inr t'" "tp_undirected_edges t = []" "tp_undirected_edges_set t = []"
  shows "graph_ok t' \<and> tp_all_nodes_are_endpoints t' = tp_all_nodes_are_endpoints t"
proof -
  obtain n m switches tors servers ss t2 s u where p: "node_set_param ''switches'' (tp_config t) n = Inr switches"
      "node_set_param ''switches_which_are_tors'' (tp_config t) n = Inr tors" "node_set_param ''servers'' (tp_config t) n = Inr servers"
    and n: "parse_positive_int64 s = Inr n"
    and e: "foldr_res parse_edge ss (t\<lparr>tp_num_nodes := n, tp_num_undirected_edges := m, tp_switches := switches, tp_tors := tors,
                tp_servers := servers, tp_all_node_ids := map int [0..<nat n], tp_adjacency_list := replicate (nat n) []\<rparr>) = Inr t2"
    and c: "check_graph ids (t2\<lparr>tp_undirected_edges := sort (tp_undirected_edges t2)\<rparr>) = Inr u"
    and r: "t2\<lparr>tp_undirected_edges := sort (tp_undirected_edges t2), tp_has_zero_servers := \<not> length servers > 0\<rparr> = t'"
    using assms(1) unfolding parse_topology_graph_def Let_def bindr_eq_Inr sum.inject by (elim exE conjE) (rule that)
  have t': "t' = t2\<lparr>tp_undirected_edges := sort (tp_undirected_edges t2), tp_has_zero_servers := \<not> length servers > 0\<rparr>"
    using r by simp
  note k = parse_edges_keep [OF e]
  let ?t3 = "t2\<lparr>tp_undirected_edges := sort (tp_undirected_edges t2)\<rparr>"
  have n0: "0 \<le> n" using parse_positive_int64_range [OF n] by simp
  have "edges_ok t2"
  proof (rule foldr_res_inv [OF e, where I = edges_ok])
    show "edges_ok (t\<lparr>tp_num_nodes := n, tp_num_undirected_edges := m, tp_switches := switches, tp_tors := tors,
        tp_servers := servers, tp_all_node_ids := map int [0..<nat n], tp_adjacency_list := replicate (nat n) []\<rparr>)"
      using assms(2,3) by (simp add: edges_ok_def)
  qed (rule edges_ok_step)
  then have e3: "edges_ok ?t3" by (rule edges_ok_sort)
  have sets: "is_sset servers \<and> set servers \<subseteq> {0..<n}" "is_sset switches \<and> set switches \<subseteq> {0..<n}" "is_sset tors"
    using node_set_param_ok [OF p(1)] node_set_param_ok [OF p(2)] node_set_param_ok [OF p(3)] by simp_all
  note g = check_graph_ok [OF c e3, simplified, simplified k, simplified, OF n0 sets]
  have "is_sset (sort (tp_undirected_edges t2))" using g(2) by (simp add: is_sset_def)
  moreover from this have "tp_undirected_edges_set t2 = sort (tp_undirected_edges t2)"
    using e3 by (intro is_sset_unique) (auto simp: edges_ok_def)
  moreover have "set (map int [0..<nat n]) = {0..<n}" using n0 by (simp add: image_int_atLeastLessThan)
  moreover have "edges_ok t'" using e3 by (simp add: t' edges_ok_def)
  ultimately show ?thesis
    using g n0 sets k by (simp add: graph_ok_def t')
qed

section \<open>What the link properties cover\<close>

definition directed_edges :: "edge set \<Rightarrow> edge set" where
  "directed_edges E = E \<union> prod.swap ` E"

lemma card_directed_edges: "finite E \<Longrightarrow> card (directed_edges E) \<le> card E * 2"
  unfolding directed_edges_def using card_Un_le [of E "prod.swap ` E"] card_image_le [of E prod.swap] by simp

lemma mem_directed_edges: "(a, b) \<in> directed_edges E \<longleftrightarrow> (a, b) \<in> E \<or> (b, a) \<in> E"
  by (force simp: directed_edges_def image_iff)

lemma map_values_keys: "map_values f m = Inr m' \<Longrightarrow> map fst m' = map fst m"
  unfolding map_values_def by (induction m arbitrary: m') (auto simp: bindr_eq_Inr split: prod.splits)

lemma is_smap_map_values:
  assumes "map_values f m = Inr m'"
  shows "is_smap m' \<longleftrightarrow> is_smap m" "fst ` set m' = fst ` set m"
  using map_values_keys [OF assms] unfolding is_smap_def set_map [symmetric] by simp_all

lemma put_undirected_ok:
  assumes "put_undirected t p m = Inr m'" "is_smap m \<and> fst ` set m \<subseteq> set (tp_undirected_edges_set t)"
  shows "is_smap m' \<and> fst ` set m' \<subseteq> set (tp_undirected_edges_set t)"
proof -
  have "\<exists>a b. (a, b) \<in> set (tp_undirected_edges_set t) \<and> m' = smap_put (a, b) (snd p) m"
    using assms(1) by (auto simp: put_undirected_def bindr_eq_Inr split: if_splits)
  with assms(2) show ?thesis by (elim exE) (simp add: is_smap_put keys_smap_put)
qed

lemma put_directed_ok:
  assumes "put_directed t p m = Inr m'" "is_smap m \<and> fst ` set m \<subseteq> directed_edges (set (tp_undirected_edges_set t))"
  shows "is_smap m' \<and> fst ` set m' \<subseteq> directed_edges (set (tp_undirected_edges_set t))"
proof -
  have "\<exists>a b. (a, b) \<in> directed_edges (set (tp_undirected_edges_set t)) \<and> m' = smap_put (a, b) (snd p) m"
    using assms(1) unfolding mem_directed_edges
    by (auto simp: put_directed_def bindr_eq_Inr not_less le_less split: if_splits)
  with assms(2) show ?thesis by (elim exE) (simp add: is_smap_put keys_smap_put)
qed

lemma parse_undirected_edge_map_ok:
  assumes "parse_undirected_edge_map t value = Inr m" "is_sset (tp_undirected_edges_set t)"
  shows "is_smap m \<and> fst ` set m = set (tp_undirected_edges_set t)"
proof -
  obtain ps where f: "foldr_res (put_undirected t) ps [] = Inr m" and l: "length m = length (tp_undirected_edges_set t)"
    using assms(1) unfolding parse_undirected_edge_map_def bindr_eq_Inr by (auto split: if_splits)
  have *: "is_smap m \<and> fst ` set m \<subseteq> set (tp_undirected_edges_set t)"
    by (rule foldr_res_inv [OF f, where I = "\<lambda>m. is_smap m \<and> fst ` set m \<subseteq> set (tp_undirected_edges_set t)"])
       (simp, rule put_undirected_ok)
  moreover have "fst ` set m = set (tp_undirected_edges_set t)"
    using * l length_smap [of m] length_sset [OF assms(2)] by (intro card_subset_eq) auto
  ultimately show ?thesis by simp
qed

lemma parse_directed_edge_map_ok:
  assumes "parse_directed_edge_map t value = Inr m" "is_sset (tp_undirected_edges_set t)"
  shows "is_smap m \<and> fst ` set m = directed_edges (set (tp_undirected_edges_set t))"
proof -
  let ?D = "directed_edges (set (tp_undirected_edges_set t))"
  obtain ps where f: "foldr_res (put_directed t) ps [] = Inr m" and l: "length m = length (tp_undirected_edges_set t) * 2"
    using assms(1) unfolding parse_directed_edge_map_def bindr_eq_Inr by (auto split: if_splits)
  have *: "is_smap m \<and> fst ` set m \<subseteq> ?D"
    by (rule foldr_res_inv [OF f, where I = "\<lambda>m. is_smap m \<and> fst ` set m \<subseteq> ?D"]) (simp, rule put_directed_ok)
  moreover have "fst ` set m = ?D"
  proof (rule card_seteq)
    show "finite ?D" by (simp add: directed_edges_def)
    show "card ?D \<le> card (fst ` set m)"
      using * l length_smap [of m] length_sset [OF assms(2)] card_directed_edges [of "set (tp_undirected_edges_set t)"] by simp
  qed (use * in simp)
  ultimately show ?thesis by simp
qed

lemma fold_put_undirected:
  "is_smap m \<Longrightarrow> is_smap (fold (\<lambda>p. smap_put p v) es m) \<and> fst ` set (fold (\<lambda>p. smap_put p v) es m) = set es \<union> fst ` set m"
  by (induction es arbitrary: m) (auto simp: is_smap_put keys_smap_put)

lemma fold_put_directed:
  "is_smap m \<Longrightarrow> is_smap (fold (\<lambda>p m. smap_put (snd p, fst p) v (smap_put p v m)) es m) \<and>
    fst ` set (fold (\<lambda>p m. smap_put (snd p, fst p) v (smap_put p v m)) es m) = directed_edges (set es) \<union> fst ` set m"
  by (induction es arbitrary: m) (auto simp: is_smap_put keys_smap_put directed_edges_def prod.swap_def)

lemma undirected_property_ok:
  assumes "undirected_property f key t = Inr m" "is_sset (tp_undirected_edges_set t)"
  shows "is_smap m \<and> fst ` set m = set (tp_undirected_edges_set t)"
proof -
  have "(\<exists>v. m = fold (\<lambda>p. smap_put p v) (tp_undirected_edges_set t) []) \<or>
        (\<exists>value m'. parse_undirected_edge_map t value = Inr m' \<and> map_values f m' = Inr m)"
    using assms(1) by (auto simp: undirected_property_def bindr_eq_Inr split: if_splits)
  then show ?thesis
    by (elim disjE exE conjE)
       (simp_all add: fold_put_undirected parse_undirected_edge_map_ok [OF _ assms(2)] is_smap_map_values)
qed

lemma directed_property_ok:
  assumes "directed_property f key t = Inr m" "is_sset (tp_undirected_edges_set t)"
  shows "is_smap m \<and> fst ` set m = directed_edges (set (tp_undirected_edges_set t))"
proof -
  have "(\<exists>v. m = fold (\<lambda>p m. smap_put (snd p, fst p) v (smap_put p v m)) (tp_undirected_edges_set t) []) \<or>
        (\<exists>value m'. parse_directed_edge_map t value = Inr m' \<and> map_values f m' = Inr m)"
    using assms(1) by (auto simp: directed_property_def bindr_eq_Inr split: if_splits)
  then show ?thesis
    by (elim disjE exE conjE)
       (simp_all add: fold_put_directed parse_directed_edge_map_ok [OF _ assms(2)] is_smap_map_values)
qed

text \<open>Every property of a link has a value for each of its channels or devices, and for nothing else.\<close>

definition link_properties_ok :: "ptop \<Rightarrow> bool" where
  "link_properties_ok t \<longleftrightarrow>
     is_smap (tp_delay_ns t) \<and> fst ` set (tp_delay_ns t) = set (tp_undirected_edges t) \<and>
     is_smap (tp_data_rate t) \<and> fst ` set (tp_data_rate t) = directed_edges (set (tp_undirected_edges t)) \<and>
     is_smap (tp_queue t) \<and> fst ` set (tp_queue t) = directed_edges (set (tp_undirected_edges t)) \<and>
     is_smap (tp_qdisc t) \<and> fst ` set (tp_qdisc t) = directed_edges (set (tp_undirected_edges t))"

lemma parse_topology_link_properties_cases:
  assumes "parse_topology_link_properties queue_size_of t = Inr t'"
  obtains delay rate queue rtt qdisc where
    "undirected_property parse_positive_int64 ''link_channel_delay_ns'' t = Inr delay"
    "directed_property parse_positive_double ''link_device_data_rate_megabit_per_s'' t = Inr rate"
    "directed_property (parse_queue_value queue_size_of) ''link_device_queue'' t = Inr queue"
    "directed_property (parse_tc_qdisc_value rtt) ''link_interface_traffic_control_qdisc''
       (t\<lparr>tp_delay_ns := delay, tp_data_rate := rate, tp_queue := queue\<rparr>) = Inr qdisc"
    "t' = t\<lparr>tp_delay_ns := delay, tp_data_rate := rate, tp_queue := queue, tp_worst_case_rtt_ns := rtt, tp_qdisc := qdisc\<rparr>"
proof -
  show ?thesis
    using assms unfolding parse_topology_link_properties_def Let_def bindr_eq_Inr sum.inject
    by (elim exE conjE) (rule that, assumption, assumption, assumption, assumption, simp)
qed

lemma parse_topology_link_properties_ok:
  assumes "parse_topology_link_properties queue_size_of t = Inr t'" "graph_ok t"
  shows "link_properties_ok t' \<and> graph_ok t' \<and> tp_all_nodes_are_endpoints t' = tp_all_nodes_are_endpoints t"
proof -
  have e: "tp_undirected_edges_set t = tp_undirected_edges t" "is_sset (tp_undirected_edges t)"
    using assms(2) by (simp_all add: graph_ok_def)
  from assms(1) show ?thesis
  proof (rule parse_topology_link_properties_cases)
    fix delay rate queue rtt qdisc
    assume p: "undirected_property parse_positive_int64 ''link_channel_delay_ns'' t = Inr delay"
      "directed_property parse_positive_double ''link_device_data_rate_megabit_per_s'' t = Inr rate"
      "directed_property (parse_queue_value queue_size_of) ''link_device_queue'' t = Inr queue"
      "directed_property (parse_tc_qdisc_value rtt) ''link_interface_traffic_control_qdisc''
         (t\<lparr>tp_delay_ns := delay, tp_data_rate := rate, tp_queue := queue\<rparr>) = Inr qdisc"
      and t': "t' = t\<lparr>tp_delay_ns := delay, tp_data_rate := rate, tp_queue := queue, tp_worst_case_rtt_ns := rtt, tp_qdisc := qdisc\<rparr>"
    have "link_properties_ok t'"
      using undirected_property_ok [OF p(1)] directed_property_ok [OF p(2)] directed_property_ok [OF p(3)]
        directed_property_ok [OF p(4)] e by (simp add: link_properties_ok_def t')
    then show ?thesis using assms(2) by (simp add: t' graph_ok_def edges_ok_def)
  qed
qed

section \<open>What the links are\<close>

lemma map_at_iff: "map_at m k = Inr v \<longleftrightarrow> map_of m k = Some v"
  by (simp add: map_at_def split: option.splits)

lemma map_at_ok: "k \<in> fst ` set m \<Longrightarrow> map_at m k = Inr (the (map_of m k))"
  by (cases "map_of m k") (auto simp: map_at_def map_of_eq_None_iff)

text \<open>The link that is made for an edge when \<open>lks\<close> are the links made before.\<close>

definition link_for :: "ptop \<Rightarrow> ptop_link list \<Rightarrow> edge \<Rightarrow> ptop_link" where
  "link_for t lks e = (case e of (a, b) \<Rightarrow>
     \<lparr>pk_a = \<lparr>le_node = a, le_if = next_if lks a, le_data_rate = the (map_of (tp_data_rate t) (a, b)),
        le_queue = the (map_of (tp_queue t) (a, b)), le_qdisc = the (map_of (tp_qdisc t) (a, b))\<rparr>,
      pk_b = \<lparr>le_node = b, le_if = next_if lks b, le_data_rate = the (map_of (tp_data_rate t) (b, a)),
        le_queue = the (map_of (tp_queue t) (b, a)), le_qdisc = the (map_of (tp_qdisc t) (b, a))\<rparr>,
      pk_delay_ns = the (map_of (tp_delay_ns t) (a, b))\<rparr>)"

lemma setup_link_ok:
  assumes "link_properties_ok t" "e \<in> set (tp_undirected_edges t)" "fst e < snd e"
  shows "setup_link t e lks = Inr (lks @ [link_for t lks e])"
proof -
  obtain a b where e: "e = (a, b)" by (cases e)
  have "(a, b) \<in> directed_edges (set (tp_undirected_edges t))" "(b, a) \<in> directed_edges (set (tp_undirected_edges t))"
    using assms(2) e by (simp_all add: mem_directed_edges)
  with assms e show ?thesis
    by (simp add: setup_link_def link_for_def link_properties_ok_def map_at_ok)
qed

text \<open>The devices of a node are numbered from 1 on in the order they are made.\<close>

definition numbered :: "link_end list \<Rightarrow> bool" where
  "numbered es \<longleftrightarrow> (\<forall>i < length es. le_if (es ! i) =
     1 + length (filter (\<lambda>e. le_node e = le_node (es ! i)) (take i es)))"

lemma numbered_snoc:
  "numbered (es @ [e]) \<longleftrightarrow> numbered es \<and> le_if e = 1 + length (filter (\<lambda>e'. le_node e' = le_node e) es)"
  unfolding numbered_def length_append_singleton less_Suc_eq by (auto simp: nth_append)

lemma numbered_distinct: "numbered es \<Longrightarrow> distinct (map (\<lambda>e. (le_node e, le_if e)) es)"
proof (induction es rule: rev_induct)
  case (snoc e es)
  have "le_if x < le_if e" if x: "x \<in> set es" "le_node x = le_node e" for x
  proof -
    obtain i where i: "i < length es" "es ! i = x" using x(1) by (auto simp: in_set_conv_nth)
    let ?P = "\<lambda>e'. le_node e' = le_node e"
    have "numbered es" "le_if e = 1 + length (filter ?P es)" using snoc.prems by (simp_all add: numbered_snoc)
    then have "le_if x = 1 + length (filter ?P (take i es))" using i x(2) unfolding numbered_def by auto
    moreover have "filter ?P es = filter ?P (take i es) @ filter ?P (drop i es)"
      by (metis append_take_drop_id filter_append)
    moreover have "filter ?P (drop i es) \<noteq> []" using i x(2) by (simp add: Cons_nth_drop_Suc [symmetric])
    ultimately show ?thesis using \<open>le_if e = 1 + length (filter ?P es)\<close> by simp
  qed
  then have "(le_node e, le_if e) \<noteq> (le_node x, le_if x)" if "x \<in> set es" for x
    using that by (metis less_irrefl prod.inject)
  then have "(le_node e, le_if e) \<notin> (\<lambda>e. (le_node e, le_if e)) ` set es" by (meson imageE)
  with snoc show ?case by (simp add: numbered_snoc)
qed simp

definition ends :: "ptop_link list \<Rightarrow> link_end list" where
  "ends lks = concat (map (\<lambda>l. [pk_a l, pk_b l]) lks)"

lemma ends_snoc: "ends (lks @ [l]) = (ends lks @ [pk_a l]) @ [pk_b l]"
  by (simp add: ends_def)

lemma numbered_link_for:
  assumes "numbered (ends lks)" "fst e < snd e"
  shows "numbered (ends (lks @ [link_for t lks e]))"
  using assms unfolding ends_snoc numbered_snoc
  by (auto simp: link_for_def next_if_def ends_def split: prod.splits)

text \<open>The links made so far: one for each edge, numbered, with the properties of the edge.\<close>

definition links_ok :: "ptop \<Rightarrow> edge list \<Rightarrow> ptop_link list \<Rightarrow> bool" where
  "links_ok t es lks \<longleftrightarrow> map (\<lambda>l. (le_node (pk_a l), le_node (pk_b l))) lks = es \<and> numbered (ends lks) \<and>
     (\<forall>l \<in> set lks. let e = (le_node (pk_a l), le_node (pk_b l)) in
        map_of (tp_delay_ns t) e = Some (pk_delay_ns l) \<and>
        map_of (tp_data_rate t) e = Some (le_data_rate (pk_a l)) \<and>
        map_of (tp_data_rate t) (prod.swap e) = Some (le_data_rate (pk_b l)) \<and>
        map_of (tp_queue t) e = Some (le_queue (pk_a l)) \<and> map_of (tp_queue t) (prod.swap e) = Some (le_queue (pk_b l)) \<and>
        map_of (tp_qdisc t) e = Some (le_qdisc (pk_a l)) \<and> map_of (tp_qdisc t) (prod.swap e) = Some (le_qdisc (pk_b l)))"

lemma map_of_not_None: "k \<in> fst ` set m \<Longrightarrow> map_of m k \<noteq> None"
  by (simp add: map_of_eq_None_iff)

lemma links_ok_snoc:
  assumes "links_ok t es lks" "link_properties_ok t" "e \<in> set (tp_undirected_edges t)" "fst e < snd e"
  shows "links_ok t (es @ [e]) (lks @ [link_for t lks e])"
proof -
  obtain a b where e: "e = (a, b)" by (cases e)
  have d: "(a, b) \<in> directed_edges (set (tp_undirected_edges t))" "(b, a) \<in> directed_edges (set (tp_undirected_edges t))"
    using assms(3) e by (simp_all add: mem_directed_edges)
  show ?thesis
    using assms(1,2,3) d numbered_link_for [OF _ assms(4), of lks t] unfolding links_ok_def
    by (simp add: e link_for_def link_properties_ok_def Let_def map_of_not_None del: not_None_eq)
qed

lemma setup_links_from:
  assumes "link_properties_ok t" "\<forall>e \<in> set fs. e \<in> set (tp_undirected_edges t) \<and> fst e < snd e" "links_ok t es lks"
  shows "\<exists>lks'. foldr_res (setup_link t) fs lks = Inr lks' \<and> links_ok t (es @ fs) lks'"
  using assms(2,3)
proof (induction fs arbitrary: es lks)
  case (Cons e fs)
  have "links_ok t (es @ [e]) (lks @ [link_for t lks e])" using Cons.prems links_ok_snoc [OF _ assms(1)] by simp
  from Cons.IH [OF _ this] Cons.prems show ?case by (simp add: setup_link_ok [OF assms(1)])
qed simp

lemma setup_links_ok:
  assumes "link_properties_ok t" "graph_ok t"
  shows "\<exists>lks. setup_links t = Inr lks \<and> links_ok t (tp_undirected_edges t) lks"
proof -
  have "\<forall>e \<in> set (tp_undirected_edges t). fst e < snd e"
    using assms(2) by (fastforce simp: graph_ok_def edges_ok_def)
  then show ?thesis
    using setup_links_from [OF assms(1), of "tp_undirected_edges t" "[]" "[]"]
    by (simp add: setup_links_def links_ok_def numbered_def ends_def)
qed

section \<open>What is promised of a built topology\<close>

lemma build_ptop_ok:
  assumes "build_ptop queue_size_of sim = Inr (t, lks)"
  shows "graph_ok t" "link_properties_ok t" "links_ok t (tp_undirected_edges t) lks"
proof -
  obtain t0 t1 where r: "read_topology_config sim ptop_init = Inr t0" and p: "parse_topology_graph (ps_system_ids sim) t0 = Inr t1"
    and l: "parse_topology_link_properties queue_size_of t1 = Inr t" and s: "setup_links t = Inr lks"
    using assms unfolding build_ptop_def bindr_eq_Inr sum.inject prod.inject by blast
  have "tp_undirected_edges t0 = [] \<and> tp_undirected_edges_set t0 = []"
    using r unfolding read_topology_config_def bindr_eq_Inr by (elim exE conjE) (auto simp: ptop_init_def)
  then have "graph_ok t1" using parse_topology_graph_ok [OF p] by simp
  then have *: "graph_ok t" "link_properties_ok t" using parse_topology_link_properties_ok [OF l] by simp_all
  then show "graph_ok t" "link_properties_ok t" "links_ok t (tp_undirected_edges t) lks"
    using setup_links_ok [OF *(2,1)] s by simp_all
qed

text \<open>Three nodes in a line: a server, its ToR and another switch.\<close>

definition line_file :: string where
  "line_file = ''num_nodes=3'' @ newline # ''num_undirected_edges=2'' @ newline # ''switches=set(1,2)'' @ newline #
     ''switches_which_are_tors=set(1)'' @ newline # ''servers=set(0)'' @ newline # ''undirected_edges=set(1-2,0-1)'' @ newline #
     ''link_channel_delay_ns=9'' @ newline #
     ''link_device_data_rate_megabit_per_s=8'' @ newline #
     ''link_device_queue=drop_tail(9p)'' @ newline # ''link_interface_traffic_control_qdisc=default''"

definition line_sim :: ptop_sim where
  "line_sim = \<lparr>ps_fs = \<lparr>fs_files = (\<lambda>f. if f = ''r/t'' then Some line_file else None),
     fs_dirs = (\<lambda>_. False), fs_readable = (\<lambda>_. True), fs_unlink_ok = (\<lambda>_. True), fs_rmdir_ok = (\<lambda>_. True),
     fs_mkdir_ok = (\<lambda>_. True)\<rparr>,
     ps_run_dir = ''r'', ps_config = [(''topology_ptop_filename'', ''t'')], ps_system_ids = None\<rparr>"

definition nine_packets :: "string \<Rightarrow> queue_size" where
  "nine_packets s = (9, True)"

definition line_built :: "ptop \<times> ptop_link list" where
  "line_built = (case build_ptop nine_packets line_sim of Inr p \<Rightarrow> p | Inl _ \<Rightarrow> (ptop_init, []))"

lemma line_eval:
  "bindr (build_ptop nine_packets line_sim) (\<lambda>(t, lks). Inr (tp_num_nodes t, tp_undirected_edges t, tp_servers t, tp_switches t,
     tp_tors t, tp_adjacency_list t, tp_all_nodes_are_endpoints t, tp_has_zero_servers t, tp_worst_case_rtt_ns t,
     interface_idxs_for_edges lks)) =
   Inr (3, [(0, 1), (1, 2)], [0], [1, 2], [1], [[1], [0, 2], [1]], False, False, 66088036, [(1, 1), (2, 1)])"
  by code_simp

lemma line_build: "build_ptop nine_packets line_sim = Inr (fst line_built, snd line_built)"
  using line_eval by (auto simp: line_built_def bindr_eq_Inr split: prod.splits)

lemma line_facts:
  "tp_num_nodes (fst line_built) = 3" "tp_undirected_edges (fst line_built) = [(0, 1), (1, 2)]" "tp_servers (fst line_built) = [0]"
  "tp_switches (fst line_built) = [1, 2]" "tp_tors (fst line_built) = [1]" "tp_adjacency_list (fst line_built) = [[1], [0, 2], [1]]"
  "tp_all_nodes_are_endpoints (fst line_built) = False" "tp_has_zero_servers (fst line_built) = False"
  "interface_idxs_for_edges (snd line_built) = [(1, 1), (2, 1)]"
  using line_eval by (simp_all add: line_build case_prod_beta)

text \<open>
  A topology that is built passed the checks of its graph: the edges are ascending pairs of
  different nodes, without duplicates and as many as announced; servers and switches partition the
  nodes and the ToRs are switches; the adjacency list of a node is the ascending list of its
  neighbours, and every neighbour of a server is a ToR.
\<close>

theorem ptop_graph_checked:
  assumes "build_ptop queue_size_of sim = Inr (t, lks)"
  shows "(\<forall>(a, b) \<in> set (tp_undirected_edges t). 0 \<le> a \<and> a < b \<and> b < tp_num_nodes t) \<and>
    sorted_wrt (<) (tp_undirected_edges t) \<and> length (tp_undirected_edges t) = nat (tp_num_undirected_edges t) \<and>
    set (tp_servers t) \<inter> set (tp_switches t) = {} \<and> set (tp_servers t) \<union> set (tp_switches t) = {0..<tp_num_nodes t} \<and>
    set (tp_tors t) \<subseteq> set (tp_switches t) \<and>
    (\<forall>v. 0 \<le> v \<and> v < tp_num_nodes t \<longrightarrow> sorted_wrt (<) (tp_adjacency_list t ! nat v) \<and>
      set (tp_adjacency_list t ! nat v) = {w. (v, w) \<in> set (tp_undirected_edges t) \<or> (w, v) \<in> set (tp_undirected_edges t)}) \<and>
    (\<forall>v \<in> set (tp_servers t). \<forall>w. (v, w) \<in> set (tp_undirected_edges t) \<or> (w, v) \<in> set (tp_undirected_edges t) \<longrightarrow>
      w \<in> set (tp_tors t))"
proof -
  have g: "graph_ok t" by (rule build_ptop_ok(1) [OF assms])
  moreover have "\<forall>v \<in> set (tp_servers t). \<forall>w. (v, w) \<in> set (tp_undirected_edges t) \<or> (w, v) \<in> set (tp_undirected_edges t) \<longrightarrow>
      w \<in> set (tp_tors t)"
  proof (intro ballI allI impI)
    fix v w assume v: "v \<in> set (tp_servers t)" "(v, w) \<in> set (tp_undirected_edges t) \<or> (w, v) \<in> set (tp_undirected_edges t)"
    then have "0 \<le> v \<and> v < tp_num_nodes t" using g by (auto simp: graph_ok_def)
    then have "w \<in> set (tp_adjacency_list t ! nat v)" using g v(2) by (simp add: graph_ok_def edges_ok_def)
    then show "w \<in> set (tp_tors t)" using g v(1) by (auto simp: graph_ok_def)
  qed
  ultimately show ?thesis by (simp add: graph_ok_def edges_ok_def is_sset_def strict_sorted_iff)
qed

theorem ptop_graph_checked_witness:
  "(0, 1) \<in> set (tp_undirected_edges (fst line_built)) \<and> set (tp_servers (fst line_built)) \<union> set (tp_switches (fst line_built)) = {0..<3} \<and>
   set (tp_adjacency_list (fst line_built) ! 1) = {0, 2}"
proof -
  note p = ptop_graph_checked [OF line_build]
  from p have "set (tp_servers (fst line_built)) \<union> set (tp_switches (fst line_built)) = {0..<3}"
    by (simp add: line_facts(1))
  then show ?thesis by (auto simp: line_facts)
qed

lemma read_topology_config_edges:
  assumes "read_topology_config sim t = Inr t0"
  shows "tp_undirected_edges t0 = tp_undirected_edges t" "tp_undirected_edges_set t0 = tp_undirected_edges_set t"
proof -
  obtain c b where "t\<lparr>tp_config := c, tp_all_nodes_are_endpoints := b\<rparr> = t0"
    using assms unfolding read_topology_config_def bindr_eq_Inr sum.inject by (elim exE conjE) (rule that)
  then show "tp_undirected_edges t0 = tp_undirected_edges t" "tp_undirected_edges_set t0 = tp_undirected_edges_set t"
    by auto
qed

text \<open>
  SetupLinks never fails on a topology whose graph and link properties were parsed: a build that
  fails does so while it parses, and the error is the parser's.
\<close>

theorem ptop_build_fails_parsing:
  assumes "build_ptop queue_size_of sim = Inl e"
  shows "read_topology_config sim ptop_init = Inl e \<or>
    (\<exists>t0. read_topology_config sim ptop_init = Inr t0 \<and>
      (parse_topology_graph (ps_system_ids sim) t0 = Inl e \<or>
       (\<exists>t1. parse_topology_graph (ps_system_ids sim) t0 = Inr t1 \<and> parse_topology_link_properties queue_size_of t1 = Inl e)))"
proof (cases "read_topology_config sim ptop_init")
  case r: (Inr t0)
  note t0 = read_topology_config_edges [OF r, unfolded ptop_init_def, simplified]
  show ?thesis
  proof (cases "parse_topology_graph (ps_system_ids sim) t0")
    case p: (Inr t1)
    then have "graph_ok t1" using parse_topology_graph_ok t0 by blast
    then have "\<exists>lks. setup_links t = Inr lks" if "parse_topology_link_properties queue_size_of t1 = Inr t" for t
      using parse_topology_link_properties_ok [OF that] setup_links_ok by blast
    then show ?thesis
      using assms r p by (cases "parse_topology_link_properties queue_size_of t1") (auto simp: build_ptop_def)
  qed (use assms r in \<open>simp add: build_ptop_def\<close>)
qed (use assms in \<open>simp add: build_ptop_def\<close>)

theorem ptop_build_fails_parsing_witness:
  "read_topology_config (line_sim\<lparr>ps_config := []\<rparr>) ptop_init =
     Inl (Invalid_argument (''Necessary parameter '' @ CHR 0x27 # ''topology_ptop_filename'' @ CHR 0x27 # '' is not set.''))"
proof -
  have r: "read_topology_config (line_sim\<lparr>ps_config := []\<rparr>) ptop_init =
      Inl (Invalid_argument (''Necessary parameter '' @ CHR 0x27 # ''topology_ptop_filename'' @ CHR 0x27 # '' is not set.''))"
    by (simp add: read_topology_config_def get_param_or_fail_def line_sim_def)
  then have "build_ptop nine_packets (line_sim\<lparr>ps_config := []\<rparr>) =
      Inl (Invalid_argument (''Necessary parameter '' @ CHR 0x27 # ''topology_ptop_filename'' @ CHR 0x27 # '' is not set.''))"
    by (simp add: build_ptop_def)
  from ptop_build_fails_parsing [OF this] show ?thesis unfolding r by (elim disjE exE conjE) simp_all
qed

lemma numbered_pos: "numbered es \<Longrightarrow> e \<in> set es \<Longrightarrow> 0 < le_if e"
  by (auto simp: numbered_def in_set_conv_nth)

lemma built_view_wf:
  assumes "build_ptop queue_size_of sim = Inr (t, lks)"
  shows "wf_topology (ptop_view t lks)"
proof -
  note ok = build_ptop_ok [OF assms]
  have e: "\<forall>(a, b) \<in> set (tp_undirected_edges t). 0 \<le> a \<and> a < b \<and> b < tp_num_nodes t" "distinct (tp_undirected_edges t)"
    using ok(1) by (auto simp: graph_ok_def edges_ok_def is_sset_def)
  have pos: "0 \<le> a \<and> 0 \<le> b" if "(a, b) \<in> set (tp_undirected_edges t)" for a b using e(1) that by fastforce
  have "inj_on (\<lambda>(a, b). (nat a, nat b)) (set (tp_undirected_edges t))"
    by (auto intro!: inj_onI dest!: pos simp: eq_nat_nat_iff)
  with e have "valid_edges (nat (tp_num_nodes t)) (map (\<lambda>(a, b). (nat a, nat b)) (tp_undirected_edges t))"
    by (fastforce simp: valid_edges_def distinct_map list_all_iff)
  moreover have "length lks = length (tp_undirected_edges t)"
    using ok(3) unfolding links_ok_def by (metis length_map)
  moreover have "0 < le_if (pk_a l) \<and> 0 < le_if (pk_b l)" if "l \<in> set lks" for l
    using ok(3) that numbered_pos [of "ends lks" "pk_a l"] numbered_pos [of "ends lks" "pk_b l"]
    by (auto simp: links_ok_def ends_def)
  ultimately show ?thesis by (auto simp: wf_topology_def ptop_view_def interface_idxs_for_edges_def list_all_iff)
qed

text \<open>
  C21. The topology that is built is one the ECMP routing is correct on: a list of undirected edges
  without duplicates, self-loops and unknown nodes, and one pair of interface indices for each edge,
  none of them that of the loop-back device.
\<close>

theorem ptop_view_wf:
  assumes "build_ptop queue_size_of sim = Inr (t, lks)"
  shows "wf_topology (ptop_view t lks)"
  using assms by (rule built_view_wf)

theorem ptop_view_wf_witness:
  "wf_topology \<lparr>pt_num_nodes = 3, pt_undirected_edges = [(0, 1), (1, 2)], pt_interface_idxs_for_edges = [(1, 1), (2, 1)]\<rparr>"
  using ptop_view_wf [OF line_build] by (simp add: ptop_view_def line_facts)

lemma map_at_rev: "distinct (map fst m) \<Longrightarrow> (k, v) \<in> set m \<Longrightarrow> map_at (rev m) k = Inr v"
  unfolding map_at_iff by (intro map_of_is_SomeI) (simp_all flip: rev_map)

lemma get_net_device_for_link_ok:
  assumes "distinct (map (\<lambda>l. (le_node (pk_a l), le_node (pk_b l))) lks)"
    "\<And>l. l \<in> set lks \<Longrightarrow> le_node (pk_a l) < le_node (pk_b l)" "l \<in> set lks"
  shows "get_net_device_for_link lks (le_node (pk_a l), le_node (pk_b l)) = Inr (pk_a l)"
    "get_net_device_for_link lks (le_node (pk_b l), le_node (pk_a l)) = Inr (pk_b l)"
proof -
  let ?m = "concat (map (\<lambda>l. [((le_node (pk_a l), le_node (pk_b l)), pk_a l), ((le_node (pk_b l), le_node (pk_a l)), pk_b l)]) lks)"
  have "distinct (map fst ?m)" using assms(1,2)
  proof (induction lks)
    case (Cons x xs)
    have "(le_node (pk_a x), le_node (pk_b x)) \<noteq> (le_node (pk_b y), le_node (pk_a y))" if "y \<in> set (x # xs)" for y
      using Cons.prems(2) [of x] Cons.prems(2) [OF that] by auto
    with Cons show ?case by (fastforce simp: image_iff)
  qed simp
  note * = map_at_rev [OF this]
  show "get_net_device_for_link lks (le_node (pk_a l), le_node (pk_b l)) = Inr (pk_a l)"
    "get_net_device_for_link lks (le_node (pk_b l), le_node (pk_a l)) = Inr (pk_b l)"
    unfolding get_net_device_for_link_def by (rule *, use assms(3) in auto)+
qed

text \<open>
  There is one link for each edge, in the order of the edges, with the delay, data rates, queues
  and queueing disciplines that were parsed for it; GetNetDeviceForLink gives the device of either
  direction; and the devices of a node are numbered from 1 on, in the order of its links, no number
  used twice.
\<close>

theorem ptop_links_of_edges:
  assumes "build_ptop queue_size_of sim = Inr (t, lks)"
  shows "map (\<lambda>l. (le_node (pk_a l), le_node (pk_b l))) lks = tp_undirected_edges t \<and>
    (\<forall>l \<in> set lks. let a = le_node (pk_a l); b = le_node (pk_b l) in
       map_of (tp_delay_ns t) (a, b) = Some (pk_delay_ns l) \<and>
       map_of (tp_data_rate t) (a, b) = Some (le_data_rate (pk_a l)) \<and>
       map_of (tp_data_rate t) (b, a) = Some (le_data_rate (pk_b l)) \<and>
       map_of (tp_queue t) (a, b) = Some (le_queue (pk_a l)) \<and> map_of (tp_queue t) (b, a) = Some (le_queue (pk_b l)) \<and>
       map_of (tp_qdisc t) (a, b) = Some (le_qdisc (pk_a l)) \<and> map_of (tp_qdisc t) (b, a) = Some (le_qdisc (pk_b l)) \<and>
       get_net_device_for_link lks (a, b) = Inr (pk_a l) \<and> get_net_device_for_link lks (b, a) = Inr (pk_b l)) \<and>
    distinct (map (\<lambda>e. (le_node e, le_if e)) (concat (map (\<lambda>l. [pk_a l, pk_b l]) lks)))"
proof -
  note ok = build_ptop_ok [OF assms]
  have lt: "le_node (pk_a l) < le_node (pk_b l)" if "l \<in> set lks" for l
  proof -
    have "(le_node (pk_a l), le_node (pk_b l)) \<in> set (tp_undirected_edges t)"
      using ok(3) that unfolding links_ok_def by (metis (mono_tags, lifting) image_eqI set_map)
    then show ?thesis using ok(1) by (auto simp: graph_ok_def edges_ok_def)
  qed
  have "distinct (map (\<lambda>l. (le_node (pk_a l), le_node (pk_b l))) lks)"
    using ok(1,3) by (simp add: links_ok_def graph_ok_def is_sset_def)
  from get_net_device_for_link_ok [OF this] lt ok(3) show ?thesis
    using numbered_distinct [of "ends lks"] by (auto simp: links_ok_def ends_def Let_def)
qed

theorem ptop_links_of_edges_witness:
  "distinct (map (\<lambda>e. (le_node e, le_if e)) (concat (map (\<lambda>l. [pk_a l, pk_b l]) (snd line_built)))) \<and>
   (\<exists>e. get_net_device_for_link (snd line_built) (2, 1) = Inr e \<and> le_node e = 2)"
proof -
  note p = ptop_links_of_edges [OF line_build]
  then have "(1, 2) \<in> set (map (\<lambda>l. (le_node (pk_a l), le_node (pk_b l))) (snd line_built))" by (simp add: line_facts(2))
  then obtain l where l: "l \<in> set (snd line_built)" "le_node (pk_a l) = 1" "le_node (pk_b l) = 2" by auto
  with p have "get_net_device_for_link (snd line_built) (2, 1) = Inr (pk_b l)" by (auto simp: Let_def)
  with p l show ?thesis by auto
qed

text \<open>
  The endpoints of a built topology are nodes of it, and each is a valid endpoint. When not all
  nodes are endpoints no other identifier is valid; when all are, every identifier is, nodes of the
  topology or not.
\<close>

theorem ptop_endpoints_valid:
  assumes "build_ptop queue_size_of sim = Inr (t, lks)"
  shows "set (ptop_get_endpoints t) \<subseteq> {0..<tp_num_nodes t} \<and>
    (\<forall>v. ptop_is_valid_endpoint t v \<longleftrightarrow> v \<in> set (ptop_get_endpoints t) \<or> tp_all_nodes_are_endpoints t)"
proof -
  have "graph_ok t" by (rule build_ptop_ok(1) [OF assms])
  then have "set (tp_tors t) \<subseteq> {0..<tp_num_nodes t}" "set (tp_servers t) \<subseteq> {0..<tp_num_nodes t}"
    "set (tp_all_node_ids t) = {0..<tp_num_nodes t}" unfolding graph_ok_def by blast+
  then show ?thesis by (simp add: ptop_get_endpoints_def ptop_is_valid_endpoint_def)
qed

theorem ptop_endpoints_valid_witness:
  "ptop_is_valid_endpoint (fst line_built) 0 \<and> \<not> ptop_is_valid_endpoint (fst line_built) 1"
  using ptop_endpoints_valid [OF line_build] by (simp add: line_facts ptop_get_endpoints_def)

lemma mod_exact: "0 \<le> x \<Longrightarrow> x mod 4294967296 = x \<longleftrightarrow> x < (4294967296::int)"
  by (auto simp: mod_eq_self_iff_div_eq_0 zdiv_eq_0_iff)

text \<open>
  The size in byte that the worst round-trip time is estimated with, computed in 32 unsigned bits,
  is that of the packets at 1502 byte (or the byte) plus two packets exactly up to 2859496 packets
  (4294964291 byte), and wraps above.
\<close>

theorem queue_size_byte_exact:
  "(queue_size_byte (n, True) = int (n + 2) * 1502 \<longleftrightarrow> n \<le> 2859496) \<and>
   (queue_size_byte (n, False) = int (n + 2 * 1502) \<longleftrightarrow> n \<le> 4294964291)"
proof -
  have q: "queue_size_byte (n, True) = int (n + 2) * 1502 mod 4294967296"
    "queue_size_byte (n, False) = int (n + 2 * 1502) mod 4294967296"
    by (simp_all only: queue_size_byte_def to_uint32_def prod.case if_True if_False mod_mult_left_eq)
       (simp_all add: mod_mult_left_eq add.commute)
  have "(int (n + 2) * 1502 < 4294967296) = (n \<le> 2859496)" "(int (n + 2 * 1502) < 4294967296) = (n \<le> 4294964291)"
    by auto
  then show ?thesis unfolding q by (simp only: mod_exact of_nat_0_le_iff mult_nonneg_nonneg zero_le_numeral)
qed

end
