(* ===== verification/Utilization.thy ===== *)
theory Utilization
  imports Float64 Log_Update
begin

text \<open>
  Link utilization: basic-sim/model/core/ptop-link-utilization-tracker.cc with the rows its
  helper writes, and the same bookkeeping inside the laser net-device of satellite-network
  (EnableUtilizationTracking, TrackUtilization, FinalizeUtilization) with the rows the topology
  writes. The specification is the number of nanoseconds of an interval in which the link was
  on; every interval's counter is shown to be exactly that.
\<close>

section \<open>PtopLinkUtilizationTracker\<close>

record util_tracker =
  m_interval_ns :: int
  m_prev_time_ns :: int
  m_current_interval_start :: int
  m_current_interval_end :: int
  m_idle_time_counter_ns :: int
  m_busy_time_counter_ns :: int
  m_current_state_is_on :: bool
  m_intervals :: "(int \<times> int \<times> int) list"

definition util_create :: "int \<Rightarrow> util_tracker" where
  "util_create interval_ns = \<lparr>m_interval_ns = interval_ns, m_prev_time_ns = 0, m_current_interval_start = 0,
     m_current_interval_end = interval_ns, m_idle_time_counter_ns = 0, m_busy_time_counter_ns = 0,
     m_current_state_is_on = False, m_intervals = []\<rparr>"

text \<open>One turn of the loop: close the current interval and move to the next.\<close>

definition util_close_interval :: "bool \<Rightarrow> util_tracker \<Rightarrow> util_tracker res" where
  "util_close_interval next_state_is_on s =
     (let d = m_current_interval_end s - m_prev_time_ns s;
          idle = m_idle_time_counter_ns s + (if next_state_is_on then d else 0);
          busy = m_busy_time_counter_ns s + (if next_state_is_on then 0 else d)
      in if idle + busy \<noteq> m_interval_ns s then Inl (Assert_failed ''idle + busy == interval'')
         else Inr (s\<lparr>m_intervals := m_intervals s @ [(m_current_interval_start s, m_current_interval_end s, busy)],
                m_idle_time_counter_ns := 0, m_busy_time_counter_ns := 0,
                m_prev_time_ns := m_current_interval_end s,
                m_current_interval_start := m_current_interval_start s + m_interval_ns s,
                m_current_interval_end := m_current_interval_end s + m_interval_ns s\<rparr>))"

text \<open>The loop returns only if the interval ends move past \<open>now\<close>; \<open>None\<close> is "does not return".\<close>

partial_function (option) util_loop :: "bool \<Rightarrow> int \<Rightarrow> util_tracker \<Rightarrow> util_tracker res option" where
  "util_loop next_state_is_on now_ns s =
     (if now_ns \<ge> m_current_interval_end s
      then (case util_close_interval next_state_is_on s of
              Inl e \<Rightarrow> Some (Inl e) | Inr s' \<Rightarrow> util_loop next_state_is_on now_ns s')
      else Some (Inr s))"

declare util_loop.simps [code]

definition track_utilization :: "int \<Rightarrow> bool \<Rightarrow> util_tracker \<Rightarrow> util_tracker res" where
  "track_utilization now_ns next_state_is_on s =
     (case util_loop next_state_is_on now_ns s of None \<Rightarrow> Inl Diverges | Some r \<Rightarrow>
        bindr r (\<lambda>s.
          let d = now_ns - m_prev_time_ns s;
              s1 = (if next_state_is_on
                    then s\<lparr>m_idle_time_counter_ns := m_idle_time_counter_ns s + d\<rparr>
                    else s\<lparr>m_busy_time_counter_ns := m_busy_time_counter_ns s + d\<rparr>)
          in Inr (s1\<lparr>m_current_state_is_on := next_state_is_on, m_prev_time_ns := now_ns\<rparr>)))"

definition net_device_phy_tx_begin_callback :: "int \<Rightarrow> util_tracker \<Rightarrow> util_tracker res" where
  "net_device_phy_tx_begin_callback now_ns s = track_utilization now_ns True s"

definition net_device_phy_tx_end_callback :: "int \<Rightarrow> util_tracker \<Rightarrow> util_tracker res" where
  "net_device_phy_tx_end_callback now_ns s = track_utilization now_ns False s"

definition finalize_utilization :: "int \<Rightarrow> util_tracker \<Rightarrow> util_tracker res" where
  "finalize_utilization now_ns s =
     bindr (track_utilization now_ns (\<not> m_current_state_is_on s) s) (\<lambda>s.
       if now_ns \<noteq> m_current_interval_start s
       then Inr (s\<lparr>m_intervals := m_intervals s @ [(m_current_interval_start s, now_ns, m_busy_time_counter_ns s)]\<rparr>)
       else Inr s)"

text \<open>The callbacks the device's trace fires: the time and whether a transmission begins.\<close>

definition util_events :: "(int \<times> bool) list \<Rightarrow> util_tracker \<Rightarrow> util_tracker res" where
  "util_events us s = foldr_res (\<lambda>(t, begins) s.
     if begins then net_device_phy_tx_begin_callback t s else net_device_phy_tx_end_callback t s) us s"

section \<open>Specification\<close>

text \<open>Whether the link is on at a moment: the last event at or before it, off at first.\<close>

definition on_at :: "(int \<times> bool) list \<Rightarrow> int \<Rightarrow> bool" where
  "on_at us t = (case filter (\<lambda>u. fst u \<le> t) us of [] \<Rightarrow> False | vs \<Rightarrow> snd (last vs))"

text \<open>The number of nanoseconds from \<open>l\<close> up to but not including \<open>r\<close> at which \<open>f\<close> holds.\<close>

definition on_time :: "(int \<Rightarrow> bool) \<Rightarrow> int \<Rightarrow> int \<Rightarrow> int" where
  "on_time f l r = int (length (filter f [l..r - 1]))"

definition full_interval :: "int \<Rightarrow> (int \<Rightarrow> bool) \<Rightarrow> int \<Rightarrow> int \<times> int \<times> int" where
  "full_interval I f j = (j * I, (j + 1) * I, on_time f (j * I) ((j + 1) * I))"

lemma on_time_split: "l \<le> m \<Longrightarrow> m \<le> r \<Longrightarrow> on_time f l r = on_time f l m + on_time f m r"
proof -
  assume "l \<le> m" "m \<le> r"
  then have "[l..r - 1] = [l..m - 1] @ [m..r - 1]"
    by (cases "m = r") (auto simp: upto_split1 [of l "m" "r - 1"] intro: upto_split1)
  then show ?thesis by (simp add: on_time_def)
qed

lemma on_time_const: "l \<le> r \<Longrightarrow> (\<And>x. l \<le> x \<Longrightarrow> x < r \<Longrightarrow> f x = b) \<Longrightarrow> on_time f l r = (if b then r - l else 0)"
proof -
  assume "l \<le> r" and f: "\<And>x. l \<le> x \<Longrightarrow> x < r \<Longrightarrow> f x = b"
  have "filter f [l..r - 1] = filter (\<lambda>_. b) [l..r - 1]"
    by (rule filter_cong) (auto simp: f)
  then show ?thesis using \<open>l \<le> r\<close> by (auto simp: on_time_def)
qed

lemma on_time_le: "l \<le> r \<Longrightarrow> on_time f l r \<le> r - l"
  using length_filter_le [of f "[l..r - 1]"] by (simp add: on_time_def)

lemma on_time_empty [simp]: "on_time f l l = 0"
  by (simp add: on_time_def)

text \<open>
  The counters hold the on and off time of the open interval up to the previous event, and the
  closed intervals hold the on time of each multiple of the interval.
\<close>

definition util_inv :: "(int \<Rightarrow> bool) \<Rightarrow> util_tracker \<Rightarrow> bool" where
  "util_inv f s \<longleftrightarrow>
     (let I = m_interval_ns s; p = m_prev_time_ns s; a = m_current_interval_start s in
      0 < I \<and> (\<exists>k \<ge> 0. a = k * I \<and> m_intervals s = map (full_interval I f) [0..k - 1]) \<and>
      m_current_interval_end s = a + I \<and> a \<le> p \<and> p \<le> a + I \<and>
      m_busy_time_counter_ns s = on_time f a p \<and>
      m_idle_time_counter_ns s = p - a - on_time f a p)"

lemma util_inv_close:
  assumes "util_inv f s" "m_current_interval_end s \<le> now"
    and f: "\<And>x. m_prev_time_ns s \<le> x \<Longrightarrow> x < now \<Longrightarrow> f x = (\<not> b)"
  shows "\<exists>s'. util_close_interval b s = Inr s' \<and> util_inv f s' \<and> m_prev_time_ns s' = m_current_interval_end s \<and>
    m_current_interval_end s' = m_current_interval_end s + m_interval_ns s \<and> m_interval_ns s' = m_interval_ns s \<and>
    m_current_state_is_on s' = m_current_state_is_on s"
proof -
  let ?I = "m_interval_ns s" and ?p = "m_prev_time_ns s" and ?a = "m_current_interval_start s"
  obtain k where k: "0 \<le> k" "?a = k * ?I" "m_intervals s = map (full_interval ?I f) [0..k - 1]"
    using assms(1) by (auto simp: util_inv_def Let_def)
  have s: "0 < ?I" "m_current_interval_end s = ?a + ?I" "?a \<le> ?p" "?p \<le> ?a + ?I"
      "m_busy_time_counter_ns s = on_time f ?a ?p" "m_idle_time_counter_ns s = ?p - ?a - on_time f ?a ?p"
    using assms(1) by (auto simp: util_inv_def Let_def)
  have rest: "on_time f ?p (?a + ?I) = (if b then 0 else ?a + ?I - ?p)"
    using on_time_const [of ?p "?a + ?I" f "\<not> b"] f s assms(2) by auto
  have busy: "m_busy_time_counter_ns s + (if b then 0 else ?a + ?I - ?p) = on_time f ?a (?a + ?I)"
    using on_time_split [of ?a ?p "?a + ?I" f] s rest by simp
  have up: "[0..k] = [0..k - 1] @ [k]" using k(1) by (simp add: upto_rec2)
  have "m_intervals s @ [(?a, ?a + ?I, on_time f ?a (?a + ?I))] = map (full_interval ?I f) [0..k]"
    unfolding up using k by (simp add: full_interval_def distrib_right)
  then show ?thesis
    using s k(1,2) busy unfolding util_close_interval_def util_inv_def Let_def
    by (auto simp: distrib_right intro!: exI [of _ "k + 1"])
qed

lemma util_loop_inv:
  assumes "util_inv f s" "m_prev_time_ns s \<le> now"
    and "\<And>x. m_prev_time_ns s \<le> x \<Longrightarrow> x < now \<Longrightarrow> f x = (\<not> b)"
  shows "\<exists>s'. util_loop b now s = Some (Inr s') \<and> util_inv f s' \<and> m_prev_time_ns s \<le> m_prev_time_ns s' \<and>
    m_prev_time_ns s' \<le> now \<and> now < m_current_interval_end s' \<and> m_interval_ns s' = m_interval_ns s"
  using assms
proof (induction "nat (now - m_current_interval_end s + m_interval_ns s)" arbitrary: s rule: less_induct)
  case less
  show ?case
  proof (cases "m_current_interval_end s \<le> now")
    case False
    then show ?thesis using less.prems by (simp add: util_loop.simps)
  next
    case True
    obtain s1 where s1: "util_close_interval b s = Inr s1" "util_inv f s1" "m_prev_time_ns s1 = m_current_interval_end s"
        "m_current_interval_end s1 = m_current_interval_end s + m_interval_ns s" "m_interval_ns s1 = m_interval_ns s"
      using util_inv_close [OF less.prems(1) True less.prems(3)] by auto
    have I: "0 < m_interval_ns s" "m_prev_time_ns s \<le> m_current_interval_end s"
      using less.prems(1) by (auto simp: util_inv_def Let_def)
    have "\<exists>s'. util_loop b now s1 = Some (Inr s') \<and> util_inv f s' \<and> m_prev_time_ns s1 \<le> m_prev_time_ns s' \<and>
        m_prev_time_ns s' \<le> now \<and> now < m_current_interval_end s' \<and> m_interval_ns s' = m_interval_ns s1"
      by (rule less.hyps) (use s1 I True less.prems(3) in auto)
    then show ?thesis
      using s1 I True by (auto simp: util_loop.simps [of b now s])
  qed
qed

lemma track_utilization_inv:
  assumes "util_inv f s" "m_prev_time_ns s \<le> now"
    and f: "\<And>x. m_prev_time_ns s \<le> x \<Longrightarrow> x < now \<Longrightarrow> f x = (\<not> b)"
  shows "\<exists>s'. track_utilization now b s = Inr s' \<and> util_inv f s' \<and> m_prev_time_ns s' = now \<and>
    now < m_current_interval_end s' \<and> m_current_state_is_on s' = b \<and> m_interval_ns s' = m_interval_ns s"
proof -
  obtain s' where s': "util_loop b now s = Some (Inr s')" "util_inv f s'" "m_prev_time_ns s \<le> m_prev_time_ns s'"
      "m_prev_time_ns s' \<le> now" "now < m_current_interval_end s'" "m_interval_ns s' = m_interval_ns s"
    using util_loop_inv [OF assms] by blast
  let ?p = "m_prev_time_ns s'" and ?a = "m_current_interval_start s'"
  have "on_time f ?p now = (if b then 0 else now - ?p)"
    using on_time_const [of ?p now f "\<not> b"] f s' by auto
  moreover have "on_time f ?a now = on_time f ?a ?p + on_time f ?p now"
    using s' by (intro on_time_split) (auto simp: util_inv_def Let_def)
  ultimately show ?thesis
    using s' by (auto simp: track_utilization_def Let_def util_inv_def)
qed

text \<open>Transmissions begin and end in turns.\<close>

fun alternating :: "bool \<Rightarrow> bool list \<Rightarrow> bool" where
  "alternating b [] = True"
| "alternating b (x # xs) = (x = b \<and> alternating (\<not> b) xs)"

definition last_event :: "(int \<times> bool) list \<Rightarrow> int \<times> bool" where
  "last_event us = (if us = [] then (0, False) else last us)"

lemma alternating_snoc: "alternating b (xs @ [x]) \<longleftrightarrow> alternating b xs \<and> x = (if xs = [] then b else \<not> last xs)"
  by (induction b xs rule: alternating.induct) auto

lemma alternating_append: "alternating b (xs @ ys) \<Longrightarrow> alternating b xs"
  by (induction b xs rule: alternating.induct) auto

lemma on_at_between:
  assumes "sorted (map fst (vs @ ws))" "fst (last_event vs) \<le> x" "\<forall>w \<in> set ws. x < fst w"
  shows "on_at (vs @ ws) x = snd (last_event vs)"
proof -
  have "\<forall>v \<in> set vs. fst v \<le> x"
    using assms(1,2) by (cases vs rule: rev_cases) (auto simp: last_event_def sorted_append)
  then have "filter (\<lambda>u. fst u \<le> x) (vs @ ws) = vs"
    using assms(3) by (auto simp: filter_id_conv filter_empty_conv not_le)
  then show ?thesis by (auto simp: on_at_def last_event_def split: list.split)
qed

lemma util_events_prefix:
  assumes "0 < I" "sorted (0 # map fst us)" "alternating True (map snd us)" "us = vs @ ws"
  shows "\<exists>s. util_events vs (util_create I) = Inr s \<and> util_inv (on_at us) s \<and> m_interval_ns s = I \<and>
    m_prev_time_ns s = fst (last_event vs) \<and> m_current_state_is_on s = snd (last_event vs)"
  using assms(4)
proof (induction vs arbitrary: ws rule: rev_induct)
  case Nil
  then show ?case
    using assms(1) by (auto simp: util_events_def util_inv_def Let_def util_create_def last_event_def)
next
  case (snoc u vs)
  obtain t b where u: "u = (t, b)" by fastforce
  obtain s where s: "util_events vs (util_create I) = Inr s" "util_inv (on_at us) s" "m_interval_ns s = I"
      "m_prev_time_ns s = fst (last_event vs)" "m_current_state_is_on s = snd (last_event vs)"
    using snoc by force
  have "alternating True (map snd (vs @ [u]))"
    using assms(3) snoc.prems by (metis alternating_append append.assoc map_append)
  then have b: "snd (last_event vs) = (\<not> b)"
    using u by (auto simp: alternating_snoc last_event_def last_map)
  have srt: "sorted (map fst (vs @ (u # ws)))" using assms(2) snoc.prems by simp
  have t: "fst (last_event vs) \<le> t"
    using assms(2) snoc.prems u by (auto simp: last_event_def sorted_append)
  have "on_at us x = (\<not> b)" if "m_prev_time_ns s \<le> x" "x < t" for x
  proof -
    have "\<forall>w \<in> set (u # ws). x < fst w"
      using srt u that(2) by (fastforce simp: sorted_append)
    then show ?thesis using on_at_between [OF srt, of x] that s(4) b snoc.prems by simp
  qed
  then obtain s' where "track_utilization t b s = Inr s'" "util_inv (on_at us) s'" "m_prev_time_ns s' = t"
      "m_current_state_is_on s' = b" "m_interval_ns s' = I"
    using track_utilization_inv [OF s(2), of t b] s t by auto
  then show ?case
    using s(1) u by (cases b) (auto simp: util_events_def foldr_res_append net_device_phy_tx_begin_callback_def
        net_device_phy_tx_end_callback_def last_event_def)
qed

text \<open>All intervals of a run that ends at \<open>T\<close>; the last one may be cut short.\<close>

definition expected_intervals :: "int \<Rightarrow> (int \<Rightarrow> bool) \<Rightarrow> int \<Rightarrow> (int \<times> int \<times> int) list" where
  "expected_intervals I f T =
     map (full_interval I f) [0..T div I - 1] @
     (if T mod I = 0 then [] else [(T div I * I, T, on_time f (T div I * I) T)])"

lemma util_run:
  assumes "0 < I" "sorted (0 # map fst us @ [T])" "alternating True (map snd us)"
  shows "\<exists>s s'. util_events us (util_create I) = Inr s \<and>
    track_utilization T (\<not> m_current_state_is_on s) s = Inr s' \<and> m_interval_ns s' = I \<and>
    m_current_interval_start s' = T div I * I \<and>
    m_intervals s' = map (full_interval I (on_at us)) [0..T div I - 1] \<and>
    m_busy_time_counter_ns s' = on_time (on_at us) (T div I * I) T"
proof -
  have srt: "sorted (0 # map fst us)" using assms(2) by (auto simp: sorted_append)
  obtain s where s: "util_events us (util_create I) = Inr s" "util_inv (on_at us) s" "m_interval_ns s = I"
      "m_prev_time_ns s = fst (last_event us)" "m_current_state_is_on s = snd (last_event us)"
    using util_events_prefix [OF assms(1) srt assms(3), of us "[]"] by auto
  have T: "fst (last_event us) \<le> T" using assms(2) by (auto simp: last_event_def sorted_append)
  have on: "on_at us x = snd (last_event us)" if "fst (last_event us) \<le> x" for x
    using on_at_between [of us "[]" x] that srt by simp
  obtain s' where s': "track_utilization T (\<not> m_current_state_is_on s) s = Inr s'" "util_inv (on_at us) s'"
      "m_prev_time_ns s' = T" "T < m_current_interval_end s'" "m_interval_ns s' = I"
    using track_utilization_inv [OF s(2), of T "\<not> m_current_state_is_on s"] s T on by auto
  obtain k where k: "m_current_interval_start s' = k * I"
      "m_intervals s' = map (full_interval I (on_at us)) [0..k - 1]"
      "k * I \<le> T" "T < k * I + I" "m_busy_time_counter_ns s' = on_time (on_at us) (k * I) T"
    using s' by (auto simp: util_inv_def Let_def)
  have "T div I = k"
    by (rule int_div_pos_eq [of _ _ _ "T - k * I"]) (use k in auto)
  then show ?thesis using s(1) s'(1,5) k by blast
qed

lemma utilization_correct_run:
  assumes "0 < I" "sorted (0 # map fst us @ [T])" "alternating True (map snd us)"
  shows "\<exists>s. bindr (util_events us (util_create I)) (finalize_utilization T) = Inr s \<and>
    m_intervals s = expected_intervals I (on_at us) T"
proof -
  have "T = T div I * I \<longleftrightarrow> T mod I = 0"
    by (metis add_cancel_left_right div_mult_mod_eq)
  then show ?thesis
    using util_run [OF assms] by (auto simp: finalize_utilization_def expected_intervals_def)
qed

text \<open>
  With a positive interval, for transmissions that begin and end in turns at times that
  never go back, tracking and finalising terminate without the assertion firing, and the
  result is one entry per interval of the run (the last cut at the end of the run) whose
  counter is the number of nanoseconds the link was on in it.
\<close>

theorem utilization_correct:
  assumes "0 < I" "sorted (0 # map fst us @ [T])" "alternating True (map snd us)"
  shows "\<exists>s. bindr (util_events us (util_create I)) (finalize_utilization T) = Inr s \<and>
    m_intervals s = expected_intervals I (on_at us) T"
  using assms by (rule utilization_correct_run)

theorem utilization_correct_witness:
  "\<exists>s. bindr (util_events [(2, True), (7, False), (12, True)] (util_create 5)) (finalize_utilization 13) = Inr s \<and>
     m_intervals s = [(0, 5, 3), (5, 10, 2), (10, 13, 1)]"
proof -
  have "expected_intervals 5 (on_at [(2, True), (7, False), (12, True)]) 13 = [(0, 5, 3), (5, 10, 2), (10, 13, 1)]"
    by code_simp
  then show ?thesis
    using utilization_correct [of 5 "[(2, True), (7, False), (12, True)]" 13] by simp
qed


section \<open>The same bookkeeping in the laser net-device\<close>

record laser_util =
  lu_tracking_enabled :: bool
  lu_interval_ns :: int
  lu_prev_time_ns :: int
  lu_current_interval_start :: int
  lu_current_interval_end :: int
  lu_idle_time_counter_ns :: int
  lu_busy_time_counter_ns :: int
  lu_current_state_is_on :: bool
  lu_utilization :: "double list"

definition enable_utilization_tracking :: "int \<Rightarrow> laser_util \<Rightarrow> laser_util" where
  "enable_utilization_tracking interval_ns s = s\<lparr>lu_tracking_enabled := True, lu_interval_ns := interval_ns,
     lu_prev_time_ns := 0, lu_current_interval_start := 0, lu_current_interval_end := interval_ns,
     lu_idle_time_counter_ns := 0, lu_busy_time_counter_ns := 0, lu_current_state_is_on := False\<rparr>"

definition laser_close_interval :: "bool \<Rightarrow> laser_util \<Rightarrow> laser_util res" where
  "laser_close_interval next_state_is_on s =
     (let d = lu_current_interval_end s - lu_prev_time_ns s;
          idle = lu_idle_time_counter_ns s + (if next_state_is_on then d else 0);
          busy = lu_busy_time_counter_ns s + (if next_state_is_on then 0 else d)
      in if idle + busy \<noteq> lu_interval_ns s then Inl (Aborted ''Not all time is accounted for'')
         else Inr (s\<lparr>lu_utilization := lu_utilization s @ [d_div (d_of_int busy) (d_of_int (lu_interval_ns s))],
                lu_idle_time_counter_ns := 0, lu_busy_time_counter_ns := 0,
                lu_prev_time_ns := lu_current_interval_end s,
                lu_current_interval_start := lu_current_interval_start s + lu_interval_ns s,
                lu_current_interval_end := lu_current_interval_end s + lu_interval_ns s\<rparr>))"

partial_function (option) laser_util_loop :: "bool \<Rightarrow> int \<Rightarrow> laser_util \<Rightarrow> laser_util res option" where
  "laser_util_loop next_state_is_on now_ns s =
     (if now_ns \<ge> lu_current_interval_end s
      then (case laser_close_interval next_state_is_on s of
              Inl e \<Rightarrow> Some (Inl e) | Inr s' \<Rightarrow> laser_util_loop next_state_is_on now_ns s')
      else Some (Inr s))"

declare laser_util_loop.simps [code]

definition laser_track_utilization :: "int \<Rightarrow> bool \<Rightarrow> laser_util \<Rightarrow> laser_util res" where
  "laser_track_utilization now_ns next_state_is_on s =
     (if lu_tracking_enabled s
      then (case laser_util_loop next_state_is_on now_ns s of None \<Rightarrow> Inl Diverges | Some r \<Rightarrow>
        bindr r (\<lambda>s.
          let d = now_ns - lu_prev_time_ns s;
              s1 = (if next_state_is_on
                    then s\<lparr>lu_idle_time_counter_ns := lu_idle_time_counter_ns s + d\<rparr>
                    else s\<lparr>lu_busy_time_counter_ns := lu_busy_time_counter_ns s + d\<rparr>)
          in Inr (s1\<lparr>lu_current_state_is_on := next_state_is_on, lu_prev_time_ns := now_ns\<rparr>)))
      else Inr s)"

definition laser_finalize_utilization :: "int \<Rightarrow> laser_util \<Rightarrow> laser_util res" where
  "laser_finalize_utilization now_ns s = laser_track_utilization now_ns (\<not> lu_current_state_is_on s) s"

definition laser_util_init :: laser_util where
  "laser_util_init = \<lparr>lu_tracking_enabled = False, lu_interval_ns = 0, lu_prev_time_ns = 0,
     lu_current_interval_start = 0, lu_current_interval_end = 0, lu_idle_time_counter_ns = 0,
     lu_busy_time_counter_ns = 0, lu_current_state_is_on = False, lu_utilization = []\<rparr>"

text \<open>
  The two copies of the code correspond: the laser device keeps the utilization of the
  intervals the point-to-point tracker keeps.
\<close>

definition utilization_of :: "int \<Rightarrow> int \<times> int \<times> int \<Rightarrow> double" where
  "utilization_of I ivl = (case ivl of (l, r, busy) \<Rightarrow> d_div (d_of_int busy) (d_of_int I))"

definition laser_of :: "util_tracker \<Rightarrow> laser_util" where
  "laser_of u = \<lparr>lu_tracking_enabled = True, lu_interval_ns = m_interval_ns u, lu_prev_time_ns = m_prev_time_ns u,
     lu_current_interval_start = m_current_interval_start u, lu_current_interval_end = m_current_interval_end u,
     lu_idle_time_counter_ns = m_idle_time_counter_ns u, lu_busy_time_counter_ns = m_busy_time_counter_ns u,
     lu_current_state_is_on = m_current_state_is_on u,
     lu_utilization = map (utilization_of (m_interval_ns u)) (m_intervals u)\<rparr>"

lemma laser_of_simps [simp]:
  "lu_tracking_enabled (laser_of u) = True" "lu_interval_ns (laser_of u) = m_interval_ns u"
  "lu_prev_time_ns (laser_of u) = m_prev_time_ns u"
  "lu_current_interval_end (laser_of u) = m_current_interval_end u"
  "lu_current_state_is_on (laser_of u) = m_current_state_is_on u"
  "lu_utilization (laser_of u) = map (utilization_of (m_interval_ns u)) (m_intervals u)"
  by (simp_all add: laser_of_def)

lemma laser_close_interval_sim:
  "util_close_interval b u = Inr u' \<Longrightarrow> laser_close_interval b (laser_of u) = Inr (laser_of u')"
  by (auto simp: util_close_interval_def laser_close_interval_def laser_of_def utilization_of_def Let_def
      split: if_splits)

lemma laser_util_loop_sim:
  assumes "util_loop b now u = Some (Inr u')"
  shows "laser_util_loop b now (laser_of u) = Some (Inr (laser_of u'))"
proof -
  have "r = Inr u' \<longrightarrow> laser_util_loop b now (laser_of u) = Some (Inr (laser_of u'))"
    if "util_loop b now u = Some r" for r
  proof (rule util_loop.raw_induct [where
        P = "\<lambda>b now u r. r = Inr u' \<longrightarrow> laser_util_loop b now (laser_of u) = Some (Inr (laser_of u'))", OF _ that])
    fix ul b now u r
    assume ih: "\<And>b now u r. ul b now u = Some r \<Longrightarrow>
        r = Inr u' \<longrightarrow> laser_util_loop b now (laser_of u) = Some (Inr (laser_of u'))"
      and step: "(if m_current_interval_end u \<le> now
        then (case util_close_interval b u of Inl e \<Rightarrow> Some (Inl e) | Inr s' \<Rightarrow> ul b now s')
        else Some (Inr u)) = Some r"
    show "r = Inr u' \<longrightarrow> laser_util_loop b now (laser_of u) = Some (Inr (laser_of u'))"
      using step ih laser_close_interval_sim [of b u]
      by (auto simp: laser_util_loop.simps [of b now "laser_of u"] split: sum.splits if_splits)
  qed
  with assms show ?thesis by blast
qed

lemma laser_track_utilization_sim:
  assumes "track_utilization now b u = Inr u'"
  shows "laser_track_utilization now b (laser_of u) = Inr (laser_of u')"
proof -
  obtain v where v: "util_loop b now u = Some (Inr v)"
    using assms by (cases "util_loop b now u") (auto simp: track_utilization_def bindr_def split: sum.splits)
  show ?thesis
    using assms v laser_util_loop_sim [OF v]
    by (cases b) (auto simp: track_utilization_def laser_track_utilization_def Let_def, simp_all add: laser_of_def)
qed

definition laser_util_events :: "(int \<times> bool) list \<Rightarrow> laser_util \<Rightarrow> laser_util res" where
  "laser_util_events us s = foldr_res (\<lambda>(t, begins) s. laser_track_utilization t begins s) us s"

lemma laser_util_events_sim:
  "util_events us u = Inr u' \<Longrightarrow> laser_util_events us (laser_of u) = Inr (laser_of u')"
proof (induction us arbitrary: u)
  case Nil
  then show ?case by (simp add: util_events_def laser_util_events_def)
next
  case (Cons v us)
  obtain t b where "v = (t, b)" by fastforce
  with Cons show ?case
    by (cases b) (fastforce simp: util_events_def laser_util_events_def res_simps net_device_phy_tx_begin_callback_def
        net_device_phy_tx_end_callback_def dest: laser_track_utilization_sim)+
qed

text \<open>
  The utilization the laser device reports for a run is, for each complete interval of the
  run, the fraction of it that the link was on, rounded once; the incomplete last interval is
  not reported.
\<close>

theorem laser_utilization_correct:
  assumes "0 < I" "sorted (0 # map fst us @ [T])" "alternating True (map snd us)"
  shows "\<exists>s. bindr (laser_util_events us (enable_utilization_tracking I laser_util_init)) (laser_finalize_utilization T) = Inr s \<and>
    lu_utilization s = map (\<lambda>k. d_div (d_of_int (on_time (on_at us) (k * I) ((k + 1) * I))) (d_of_int I)) [0..T div I - 1]"
proof -
  obtain s s' k where s: "util_events us (util_create I) = Inr s"
      "track_utilization T (\<not> m_current_state_is_on s) s = Inr s'" "m_interval_ns s' = I"
      "m_intervals s' = map (full_interval I (on_at us)) [0..T div I - 1]"
    using util_run [OF assms] by blast
  have "enable_utilization_tracking I laser_util_init = laser_of (util_create I)"
    by (simp add: enable_utilization_tracking_def laser_util_init_def laser_of_def util_create_def)
  moreover have "laser_util_events us (laser_of (util_create I)) = Inr (laser_of s)"
    using laser_util_events_sim [OF s(1)] .
  moreover have "laser_finalize_utilization T (laser_of s) = Inr (laser_of s')"
    using laser_track_utilization_sim [OF s(2)] by (simp add: laser_finalize_utilization_def)
  moreover have "lu_utilization (laser_of s') =
      map (\<lambda>k. d_div (d_of_int (on_time (on_at us) (k * I) ((k + 1) * I))) (d_of_int I)) [0..T div I - 1]"
    using s(3,4) by (simp add: utilization_of_def full_interval_def)
  ultimately show ?thesis by simp
qed

theorem laser_utilization_correct_witness:
  "\<exists>s. bindr (laser_util_events [(2, True), (4, False)] (enable_utilization_tracking 4 laser_util_init))
       (laser_finalize_utilization 9) = Inr s \<and> length (lu_utilization s) = 2"
  using laser_utilization_correct [of 4 "[(2, True), (4, False)]" 9] by (auto simp: upto.simps)

text \<open>
  With an interval of zero, which the configuration reader of the satellite topology accepts,
  the first call after enabling does not return.
\<close>

lemma laser_util_loop_zero:
  assumes "lu_interval_ns s = 0" "lu_current_interval_end s \<le> now"
    "lu_idle_time_counter_ns s + lu_busy_time_counter_ns s + lu_current_interval_end s = lu_prev_time_ns s"
  shows "laser_util_loop b now s = None"
proof (rule ccontr)
  assume "laser_util_loop b now s \<noteq> None"
  then obtain r where r: "laser_util_loop b now s = Some r" by blast
  let ?stuck = "\<lambda>now s. lu_interval_ns s = 0 \<and> lu_current_interval_end s \<le> now \<and>
    lu_idle_time_counter_ns s + lu_busy_time_counter_ns s + lu_current_interval_end s = lu_prev_time_ns s"
  have "\<not> ?stuck now s"
  proof (rule laser_util_loop.raw_induct [where P = "\<lambda>b now s r. \<not> ?stuck now s", OF _ r])
    fix ul b now s r
    assume ih: "\<And>b now s r. ul b now s = Some r \<Longrightarrow> \<not> ?stuck now s"
      and step: "(if lu_current_interval_end s \<le> now
        then (case laser_close_interval b s of Inl e \<Rightarrow> Some (Inl e) | Inr s' \<Rightarrow> ul b now s')
        else Some (Inr s)) = Some r"
    show "\<not> ?stuck now s"
    proof
      assume st: "?stuck now s"
      then obtain s' where s': "laser_close_interval b s = Inr s'" "?stuck now s'"
        by (cases b) (auto simp: laser_close_interval_def Let_def)
      with step st ih [of b now s' r] show False by simp
    qed
  qed
  with assms show False by simp
qed

section \<open>The rows written to the logs\<close>

text \<open>
  CollectUtilizationStatistics writes a row for the last interval and for every interval whose
  utilization differs from the next one; \<open>j\<close> counts the intervals and \<open>left\<close> is the left side
  of the next row.
\<close>

fun isl_utilization_rows :: "int \<Rightarrow> int \<Rightarrow> int \<Rightarrow> double list \<Rightarrow> (int \<times> int \<times> double) list" where
  "isl_utilization_rows I j left [] = []"
| "isl_utilization_rows I j left [u] = [(left, (j + 1) * I, u)]"
| "isl_utilization_rows I j left (u # v # us) =
     (if \<not> d_eq u v
      then (left, (j + 1) * I, u) # isl_utilization_rows I (j + 1) ((j + 1) * I) (v # us)
      else isl_utilization_rows I (j + 1) left (v # us))"

lemma d_eq_imp_eq: "d_eq x y \<Longrightarrow> x = y"
  by (cases x; cases y) auto

lemma isl_utilization_rows_spec:
  assumes "0 < I" "us \<noteq> []" "left \<le> j * I"
    and "\<And>t. left \<le> t \<Longrightarrow> t < j * I \<Longrightarrow> f t = hd us"
    and "\<And>k t. k < length us \<Longrightarrow> (j + int k) * I \<le> t \<Longrightarrow> t < (j + int k + 1) * I \<Longrightarrow> f t = us ! k"
  shows "tiles left (isl_utilization_rows I j left us) ((j + int (length us)) * I) \<and>
    agrees f (isl_utilization_rows I j left us)"
  using assms
proof (induction I j left us rule: isl_utilization_rows.induct)
  case (2 I j left u)
  have "f t = u" if "left \<le> t" "t < (j + 1) * I" for t
    using 2(4) [of t] 2(5) [of 0 t] that by (cases "t < j * I") auto
  with 2 show ?case by (auto simp: agrees_def distrib_right)
next
  case (3 I j left u v us)
  have u: "f t = u" if "left \<le> t" "t < (j + 1) * I" for t
    using 3(6) [of t] 3(7) [of 0 t] that by (cases "t < j * I") auto
  have rest: "f t = (v # us) ! k" if "k < length (v # us)" "(j + 1 + int k) * I \<le> t" "t < (j + 1 + int k + 1) * I" for k t
    using 3(7) [of "Suc k" t] that by (simp add: algebra_simps)
  have j: "left < (j + 1) * I" using 3(3,5) by (simp add: distrib_right)
  show ?case
  proof (cases "d_eq u v")
    case True
    then have "tiles left (isl_utilization_rows I (j + 1) left (v # us)) ((j + 1 + int (length (v # us))) * I) \<and>
        agrees f (isl_utilization_rows I (j + 1) left (v # us))"
      by (intro 3(2)) (use 3 u rest j in \<open>auto dest: d_eq_imp_eq\<close>)
    then show ?thesis using True by (simp add: algebra_simps)
  next
    case False
    then have "tiles ((j + 1) * I) (isl_utilization_rows I (j + 1) ((j + 1) * I) (v # us)) ((j + 1 + int (length (v # us))) * I) \<and>
        agrees f (isl_utilization_rows I (j + 1) ((j + 1) * I) (v # us))"
      by (intro 3(1)) (use 3 rest in auto)
    then show ?thesis using False u j by (auto simp: agrees_def algebra_simps)
  qed
qed simp

text \<open>
  The compressed rows written for a laser link cover the complete intervals without gap or
  overlap, and the row that covers a moment carries the utilization of that moment's interval.
\<close>

theorem isl_utilization_rows_lossless:
  assumes "0 < I" "k < length us" "0 \<le> d" "d < I"
  shows "tiles 0 (isl_utilization_rows I 0 0 us) (int (length us) * I) \<and>
    log_at (isl_utilization_rows I 0 0 us) (int k * I + d) = Some (us ! k)"
proof -
  have i: "int k * I + d < int (length us) * I"
  proof -
    have "int k * I + d < (int k + 1) * I" using assms by (simp add: distrib_right)
    also have "\<dots> \<le> int (length us) * I" using assms by (intro mult_right_mono) auto
    finally show ?thesis .
  qed
  have f: "us ! nat (t div I) = us ! m" if "(0 + int m) * I \<le> t" "t < (0 + int m + 1) * I" for m t
  proof -
    have "t div I = int m" by (rule int_div_pos_eq [of _ _ _ "t - int m * I"]) (use that in \<open>auto simp: algebra_simps\<close>)
    then show ?thesis by simp
  qed
  have "tiles 0 (isl_utilization_rows I 0 0 us) ((0 + int (length us)) * I) \<and>
      agrees (\<lambda>t. us ! nat (t div I)) (isl_utilization_rows I 0 0 us)"
    by (rule isl_utilization_rows_spec) (use assms(1,2) f in auto)
  moreover have "us ! nat ((int k * I + d) div I) = us ! k"
    by (rule f) (use assms in \<open>auto simp: algebra_simps\<close>)
  ultimately show ?thesis
    using i assms(1,3) log_at_tiles [of 0 "isl_utilization_rows I 0 0 us" "int (length us) * I" _ "int k * I + d"] by auto
qed

theorem isl_utilization_rows_lossless_witness:
  "log_at [(0, 20, Fin 0), (20, 30, Fin 1)] 15 = Some (Fin 0)"
  using isl_utilization_rows_lossless [of 10 1 "[Fin 0, Fin 0, Fin 1]" 5] by simp

text \<open>
  PtopLinkUtilizationTrackerHelper::WriteResults compresses the intervals of a tracker: the next
  row starts at \<open>left\<close> and has accumulated \<open>running\<close> busy nanoseconds.
\<close>

definition approximately_not_equal :: double where
  "approximately_not_equal = rnd (1 / 1000000)"

definition interval_utilization :: "int \<times> int \<times> int \<Rightarrow> double" where
  "interval_utilization ivl = (case ivl of (l, r, busy) \<Rightarrow> d_div (d_of_int busy) (d_of_int (r - l)))"

fun ptop_utilization_rows :: "int \<Rightarrow> int \<Rightarrow> (int \<times> int \<times> int) list \<Rightarrow> (int \<times> int \<times> int) list" where
  "ptop_utilization_rows left running [] = []"
| "ptop_utilization_rows left running ((l, r, busy) # ivls) =
     (let running' = running + busy;
          print_compressed_line =
            (case ivls of [] \<Rightarrow> True
             | nxt # _ \<Rightarrow> d_le approximately_not_equal
                 (d_abs (d_sub (interval_utilization (l, r, busy)) (interval_utilization nxt))))
      in if print_compressed_line then (left, r, running') # ptop_utilization_rows r 0 ivls
         else ptop_utilization_rows left running' ivls)"

definition exact_busy :: "(int \<Rightarrow> bool) \<Rightarrow> (int \<times> int \<times> int) list \<Rightarrow> bool" where
  "exact_busy f ivls = list_all (\<lambda>(l, r, busy). busy = on_time f l r) ivls"

lemma ptop_utilization_rows_spec:
  assumes "tiles m ivls T" "exact_busy f ivls" "left \<le> m" "running = on_time f left m" "ivls \<noteq> [] \<or> left = m"
  shows "tiles left (ptop_utilization_rows left running ivls) T \<and>
    exact_busy f (ptop_utilization_rows left running ivls)"
  using assms
proof (induction left running ivls arbitrary: m rule: ptop_utilization_rows.induct)
  case (2 left running l r busy ivls)
  let ?p = "case ivls of [] \<Rightarrow> True | nxt # _ \<Rightarrow> d_le approximately_not_equal
    (d_abs (d_sub (interval_utilization (l, r, busy)) (interval_utilization nxt)))"
  have m: "l = m" "m < r" "tiles r ivls T" "exact_busy f ivls" "busy = on_time f m r"
    using 2(3,4) by (auto simp: exact_busy_def)
  have run: "running + busy = on_time f left r"
    using on_time_split [of left m r f] 2(5,6) m by simp
  show ?case
  proof (cases ?p)
    case True
    have "tiles r (ptop_utilization_rows r 0 ivls) T \<and> exact_busy f (ptop_utilization_rows r 0 ivls)"
      by (rule 2(1) [OF refl refl True]) (use m in auto)
    moreover have "ptop_utilization_rows left running ((l, r, busy) # ivls) =
        (left, r, running + busy) # ptop_utilization_rows r 0 ivls"
      using True by (simp only: ptop_utilization_rows.simps Let_def if_True)
    ultimately show ?thesis using m(1,2) run 2(5) by (simp add: exact_busy_def)
  next
    case False
    have "tiles left (ptop_utilization_rows left (running + busy) ivls) T \<and>
        exact_busy f (ptop_utilization_rows left (running + busy) ivls)"
      by (rule 2(2) [OF refl refl False]) (use m run 2(5) False in \<open>auto split: list.splits\<close>)
    then show ?thesis using False by (simp only: ptop_utilization_rows.simps Let_def if_False)
  qed
qed (simp add: exact_busy_def)

lemma on_time_nonneg: "0 \<le> on_time f l r"
  by (simp add: on_time_def)

lemma tiles_full_intervals: "0 < I \<Longrightarrow> tiles 0 (map (full_interval I f) [0..int n - 1]) (int n * I)"
proof (induction n)
  case (Suc n)
  have "[0..int (Suc n) - 1] = [0..int n - 1] @ [int n]" by (simp add: upto_rec2)
  with Suc show ?case by (simp add: tiles_snoc full_interval_def algebra_simps)
qed simp

lemma expected_intervals_tiles:
  assumes "0 < I" "0 \<le> T"
  shows "tiles 0 (expected_intervals I f T) T \<and> exact_busy f (expected_intervals I f T)"
proof -
  let ?q = "T div I"
  have q: "0 \<le> ?q" using assms by (simp add: pos_imp_zdiv_nonneg_iff)
  have "tiles 0 (map (full_interval I f) [0..?q - 1]) (?q * I)"
    using tiles_full_intervals [OF assms(1), of f "nat ?q"] q by simp
  moreover have "T mod I \<noteq> 0 \<Longrightarrow> ?q * I < T"
    using div_mult_mod_eq [of T I] pos_mod_sign [OF assms(1), of T] by linarith
  moreover have "T mod I = 0 \<Longrightarrow> ?q * I = T" using div_mult_mod_eq [of T I] by simp
  ultimately show ?thesis
    by (auto simp: expected_intervals_def tiles_snoc exact_busy_def list_all_iff full_interval_def)
qed

text \<open>
  The compressed utilization rows written for a point-to-point link cover the run from 0 to
  its end without gap or overlap, and every row states exactly the number of nanoseconds the
  link was on in the period it covers: merging intervals loses no busy time.
\<close>

theorem ptop_utilization_rows_exact:
  assumes "0 < I" "sorted (0 # map fst us @ [T])" "alternating True (map snd us)"
  shows "\<exists>s. bindr (util_events us (util_create I)) (finalize_utilization T) = Inr s \<and>
    tiles 0 (ptop_utilization_rows 0 0 (m_intervals s)) T \<and>
    exact_busy (on_at us) (ptop_utilization_rows 0 0 (m_intervals s))"
proof -
  have "0 \<le> T" using assms(2) by (auto simp: sorted_append)
  then show ?thesis
    using utilization_correct_run [OF assms] expected_intervals_tiles [OF assms(1), of T "on_at us"]
      ptop_utilization_rows_spec [of 0 "expected_intervals I (on_at us) T" T "on_at us" 0 0] by auto
qed

theorem ptop_utilization_rows_exact_witness:
  "\<exists>s. bindr (util_events [(2, True), (7, False), (12, True)] (util_create 5)) (finalize_utilization 13) = Inr s \<and>
     exact_busy (on_at [(2, True), (7, False), (12, True)]) (ptop_utilization_rows 0 0 (m_intervals s))"
  using ptop_utilization_rows_exact [of 5 "[(2, True), (7, False), (12, True)]" 13] by auto

end
