(* ===== verification/Tracking.thy ===== *)
theory Tracking
  imports Utilization Topology_Ptop Udp_Burst "HOL-Library.Product_Lexorder"
begin

text \<open>
  basic-sim: the two helpers that put trackers on the links of a point-to-point topology and write what they
  logged, ptop-link-queue-tracker-helper.cc and ptop-link-utilization-tracker-helper.cc. The theorems join the topology,
  the trackers and the rows: every directed link whose source is on this system has its rows once, ascending, and
  they are what the device \<open>GetNetDeviceForLink\<close> gives for it did, found in one run of the events of all devices.
\<close>

section \<open>Placing the trackers\<close>

text \<open>
  A tracker is kept with its directed edge and the end of the link it listens to. Both helpers go over the edges and place
  one on either end that is on this system.
\<close>

record 't tracker_helper =
  kh_enabled :: bool
  kh_interval_ns :: int
  kh_trackers :: "(edge \<times> link_end \<times> 't) list"
  kh_file_names :: "string list"
  kh_fs :: fsys

definition edge_with_devices :: "ptop \<Rightarrow> ptop_link list \<Rightarrow> (edge \<times> ptop_link) list" where
  "edge_with_devices t lks = zip (tp_undirected_edges t) lks"

definition place_on_edge ::
  "(int \<times> int list) option \<Rightarrow> 't res \<Rightarrow> edge \<times> ptop_link \<Rightarrow> (edge \<times> link_end \<times> 't) list \<Rightarrow> (edge \<times> link_end \<times> 't) list res" where
  "place_on_edge sys create p trackers = (case p of ((a, b), l) \<Rightarrow>
     bindr (if on_this_system sys a then bindr create (\<lambda>q. Inr (trackers @ [((a, b), pk_a l, q)])) else Inr trackers) (\<lambda>trackers1.
     if on_this_system sys b then bindr create (\<lambda>q. Inr (trackers1 @ [((b, a), pk_b l, q)])) else Inr trackers1))"

definition place_trackers ::
  "(int \<times> int list) option \<Rightarrow> 't res \<Rightarrow> ptop \<Rightarrow> ptop_link list \<Rightarrow> (edge \<times> link_end \<times> 't) list res" where
  "place_trackers sys create t lks = foldr_res (place_on_edge sys create) (edge_with_devices t lks) []"

definition log_prefix :: "burst_simulation \<Rightarrow> string" where
  "log_prefix sim = bs_logs_dir sim @ ''/'' @
     (case bs_system sim of None \<Rightarrow> '''' | Some (system_id, _) \<Rightarrow> ''system_'' @ show_int system_id @ ''_'')"

text \<open>The links in the order of \<open>ascending_by_directed_link\<close>.\<close>

definition by_directed_link :: "(edge \<times> link_end \<times> 't) list \<Rightarrow> (edge \<times> link_end \<times> 't) list" where
  "by_directed_link trackers = sort_key fst trackers"

section \<open>PtopLinkQueueTrackerHelper\<close>

definition queue_tracker_helper :: "burst_simulation \<Rightarrow> ptop \<Rightarrow> ptop_link list \<Rightarrow> queue_tracker tracker_helper res" where
  "queue_tracker_helper sim t lks =
     bindr (parse_boolean (get_param_or_default ''enable_link_queue_tracking'' ''false'' (bs_config sim))) (\<lambda>enabled.
     if \<not> enabled
     then Inr \<lparr>kh_enabled = False, kh_interval_ns = 0, kh_trackers = [], kh_file_names = [], kh_fs = bs_fs sim\<rparr>
     else
     bindr (place_trackers (bs_system sim) queue_tracker_create t lks) (\<lambda>trackers.
     let pkt_csv = log_prefix sim @ ''link_queue_pkt.csv''; byte_csv = log_prefix sim @ ''link_queue_byte.csv'' in
     bindr (remove_file_if_exists pkt_csv (bs_fs sim)) (\<lambda>fs.
     Inr \<lparr>kh_enabled = True, kh_interval_ns = 0, kh_trackers = trackers, kh_file_names = [pkt_csv, byte_csv], kh_fs = fs\<rparr>)))"

text \<open>A row of the csv files: from, to, start and end of an interval and the value in it.\<close>

type_synonym link_row = "int \<times> int \<times> int \<times> int \<times> int"

definition link_rows :: "edge \<Rightarrow> (int \<times> int \<times> int) list \<Rightarrow> link_row list" where
  "link_rows e entries = map (\<lambda>(l, r, v). (to_int32 (fst e), to_int32 (snd e), l, r, v)) entries"

definition write_queue_tracker :: "int \<Rightarrow> edge \<times> link_end \<times> queue_tracker \<Rightarrow> link_row list \<times> link_row list \<Rightarrow> (link_row list \<times> link_row list) res" where
  "write_queue_tracker now p files = (case p of (e, _, q) \<Rightarrow>
     bindr (get_intervals_num_packets now q) (\<lambda>(entries_pkt, q1).
     bindr (get_intervals_num_bytes now q1) (\<lambda>(entries_byte, _).
     Inr (fst files @ link_rows e entries_pkt, snd files @ link_rows e entries_byte))))"

definition write_queue_results :: "int \<Rightarrow> queue_tracker tracker_helper \<Rightarrow> (link_row list \<times> link_row list) res" where
  "write_queue_results now h =
     (if \<not> kh_enabled h then Inr ([], [])
      else foldr_res (write_queue_tracker now) (by_directed_link (kh_trackers h)) ([], []))"

section \<open>PtopLinkUtilizationTrackerHelper\<close>

definition utilization_tracker_helper :: "burst_simulation \<Rightarrow> ptop \<Rightarrow> ptop_link list \<Rightarrow> util_tracker tracker_helper res" where
  "utilization_tracker_helper sim t lks =
     bindr (parse_boolean (get_param_or_default ''enable_link_utilization_tracking'' ''false'' (bs_config sim))) (\<lambda>enabled.
     if \<not> enabled
     then Inr \<lparr>kh_enabled = False, kh_interval_ns = 0, kh_trackers = [], kh_file_names = [], kh_fs = bs_fs sim\<rparr>
     else
     bindr (get_param_or_fail ''link_utilization_tracking_interval_ns'' (bs_config sim)) (\<lambda>interval_str.
     bindr (parse_geq_one_int64 interval_str) (\<lambda>interval.
     bindr (place_trackers (bs_system sim) (Inr (util_create interval)) t lks) (\<lambda>trackers.
     let names = map (\<lambda>n. log_prefix sim @ n) [''link_utilization.csv'', ''link_utilization_compressed.csv'',
       ''link_utilization_compressed.txt'', ''link_utilization_summary.txt''] in
     bindr (foldr_res remove_file_if_exists names (bs_fs sim)) (\<lambda>fs.
     Inr \<lparr>kh_enabled = True, kh_interval_ns = interval, kh_trackers = trackers, kh_file_names = names, kh_fs = fs\<rparr>)))))"

text \<open>
  The rows of the plain and the compressed csv file, and for every link its utilization in percent of the whole run; the end
  of the last interval is read even if there is none, which is undefined.
\<close>

type_synonym utilization_files = "link_row list \<times> link_row list \<times> (int \<times> int \<times> double) list"

definition write_utilization_tracker :: "int \<Rightarrow> edge \<times> link_end \<times> util_tracker \<Rightarrow> utilization_files \<Rightarrow> utilization_files res" where
  "write_utilization_tracker now p files = (case files of (plain, compressed, summary) \<Rightarrow> (case p of (e, _, s) \<Rightarrow>
     bindr (finalize_utilization now s) (\<lambda>s1.
     let intervals = m_intervals s1; busy_sum = foldl (\<lambda>acc (_, _, busy). acc + busy) 0 intervals in
     bindr (checkr (intervals \<noteq> []) (Undefined ''vector index'')) (\<lambda>_.
     Inr (plain @ link_rows e intervals, compressed @ link_rows e (ptop_utilization_rows 0 0 intervals),
       summary @ [(to_int32 (fst e), to_int32 (snd e),
         d_mul (d_div (d_of_int busy_sum) (d_of_int (fst (snd (last intervals))))) (Fin 100))])))))"

definition write_utilization_results :: "int \<Rightarrow> util_tracker tracker_helper \<Rightarrow> utilization_files res" where
  "write_utilization_results now h =
     (if \<not> kh_enabled h then Inr ([], [], [])
      else foldr_res (write_utilization_tracker now) (by_directed_link (kh_trackers h)) ([], [], []))"

section \<open>The links that are tracked\<close>

text \<open>The directed edges whose source is on this system, ascending.\<close>

definition tracked_links :: "(int \<times> int list) option \<Rightarrow> ptop \<Rightarrow> edge list" where
  "tracked_links sys t = sorted_list_of_set {e \<in> directed_edges (set (tp_undirected_edges t)). on_this_system sys (fst e)}"

definition placed :: "(int \<times> int list) option \<Rightarrow> 't \<Rightarrow> edge \<times> ptop_link \<Rightarrow> (edge \<times> link_end \<times> 't) list" where
  "placed sys q p = (case p of ((a, b), l) \<Rightarrow>
     filter (\<lambda>(e, _). on_this_system sys (fst e)) [((a, b), pk_a l, q), ((b, a), pk_b l, q)])"

lemma place_trackers_eq: "place_trackers sys (Inr q) t lks = Inr (concat (map (placed sys q) (edge_with_devices t lks)))"
proof -
  have "foldr_res (place_on_edge sys (Inr q)) ps trackers = Inr (trackers @ concat (map (placed sys q) ps))" for ps trackers
    by (induction ps arbitrary: trackers) (auto simp: place_on_edge_def placed_def)
  then show ?thesis by (simp add: place_trackers_def)
qed

lemma fst_placed: "fst ` set (placed sys q p) = {e \<in> {fst p, prod.swap (fst p)}. on_this_system sys (fst e)}"
proof -
  obtain a b l where p: "p = ((a, b), l)" by (metis surj_pair)
  show ?thesis by (cases "on_this_system sys a"; cases "on_this_system sys b") (auto simp: placed_def p)
qed

lemma distinct_placed:
  assumes "distinct (map fst ps)" "\<forall>(a, b) \<in> fst ` set ps. a < b"
  shows "distinct (map fst (concat (map (placed sys q) ps))) \<and>
    fst ` set (concat (map (placed sys q) ps)) = {e \<in> directed_edges (fst ` set ps). on_this_system sys (fst e)}"
  using assms
proof (induction ps)
  case (Cons p ps)
  obtain a b l where p: "p = ((a, b), l)" by (metis surj_pair)
  have new: "(a, b) \<notin> directed_edges (fst ` set ps)" "(b, a) \<notin> directed_edges (fst ` set ps)" "a \<noteq> b"
    using Cons.prems by (auto simp: mem_directed_edges p image_iff dest: less_asym)
  have dir: "directed_edges (fst ` set (p # ps)) = insert (a, b) (insert (b, a) (directed_edges (fst ` set ps)))"
    by (auto simp: directed_edges_def p)
  have "distinct (map fst (placed sys q p))" using new(3) by (auto simp: placed_def p)
  moreover have "fst ` set (placed sys q p) \<inter> fst ` set (concat (map (placed sys q) ps)) = {}"
    using Cons new unfolding fst_placed by (auto simp: p)
  moreover have "fst ` set (concat (map (placed sys q) (p # ps))) =
      {e \<in> directed_edges (fst ` set (p # ps)). on_this_system sys (fst e)}"
    unfolding dir using Cons fst_placed [of sys q p] by (auto simp: p image_Un)
  ultimately show ?case using Cons by auto
qed (simp add: directed_edges_def)

lemma trackers_placed:
  assumes "build_ptop queue_size_of sim = Inr (t, lks)" "place_trackers sys (Inr q) t lks = Inr trackers"
  shows "distinct (map fst trackers)" "fst ` set trackers = set (tracked_links sys t)"
    "\<forall>(e, d, q') \<in> set trackers. q' = q \<and> get_net_device_for_link lks e = Inr d \<and> le_node d = fst e"
proof -
  note ok = build_ptop_ok [OF assms(1)]
  have "map (\<lambda>l. (le_node (pk_a l), le_node (pk_b l))) lks = tp_undirected_edges t" using ok(3) by (simp add: links_ok_def)
  then have "length lks = length (tp_undirected_edges t)" by (metis length_map)
  then have es: "map fst (edge_with_devices t lks) = tp_undirected_edges t" by (simp add: edge_with_devices_def)
  have "distinct (map fst (edge_with_devices t lks))" "\<forall>(a, b) \<in> fst ` set (edge_with_devices t lks). a < b"
    unfolding es set_map [symmetric] using ok(1) by (auto simp: graph_ok_def edges_ok_def is_sset_def)
  note d = distinct_placed [OF this, of sys q]
  have set_es: "fst ` set (edge_with_devices t lks) = set (tp_undirected_edges t)" using es by (metis set_map)
  have trackers: "trackers = concat (map (placed sys q) (edge_with_devices t lks))" using assms(2) by (simp add: place_trackers_eq)
  have "finite {e \<in> directed_edges (set (tp_undirected_edges t)). on_this_system sys (fst e)}"
    by (rule finite_subset [of _ "directed_edges (set (tp_undirected_edges t))"]) (auto simp: directed_edges_def)
  with d show "distinct (map fst trackers)" "fst ` set trackers = set (tracked_links sys t)"
    by (simp_all add: trackers tracked_links_def set_es)
  have placed_on: "q' = q \<and> get_net_device_for_link lks e = Inr d \<and> le_node d = fst e"
    if at: "(e, d, q') \<in> set (placed sys q p)" "p \<in> set (edge_with_devices t lks)" for e d q' p
  proof -
    obtain l where l: "l \<in> set lks" "p = ((le_node (pk_a l), le_node (pk_b l)), l)"
      using at(2) unfolding edge_with_devices_def ok(3) [unfolded links_ok_def, THEN conjunct1, symmetric]
      by (auto simp: zip_map1 zip_same_conv_map)
    then show ?thesis using at(1) ptop_links_of_edges [OF assms(1)] by (auto simp: placed_def Let_def split: if_splits)
  qed
  show "\<forall>(e, d, q') \<in> set trackers. q' = q \<and> get_net_device_for_link lks e = Inr d \<and> le_node d = fst e"
    using placed_on unfolding trackers by fastforce
qed

section \<open>A run\<close>

text \<open>
  The trackers connect themselves to the trace sources of a device: \<open>PacketsInQueue\<close> and \<open>BytesInQueue\<close>
  of its queue, or \<open>PhyTxBegin\<close> and \<open>PhyTxEnd\<close>. A device is named by its node and the index of its interface
  there; when one of its sources fires, the callback of the trackers connected to it is called, and of no other. A run is the
  sequence of what fires on all devices.
\<close>

type_synonym device = "int \<times> nat"

definition device_of :: "link_end \<Rightarrow> device" where
  "device_of d = (le_node d, le_if d)"

definition fire :: "('ev \<Rightarrow> 't \<Rightarrow> 't res) \<Rightarrow> device \<times> 'ev \<Rightarrow> (edge \<times> link_end \<times> 't) list \<Rightarrow> (edge \<times> link_end \<times> 't) list res" where
  "fire callback p trackers = (case p of (dev, ev) \<Rightarrow>
     mapr (\<lambda>(e, d, q). if device_of d = dev then bindr (callback ev q) (\<lambda>q1. Inr (e, d, q1)) else Inr (e, d, q)) trackers)"

definition run_trackers :: "('ev \<Rightarrow> 't \<Rightarrow> 't res) \<Rightarrow> (device \<times> 'ev) list \<Rightarrow> 't tracker_helper \<Rightarrow> 't tracker_helper res" where
  "run_trackers callback trace h =
     bindr (foldr_res (fire callback) trace (kh_trackers h)) (\<lambda>trackers. Inr (h\<lparr>kh_trackers := trackers\<rparr>))"

text \<open>The events of one device, and those of the device of a directed link.\<close>

definition events_at :: "device \<Rightarrow> (device \<times> 'ev) list \<Rightarrow> 'ev list" where
  "events_at dev trace = map snd (filter (\<lambda>(dev', _). dev' = dev) trace)"

definition link_events :: "ptop_link list \<Rightarrow> (device \<times> 'ev) list \<Rightarrow> edge \<Rightarrow> 'ev list" where
  "link_events lks trace e = (case get_net_device_for_link lks e of Inr d \<Rightarrow> events_at (device_of d) trace | Inl _ \<Rightarrow> [])"

lemma events_at_simps [simp]:
  "events_at dev [] = []"
  "events_at dev ((dev', ev) # trace) = (if dev' = dev then ev # events_at dev trace else events_at dev trace)"
  by (simp_all add: events_at_def)

lemma fired:
  assumes "\<forall>(e, d, q) \<in> set trackers. foldr_res callback (events_at (device_of d) trace) q = Inr (after (e, d))"
  shows "foldr_res (fire callback) trace trackers = Inr (map (\<lambda>(e, d, q). (e, d, after (e, d))) trackers)"
  using assms
proof (induction trace arbitrary: trackers)
  case Nil
  then show ?case by (auto intro!: map_idI [symmetric])
next
  case (Cons p trace)
  obtain dev ev where p: "p = (dev, ev)" by (cases p)
  define next_of where "next_of u = (case u of (e, d, q) \<Rightarrow>
      if device_of d = dev then (case callback ev q of Inr q1 \<Rightarrow> q1 | Inl _ \<Rightarrow> q) else q)" for u :: "edge \<times> link_end \<times> _"
  let ?step = "\<lambda>u. (fst u, fst (snd u), next_of u)"
  have each: "(if device_of d = dev then bindr (callback ev q) (\<lambda>q1. Inr (e, d, q1)) else Inr (e, d, q)) = Inr (?step (e, d, q)) \<and>
      foldr_res callback (events_at (device_of d) trace) (next_of (e, d, q)) = Inr (after (e, d))"
    if "(e, d, q) \<in> set trackers" for e d q
    using bspec [OF Cons.prems that] by (cases "callback ev q") (auto simp: p next_of_def split: if_splits)
  have "fire callback p trackers = Inr (map ?step trackers)"
    unfolding fire_def p prod.case by (rule mapr_ok) (use each in auto)
  moreover have "\<forall>(e, d, q) \<in> set (map ?step trackers). foldr_res callback (events_at (device_of d) trace) q = Inr (after (e, d))"
    using each by auto
  ultimately show ?case using Cons.IH [of "map ?step trackers"] by (simp add: case_prod_beta comp_def)
qed

section \<open>What both helpers rely on\<close>

text \<open>
  A link tracker is created, is told what happens on its device, and is read once at the end of the run. After
  legal events it never fails and its rows depend only on the events of its own device.
\<close>

locale link_tracker =
  fixes created :: "'p \<Rightarrow> 't res" and callback :: "'ev \<Rightarrow> 't \<Rightarrow> 't res"
    and write_link :: "int \<Rightarrow> edge \<times> link_end \<times> 't \<Rightarrow> 'f \<Rightarrow> 'f res"
    and legal :: "int \<Rightarrow> 'p \<Rightarrow> 'ev list \<Rightarrow> bool" and rows :: "int \<Rightarrow> 'p \<Rightarrow> 'ev list \<Rightarrow> edge \<Rightarrow> 'f \<Rightarrow> 'f"
  assumes written: "created p = Inr q0 \<Longrightarrow> legal now p es \<Longrightarrow>
    \<exists>q. foldr_res callback es q0 = Inr q \<and> (\<forall>e d files. write_link now (e, d, q) files = Inr (rows now p es e files))"
begin

lemma all_written:
  assumes "created p = Inr q0" "distinct (map fst (kh_trackers h))"
    and "\<forall>(e, d, q) \<in> set (kh_trackers h). q = q0 \<and> get_net_device_for_link lks e = Inr d \<and> legal now p (link_events lks trace e)"
  shows "\<exists>ts. run_trackers callback trace h = Inr (h\<lparr>kh_trackers := ts\<rparr>) \<and>
    foldr_res (write_link now) (by_directed_link ts) files =
      Inr (fold (\<lambda>e. rows now p (link_events lks trace e) e) (sorted_list_of_set (fst ` set (kh_trackers h))) files)"
proof -
  let ?tr = "link_events lks trace"
  define after where "after p' = (SOME q. foldr_res callback (?tr (fst p')) q0 = Inr q \<and>
    (\<forall>e' d files. write_link now (e', d, q) files = Inr (rows now p (?tr (fst p')) e' files)))" for p' :: "edge \<times> link_end"
  have after: "foldr_res callback (?tr e) q0 = Inr (after (e, d')) \<and>
      write_link now (e', d, after (e, d')) files = Inr (rows now p (?tr e) e' files)" if "legal now p (?tr e)" for e e' d d' files
    using someI_ex [OF written [OF assms(1) that]] unfolding after_def fst_conv by blast
  define ts where "ts = map (\<lambda>(e, d, q). (e, d, after (e, d))) (kh_trackers h)"
  have "foldr_res callback (events_at (device_of d) trace) q = Inr (after (e, d))" if "(e, d, q) \<in> set (kh_trackers h)" for e d q
  proof -
    have "q = q0" "get_net_device_for_link lks e = Inr d" "legal now p (?tr e)" using assms(3) that by blast+
    then show ?thesis using after [of e d] by (simp add: link_events_def)
  qed
  then have "foldr_res (fire callback) trace (kh_trackers h) = Inr ts" unfolding ts_def by (intro fired) auto
  then have run: "run_trackers callback trace h = Inr (h\<lparr>kh_trackers := ts\<rparr>)" by (simp add: run_trackers_def)
  have fst_ts: "map fst ts = map fst (kh_trackers h)" by (simp add: ts_def case_prod_beta comp_def)
  have each: "foldr_res (write_link now) us files = Inr (fold (\<lambda>e. rows now p (?tr e) e) (map fst us) files)"
    if "set us \<subseteq> set ts" for us files
    using that
  proof (induction us arbitrary: files)
    case (Cons u us)
    then obtain e d where u: "u = (e, d, after (e, d))" "legal now p (?tr e)" using assms(3) by (auto simp: ts_def)
    have "write_link now u files = Inr (rows now p (?tr e) e files)" using after [OF u(2), of d e d files] u(1) by simp
    then show ?case using Cons.IH [of "rows now p (?tr e) e files"] Cons.prems u(1) by simp
  qed simp
  have "map fst (by_directed_link ts) = sorted_list_of_set (fst ` set (kh_trackers h))"
  proof (rule sorted_distinct_set_unique)
    have "distinct (map fst ts)" using assms(2) fst_ts by simp
    then show "distinct (map fst (by_directed_link ts))" by (simp add: by_directed_link_def distinct_map)
    have "fst ` set ts = fst ` set (kh_trackers h)" using fst_ts by (metis set_map)
    then show "set (map fst (by_directed_link ts)) = set (sorted_list_of_set (fst ` set (kh_trackers h)))"
      by (simp add: by_directed_link_def)
  qed (simp_all add: by_directed_link_def)
  moreover have "set (by_directed_link ts) \<subseteq> set ts" by (simp add: by_directed_link_def)
  ultimately show ?thesis using run each [of "by_directed_link ts" files] by (intro exI [of _ ts]) simp
qed

end

section \<open>The queue trackers provide it\<close>

definition queue_trace_ok :: "int \<Rightarrow> unit \<Rightarrow> queue_event list \<Rightarrow> bool" where
  "queue_trace_ok now p es \<longleftrightarrow>
     sorted (0 # map fst (packet_updates es) @ [now]) \<and> sorted (0 # map fst (byte_updates es) @ [now])"

text \<open>The log of updates from a first value of 0 at time 0.\<close>

definition log_of :: "int \<Rightarrow> (int \<times> int) list \<Rightarrow> interval_log" where
  "log_of now us = (case bindr (log_updates ((0, 0) # us) log_init) (log_finalize now) of
     Inr s \<Rightarrow> m_log_time_value s | Inl _ \<Rightarrow> [])"

definition queue_rows :: "int \<Rightarrow> unit \<Rightarrow> queue_event list \<Rightarrow> edge \<Rightarrow> link_row list \<times> link_row list \<Rightarrow> link_row list \<times> link_row list" where
  "queue_rows now p es e files =
     (fst files @ link_rows e (log_of now (packet_updates es)), snd files @ link_rows e (log_of now (byte_updates es)))"

lemma queue_callbacks_ok:
  "log_updates (packet_updates es) (m_log_update_helper_queue_pkt q) = Inr p \<Longrightarrow>
   log_updates (byte_updates es) (m_log_update_helper_queue_byte q) = Inr b \<Longrightarrow>
   foldr_res queue_callback es q = Inr (q\<lparr>m_log_update_helper_queue_pkt := p, m_log_update_helper_queue_byte := b\<rparr>)"
proof (induction es arbitrary: q)
  case (Cons ev es)
  then show ?case
    by (cases ev) (auto simp: log_updates_def bindr_eq_Inr net_device_packets_in_queue_callback_def
        net_device_bytes_in_queue_callback_def)
qed (simp add: log_updates_def)

lemma log_of_ok:
  assumes "sorted (0 # map fst us @ [now])"
  obtains s s1 where "log_updates ((0, 0) # us) log_init = Inr s" "log_finalize now s = Inr s1" "log_of now us = m_log_time_value s1"
proof -
  have "is_ok (log_updates ((0, 0) # us) log_init)" unfolding log_updates_ok_iff using assms by (auto simp: sorted_append)
  then obtain s where s: "log_updates ((0, 0) # us) log_init = Inr s" by (auto simp: is_ok_iff)
  have inv: "log_inv ((0, 0) # us) s" by (rule log_inv_updates [OF s])
  have "m_last_interval_check_time s \<le> now" "0 \<le> now" using inv assms by (auto simp: log_inv_def sorted_append last_map)
  then obtain s1 where "log_finalize now s = Inr s1" using log_finalize_is_ok [of now s] by (auto simp: is_ok_iff)
  with s show thesis by (intro that) (auto simp: log_of_def)
qed

lemma log_of_step_function:
  assumes "sorted (0 # map fst us @ [now])"
  shows "log_at (log_of now us) x = (if 0 \<le> x \<and> x < now then Some (value_at ((0, 0) # us) x) else None)"
    "unmergeable (log_of now us)"
proof -
  obtain s s1 where s: "log_updates ((0, 0) # us) log_init = Inr s" "log_finalize now s = Inr s1" "log_of now us = m_log_time_value s1"
    using log_of_ok [OF assms] by blast
  note f = log_finalize_spec [OF log_inv_updates [OF s(1)] _ s(2)]
  then have t: "tiles 0 (log_of now us) now" "agrees (value_at ((0, 0) # us)) (log_of now us)" "unmergeable (log_of now us)"
    by (simp_all add: s(3))
  then show "unmergeable (log_of now us)" by simp
  show "log_at (log_of now us) x = (if 0 \<le> x \<and> x < now then Some (value_at ((0, 0) # us) x) else None)"
    by (rule log_at_tiles [OF t(1,2)])
qed

interpretation queue_trackers: link_tracker "\<lambda>_. queue_tracker_create" queue_callback write_queue_tracker
  queue_trace_ok queue_rows
proof
  fix p :: unit and q0 now es
  assume q0: "queue_tracker_create = Inr q0" and es: "queue_trace_ok now p es"
  have c: "log_updates us (m_log_update_helper_queue_pkt q0) = log_updates ((0, 0) # us) log_init"
      "log_updates us (m_log_update_helper_queue_byte q0) = log_updates ((0, 0) # us) log_init" for us
    using q0 by (auto simp: queue_tracker_create_def log_updates_def bindr_eq_Inr)
  obtain s s1 where s: "log_updates ((0, 0) # packet_updates es) log_init = Inr s" "log_finalize now s = Inr s1"
      "log_of now (packet_updates es) = m_log_time_value s1"
    using log_of_ok [of "packet_updates es" now] es unfolding queue_trace_ok_def by blast
  obtain b b1 where b: "log_updates ((0, 0) # byte_updates es) log_init = Inr b" "log_finalize now b = Inr b1"
      "log_of now (byte_updates es) = m_log_time_value b1"
    using log_of_ok [of "byte_updates es" now] es unfolding queue_trace_ok_def by blast
  have "foldr_res queue_callback es q0 = Inr (q0\<lparr>m_log_update_helper_queue_pkt := s, m_log_update_helper_queue_byte := b\<rparr>)"
    using queue_callbacks_ok [of es q0 s b] c s(1) b(1) by simp
  then show "\<exists>q. foldr_res queue_callback es q0 = Inr q \<and>
      (\<forall>e d files. write_queue_tracker now (e, d, q) files = Inr (queue_rows now p es e files))"
    using s b by (simp add: write_queue_tracker_def get_intervals_num_packets_def get_intervals_num_bytes_def queue_rows_def)
qed

lemma fold_rows_pair:
  "fold (\<lambda>e files. (fst files @ f e, snd files @ g e)) es files = (fst files @ concat (map f es), snd files @ concat (map g es))"
  by (induction es arbitrary: files) auto

lemma tracked_links_set: "set (tracked_links sys t) = {e \<in> directed_edges (set (tp_undirected_edges t)). on_this_system sys (fst e)}"
proof -
  have "finite {e \<in> directed_edges (set (tp_undirected_edges t)). on_this_system sys (fst e)}"
    by (rule finite_subset [of _ "directed_edges (set (tp_undirected_edges t))"]) (auto simp: directed_edges_def)
  then show ?thesis by (simp add: tracked_links_def)
qed

lemma tracked_links_sorted: "sorted_list_of_set (set (tracked_links sys t)) = tracked_links sys t"
  unfolding tracked_links_set by (simp add: tracked_links_def)

lemma tracked_device:
  assumes "fst ` set trackers = set (tracked_links sys t)"
    "\<forall>(e, d, q') \<in> set trackers. q' = q \<and> get_net_device_for_link lks e = Inr d \<and> le_node d = fst e" "e \<in> set (tracked_links sys t)"
  shows "\<exists>d. get_net_device_for_link lks e = Inr d \<and> le_node d = fst e \<and> link_events lks trace e = events_at (device_of d) trace"
proof -
  obtain d q' where "(e, d, q') \<in> set trackers" using assms(1,3) by (metis imageE prod.collapse)
  with assms(2) show ?thesis by (auto simp: link_events_def)
qed

lemma queue_tracker_helper_placed:
  assumes "queue_tracker_helper sim t lks = Inr h" "kh_enabled h"
  shows "place_trackers (bs_system sim) queue_tracker_create t lks = Inr (kh_trackers h)"
  using assms by (auto simp: queue_tracker_helper_def bindr_eq_Inr Let_def split: if_splits)

text \<open>
  C35. With queue tracking enabled, whatever events fire on the devices during a run, in order of time on each tracked one, the
  trackers take them without failure, and writing the two csv files at its end does not fail. The files hold the logs of exactly the directed links whose
  source is on this system, each once and in ascending order, and the log of a link gives at every moment of the run the
  number of packets (or bytes) in the queue of the device that \<open>GetNetDeviceForLink\<close> gives for it, which is on the
  source's side, in as few rows as possible.
\<close>

theorem queue_rows_complete:
  assumes "build_ptop queue_size_of psim = Inr (t, lks)" "queue_tracker_helper sim t lks = Inr h" "kh_enabled h"
    and "\<forall>e \<in> set (tracked_links (bs_system sim) t). queue_trace_ok T () (link_events lks trace e)"
  shows "\<exists>h1 pkt byte. run_trackers queue_callback trace h = Inr h1 \<and>
    write_queue_results T h1 = Inr (concat (map (\<lambda>e. link_rows e (pkt e)) (tracked_links (bs_system sim) t)),
      concat (map (\<lambda>e. link_rows e (byte e)) (tracked_links (bs_system sim) t))) \<and>
    (\<forall>e \<in> set (tracked_links (bs_system sim) t). unmergeable (pkt e) \<and> unmergeable (byte e) \<and>
      (\<exists>d. get_net_device_for_link lks e = Inr d \<and> le_node d = fst e \<and>
        (\<forall>x. log_at (pkt e) x = (if 0 \<le> x \<and> x < T
               then Some (value_at ((0, 0) # packet_updates (events_at (device_of d) trace)) x) else None) \<and>
             log_at (byte e) x = (if 0 \<le> x \<and> x < T
               then Some (value_at ((0, 0) # byte_updates (events_at (device_of d) trace)) x) else None))))"
proof -
  let ?L = "tracked_links (bs_system sim) t" and ?tr = "link_events lks trace"
  obtain q0 where q0: "queue_tracker_create = Inr q0" 
    by (auto simp: queue_tracker_create_def log_update_def log_init_def log_new_interval_def Let_def)
  note tr = trackers_placed [OF assms(1) queue_tracker_helper_placed [OF assms(2,3), unfolded q0]]
  have "fst u \<in> set ?L" if "u \<in> set (kh_trackers h)" for u
    using tr(2) that by blast
  then have "\<forall>(e, d, q) \<in> set (kh_trackers h). q = q0 \<and> get_net_device_for_link lks e = Inr d \<and> queue_trace_ok T () (?tr e)"
    using tr(3) assms(4) by fastforce
  then obtain ts where ts: "run_trackers queue_callback trace h = Inr (h\<lparr>kh_trackers := ts\<rparr>)"
      "foldr_res (write_queue_tracker T) (by_directed_link ts) ([], []) =
        Inr (fold (\<lambda>e. queue_rows T () (?tr e) e) ?L ([], []))"
    using queue_trackers.all_written [OF q0 tr(1), where p = "()" and now = T and trace = trace and files = "([], [])"] unfolding tr(2) tracked_links_sorted by blast
  let ?pkt = "\<lambda>e. log_of T (packet_updates (?tr e))" and ?byte = "\<lambda>e. log_of T (byte_updates (?tr e))"
  have "write_queue_results T (h\<lparr>kh_trackers := ts\<rparr>) =
      Inr (concat (map (\<lambda>e. link_rows e (?pkt e)) ?L), concat (map (\<lambda>e. link_rows e (?byte e)) ?L))"
    using ts(2) assms(3) by (simp add: write_queue_results_def queue_rows_def [abs_def] fold_rows_pair)
  moreover have "unmergeable (?pkt e) \<and> unmergeable (?byte e) \<and> (\<exists>d. get_net_device_for_link lks e = Inr d \<and> le_node d = fst e \<and>
      (\<forall>x. log_at (?pkt e) x = (if 0 \<le> x \<and> x < T then Some (value_at ((0, 0) # packet_updates (events_at (device_of d) trace)) x) else None) \<and>
           log_at (?byte e) x = (if 0 \<le> x \<and> x < T then Some (value_at ((0, 0) # byte_updates (events_at (device_of d) trace)) x) else None)))"
    if e: "e \<in> set ?L" for e
  proof -
    obtain d where d: "get_net_device_for_link lks e = Inr d" "le_node d = fst e" "?tr e = events_at (device_of d) trace"
      using tracked_device [OF tr(2,3) e, of trace] by blast
    have ok: "sorted (0 # map fst (packet_updates (?tr e)) @ [T])" "sorted (0 # map fst (byte_updates (?tr e)) @ [T])"
      using bspec [OF assms(4) e] unfolding queue_trace_ok_def by simp_all
    note pkt = log_of_step_function [OF ok(1)] and byte = log_of_step_function [OF ok(2)]
    show ?thesis by (intro conjI exI [of _ d] allI) (simp_all only: pkt byte d(1,2) d(3) [symmetric])
  qed
  ultimately show ?thesis
    using ts(1) by (intro exI [of _ "h\<lparr>kh_trackers := ts\<rparr>"] exI [of _ ?pkt] exI [of _ ?byte]) simp
qed

definition tracked_simulation :: burst_simulation where
  "tracked_simulation = \<lparr>bs_fs = \<lparr>fs_files = (\<lambda>_. None), fs_dirs = (\<lambda>_. False), fs_readable = (\<lambda>_. True),
     fs_unlink_ok = (\<lambda>_. True), fs_rmdir_ok = (\<lambda>_. True), fs_mkdir_ok = (\<lambda>_. True)\<rparr>, bs_run_dir = ''r'', bs_logs_dir = ''l'',
     bs_config = [(''enable_link_queue_tracking'', ''true''), (''enable_link_utilization_tracking'', ''true''),
       (''link_utilization_tracking_interval_ns'', ''4'')], bs_end_ns = 10, bs_system = Some (0, [0, 0, 1])\<rparr>"

lemma tracked_links_line: "tracked_links (bs_system tracked_simulation) (fst line_built) = [(0, 1), (1, 0), (1, 2)]"
proof (rule sorted_distinct_set_unique)
  show "set (tracked_links (bs_system tracked_simulation) (fst line_built)) = set [(0, 1), (1, 0), (1, 2)]"
    unfolding tracked_links_set line_facts by (auto simp: directed_edges_def on_this_system_def tracked_simulation_def)
qed (simp_all add: tracked_links_def)

lemma tracked_simulation_queue_helper:
  "\<exists>h. queue_tracker_helper tracked_simulation (fst line_built) (snd line_built) = Inr h \<and> kh_enabled h"
proof -
  obtain q0 where q0: "queue_tracker_create = Inr q0"
    by (auto simp: queue_tracker_create_def log_update_def log_init_def log_new_interval_def Let_def)
  show ?thesis
    by (simp add: q0 queue_tracker_helper_def tracked_simulation_def get_param_or_default_def parse_boolean_def place_trackers_eq
        remove_file_if_exists_def file_exists_def Let_def)
qed

text \<open>The devices of the links from 0 to 1 and from 1 to 2 in the line of three nodes.\<close>

lemma line_devices_eval:
  "bindr (build_ptop nine_packets line_sim) (\<lambda>(t, lks).
     mapr (\<lambda>e. bindr (get_net_device_for_link lks e) (\<lambda>d. Inr (device_of d))) [(0, 1), (1, 2)]) = Inr [(0, 1), (1, 2)]"
  by code_simp

lemma line_devices:
  "get_net_device_for_link (snd line_built) (0, 1) = Inr d \<Longrightarrow> device_of d = (0, 1)"
  "get_net_device_for_link (snd line_built) (1, 2) = Inr d \<Longrightarrow> device_of d = (1, 2)"
  using line_devices_eval by (auto simp: line_build case_prod_beta bindr_eq_Inr)

definition queued_at_1 :: "(device \<times> queue_event) list" where
  "queued_at_1 = [((1, 2), PacketsInQueue 1 0 1), ((1, 2), BytesInQueue 1 0 1500)]"

theorem queue_rows_complete_witness:
  "\<exists>h h1. \<exists>(pkt :: edge \<Rightarrow> interval_log) (byte :: edge \<Rightarrow> interval_log).
     queue_tracker_helper tracked_simulation (fst line_built) (snd line_built) = Inr h \<and>
     run_trackers queue_callback queued_at_1 h = Inr h1 \<and>
     write_queue_results 5 h1 = Inr (link_rows (0, 1) (pkt (0, 1)) @ link_rows (1, 0) (pkt (1, 0)) @ link_rows (1, 2) (pkt (1, 2)),
       link_rows (0, 1) (byte (0, 1)) @ link_rows (1, 0) (byte (1, 0)) @ link_rows (1, 2) (byte (1, 2))) \<and>
     log_at (pkt (1, 2)) 3 = Some 1 \<and> log_at (pkt (0, 1)) 3 = Some 0"
proof -
  let ?L = "[(0, 1), (1, 0), (1, 2)] :: edge list"
  obtain h where h: "queue_tracker_helper tracked_simulation (fst line_built) (snd line_built) = Inr h" "kh_enabled h"
    using tracked_simulation_queue_helper by blast
  have ok: "\<forall>e \<in> set (tracked_links (bs_system tracked_simulation) (fst line_built)).
      queue_trace_ok 5 () (link_events (snd line_built) queued_at_1 e)"
    by (auto simp: queue_trace_ok_def link_events_def queued_at_1_def split: sum.splits)
  obtain h1 pkt byte where w: "run_trackers queue_callback queued_at_1 h = Inr h1"
      "write_queue_results 5 h1 = Inr (concat (map (\<lambda>e. link_rows e (pkt e)) ?L), concat (map (\<lambda>e. link_rows e (byte e)) ?L))"
      "\<And>e. e \<in> set ?L \<Longrightarrow> \<exists>d. get_net_device_for_link (snd line_built) e = Inr d \<and>
        log_at (pkt e) 3 = Some (value_at ((0, 0) # packet_updates (events_at (device_of d) queued_at_1)) 3)"
    using queue_rows_complete [OF line_build h ok, unfolded tracked_links_line] by fastforce
  have "log_at (pkt (1, 2)) 3 = Some 1" using w(3) [of "(1, 2)"] line_devices(2)
    by (auto simp: queued_at_1_def value_at_def)
  moreover have "log_at (pkt (0, 1)) 3 = Some 0" using w(3) [of "(0, 1)"] line_devices(1)
    by (auto simp: queued_at_1_def value_at_def)
  ultimately show ?thesis using h(1) w(1,2)
    by (intro exI [of _ h] exI [of _ h1] exI [of _ pkt] exI [of _ byte]) simp
qed

section \<open>The utilization trackers provide it\<close>

definition utilization_callback :: "int \<times> bool \<Rightarrow> util_tracker \<Rightarrow> util_tracker res" where
  "utilization_callback p s = (case p of (now, begins) \<Rightarrow>
     if begins then net_device_phy_tx_begin_callback now s else net_device_phy_tx_end_callback now s)"

lemma util_events_callback: "util_events es s = foldr_res utilization_callback es s"
proof -
  have "(\<lambda>(t, begins) s. if begins then net_device_phy_tx_begin_callback t s else net_device_phy_tx_end_callback t s) =
      utilization_callback" by (auto simp: utilization_callback_def fun_eq_iff)
  then show ?thesis by (simp add: util_events_def)
qed

definition utilization_trace_ok :: "int \<Rightarrow> int \<Rightarrow> (int \<times> bool) list \<Rightarrow> bool" where
  "utilization_trace_ok now I es \<longleftrightarrow>
     0 < I \<and> 0 < now \<and> sorted (0 # map fst es @ [now]) \<and> alternating True (map snd es)"

text \<open>The utilization in percent of the whole run.\<close>

definition utilization_percent :: "int \<Rightarrow> int \<Rightarrow> double" where
  "utilization_percent on now = d_mul (d_div (d_of_int on) (d_of_int now)) (Fin 100)"

definition utilization_rows :: "int \<Rightarrow> int \<Rightarrow> (int \<times> bool) list \<Rightarrow> edge \<Rightarrow> utilization_files \<Rightarrow> utilization_files" where
  "utilization_rows now I es e files =
     (let intervals = expected_intervals I (on_at es) now in
      (fst files @ link_rows e intervals, fst (snd files) @ link_rows e (ptop_utilization_rows 0 0 intervals),
       snd (snd files) @ [(to_int32 (fst e), to_int32 (snd e), utilization_percent (on_time (on_at es) 0 now) now)]))"

lemma busy_sum:
  "tiles a ivs b \<Longrightarrow> exact_busy f ivs \<Longrightarrow> foldl (\<lambda>acc (_, _, busy). acc + busy) s ivs = s + on_time f a b"
proof (induction a ivs b arbitrary: s rule: tiles.induct)
  case (2 a l r v ivs b)
  then have "r \<le> b" using tiles_le by auto
  then show ?case using 2 on_time_split [of a r b f] by (simp add: exact_busy_def)
qed simp

lemma tiles_last: "tiles a ivs b \<Longrightarrow> ivs \<noteq> [] \<Longrightarrow> fst (snd (last ivs)) = b"
  by (cases ivs rule: rev_cases) (auto simp: tiles_snoc)

interpretation utilization_trackers: link_tracker "\<lambda>I. Inr (util_create I)" utilization_callback write_utilization_tracker
  utilization_trace_ok utilization_rows
proof
  fix I now es and q0 :: util_tracker
  assume q0: "(Inr (util_create I) :: util_tracker res) = Inr q0" and es: "utilization_trace_ok now I es"
  have e: "0 < I" "0 < now" "sorted (0 # map fst es @ [now])" "alternating True (map snd es)"
    using es by (auto simp: utilization_trace_ok_def)
  obtain s s1 where s: "foldr_res utilization_callback es q0 = Inr s" "finalize_utilization now s = Inr s1"
      "m_intervals s1 = expected_intervals I (on_at es) now"
    using utilization_correct_run [OF e(1,3,4)] q0 unfolding util_events_callback by (auto simp: bindr_eq_Inr)
  have t: "tiles 0 (m_intervals s1) now" "exact_busy (on_at es) (m_intervals s1)"
    unfolding s(3) using expected_intervals_tiles [OF e(1), of now "on_at es"] e(2) by simp_all
  have ne: "m_intervals s1 \<noteq> []" using t(1) e(2) by auto
  have "write_utilization_tracker now (e, d, s) files = Inr (utilization_rows now I es e files)" for e d files
    using s(2) ne busy_sum [OF t, of 0] tiles_last [OF t(1) ne] s(3)
    by (cases files) (simp add: write_utilization_tracker_def utilization_rows_def utilization_percent_def Let_def)
  with s(1) show "\<exists>q. foldr_res utilization_callback es q0 = Inr q \<and>
      (\<forall>e d files. write_utilization_tracker now (e, d, q) files = Inr (utilization_rows now I es e files))" by blast
qed

lemma utilization_tracker_helper_placed:
  assumes "utilization_tracker_helper sim t lks = Inr h" "kh_enabled h"
  shows "place_trackers (bs_system sim) (Inr (util_create (kh_interval_ns h))) t lks = Inr (kh_trackers h)"
proof -
  obtain interval trackers names fs where "h = \<lparr>kh_enabled = True, kh_interval_ns = interval, kh_trackers = trackers, kh_file_names = names, kh_fs = fs\<rparr>"
      "place_trackers (bs_system sim) (Inr (util_create interval)) t lks = Inr trackers"
    using assms unfolding utilization_tracker_helper_def bindr_eq_Inr Let_def
    by (auto split: if_splits simp: bindr_eq_Inr)
  then show ?thesis by simp
qed

lemma fold_rows_triple:
  "fold (\<lambda>e files. (fst files @ f e, fst (snd files) @ g e, snd (snd files) @ [k e])) es files =
     (fst files @ concat (map f es), fst (snd files) @ concat (map g es), snd (snd files) @ map k es)"
  by (induction es arbitrary: files) auto

text \<open>
  C36. With utilization tracking enabled and a run that does not end at time 0, whatever transmissions begin and end on the
  devices during the run, in order of time and alternating on each tracked one, the trackers take them without failure, and writing the
  files at its end does not fail. The rows are those of exactly the directed links whose source is on this system,
  each once and in ascending order: the intervals of the run with the time that the device \<open>GetNetDeviceForLink\<close> gives
  for the link, which is on the source's side, transmitted; the compressed rows, which cover the run without gap or overlap and lose
  no busy time; and the share of the run that device transmitted.
\<close>

theorem utilization_rows_complete:
  assumes "build_ptop queue_size_of psim = Inr (t, lks)" "utilization_tracker_helper sim t lks = Inr h" "kh_enabled h"
    and "\<forall>e \<in> set (tracked_links (bs_system sim) t). utilization_trace_ok T (kh_interval_ns h) (link_events lks trace e)"
  shows "\<exists>h1 on compressed. run_trackers utilization_callback trace h = Inr h1 \<and>
    write_utilization_results T h1 =
      Inr (concat (map (\<lambda>e. link_rows e (expected_intervals (kh_interval_ns h) (on e) T)) (tracked_links (bs_system sim) t)),
        concat (map (\<lambda>e. link_rows e (compressed e)) (tracked_links (bs_system sim) t)),
        map (\<lambda>e. (to_int32 (fst e), to_int32 (snd e), utilization_percent (on_time (on e) 0 T) T)) (tracked_links (bs_system sim) t)) \<and>
    (\<forall>e \<in> set (tracked_links (bs_system sim) t). tiles 0 (compressed e) T \<and> exact_busy (on e) (compressed e) \<and>
      (\<exists>d. get_net_device_for_link lks e = Inr d \<and> le_node d = fst e \<and> on e = on_at (events_at (device_of d) trace)))"
proof -
  let ?L = "tracked_links (bs_system sim) t" and ?I = "kh_interval_ns h" and ?tr = "link_events lks trace"
  note tr = trackers_placed [OF assms(1) utilization_tracker_helper_placed [OF assms(2,3)]]
  have "fst u \<in> set ?L" if "u \<in> set (kh_trackers h)" for u
    using tr(2) that by blast
  then have "\<forall>(e, d, q) \<in> set (kh_trackers h). q = util_create ?I \<and> get_net_device_for_link lks e = Inr d \<and> utilization_trace_ok T ?I (?tr e)"
    using tr(3) assms(4) by fastforce
  then obtain ts where ts: "run_trackers utilization_callback trace h = Inr (h\<lparr>kh_trackers := ts\<rparr>)"
      "foldr_res (write_utilization_tracker T) (by_directed_link ts) ([], [], []) =
        Inr (fold (\<lambda>e. utilization_rows T ?I (?tr e) e) ?L ([], [], []))"
    using utilization_trackers.all_written [OF refl tr(1), where now = T and trace = trace and files = "([], [], [])"] unfolding tr(2) tracked_links_sorted by blast
  let ?plain = "\<lambda>e. expected_intervals ?I (on_at (?tr e)) T"
  let ?compressed = "\<lambda>e. ptop_utilization_rows 0 0 (?plain e)"
  have "write_utilization_results T (h\<lparr>kh_trackers := ts\<rparr>) =
      Inr (concat (map (\<lambda>e. link_rows e (?plain e)) ?L), concat (map (\<lambda>e. link_rows e (?compressed e)) ?L),
        map (\<lambda>e. (to_int32 (fst e), to_int32 (snd e), utilization_percent (on_time (on_at (?tr e)) 0 T) T)) ?L)"
    using ts(2) assms(3) by (simp add: write_utilization_results_def utilization_rows_def [abs_def] Let_def fold_rows_triple)
  moreover have "tiles 0 (?compressed e) T \<and> exact_busy (on_at (?tr e)) (?compressed e)" if "e \<in> set ?L" for e
    using assms(4) that expected_intervals_tiles [of ?I T "on_at (?tr e)"]
      ptop_utilization_rows_spec [of 0 "?plain e" T "on_at (?tr e)" 0 0] by (auto simp: utilization_trace_ok_def)
  moreover have "\<exists>d. get_net_device_for_link lks e = Inr d \<and> le_node d = fst e \<and> on_at (?tr e) = on_at (events_at (device_of d) trace)"
    if "e \<in> set ?L" for e
    using tracked_device [OF tr(2,3) that, of trace] by auto
  ultimately show ?thesis
    using ts(1) by (intro exI [of _ "h\<lparr>kh_trackers := ts\<rparr>"] exI [of _ "\<lambda>e. on_at (?tr e)"] exI [of _ ?compressed]) simp
qed

lemma tracked_simulation_utilization_helper:
  "\<exists>h. utilization_tracker_helper tracked_simulation (fst line_built) (snd line_built) = Inr h \<and> kh_enabled h \<and> kh_interval_ns h = 4"
proof -
  have "parse_geq_one_int64 ''4'' = Inr 4" by code_simp
  then show ?thesis
    by (simp add: utilization_tracker_helper_def tracked_simulation_def get_param_or_default_def get_param_or_fail_def
        parse_boolean_def place_trackers_eq remove_file_if_exists_def file_exists_def Let_def)
qed

definition sent_at_1 :: "(device \<times> int \<times> bool) list" where
  "sent_at_1 = [((1, 2), 2, True), ((1, 2), 7, False)]"

theorem utilization_rows_complete_witness:
  "\<exists>h h1. \<exists>on :: edge \<Rightarrow> int \<Rightarrow> bool. \<exists>compressed summary. utilization_tracker_helper tracked_simulation (fst line_built) (snd line_built) = Inr h \<and>
     run_trackers utilization_callback sent_at_1 h = Inr h1 \<and>
     write_utilization_results 10 h1 = Inr (link_rows (0, 1) (expected_intervals 4 (on (0, 1)) 10) @
       link_rows (1, 0) (expected_intervals 4 (on (1, 0)) 10) @ link_rows (1, 2) (expected_intervals 4 (on (1, 2)) 10), compressed, summary) \<and>
     map (\<lambda>(a, b, _). (a, b)) summary = [(0, 1), (1, 0), (1, 2)] \<and> on (1, 2) 3 \<and> \<not> on (0, 1) 3"
proof -
  let ?L = "[(0, 1), (1, 0), (1, 2)] :: edge list"
  obtain h where h: "utilization_tracker_helper tracked_simulation (fst line_built) (snd line_built) = Inr h" "kh_enabled h"
      "kh_interval_ns h = 4"
    using tracked_simulation_utilization_helper by blast
  have ok: "\<forall>e \<in> set (tracked_links (bs_system tracked_simulation) (fst line_built)).
      utilization_trace_ok 10 (kh_interval_ns h) (link_events (snd line_built) sent_at_1 e)"
    by (auto simp: utilization_trace_ok_def h(3) link_events_def sent_at_1_def split: sum.splits)
  obtain h1 on compressed where w: "run_trackers utilization_callback sent_at_1 h = Inr h1"
      "write_utilization_results 10 h1 = Inr (concat (map (\<lambda>e. link_rows e (expected_intervals 4 (on e) 10)) ?L),
        concat (map (\<lambda>e. link_rows e (compressed e)) ?L),
        map (\<lambda>e. (to_int32 (fst e), to_int32 (snd e), utilization_percent (on_time (on e) 0 10) 10)) ?L)"
      "\<And>e. e \<in> set ?L \<Longrightarrow> \<exists>d. get_net_device_for_link (snd line_built) e = Inr d \<and> on e = on_at (events_at (device_of d) sent_at_1)"
    using utilization_rows_complete [OF line_build h(1,2) ok, unfolded tracked_links_line h(3)] by fastforce
  have "on (1, 2) 3" using w(3) [of "(1, 2)"] line_devices(2) by (auto simp: sent_at_1_def on_at_def)
  moreover have "\<not> on (0, 1) 3" using w(3) [of "(0, 1)"] line_devices(1) by (auto simp: sent_at_1_def on_at_def)
  ultimately show ?thesis using h(1) w(1,2)
    by (rule_tac exI [of _ h], rule_tac exI [of _ h1], rule_tac exI [of _ on]) (simp add: in_int32_def)
qed

text \<open>
  A run that ends at time 0 has no interval, and the share of the run is computed from the end of the last one, which does
  not exist.
\<close>

lemma utilization_rows_of_empty_run:
  assumes "m_intervals s = []" "m_current_interval_start s = 0" "m_prev_time_ns s = 0" "0 < m_current_interval_end s"
  shows "write_utilization_tracker 0 (e, d, s) files = Inl (Undefined ''vector index'')"
  using assms by (cases files) (simp add: write_utilization_tracker_def finalize_utilization_def track_utilization_def util_loop.simps Let_def)

end
