(* ===== verification/Main_Full.thy ===== *)
theory Main_Full
  imports Set_Up Topology_Ptop Tracking
begin

text \<open>
  basic-sim: main_full.cc, the program that runs a point-to-point network, and arbiter-ecmp-helper.cc as it installs the
  arbiters. The theorems compose what the components promise: which configurations a run refuses, and that the arbiters
  installed on the topology that was read forward every packet along a shortest path.
\<close>

section \<open>What the topology, its routing and the trackers ask and stamp\<close>

text \<open>What the topology sees of the simulation.\<close>

definition topology_view :: "basic_simulation \<Rightarrow> ptop_sim" where
  "topology_view s = \<lparr>ps_fs = sim_fs s, ps_run_dir = m_run_dir s, ps_config = m_config s,
     ps_system_ids = (if m_enable_distributed s then Some (m_distributed_node_system_id_assignment s) else None)\<rparr>"

definition topology_uses :: "use list" where
  "topology_uses = [Ask_or_fail ''topology_ptop_filename'', Stamp ''Parse topology graph'', Stamp ''Parse link-to-channel-delay mapping'',
     Stamp ''Parse link-to-device-data-rate mapping'', Stamp ''Parse link-to-device-queue mapping'', Stamp ''Estimate worst-case RTT (ns)'',
     Stamp ''Parse link-to-interface-tc-qdisc mapping'', Stamp ''Create nodes'', Stamp ''Install Internet stack (incl. routing) on nodes'',
     Stamp ''Create links and edge-to-interface-index mapping'']"

definition ecmp_uses :: "use list" where
  "ecmp_uses = [Stamp ''Calculate ECMP routing state'', Stamp ''Setup routing arbiter on each node'']"

definition utilization_uses :: "bool \<Rightarrow> use list" where
  "utilization_uses tracking = Ask_or_default ''enable_link_utilization_tracking'' ''false'' #
     (if tracking then [Ask_or_fail ''link_utilization_tracking_interval_ns'', Stamp ''Install utilization trackers'',
        Stamp ''Remove previous utilization tracking log files''] else [])"

definition queue_uses :: "bool \<Rightarrow> use list" where
  "queue_uses tracking = Ask_or_default ''enable_link_queue_tracking'' ''false'' #
     (if tracking then [Stamp ''Install link (net-device) queue trackers'',
        Stamp ''Remove previous link (net-device) queue tracking log files''] else [])"

section \<open>The arbiters\<close>

text \<open>\<open>buf\<close> is what the hash buffer of a new arbiter holds.\<close>

definition install_ecmp_arbiters :: "(nat \<Rightarrow> nat list) \<Rightarrow> ptop \<Rightarrow> ptop_link list \<Rightarrow> ecmp_arbiter list res" where
  "install_ecmp_arbiters buf t lks =
     (let view = ptop_view t lks in
      bindr (calculate_global_state (pt_num_nodes view) (pt_undirected_edges view)) (\<lambda>state.
        Inr (map (\<lambda>i. ecmp_create i view state (next_if lks (int i)) (buf i)) [0..<pt_num_nodes view])))"

section \<open>The program\<close>

text \<open>Further, the sizes of queues and the contents of new hash buffers.\<close>

record 'a full_platform = "'a platform" +
  pf_queue_size_of :: "string \<Rightarrow> queue_size"
  pf_buffer :: "nat \<Rightarrow> nat list"

record ('s, 'a) full_network =
  fn_topology :: ptop
  fn_links :: "ptop_link list"
  fn_arbiters :: "ecmp_arbiter list"
  fn_utilization :: "util_tracker tracker_helper"
  fn_queues :: "queue_tracker tracker_helper"
  fn_tcp_settings :: "setting list"
  fn_flows :: "'s tcp_scheduler"
  fn_bursts :: "'a burst_scheduler"
  fn_pings :: "'a pingmesh"

definition set_up_full :: "'a full_platform \<Rightarrow> fsys \<Rightarrow> string \<Rightarrow> (('s, 'a) full_network \<times> basic_simulation) res" where
  "set_up_full pf fs run_dir = (let clock = pf_clock pf in
     bindr (new_basic_simulation clock (pf_mpi pf) fs run_dir) (\<lambda>s0.
     bindr (stage clock (\<lambda>s. build_ptop (pf_queue_size_of pf) (topology_view s)) (\<lambda>_. topology_uses) keep_files s0) (\<lambda>((t, lks), s1).
     bindr (stage clock (\<lambda>_. install_ecmp_arbiters (pf_buffer pf) t lks) (\<lambda>_. ecmp_uses) keep_files s1) (\<lambda>(arbiters, s2).
     bindr (stage clock (\<lambda>s. utilization_tracker_helper (component_view s) t lks) (utilization_uses \<circ> kh_enabled) (\<lambda>h _. kh_fs h) s2) (\<lambda>(uh, s3).
     bindr (stage clock (\<lambda>s. queue_tracker_helper (component_view s) t lks) (queue_uses \<circ> kh_enabled) (\<lambda>h _. kh_fs h) s3) (\<lambda>(qh, s4).
     bindr (stage clock (\<lambda>_. optimize_using_worst_case_rtt (tp_worst_case_rtt_ns t)) (\<lambda>_. tcp_optimizer_uses) keep_files s4) (\<lambda>(settings, s5).
     bindr (stage clock (\<lambda>s. tcp_flow_scheduler (component_view s) (ptop_is_valid_endpoint t) (ptop_get_endpoints t)) (flow_uses \<circ> th_enabled)
       (\<lambda>h _. th_fs h) s5) (\<lambda>(flows, s6).
     bindr (stage clock (\<lambda>s. udp_burst_scheduler (component_view s) (ptop_is_valid_endpoint t) (ptop_get_endpoints t) (pf_address_of pf))
       (burst_uses \<circ> bh_enabled) (\<lambda>h _. bh_fs h) s6) (\<lambda>(bursts, s7).
     bindr (stage clock (\<lambda>s. pingmesh_scheduler (component_view s) (ptop_is_valid_endpoint t) (ptop_get_endpoints t) (pf_address_of pf))
       (ping_uses \<circ> pg_enabled) (\<lambda>h _. pg_fs h) s7) (\<lambda>(pings, s8).
     Inr (\<lparr>fn_topology = t, fn_links = lks, fn_arbiters = arbiters, fn_utilization = uh, fn_queues = qh, fn_tcp_settings = settings,
       fn_flows = flows, fn_bursts = bursts, fn_pings = pings\<rparr>, s8)))))))))))"

text \<open>
  The rest of the program: the run, in which the simulator calls the progress at \<open>progress_times\<close>, the results of the
  components that are enabled, and the end. Without a run directory only the usage is printed. The rows of the results are those of the components' theories.
\<close>

definition results_uses :: "('s, 'a) full_network \<Rightarrow> use list" where
  "results_uses c =
     (if th_enabled (fn_flows c) then [Stamp ''Write TCP flow log files''] else []) @
     (if bh_enabled (fn_bursts c) then [Stamp ''Write UDP burst log files''] else []) @
     (if pg_enabled (fn_pings c) then [Stamp ''Write pingmesh log files''] else []) @
     (if kh_enabled (fn_utilization c) then [Stamp ''Write utilization log files''] else []) @
     (if kh_enabled (fn_queues c) then [Stamp ''Write kink (net-device) queue log files''] else [])"

definition main_full ::
  "'a full_platform \<Rightarrow> ((string \<times> int) list \<Rightarrow> string) \<Rightarrow> double list \<Rightarrow> fsys \<Rightarrow> string \<Rightarrow>
   (('s, 'a) full_network \<times> basic_simulation) option res" where
  "main_full pf txt progress_times fs run_dir =
     (if run_dir = [] then Inr None else
     bindr (set_up_full pf fs run_dir) (\<lambda>(c, s).
     bindr (run_simulation (pf_clock pf) progress_times s) (\<lambda>(_, s1).
     bindr (foldr_res (use_step (pf_clock pf)) (results_uses c) s1) (\<lambda>s2.
       Inr (Some (c, finalize_simulation (pf_clock pf) txt s2))))))"

section \<open>Which configurations are run\<close>

definition tracker_keys :: "config \<Rightarrow> string set" where
  "tracker_keys config = {''enable_link_utilization_tracking'', ''enable_link_queue_tracking''} \<union>
     (if enabled ''enable_link_utilization_tracking'' config then {''link_utilization_tracking_interval_ns''} else {})"

lemma enabled_trackers:
  "utilization_tracker_helper sim t lks = Inr uh \<Longrightarrow> kh_enabled uh \<longleftrightarrow> enabled ''enable_link_utilization_tracking'' (bs_config sim)"
  "queue_tracker_helper sim t lks = Inr qh \<Longrightarrow> kh_enabled qh \<longleftrightarrow> enabled ''enable_link_queue_tracking'' (bs_config sim)"
  by (auto simp: enabled_def utilization_tracker_helper_def queue_tracker_helper_def bindr_eq_Inr Let_def split: if_splits)

text \<open>The stages of the set-up, in order, and what was asked up to the end.\<close>

lemma set_up_full_ok:
  assumes "set_up_full pf fs run_dir = Inr (c, s)"
  shows "\<exists>s0 s1 s2 s3 s4 s5 s6 s7.
    new_basic_simulation (pf_clock pf) (pf_mpi pf) fs run_dir = Inr s0 \<and>
    build_ptop (pf_queue_size_of pf) (topology_view s0) = Inr (fn_topology c, fn_links c) \<and>
    install_ecmp_arbiters (pf_buffer pf) (fn_topology c) (fn_links c) = Inr (fn_arbiters c) \<and>
    utilization_tracker_helper (component_view s2) (fn_topology c) (fn_links c) = Inr (fn_utilization c) \<and>
    queue_tracker_helper (component_view s3) (fn_topology c) (fn_links c) = Inr (fn_queues c) \<and>
    optimize_using_worst_case_rtt (tp_worst_case_rtt_ns (fn_topology c)) = Inr (fn_tcp_settings c) \<and>
    tcp_flow_scheduler (component_view s5) (ptop_is_valid_endpoint (fn_topology c)) (ptop_get_endpoints (fn_topology c)) = Inr (fn_flows c) \<and>
    udp_burst_scheduler (component_view s6) (ptop_is_valid_endpoint (fn_topology c)) (ptop_get_endpoints (fn_topology c)) (pf_address_of pf) =
      Inr (fn_bursts c) \<and>
    pingmesh_scheduler (component_view s7) (ptop_is_valid_endpoint (fn_topology c)) (ptop_get_endpoints (fn_topology c)) (pf_address_of pf) =
      Inr (fn_pings c) \<and>
    asked_only (asked topology_uses) s0 s1 \<and> asked_only (asked ecmp_uses) s1 s2 \<and>
    asked_only (asked (utilization_uses (kh_enabled (fn_utilization c)))) s2 s3 \<and>
    asked_only (asked (queue_uses (kh_enabled (fn_queues c)))) s3 s4 \<and> asked_only (asked tcp_optimizer_uses) s4 s5 \<and>
    asked_only (asked (flow_uses (th_enabled (fn_flows c)))) s5 s6 \<and> asked_only (asked (burst_uses (bh_enabled (fn_bursts c)))) s6 s7 \<and>
    asked_only (asked (ping_uses (pg_enabled (fn_pings c)))) s7 s"
proof -
  let ?k = "pf_clock pf"
  obtain s0 s1 s2 s3 s4 s5 s6 s7 t lks arbiters uh qh settings flows bursts pm where
    st: "new_basic_simulation ?k (pf_mpi pf) fs run_dir = Inr s0"
      "stage ?k (\<lambda>s. build_ptop (pf_queue_size_of pf) (topology_view s)) (\<lambda>_. topology_uses) keep_files s0 = Inr ((t, lks), s1)"
      "stage ?k (\<lambda>_. install_ecmp_arbiters (pf_buffer pf) t lks) (\<lambda>_. ecmp_uses) keep_files s1 = Inr (arbiters, s2)"
      "stage ?k (\<lambda>s. utilization_tracker_helper (component_view s) t lks) (utilization_uses \<circ> kh_enabled) (\<lambda>h _. kh_fs h) s2 = Inr (uh, s3)"
      "stage ?k (\<lambda>s. queue_tracker_helper (component_view s) t lks) (queue_uses \<circ> kh_enabled) (\<lambda>h _. kh_fs h) s3 = Inr (qh, s4)"
      "stage ?k (\<lambda>_. optimize_using_worst_case_rtt (tp_worst_case_rtt_ns t)) (\<lambda>_. tcp_optimizer_uses) keep_files s4 = Inr (settings, s5)"
      "stage ?k (\<lambda>s. tcp_flow_scheduler (component_view s) (ptop_is_valid_endpoint t) (ptop_get_endpoints t)) (flow_uses \<circ> th_enabled)
        (\<lambda>h _. th_fs h) s5 = Inr (flows, s6)"
      "stage ?k (\<lambda>s. udp_burst_scheduler (component_view s) (ptop_is_valid_endpoint t) (ptop_get_endpoints t) (pf_address_of pf))
        (burst_uses \<circ> bh_enabled) (\<lambda>h _. bh_fs h) s6 = Inr (bursts, s7)"
      "stage ?k (\<lambda>s. pingmesh_scheduler (component_view s) (ptop_is_valid_endpoint t) (ptop_get_endpoints t) (pf_address_of pf))
        (ping_uses \<circ> pg_enabled) (\<lambda>h _. pg_fs h) s7 = Inr (pm, s)"
    and c: "c = \<lparr>fn_topology = t, fn_links = lks, fn_arbiters = arbiters, fn_utilization = uh, fn_queues = qh, fn_tcp_settings = settings,
       fn_flows = flows, fn_bursts = bursts, fn_pings = pm\<rparr>"
    using assms unfolding set_up_full_def Let_def bindr_eq_Inr by (elim exE conjE) (simp split: prod.splits add: bindr_eq_Inr, blast)
  note ok = stage_ok [OF st(2)] stage_ok [OF st(3)] stage_ok [OF st(4)] stage_ok [OF st(5)] stage_ok [OF st(6)] stage_ok [OF st(7)]
    stage_ok [OF st(8)] stage_ok [OF st(9)]
  show ?thesis
    by (rule exI [of _ s0], rule exI [of _ s1], rule exI [of _ s2], rule exI [of _ s3], rule exI [of _ s4], rule exI [of _ s5],
        rule exI [of _ s6], rule exI [of _ s7]) (use st(1) ok in \<open>simp add: c\<close>)
qed

text \<open>All parameters a run of the program may have.\<close>

definition full_keys :: "bool \<Rightarrow> config \<Rightarrow> string set" where
  "full_keys distributed config = base_keys distributed \<union> {''topology_ptop_filename''} \<union> tracker_keys config \<union> scheduler_keys config"

lemma asked_fixed: "asked topology_uses = {''topology_ptop_filename''}" "asked ecmp_uses = {}" "asked tcp_optimizer_uses = {}"
  by (simp_all add: topology_uses_def ecmp_uses_def tcp_optimizer_uses_def)

lemma asked_trackers: "asked (utilization_uses (enabled ''enable_link_utilization_tracking'' config)) \<union> asked (queue_uses q) = tracker_keys config"
  by (cases "enabled ''enable_link_utilization_tracking'' config"; cases q)
    (simp_all add: utilization_uses_def queue_uses_def tracker_keys_def insert_commute)

lemma set_up_full_keys:
  assumes "set_up_full pf fs run_dir = Inr (c, s)"
  shows "set (m_config_requested_keys s) = full_keys (m_enable_distributed s) (m_config s)"
proof -
  obtain s0 s1 s2 s3 s4 s5 s6 s7 where n: "new_basic_simulation (pf_clock pf) (pf_mpi pf) fs run_dir = Inr s0"
    and h: "utilization_tracker_helper (component_view s2) (fn_topology c) (fn_links c) = Inr (fn_utilization c)"
      "queue_tracker_helper (component_view s3) (fn_topology c) (fn_links c) = Inr (fn_queues c)"
      "tcp_flow_scheduler (component_view s5) (ptop_is_valid_endpoint (fn_topology c)) (ptop_get_endpoints (fn_topology c)) = Inr (fn_flows c)"
      "udp_burst_scheduler (component_view s6) (ptop_is_valid_endpoint (fn_topology c)) (ptop_get_endpoints (fn_topology c)) (pf_address_of pf) =
        Inr (fn_bursts c)"
      "pingmesh_scheduler (component_view s7) (ptop_is_valid_endpoint (fn_topology c)) (ptop_get_endpoints (fn_topology c)) (pf_address_of pf) =
        Inr (fn_pings c)"
    and a: "asked_only (asked topology_uses) s0 s1" "asked_only (asked ecmp_uses) s1 s2"
      "asked_only (asked (utilization_uses (kh_enabled (fn_utilization c)))) s2 s3"
      "asked_only (asked (queue_uses (kh_enabled (fn_queues c)))) s3 s4" "asked_only (asked tcp_optimizer_uses) s4 s5"
      "asked_only (asked (flow_uses (th_enabled (fn_flows c)))) s5 s6" "asked_only (asked (burst_uses (bh_enabled (fn_bursts c)))) s6 s7"
      "asked_only (asked (ping_uses (pg_enabled (fn_pings c)))) s7 s"
    using set_up_full_ok [OF assms] by blast
  have config: "m_config s2 = m_config s" "m_config s3 = m_config s" "m_config s5 = m_config s" "m_config s6 = m_config s" "m_config s7 = m_config s"
    using a by (simp_all add: asked_only_def)
  have e: "kh_enabled (fn_utilization c) = enabled ''enable_link_utilization_tracking'' (m_config s)"
      "th_enabled (fn_flows c) = enabled ''enable_tcp_flow_scheduler'' (m_config s)"
      "bh_enabled (fn_bursts c) = enabled ''enable_udp_burst_scheduler'' (m_config s)"
      "pg_enabled (fn_pings c) = enabled ''enable_pingmesh_scheduler'' (m_config s)"
    using enabled_trackers(1) [OF h(1)] enabled_schedulers(1) [OF h(3)] enabled_schedulers(2) [OF h(4)] enabled_schedulers(3) [OF h(5)]
    by (simp_all add: config)
  note all = asked_only_trans [OF asked_only_trans [OF asked_only_trans [OF asked_only_trans [OF asked_only_trans [OF asked_only_trans
    [OF asked_only_trans [OF a(1) a(2)] a(3)] a(4)] a(5)] a(6)] a(7)] a(8)]
  have "set (m_config_requested_keys s0) = base_keys (m_enable_distributed s0)"
    using new_basic_simulation_ok(1) [OF n] by (simp add: simulation_ok_def)
  moreover have "set (m_config_requested_keys s) = set (m_config_requested_keys s0) \<union>
      (asked topology_uses \<union> asked ecmp_uses \<union> asked (utilization_uses (kh_enabled (fn_utilization c))) \<union> asked (queue_uses (kh_enabled (fn_queues c))) \<union>
       asked tcp_optimizer_uses \<union> asked (flow_uses (th_enabled (fn_flows c))) \<union> asked (burst_uses (bh_enabled (fn_bursts c))) \<union>
       asked (ping_uses (pg_enabled (fn_pings c))))" "m_enable_distributed s0 = m_enable_distributed s"
    using all by (simp_all add: asked_only_def)
  ultimately show ?thesis
    unfolding asked_trackers [where q = "kh_enabled (fn_queues c)", symmetric] asked_schedulers [symmetric] full_keys_def e asked_fixed
    by (simp add: Un_ac)
qed

text \<open>
  C16. A point-to-point run that is set up starts exactly if its configuration has no parameter beyond those of the
  simulation, the topology file, the switches of the trackers and the schedulers, and the parameters of those that are
  switched on; a parameter of a component that is off is refused, and the error names the least parameter that
  is too many.
\<close>

theorem full_run_refuses_unused:
  assumes "set_up_full pf fs run_dir = Inr (c, s)"
  shows "case start_run (pf_clock pf) s of
      Inr s1 \<Rightarrow> fst ` set (m_config s) \<subseteq> full_keys (m_enable_distributed s) (m_config s)
    | Inl e \<Rightarrow> (\<exists>key \<in> fst ` set (m_config s) - full_keys (m_enable_distributed s) (m_config s). e = unused_key_error key \<and>
        (\<forall>key1 \<in> fst ` set (m_config s) - full_keys (m_enable_distributed s) (m_config s). key \<le> key1))"
  using start_run_cases [OF set_up_full_keys [OF assms]] .

section \<open>Which way packets go\<close>

text \<open>The link behind an interface of a node leads to a neighbour.\<close>

definition link_joins :: "ptop_link list \<Rightarrow> nat \<Rightarrow> nat \<Rightarrow> nat \<Rightarrow> bool" where
  "link_joins lks i k b \<longleftrightarrow> (\<exists>l \<in> set lks.
     (le_node (pk_a l) = int i \<and> le_if (pk_a l) = k \<and> le_node (pk_b l) = int b) \<or>
     (le_node (pk_b l) = int i \<and> le_if (pk_b l) = k \<and> le_node (pk_a l) = int b))"

lemma leads_to_joins:
  assumes "links_ok t (tp_undirected_edges t) lks" "graph_ok t" "leads_to (ptop_view t lks) i k b"
  shows "link_joins lks i k b"
proof -
  have es: "tp_undirected_edges t = map (\<lambda>l. (le_node (pk_a l), le_node (pk_b l))) lks" using assms(1) by (simp add: links_ok_def)
  have nonneg: "0 \<le> le_node (pk_a l) \<and> 0 \<le> le_node (pk_b l)" if "l \<in> set lks" for l
    using assms(2) that unfolding graph_ok_def edges_ok_def es by fastforce
  have zip: "zip (pt_undirected_edges (ptop_view t lks)) (pt_interface_idxs_for_edges (ptop_view t lks)) =
      map (\<lambda>l. ((nat (le_node (pk_a l)), nat (le_node (pk_b l))), (le_if (pk_a l), le_if (pk_b l)))) lks"
    unfolding ptop_view_def interface_idxs_for_edges_def es by (simp add: zip_map_map zip_same_conv_map)
  show ?thesis using assms(3) nonneg unfolding leads_to_def zip link_joins_def by fastforce
qed

lemma ends_Cons: "ends (l # lks) = pk_a l # pk_b l # ends lks"
  by (simp add: ends_def)

lemma joins_unique:
  assumes "links_ok t es lks" "link_joins lks i k b" "link_joins lks i k b'"
  shows "b = b'"
proof -
  have "distinct (map (\<lambda>e. (le_node e, le_if e)) (ends lks))" using assms(1) by (intro numbered_distinct) (simp add: links_ok_def)
  moreover have in_ends: "link_joins xs i k b \<Longrightarrow> (int i, k) \<in> set (map (\<lambda>e. (le_node e, le_if e)) (ends xs))" for xs b
    by (force simp: link_joins_def ends_def image_iff)
  ultimately show ?thesis using assms(2,3)
  proof (induction lks)
    case (Cons l lks)
    have j: "link_joins (l # lks) i k b \<longleftrightarrow> le_node (pk_a l) = int i \<and> le_if (pk_a l) = k \<and> le_node (pk_b l) = int b \<or>
        le_node (pk_b l) = int i \<and> le_if (pk_b l) = k \<and> le_node (pk_a l) = int b \<or> link_joins lks i k b" for b
      by (auto simp: link_joins_def)
    have dist: "distinct (map (\<lambda>e. (le_node e, le_if e)) (ends lks))" "(le_node (pk_a l), le_if (pk_a l)) \<noteq> (le_node (pk_b l), le_if (pk_b l))"
      "(le_node (pk_a l), le_if (pk_a l)) \<notin> set (map (\<lambda>e. (le_node e, le_if e)) (ends lks))"
      "(le_node (pk_b l), le_if (pk_b l)) \<notin> set (map (\<lambda>e. (le_node e, le_if e)) (ends lks))"
      using Cons.prems(1) by (simp_all only: ends_Cons list.map distinct.simps list.set) auto
    show ?case
      using Cons.prems(3,4) Cons.IH [OF dist(1) in_ends] dist(2-4) in_ends [of lks b] in_ends [of lks b'] unfolding j by auto
  qed (simp add: link_joins_def)
qed

text \<open>
  Where the arbiters send a packet for \<open>tgt\<close>: from a node over the interface its arbiter decides for, whatever the packet, the
  hash function and the contents of the hash buffer.
\<close>

definition arbiter_hops :: "('s, 'a) full_network \<Rightarrow> nat \<Rightarrow> (nat \<times> nat) set" where
  "arbiter_hops c tgt = {(i, b). i < length (fn_arbiters c) \<and> (\<exists>hash32 buf src pkt hdr req a' k.
     ecmp_decide hash32 ((fn_arbiters c ! i)\<lparr>ea_hash_input_buff := buf\<rparr>) src tgt pkt hdr req = Inr (a', arbiter_result_of False k 0) \<and>
     link_joins (fn_links c) i k b)}"

lemma full_network_ok:
  assumes "set_up_full pf fs run_dir = Inr (c, s)"
  defines "t \<equiv> fn_topology c" and "view \<equiv> ptop_view (fn_topology c) (fn_links c)"
  shows "graph_ok t" "links_ok t (tp_undirected_edges t) (fn_links c)" "wf_topology view"
    "length (fn_arbiters c) = pt_num_nodes view"
    "\<exists>state. calculate_global_state (pt_num_nodes view) (pt_undirected_edges view) = Inr state \<and>
      (\<forall>i < pt_num_nodes view. fn_arbiters c ! i = ecmp_create i view state (next_if (fn_links c) (int i)) (pf_buffer pf i))"
proof -
  have b: "\<exists>sim. build_ptop (pf_queue_size_of pf) sim = Inr (fn_topology c, fn_links c)"
    and i: "install_ecmp_arbiters (pf_buffer pf) (fn_topology c) (fn_links c) = Inr (fn_arbiters c)"
    using set_up_full_ok [OF assms(1)] by blast+
  from b show "graph_ok t" "links_ok t (tp_undirected_edges t) (fn_links c)" "wf_topology view"
    unfolding t_def view_def using build_ptop_ok built_view_wf by blast+
  show "length (fn_arbiters c) = pt_num_nodes view"
    "\<exists>state. calculate_global_state (pt_num_nodes view) (pt_undirected_edges view) = Inr state \<and>
      (\<forall>i < pt_num_nodes view. fn_arbiters c ! i = ecmp_create i view state (next_if (fn_links c) (int i)) (pf_buffer pf i))"
  proof -
    obtain state where "calculate_global_state (pt_num_nodes view) (pt_undirected_edges view) = Inr state"
        "fn_arbiters c = map (\<lambda>i. ecmp_create i view state (next_if (fn_links c) (int i)) (pf_buffer pf i)) [0..<pt_num_nodes view]"
      using i unfolding install_ecmp_arbiters_def Let_def bindr_eq_Inr view_def by auto
    then show "length (fn_arbiters c) = pt_num_nodes view"
      "\<exists>state. calculate_global_state (pt_num_nodes view) (pt_undirected_edges view) = Inr state \<and>
        (\<forall>i < pt_num_nodes view. fn_arbiters c ! i = ecmp_create i view state (next_if (fn_links c) (int i)) (pf_buffer pf i))"
      by simp_all
  qed
qed

lemma arbiter_hops_ok:
  fixes c :: "('s, 'a) full_network"
  assumes "set_up_full pf fs run_dir = Inr (c, s)" "i < length (fn_arbiters c)" "tgt < length (fn_arbiters c)"
  defines "E \<equiv> links (pt_undirected_edges (ptop_view (fn_topology c) (fn_links c)))"
  shows "(i, b) \<in> arbiter_hops c tgt \<Longrightarrow> i \<noteq> tgt \<and> reachable E i tgt \<and> (i, b) \<in> E \<and> Suc (hops E b tgt) = hops E i tgt"
    "i \<noteq> tgt \<Longrightarrow> reachable E i tgt \<Longrightarrow> \<exists>b. (i, b) \<in> arbiter_hops c tgt"
proof -
  let ?view = "ptop_view (fn_topology c) (fn_links c)"
  note ok = full_network_ok [OF assms(1)]
  obtain state where state: "calculate_global_state (pt_num_nodes ?view) (pt_undirected_edges ?view) = Inr state"
      "fn_arbiters c ! i = ecmp_create i ?view state (next_if (fn_links c) (int i)) (pf_buffer pf i)"
    using ok(5) assms(2) ok(4) by auto
  have buffered: "(fn_arbiters c ! i)\<lparr>ea_hash_input_buff := buf\<rparr> = ecmp_create i ?view state (next_if (fn_links c) (int i)) buf" for buf
    by (simp add: state(2) ecmp_create_def)
  note i = assms(2,3) [unfolded ok(4)]
  note spec = ecmp_decide_spec [OF ok(3) state(1) i]
  have edge: "(i, b) \<in> E" if "leads_to ?view i k b" for k b
    using that unfolding leads_to_def E_def links_def by (auto dest: set_zip_leftD)
  have joins: "link_joins (fn_links c) i k b" if "leads_to ?view i k b" for k b
    using leads_to_joins [OF ok(2,1) that] .
  show "i \<noteq> tgt \<and> reachable E i tgt \<and> (i, b) \<in> E \<and> Suc (hops E b tgt) = hops E i tgt" if h: "(i, b) \<in> arbiter_hops c tgt"
  proof -
    obtain hash32 buf src pkt hdr req a' k where
        d: "ecmp_decide hash32 ((fn_arbiters c ! i)\<lparr>ea_hash_input_buff := buf\<rparr>) src tgt pkt hdr req = Inr (a', arbiter_result_of False k 0)"
      and l: "link_joins (fn_links c) i k b"
      using h unfolding arbiter_hops_def by blast
    note sp = spec [of hash32 "next_if (fn_links c) (int i)" buf src pkt hdr req, folded buffered, folded E_def, unfolded d]
    have r: "tgt \<noteq> i" "reachable E i tgt" using sp by (auto split: if_splits)
    then obtain k' b' where "arbiter_result_of False k 0 = arbiter_result_of False k' 0" "leads_to ?view i k' b'"
        "Suc (hops E b' tgt) = hops E i tgt"
      using sp by auto
    moreover from this have "k' = k" by (simp add: arbiter_result_of_def)
    ultimately show ?thesis using r joins_unique [OF ok(2) l joins] edge by auto
  qed
  show "\<exists>b. (i, b) \<in> arbiter_hops c tgt" if r: "i \<noteq> tgt" "reachable E i tgt"
  proof -
    have "\<exists>a' k b. ecmp_decide undefined ((fn_arbiters c ! i)\<lparr>ea_hash_input_buff := []\<rparr>) undefined tgt undefined undefined undefined =
        Inr (a', arbiter_result_of False k 0) \<and> leads_to ?view i k b"
      using spec [of undefined "next_if (fn_links c) (int i)" "[]" undefined undefined undefined undefined, folded buffered, folded E_def] r by auto
    then show ?thesis using joins assms(2) unfolding arbiter_hops_def by blast
  qed
qed

text \<open>
  C3. In a point-to-point run that is set up every packet goes a shortest path: from a node of the network towards a target it can
  reach over the links of the topology file, whatever the packet and the hash function and however the arbiters of
  the nodes decide, after m hops over the links behind the chosen interfaces the packet is m hops closer, and only at the target
  there is no next hop. So it arrives after exactly as many hops as the target is away.
\<close>

theorem full_network_forwards_shortest:
  fixes c :: "('s, 'a) full_network"
  assumes "set_up_full pf fs run_dir = Inr (c, s)" "i < nat (tp_num_nodes (fn_topology c))" "tgt < nat (tp_num_nodes (fn_topology c))"
    and "reachable (links (pt_undirected_edges (ptop_view (fn_topology c) (fn_links c)))) i tgt" "(i, x) \<in> arbiter_hops c tgt ^^ m"
  shows "hops (links (pt_undirected_edges (ptop_view (fn_topology c) (fn_links c)))) i tgt =
      m + hops (links (pt_undirected_edges (ptop_view (fn_topology c) (fn_links c)))) x tgt \<and>
    (x = tgt \<longleftrightarrow> (\<nexists>y. (x, y) \<in> arbiter_hops c tgt))"
proof -
  let ?E = "links (pt_undirected_edges (ptop_view (fn_topology c) (fn_links c)))"
  note ok = full_network_ok [OF assms(1)]
  have n: "length (fn_arbiters c) = nat (tp_num_nodes (fn_topology c))" by (simp add: ok(4)) (simp add: ptop_view_def)
  have v: "valid_edges (length (fn_arbiters c)) (pt_undirected_edges (ptop_view (fn_topology c) (fn_links c)))"
    using ok(3) by (simp add: ok(4) wf_topology_def)
  have tgt: "tgt < length (fn_arbiters c)" using assms(3) by (simp add: n)
  have walk: "x < length (fn_arbiters c) \<and> reachable ?E x tgt \<and> hops ?E i tgt = m + hops ?E x tgt"
    using assms(5)
  proof (induction m arbitrary: x)
    case 0
    then show ?case using assms(2,4) n by simp
  next
    case (Suc m)
    then obtain y where y: "(i, y) \<in> arbiter_hops c tgt ^^ m" "(y, x) \<in> arbiter_hops c tgt" by auto
    note IH = Suc.IH [OF y(1)]
    note hop = arbiter_hops_ok(1) [OF assms(1) conjunct1 [OF IH] tgt y(2)]
    have "x < length (fn_arbiters c)" using links_bound [OF v] hop by blast
    moreover have "(x, y) \<in> ?E" using hop by (auto simp: links_def)
    then have "reachable ?E x tgt" using hops_step hop by blast
    ultimately show ?case using IH hop by simp
  qed
  then have "x < length (fn_arbiters c)" "reachable ?E x tgt" by simp_all
  then have "x = tgt \<longleftrightarrow> (\<nexists>y. (x, y) \<in> arbiter_hops c tgt)"
    using arbiter_hops_ok [OF assms(1) _ tgt, of x] by blast
  with walk show ?thesis by simp
qed

section \<open>A run\<close>

text \<open>A server, its ToR and another switch in a line, and a parameter of the pingmesh, which is off.\<close>

definition line_run_dir :: fsys where
  "line_run_dir = (ps_fs line_sim)\<lparr>fs_files := (\<lambda>f. if f = ''r/t'' then Some line_file
     else if f = ''r/config_ns3.properties'' then Some (''simulation_end_time_ns=100'' @ newline # ''simulation_seed=1'' @ newline #
       ''topology_ptop_filename=t'' @ newline # ''pingmesh_interval_ns=5'') else None), fs_dirs := (\<lambda>d. d = ''r'')\<rparr>"

definition line_platform :: "unit full_platform" where
  "line_platform = \<lparr>pf_clock = int, pf_mpi = No_mpi, pf_address_of = (\<lambda>_. ()), pf_queue_size_of = nine_packets, pf_buffer = (\<lambda>_. replicate 17 0)\<rparr>"

definition line_config :: config where
  "line_config = [(''simulation_end_time_ns'', ''100''), (''simulation_seed'', ''1''), (''topology_ptop_filename'', ''t''),
     (''pingmesh_interval_ns'', ''5'')]"

lemma line_created_eval:
  "case new_basic_simulation int No_mpi line_run_dir ''r'' of Inl _ \<Rightarrow> False
   | Inr s \<Rightarrow> m_config s = line_config \<and> m_run_dir s = ''r'' \<and> \<not> m_enable_distributed s \<and> fs_files (sim_fs s) ''r/t'' = Some line_file \<and>
       fs_readable (sim_fs s) ''r/t''"
  by code_simp

lemma read_config_same:
  "fs_files fs1 f = fs_files fs2 f \<Longrightarrow> fs_readable fs1 f = fs_readable fs2 f \<Longrightarrow> read_config fs1 f = read_config fs2 f"
  by (cases "fs_files fs2 f") (simp_all add: read_config_def file_exists_def open_lines_def)

lemma line_stage:
  assumes "build s = Inr c" "\<forall>key. Ask_or_fail key \<in> set (uses c) \<longrightarrow> key = ''topology_ptop_filename''"
    and "m_config s = line_config \<and> \<not> m_enable_distributed s"
  shows "\<exists>s1. stage int build uses files s = Inr (c, s1) \<and> m_config s1 = line_config \<and> \<not> m_enable_distributed s1"
proof -
  have "map_of line_config ''topology_ptop_filename'' \<noteq> None" by (simp add: line_config_def)
  then show ?thesis using stage_succeeds [of build s c uses int files] assms by metis
qed

lemma line_components_off:
  assumes "m_config s = line_config \<and> \<not> m_enable_distributed s"
  shows "\<exists>uh. utilization_tracker_helper (component_view s) t lks = Inr uh \<and> \<not> kh_enabled uh"
    "\<exists>qh. queue_tracker_helper (component_view s) t lks = Inr qh \<and> \<not> kh_enabled qh"
proof -
  have off: "map_of line_config key = None"
    if "key \<in> {''enable_link_utilization_tracking'', ''enable_link_queue_tracking''}" for key
    using that by (auto simp: line_config_def)
  then show "\<exists>uh. utilization_tracker_helper (component_view s) t lks = Inr uh \<and> \<not> kh_enabled uh"
    "\<exists>qh. queue_tracker_helper (component_view s) t lks = Inr qh \<and> \<not> kh_enabled qh"
    using assms by (simp_all add: utilization_tracker_helper_def queue_tracker_helper_def switched_off)
qed

lemma line_set_up:
  "\<exists>c s. (set_up_full line_platform line_run_dir ''r'' :: ((unit, unit) full_network \<times> basic_simulation) res) = Inr (c, s) \<and>
     fn_topology c = fst line_built \<and> fn_links c = snd line_built \<and> m_config s = line_config \<and> \<not> m_enable_distributed s"
proof -
  obtain s0 where s0: "new_basic_simulation int No_mpi line_run_dir ''r'' = Inr s0" "m_config s0 = line_config" "m_run_dir s0 = ''r''"
      "\<not> m_enable_distributed s0" "fs_files (sim_fs s0) ''r/t'' = Some line_file" "fs_readable (sim_fs s0) ''r/t''"
    using line_created_eval by (auto split: sum.splits)
  have "read_config (sim_fs s0) ''r/t'' = read_config (ps_fs line_sim) ''r/t''"
    by (rule read_config_same) (simp_all add: s0(5,6) line_sim_def)
  then have "read_topology_config (topology_view s0) t = read_topology_config line_sim t" for t
    by (simp add: read_topology_config_def topology_view_def s0(2,3) line_config_def get_param_or_fail_def) (simp add: line_sim_def)
  then have "build_ptop nine_packets (topology_view s0) = build_ptop nine_packets line_sim"
    using s0(4) by (simp add: build_ptop_def topology_view_def) (simp add: line_sim_def)
  then have b: "build_ptop nine_packets (topology_view s0) = Inr (fst line_built, snd line_built)" using line_build by simp
  obtain arbs where a: "install_ecmp_arbiters (\<lambda>_. replicate 17 0) (fst line_built) (snd line_built) = Inr arbs"
    by (auto simp: install_ecmp_arbiters_def calculate_global_state_def ptop_view_def line_facts)
  have "tp_worst_case_rtt_ns (fst line_built) = 66088036" using line_eval by (simp add: line_build case_prod_beta)
  then obtain settings where o: "optimize_using_worst_case_rtt (tp_worst_case_rtt_ns (fst line_built)) = Inr settings"
    using worst_case_timers [of 66088036] by auto
  let ?t = "fst line_built" and ?l = "snd line_built"
  obtain s1 where s1: "stage int (\<lambda>s. build_ptop nine_packets (topology_view s)) (\<lambda>_. topology_uses) keep_files s0 = Inr ((?t, ?l), s1)"
      "m_config s1 = line_config \<and> \<not> m_enable_distributed s1"
    using line_stage [where build = "\<lambda>s. build_ptop nine_packets (topology_view s)" and s = s0 and uses = "\<lambda>_. topology_uses", OF b] s0(2,4) by (auto simp: topology_uses_def)
  obtain s2 where s2: "stage int (\<lambda>_. install_ecmp_arbiters (\<lambda>_. replicate 17 0) ?t ?l) (\<lambda>_. ecmp_uses) keep_files s1 = Inr (arbs, s2)"
      "m_config s2 = line_config \<and> \<not> m_enable_distributed s2"
    using line_stage [where build = "\<lambda>_. install_ecmp_arbiters (\<lambda>_. replicate 17 0) ?t ?l" and s = s1 and uses = "\<lambda>_. ecmp_uses", OF a _ s1(2)] by (auto simp: ecmp_uses_def)
  obtain uh where uh: "utilization_tracker_helper (component_view s2) ?t ?l = Inr uh" "\<not> kh_enabled uh"
    using line_components_off(1) [OF s2(2)] by blast
  obtain s3 where s3: "stage int (\<lambda>s. utilization_tracker_helper (component_view s) ?t ?l) (utilization_uses \<circ> kh_enabled) (\<lambda>h _. kh_fs h) s2 = Inr (uh, s3)"
      "m_config s3 = line_config \<and> \<not> m_enable_distributed s3"
    using line_stage [where build = "\<lambda>s. utilization_tracker_helper (component_view s) ?t ?l" and uses = "utilization_uses \<circ> kh_enabled", OF uh(1) _ s2(2)] uh(2) by (auto simp: utilization_uses_def)
  obtain qh where qh: "queue_tracker_helper (component_view s3) ?t ?l = Inr qh" "\<not> kh_enabled qh"
    using line_components_off(2) [OF s3(2)] by blast
  obtain s4 where s4: "stage int (\<lambda>s. queue_tracker_helper (component_view s) ?t ?l) (queue_uses \<circ> kh_enabled) (\<lambda>h _. kh_fs h) s3 = Inr (qh, s4)"
      "m_config s4 = line_config \<and> \<not> m_enable_distributed s4"
    using line_stage [where build = "\<lambda>s. queue_tracker_helper (component_view s) ?t ?l" and uses = "queue_uses \<circ> kh_enabled", OF qh(1) _ s3(2)] qh(2) by (auto simp: queue_uses_def)
  obtain s5 where s5: "stage int (\<lambda>_. optimize_using_worst_case_rtt (tp_worst_case_rtt_ns ?t)) (\<lambda>_. tcp_optimizer_uses) keep_files s4 = Inr (settings, s5)"
      "m_config s5 = line_config \<and> \<not> m_enable_distributed s5"
    using line_stage [where build = "\<lambda>_. optimize_using_worst_case_rtt (tp_worst_case_rtt_ns ?t)" and s = s4 and uses = "\<lambda>_. tcp_optimizer_uses", OF o _ s4(2)] by (auto simp: tcp_optimizer_uses_def)
  let ?v = "ptop_is_valid_endpoint ?t" and ?e = "ptop_get_endpoints ?t"
  have "map_of (m_config s5) ''enable_tcp_flow_scheduler'' = None" "map_of (m_config s5) ''enable_udp_burst_scheduler'' = None"
      "map_of (m_config s5) ''enable_pingmesh_scheduler'' = None"
    by (simp_all add: s5(2) line_config_def)
  note off = scheduler_stages_off [OF this, where valid = ?v and es = ?e and address_of = "\<lambda>_. ()" and clock = int]
  obtain flows :: "unit tcp_scheduler" and s6 bursts s7 pm s8 where
    s6: "stage int (\<lambda>s. tcp_flow_scheduler (component_view s) ?v ?e) (flow_uses \<circ> th_enabled) (\<lambda>h _. th_fs h) s5 = Inr (flows, s6)" and
    s7: "stage int (\<lambda>s. udp_burst_scheduler (component_view s) ?v ?e (\<lambda>_. ())) (burst_uses \<circ> bh_enabled) (\<lambda>h _. bh_fs h) s6 = Inr (bursts, s7)" and
    s8: "stage int (\<lambda>s. pingmesh_scheduler (component_view s) ?v ?e (\<lambda>_. ())) (ping_uses \<circ> pg_enabled) (\<lambda>h _. pg_fs h) s7 = Inr (pm, s8)" and
    m8: "m_config s8 = m_config s5 \<and> m_enable_distributed s8 = m_enable_distributed s5"
    using off by blast
  have "(set_up_full line_platform line_run_dir ''r'' :: ((unit, unit) full_network \<times> basic_simulation) res) =
      Inr (\<lparr>fn_topology = ?t, fn_links = ?l, fn_arbiters = arbs, fn_utilization = uh, fn_queues = qh, fn_tcp_settings = settings,
        fn_flows = flows, fn_bursts = bursts, fn_pings = pm\<rparr>, s8)"
    by (simp only: set_up_full_def line_platform_def platform.simps full_platform.simps Let_def s0(1) s1(1) s2(1) s3(1) s4(1) s5(1) s6 s7 s8
        bindr_Inr prod.case)
  then show ?thesis using s5(2) m8 by (intro exI conjI) (assumption, simp_all)
qed

theorem full_run_refuses_unused_witness:
  "\<exists>(c :: (unit, unit) full_network) (s :: basic_simulation) e. set_up_full line_platform line_run_dir ''r'' = Inr (c, s) \<and>
     start_run (pf_clock line_platform) s = Inl e \<and> e = unused_key_error ''pingmesh_interval_ns''"
proof -
  obtain c :: "(unit, unit) full_network" and s where up: "set_up_full line_platform line_run_dir ''r'' = Inr (c, s)" "m_config s = line_config"
      "\<not> m_enable_distributed s"
    using line_set_up by blast
  have f: "parse_boolean ''false'' = Inr False" by code_simp
  define A where "A = fst ` set line_config - full_keys False line_config"
  have off: "\<not> enabled ''enable_link_utilization_tracking'' line_config" "\<not> enabled ''enable_tcp_flow_scheduler'' line_config"
      "\<not> enabled ''enable_udp_burst_scheduler'' line_config" "\<not> enabled ''enable_pingmesh_scheduler'' line_config"
    by (simp_all add: enabled_def get_param_or_default_def line_config_def f)
  have keys: "full_keys False line_config = {''enable_tcp_flow_scheduler'', ''enable_udp_burst_scheduler'', ''enable_pingmesh_scheduler'',
      ''enable_link_utilization_tracking'', ''enable_link_queue_tracking'', ''topology_ptop_filename'', ''simulation_end_time_ns'',
      ''simulation_seed'', ''enable_distributed''}"
    unfolding full_keys_def base_keys_def tracker_keys_def scheduler_keys_def using off by simp
  have A: "A = {''pingmesh_interval_ns''}" unfolding A_def keys by code_simp
  have more: "\<not> fst ` set line_config \<subseteq> full_keys False line_config"
  proof
    assume "fst ` set line_config \<subseteq> full_keys False line_config"
    then have "A = {}" unfolding A_def by (rule iffD2 [OF Diff_eq_empty_iff])
    then show False using A by simp
  qed
  have "m_enable_distributed s = False" using up(3) by simp
  note run = full_run_refuses_unused [OF up(1), unfolded this up(2), folded A_def]
  have "\<exists>e. start_run (pf_clock line_platform) s = Inl e \<and> (\<exists>key \<in> A. e = unused_key_error key)"
    using run more by (cases "start_run (pf_clock line_platform) s") (simp_all only: sum.case, blast+)
  then show ?thesis using up(1) unfolding A by blast
qed

theorem full_network_forwards_shortest_witness:
  "\<exists>(c :: (unit, unit) full_network) (s :: basic_simulation). set_up_full line_platform line_run_dir ''r'' = Inr (c, s) \<and>
     (\<exists>y. (0, y) \<in> arbiter_hops c 2) \<and> (\<nexists>y. (2, y) \<in> arbiter_hops c 2)"
proof -
  obtain c :: "(unit, unit) full_network" and s where up: "set_up_full line_platform line_run_dir ''r'' = Inr (c, s)"
      "fn_topology c = fst line_built" "fn_links c = snd line_built"
    using line_set_up by blast
  let ?E = "links (pt_undirected_edges (ptop_view (fst line_built) (snd line_built)))"
  have "(0, 1) \<in> ?E" "(1, 2) \<in> ?E" by (simp_all add: links_def ptop_view_def line_facts)
  then have r: "reachable ?E 0 2" "reachable ?E 2 2"
    unfolding reachable_def by (intro exI [of _ 2], auto simp: numeral_2_eq_2) (intro exI [of _ 0], simp)
  have n: "0 < nat (tp_num_nodes (fn_topology c))" "2 < nat (tp_num_nodes (fn_topology c))" by (simp_all add: up(2) line_facts)
  have here: "(i, i) \<in> arbiter_hops c 2 ^^ 0" for i by simp
  have "\<exists>y. (0, y) \<in> arbiter_hops c 2"
    using full_network_forwards_shortest [OF up(1) n r(1) [folded up(2,3)] here] by (metis zero_neq_numeral)
  moreover have "\<nexists>y. (2, y) \<in> arbiter_hops c 2"
    using full_network_forwards_shortest [OF up(1) n(2,2) r(2) [folded up(2,3)] here] by blast
  ultimately show ?thesis using up(1) by blast
qed

end
