(* ===== verification/Single_Forward.thy ===== *)
theory Single_Forward
  imports Arbiter Exp_Util
begin

text \<open>
  satellite-network: arbiter-satnet.cc, arbiter-single-forward.cc and the two helpers that load
  dynamic state from files, arbiter-single-forward-helper.cc and gsl-if-bandwidth-helper.cc.
  Every node has one next hop per target; a forwarding state file is a list of changes, read
  again at every multiple of the update interval. The invariant \<open>fstate_valid\<close> says what the
  checks of the reader guarantee, and with it the arbiter provides \<open>routing_arbiter\<close>.
\<close>

section \<open>The network the code runs in\<close>

text \<open>
  A node is its interfaces, the loop-back first: the device of each and its address. A laser
  device knows the two ends of its channel as (node id, device index).
\<close>

datatype net_dev = Gsl_device | Isl_device "nat \<times> nat" "nat \<times> nat" | Other_device

record sat_node =
  sn_devices :: "net_dev list"
  sn_addresses :: "ip list"

type_synonym satnet = "sat_node list"

definition n_interfaces :: "satnet \<Rightarrow> nat \<Rightarrow> nat" where
  "n_interfaces w i = length (sn_devices (w ! i))"

fun is_gsl :: "net_dev \<Rightarrow> bool" where
  "is_gsl Gsl_device = True"
| "is_gsl _ = False"

fun is_isl :: "net_dev \<Rightarrow> bool" where
  "is_isl (Isl_device _ _) = True"
| "is_isl _ = False"

text \<open>The end of the channel that is not on the current node.\<close>

fun other_end :: "nat \<Rightarrow> net_dev \<Rightarrow> nat \<times> nat" where
  "other_end current (Isl_device d0 d1) = (if fst d0 = current then d1 else d0)"
| "other_end current _ = (0, 0)"

section \<open>ArbiterSatnet and ArbiterSingleForward\<close>

type_synonym next_hop = "int \<times> int \<times> int"

record sf_arbiter =
  sf_node_id :: nat
  sf_nodes :: satnet
  m_next_hop_list :: "next_hop list"

definition topology_satellite_network_decide :: "sf_arbiter \<Rightarrow> nat \<Rightarrow> next_hop res" where
  "topology_satellite_network_decide a target_node_id =
     (if target_node_id < length (m_next_hop_list a) then Inr (m_next_hop_list a ! target_node_id)
      else Inl (Undefined ''vector read out of range''))"

definition satnet_gateway :: "satnet \<Rightarrow> int \<Rightarrow> int \<Rightarrow> ip res" where
  "satnet_gateway w next_node_id next_if_id =
     (if 0 \<le> next_node_id \<and> nat next_node_id < length w \<and> 0 \<le> next_if_id \<and>
         nat next_if_id < length (sn_addresses (w ! nat next_node_id))
      then Inr (sn_addresses (w ! nat next_node_id) ! nat next_if_id)
      else Inl (Assert_failed ''node or interface out of range''))"

definition satnet_decide :: "sf_arbiter decide" where
  "satnet_decide a source_node_id target_node_id pkt hdr req =
     bindr (topology_satellite_network_decide a target_node_id) (\<lambda>(next_node_id, own_if_id, next_if_id).
       if next_node_id = -2 \<or> own_if_id = -2 \<or> next_if_id = -2
       then Inl (Aborted ''Forwarding state is not set for this node to this target node (invalid).'')
       else if next_node_id \<noteq> -1
       then bindr (satnet_gateway (sf_nodes a) next_node_id next_if_id) (\<lambda>gateway.
              Inr (a, arbiter_result_of False (nat (to_uint32 own_if_id)) gateway))
       else Inr (a, arbiter_result_of True 0 0))"

definition set_single_forward_state :: "nat \<Rightarrow> int \<Rightarrow> int \<Rightarrow> int \<Rightarrow> next_hop list \<Rightarrow> next_hop list res" where
  "set_single_forward_state target_node_id next_node_id own_if_id next_if_id l =
     (if next_node_id = -2 \<or> own_if_id = -2 \<or> next_if_id = -2
      then Inl (Aborted ''Not permitted to set invalid (-2).'')
      else Inr (l[target_node_id := (next_node_id, own_if_id, next_if_id)]))"

section \<open>ArbiterSingleForwardHelper\<close>

type_synonym fstate = "next_hop list list"

definition initial_empty_forwarding_state :: "satnet \<Rightarrow> fstate" where
  "initial_empty_forwarding_state w = map (\<lambda>i. map (\<lambda>j. (-2, -2, -2)) [0..<length w]) [0..<length w]"

text \<open>A signed 64-bit increment.\<close>

definition incr64 :: "int \<Rightarrow> int res" where
  "incr64 v = (if v + 1 < 2 ^ 63 then Inr (v + 1) else Inl (Undefined ''signed overflow''))"

definition check_interface :: "satnet \<Rightarrow> int \<Rightarrow> int \<Rightarrow> exn \<Rightarrow> unit res" where
  "check_interface w node_id if_id e =
     (if if_id = -1 then Inr ()
      else if 0 \<le> if_id
      then bindr (incr64 if_id) (\<lambda>k. checkr (k < int (n_interfaces w (nat node_id))) e)
      else Inl e)"

definition device_at :: "satnet \<Rightarrow> int \<Rightarrow> int \<Rightarrow> net_dev" where
  "device_at w node_id if_id = sn_devices (w ! nat node_id) ! nat (1 + if_id)"

definition check_devices :: "satnet \<Rightarrow> int \<Rightarrow> int \<Rightarrow> int \<Rightarrow> int \<Rightarrow> unit res" where
  "check_devices w current next_hop my_if next_if =
     (let src = device_at w current my_if; dst = device_at w next_hop next_if in
      bindr (checkr (is_gsl src \<or> is_isl src) (Aborted ''Only GSL and ISL network devices are supported'')) (\<lambda>_.
      bindr (checkr (\<not> (is_gsl src \<and> \<not> is_gsl dst))
        (Aborted ''Destination interface must be attached to a GSL network device'')) (\<lambda>_.
      bindr (checkr (\<not> (is_isl src \<and> \<not> is_isl dst))
        (Aborted ''Destination interface must be an ISL network device'')) (\<lambda>_.
      if is_isl src
      then (let other = other_end (nat current) src in
            bindr (checkr (int (fst other) = next_hop) (Aborted ''Next hop node id across does not match'')) (\<lambda>_.
              checkr (int (snd other) = 1 + next_if) (Aborted ''Next hop interface id across does not match'')))
      else Inr ()))))"

definition update_line :: "satnet \<Rightarrow> string \<Rightarrow> fstate \<Rightarrow> fstate res" where
  "update_line w line st =
     bindr (split_string_n line '','' 5) (\<lambda>comma_split.
     bindr (parse_positive_int64 (comma_split ! 0)) (\<lambda>current.
     bindr (parse_positive_int64 (comma_split ! 1)) (\<lambda>target.
     bindr (parse_int64 (comma_split ! 2)) (\<lambda>next_hop.
     bindr (parse_int64 (comma_split ! 3)) (\<lambda>my_if.
     bindr (parse_int64 (comma_split ! 4)) (\<lambda>next_if.
     bindr (checkr (\<not> (current < 0 \<or> current \<ge> int (length w))) (Aborted ''Invalid current node id.'')) (\<lambda>_.
     bindr (checkr (\<not> (target < 0 \<or> target \<ge> int (length w))) (Aborted ''Invalid target node id.'')) (\<lambda>_.
     bindr (checkr (\<not> (next_hop < -1 \<or> next_hop \<ge> int (length w))) (Aborted ''Invalid next hop node id.'')) (\<lambda>_.
     bindr (checkr ((next_hop = -1 \<and> my_if = -1 \<and> next_if = -1) \<or> (next_hop \<noteq> -1 \<and> my_if \<noteq> -1 \<and> next_if \<noteq> -1))
       (Aborted ''All three must be -1 for it to signify a drop.'')) (\<lambda>_.
     bindr (check_interface w current my_if (Aborted ''Invalid current interface'')) (\<lambda>_.
     bindr (check_interface w next_hop next_if (Aborted ''Invalid next hop interface'')) (\<lambda>_.
     bindr (if next_hop \<noteq> -1 \<and> my_if \<noteq> -1 \<and> next_if \<noteq> -1 then check_devices w current next_hop my_if next_if else Inr ()) (\<lambda>_.
     bindr (set_single_forward_state (nat target) (to_int32 next_hop) (to_int32 (1 + my_if)) (to_int32 (1 + next_if))
             (st ! nat current)) (\<lambda>l.
       Inr (st[nat current := l])))))))))))))))"

text \<open>
  When the state is not static, the next update is planned if it is before the end; its time is a
  64-bit sum.
\<close>

definition add64 :: "int \<Rightarrow> int \<Rightarrow> int res" where
  "add64 a b = (if in_int64 (a + b) then Inr (a + b) else Inl (Undefined ''signed overflow''))"

definition plan_next_update :: "bool \<Rightarrow> int \<Rightarrow> int \<Rightarrow> int \<Rightarrow> int option res" where
  "plan_next_update force_static interval end_ns t =
     (if \<not> force_static
      then bindr (add64 t interval) (\<lambda>next_update_ns.
             Inr (if next_update_ns < end_ns then Some next_update_ns else None))
      else Inr None)"

record dynamic_config =
  dc_fs :: fsys
  dc_run_dir :: string
  dc_config :: config
  dc_end_time_ns :: int

definition dynamic_file :: "dynamic_config \<Rightarrow> string \<Rightarrow> int \<Rightarrow> string res" where
  "dynamic_file c name t =
     bindr (get_param_or_fail ''satellite_network_routes_dir'' (dc_config c)) (\<lambda>dir.
       Inr (dc_run_dir c @ ''/'' @ dir @ name @ show_int t @ ''.txt''))"

text \<open>UpdateForwardingState: the new state of the arbiters, and the time of the next update if planned.\<close>

definition update_forwarding_state ::
  "dynamic_config \<Rightarrow> satnet \<Rightarrow> int \<Rightarrow> int \<Rightarrow> fstate \<Rightarrow> (fstate \<times> int option) res" where
  "update_forwarding_state c w interval t st =
     bindr (dynamic_file c ''/fstate_'' t) (\<lambda>filename.
     if \<not> file_exists (dc_fs c) filename
     then Inl (Runtime_error (''File '' @ filename @ '' does not exist.''))
     else bindr (open_lines (dc_fs c) filename) (\<lambda>ls.
          bindr (foldr_res (update_line w) ls st) (\<lambda>st'.
          bindr (parse_boolean (get_param_or_default ''satellite_network_force_static'' ''false'' (dc_config c))) (\<lambda>static.
          bindr (plan_next_update static interval (dc_end_time_ns c) t) (\<lambda>next_update_ns.
            Inr (st', next_update_ns))))))"

definition single_forward_helper_create :: "dynamic_config \<Rightarrow> satnet \<Rightarrow> (int \<times> fstate \<times> int option) res" where
  "single_forward_helper_create c w =
     bindr (get_param_or_fail ''dynamic_state_update_interval_ns'' (dc_config c)) (\<lambda>s.
     bindr (parse_positive_int64 s) (\<lambda>interval.
     bindr (update_forwarding_state c w interval 0 (initial_empty_forwarding_state w)) (\<lambda>(st, nxt).
       Inr (interval, st, nxt))))"

section \<open>GslIfBandwidthHelper\<close>

text \<open>
  The data rate set on a GSL device is the string of the product followed by Mbps, which ns-3
  parses; here it is the product itself, kept per (node, interface).
\<close>

type_synonym gsl_rates = "(nat \<times> nat) \<Rightarrow> double option"

definition update_bandwidth_line :: "satnet \<Rightarrow> double \<Rightarrow> string \<Rightarrow> gsl_rates \<Rightarrow> gsl_rates res" where
  "update_bandwidth_line w rate line st =
     bindr (split_string_n line '','' 3) (\<lambda>comma_split.
     bindr (parse_positive_int64 (comma_split ! 0)) (\<lambda>node_id.
     bindr (parse_positive_int64 (comma_split ! 1)) (\<lambda>if_id.
     bindr (parse_positive_double (comma_split ! 2)) (\<lambda>fraction.
     bindr (checkr (\<not> (node_id < 0 \<or> node_id \<ge> int (length w))) (Aborted ''Invalid node id.'')) (\<lambda>_.
     bindr (incr64 if_id) (\<lambda>k.
     bindr (checkr (\<not> (if_id < 0 \<or> k \<ge> int (n_interfaces w (nat node_id)))) (Aborted ''Invalid interface'')) (\<lambda>_.
     if is_gsl (device_at w node_id if_id)
     then Inr (st((nat node_id, nat (1 + if_id)) \<mapsto> d_mul rate fraction))
     else Inl (Undefined ''null GSL net-device''))))))))"

definition update_gsl_if_bandwidth ::
  "dynamic_config \<Rightarrow> satnet \<Rightarrow> double \<Rightarrow> int \<Rightarrow> int \<Rightarrow> gsl_rates \<Rightarrow> (gsl_rates \<times> int option) res" where
  "update_gsl_if_bandwidth c w rate interval t st =
     bindr (dynamic_file c ''/gsl_if_bandwidth_'' t) (\<lambda>filename.
     if \<not> file_exists (dc_fs c) filename
     then Inl (Runtime_error (''File '' @ filename @ '' does not exist.''))
     else bindr (open_lines (dc_fs c) filename) (\<lambda>ls.
          bindr (foldr_res (update_bandwidth_line w rate) ls st) (\<lambda>st'.
          bindr (parse_boolean (get_param_or_default ''satellite_network_force_static'' ''false'' (dc_config c))) (\<lambda>static.
          bindr (plan_next_update static interval (dc_end_time_ns c) t) (\<lambda>next_update_ns.
            Inr (st', next_update_ns))))))"

definition gsl_if_bandwidth_helper_create :: "dynamic_config \<Rightarrow> satnet \<Rightarrow> (int \<times> gsl_rates \<times> int option) res" where
  "gsl_if_bandwidth_helper_create c w =
     bindr (get_param_or_fail ''gsl_data_rate_megabit_per_s'' (dc_config c)) (\<lambda>r.
     bindr (parse_positive_double r) (\<lambda>rate.
     bindr (get_param_or_fail ''dynamic_state_update_interval_ns'' (dc_config c)) (\<lambda>s.
     bindr (parse_positive_int64 s) (\<lambda>interval.
     bindr (update_gsl_if_bandwidth c w rate interval 0 Map.empty) (\<lambda>(st, nxt).
       Inr (interval, st, nxt))))))"

section \<open>What the checks of the reader guarantee\<close>

definition wf_satnet :: "satnet \<Rightarrow> bool" where
  "wf_satnet w \<longleftrightarrow> length w < 2 ^ 31 \<and>
     list_all (\<lambda>n. length (sn_addresses n) = length (sn_devices n) \<and> length (sn_devices n) < 2 ^ 31) w"

text \<open>
  An entry of a node is unset, a drop, or a hop to an interface of another node; over a laser
  device it is the very interface at the other end of the channel.
\<close>

definition connects :: "satnet \<Rightarrow> nat \<Rightarrow> next_hop \<Rightarrow> bool" where
  "connects w i e = (case e of (nh, own, nxt) \<Rightarrow>
     0 \<le> nh \<and> nh < int (length w) \<and> 0 < own \<and> own < int (n_interfaces w i) \<and>
     0 < nxt \<and> nxt < int (n_interfaces w (nat nh)) \<and>
     (let src = sn_devices (w ! i) ! nat own; dst = sn_devices (w ! nat nh) ! nat nxt in
        is_gsl src \<and> is_gsl dst \<or>
        is_isl src \<and> is_isl dst \<and> other_end i src = (nat nh, nat nxt)))"

definition entry_valid :: "satnet \<Rightarrow> nat \<Rightarrow> next_hop \<Rightarrow> bool" where
  "entry_valid w i e \<longleftrightarrow> e = (-2, -2, -2) \<or> e = (-1, 0, 0) \<or> connects w i e"

definition fstate_valid :: "satnet \<Rightarrow> fstate \<Rightarrow> bool" where
  "fstate_valid w st \<longleftrightarrow> length st = length w \<and>
     (\<forall>i < length w. length (st ! i) = length w \<and> (\<forall>e \<in> set (st ! i). entry_valid w i e))"

text \<open>The assignment a line stands for.\<close>

definition line_assignment :: "string \<Rightarrow> (nat \<times> nat \<times> next_hop) option" where
  "line_assignment line =
     (case split_string_n line '','' 5 of Inl _ \<Rightarrow> None
      | Inr ps \<Rightarrow> (case mapr parse_int64 ps of Inr [c, t, nh, own, nxt] \<Rightarrow> Some (nat c, nat t, (nh, own + 1, nxt + 1))
                  | _ \<Rightarrow> None))"

definition assign_entry :: "nat \<times> nat \<times> next_hop \<Rightarrow> fstate \<Rightarrow> fstate" where
  "assign_entry a st = (case a of (c, t, e) \<Rightarrow> st[c := (st ! c)[t := e]])"

lemma check_interface_ok:
  "check_interface w node_id if_id e = Inr u \<Longrightarrow>
   if_id = -1 \<or> 0 \<le> if_id \<and> if_id + 1 < int (n_interfaces w (nat node_id))"
  by (auto simp: check_interface_def incr64_def res_simps split: if_splits)

lemma check_devices_ok:
  assumes "check_devices w c nh own nxt = Inr u"
  shows "let src = device_at w c own; dst = device_at w nh nxt in
    is_gsl src \<and> is_gsl dst \<or>
    is_isl src \<and> is_isl dst \<and> int (fst (other_end (nat c) src)) = nh \<and> int (snd (other_end (nat c) src)) = 1 + nxt"
  using assms unfolding check_devices_def Let_def
  by (cases "device_at w c own") (auto simp: res_simps)

lemma wf_satnet_interfaces: "wf_satnet w \<Longrightarrow> i < length w \<Longrightarrow> n_interfaces w i < 2 ^ 31"
  by (simp add: wf_satnet_def n_interfaces_def list_all_length)

lemma update_line_ok:
  assumes "wf_satnet w" "update_line w line st = Inr st'"
  shows "\<exists>c t e. line_assignment line = Some (c, t, e) \<and> c < length w \<and> t < length w \<and>
    st' = assign_entry (c, t, e) st \<and> (e = (-1, 0, 0) \<or> connects w c e)"
proof -
  obtain ps current target next_hop my_if next_if u1 u2 u3 l where
    ps: "split_string_n line '','' 5 = Inr ps" "parse_positive_int64 (ps ! 0) = Inr current"
      "parse_positive_int64 (ps ! 1) = Inr target" "parse_int64 (ps ! 2) = Inr next_hop"
      "parse_int64 (ps ! 3) = Inr my_if" "parse_int64 (ps ! 4) = Inr next_if"
    and chk: "\<not> (current < 0 \<or> current \<ge> int (length w))" "\<not> (target < 0 \<or> target \<ge> int (length w))"
      "\<not> (next_hop < -1 \<or> next_hop \<ge> int (length w))"
      "(next_hop = -1 \<and> my_if = -1 \<and> next_if = -1) \<or> (next_hop \<noteq> -1 \<and> my_if \<noteq> -1 \<and> next_if \<noteq> -1)"
      "check_interface w current my_if (Aborted ''Invalid current interface'') = Inr u1"
      "check_interface w next_hop next_if (Aborted ''Invalid next hop interface'') = Inr u2"
      "(if next_hop \<noteq> -1 \<and> my_if \<noteq> -1 \<and> next_if \<noteq> -1 then check_devices w current next_hop my_if next_if else Inr ()) = Inr u3"
    and st': "set_single_forward_state (nat target) (to_int32 next_hop) (to_int32 (1 + my_if)) (to_int32 (1 + next_if))
             (st ! nat current) = Inr l" "Inr (st[nat current := l]) = (Inr st' :: fstate res)"
    using assms(2) unfolding update_line_def bindr_eq_Inr checkr_eq_Inr
    by (elim exE conjE) (rule that, assumption+)
  have len: "length ps = 5" using ps(1) by (auto simp: split_string_n_def res_simps split: if_splits)
  have "mapr parse_int64 ps = Inr [current, target, next_hop, my_if, next_if]"
    unfolding mapr_eq_Inr using ps len
    by (auto simp: parse_positive_int64_def res_simps less_Suc_eq numeral_eq_Suc split: if_splits)
  then have la: "line_assignment line = Some (nat current, nat target, (next_hop, my_if + 1, next_if + 1))"
    using ps(1) by (simp add: line_assignment_def)
  note ci = check_interface_ok [OF chk(5)] check_interface_ok [OF chk(6)]
  have small: "int (n_interfaces w (nat current)) < 2 ^ 31"
      "next_hop \<noteq> -1 \<Longrightarrow> int (n_interfaces w (nat next_hop)) < 2 ^ 31" "int (length w) < 2 ^ 31"
    using assms(1) chk(1,3) wf_satnet_interfaces [OF assms(1), of "nat current"]
      wf_satnet_interfaces [OF assms(1), of "nat next_hop"] by (auto simp: wf_satnet_def)
  have "- 1 \<le> my_if \<and> my_if + 1 < 2 ^ 31" using ci(1) small(1) by auto
  moreover have "- 1 \<le> next_if \<and> next_if + 1 < 2 ^ 31" using ci(2) small(2) chk(4) by (cases "next_hop = -1") auto
  moreover have "- 1 \<le> next_hop \<and> next_hop < 2 ^ 31" using chk(3) small(3) by linarith
  ultimately have r: "to_int32 next_hop = next_hop" "to_int32 (1 + my_if) = my_if + 1" "to_int32 (1 + next_if) = next_if + 1"
    by (simp_all add: in_int32_def add.commute)
  have "st' = assign_entry (nat current, nat target, (next_hop, my_if + 1, next_if + 1)) st"
    using st' unfolding r by (auto simp: set_single_forward_state_def assign_entry_def split: if_splits)
  moreover have "(next_hop, my_if + 1, next_if + 1) = (-1, 0, 0) \<or>
      connects w (nat current) (next_hop, my_if + 1, next_if + 1)"
  proof (cases "next_hop = -1")
    case True
    then show ?thesis using chk(4) by auto
  next
    case False
    then have "check_devices w current next_hop my_if next_if = Inr ()" using chk(4,7) by auto
    note dev = check_devices_ok [OF this, unfolded device_at_def Let_def]
    have own: "0 \<le> my_if" "my_if + 1 < int (n_interfaces w (nat current))"
      and nxt: "0 \<le> next_if" "next_if + 1 < int (n_interfaces w (nat next_hop))"
      using False chk(4) ci by auto
    have hop: "0 \<le> next_hop" "next_hop < int (length w)" using False chk(3) by linarith+
    have "connects w (nat current) (next_hop, my_if + 1, next_if + 1)"
      unfolding connects_def Let_def prod.case add.commute [of my_if] add.commute [of next_if]
      using own nxt hop dev by (elim disjE conjE) (simp_all add: prod_eq_iff nat_eq_iff2)
    then show ?thesis ..
  qed
  moreover have "nat current < length w" "nat target < length w"
    using chk(1,2) by (simp_all add: nat_less_iff)
  ultimately show ?thesis using la by blast
qed

lemma fstate_valid_assign:
  "fstate_valid w st \<Longrightarrow> c < length w \<Longrightarrow> e = (-1, 0, 0) \<or> connects w c e \<Longrightarrow>
   fstate_valid w (assign_entry (c, t, e) st)"
  unfolding fstate_valid_def assign_entry_def entry_valid_def
  by (auto simp: nth_list_update dest!: set_update_subset_insert [THEN subsetD])

lemma initial_state_valid: "fstate_valid w (initial_empty_forwarding_state w)"
  by (auto simp: fstate_valid_def initial_empty_forwarding_state_def entry_valid_def)


section \<open>Properties of the forwarding state\<close>

text \<open>
  The assignments of the lines, and the entry of a node for a target that they leave: the last line
  about the pair, or what there was before.
\<close>

definition assignments :: "string list \<Rightarrow> ((nat \<times> nat) \<times> next_hop) list" where
  "assignments ls = map (\<lambda>line. case the (line_assignment line) of (c, t, e) \<Rightarrow> ((c, t), e)) ls"

definition entry_after :: "string list \<Rightarrow> fstate \<Rightarrow> nat \<Rightarrow> nat \<Rightarrow> next_hop" where
  "entry_after ls st c t = (case map_of (rev (assignments ls)) (c, t) of Some e \<Rightarrow> e | None \<Rightarrow> st ! c ! t)"

lemma assign_entry_nth:
  "c < length st \<Longrightarrow> t < length (st ! c) \<Longrightarrow>
   assign_entry (c', t', e) st ! c ! t = (if c' = c \<and> t' = t then e else st ! c ! t)"
  by (cases "c' = c"; cases "t' = t") (auto simp: assign_entry_def nth_list_update)

lemma update_lines_entries:
  assumes "wf_satnet w" "fstate_valid w st" "foldr_res (update_line w) ls st = Inr st'"
  shows "fstate_valid w st' \<and> list_all (\<lambda>line. line_assignment line \<noteq> None) ls \<and>
    (\<forall>c < length w. \<forall>t < length w. st' ! c ! t = entry_after ls st c t)"
proof (rule foldr_res_inv_prefix [OF assms(3), where I = "\<lambda>ls s. fstate_valid w s \<and>
    list_all (\<lambda>line. line_assignment line \<noteq> None) ls \<and> (\<forall>c < length w. \<forall>t < length w. s ! c ! t = entry_after ls st c t)"])
  fix ys line zs s s'
  assume inv: "fstate_valid w s \<and> list_all (\<lambda>line. line_assignment line \<noteq> None) ys \<and>
      (\<forall>c < length w. \<forall>t < length w. s ! c ! t = entry_after ys st c t)"
    and step: "update_line w line s = Inr s'"
  obtain c' t' e where l: "line_assignment line = Some (c', t', e)" "c' < length w" "t' < length w"
      "s' = assign_entry (c', t', e) s" "e = (-1, 0, 0) \<or> connects w c' e"
    using update_line_ok [OF assms(1) step] by blast
  have "s' ! c ! t = entry_after (ys @ [line]) st c t" if "c < length w" "t < length w" for c t
    using that inv l(1,4) assign_entry_nth [of c s t c' t' e]
    by (auto simp: entry_after_def assignments_def fstate_valid_def)
  moreover have "fstate_valid w s'" using fstate_valid_assign inv l by blast
  ultimately show "fstate_valid w s' \<and> list_all (\<lambda>line. line_assignment line \<noteq> None) (ys @ [line]) \<and>
      (\<forall>c < length w. \<forall>t < length w. s' ! c ! t = entry_after (ys @ [line]) st c t)"
    using inv l(1) by (cases e) auto
qed (simp add: assms(2) entry_after_def assignments_def)

lemma update_forwarding_state_ok:
  assumes "update_forwarding_state c w interval t st = Inr (st', nxt)"
  shows "\<exists>name ls static. dynamic_file c ''/fstate_'' t = Inr name \<and> open_lines (dc_fs c) name = Inr ls \<and>
    foldr_res (update_line w) ls st = Inr st' \<and>
    parse_boolean (get_param_or_default ''satellite_network_force_static'' ''false'' (dc_config c)) = Inr static \<and>
    plan_next_update static interval (dc_end_time_ns c) t = Inr nxt"
  using assms by (auto simp: update_forwarding_state_def res_simps split: if_splits)

text \<open>
  C6. A forwarding state file that is read without an abort changes the state to what its lines say:
  every line is an assignment, and every entry of every node is afterwards the one of the last line
  about that node and target, or the former one if there is no such line. Every entry is either
  unset, a drop, or a hop over one of the node's own GSL or laser interfaces to an existing interface
  of a node, over a laser link the interface that the code takes for its other end.
\<close>

theorem update_forwarding_state_valid:
  assumes "wf_satnet w" "fstate_valid w st" "update_forwarding_state c w interval t st = Inr (st', nxt)"
  shows "fstate_valid w st' \<and>
    (\<exists>name ls. dynamic_file c ''/fstate_'' t = Inr name \<and> open_lines (dc_fs c) name = Inr ls \<and>
      list_all (\<lambda>line. line_assignment line \<noteq> None) ls \<and>
      (\<forall>i < length w. \<forall>j < length w. st' ! i ! j = entry_after ls st i j))"
  using update_forwarding_state_ok [OF assms(3)] update_lines_entries [OF assms(1,2)] by blast

definition two_nodes :: satnet where
  "two_nodes = [\<lparr>sn_devices = [Other_device, Gsl_device], sn_addresses = [1, 10]\<rparr>,
     \<lparr>sn_devices = [Other_device, Gsl_device], sn_addresses = [1, 20]\<rparr>]"

definition two_nodes_config :: dynamic_config where
  "two_nodes_config = \<lparr>dc_fs = config_fs\<lparr>fs_files := [''d/r/fstate_0.txt'' \<mapsto> ''0,1,1,0,0'' @ [newline] @ ''1,0,-1,-1,-1'']\<rparr>,
     dc_run_dir = ''d'', dc_config = [(''satellite_network_routes_dir'', ''r'')], dc_end_time_ns = 250\<rparr>"

definition two_nodes_state :: fstate where
  "two_nodes_state = [[(-2, -2, -2), (1, 1, 1)], [(-1, 0, 0), (-2, -2, -2)]]"

lemma two_nodes_wf: "wf_satnet two_nodes"
  by (simp add: wf_satnet_def two_nodes_def)

lemma two_nodes_update:
  "update_forwarding_state two_nodes_config two_nodes 100 0 (initial_empty_forwarding_state two_nodes) =
     Inr (two_nodes_state, Some 100)"
  by code_simp

lemma two_nodes_valid: "fstate_valid two_nodes two_nodes_state"
  using update_forwarding_state_ok [OF two_nodes_update] update_lines_entries [OF two_nodes_wf initial_state_valid] by blast

lemma two_nodes_lines:
  "bindr (dynamic_file two_nodes_config ''/fstate_'' 0) (open_lines (dc_fs two_nodes_config)) =
     Inr [''0,1,1,0,0'', ''1,0,-1,-1,-1'']"
  by code_simp

theorem update_forwarding_state_valid_witness:
  "fstate_valid two_nodes two_nodes_state \<and>
   two_nodes_state ! 0 ! 1 = entry_after [''0,1,1,0,0'', ''1,0,-1,-1,-1''] (initial_empty_forwarding_state two_nodes) 0 1"
proof -
  have "length two_nodes = 2" by (simp add: two_nodes_def)
  then show ?thesis
    using update_forwarding_state_valid [OF two_nodes_wf initial_state_valid two_nodes_update] two_nodes_lines by auto
qed

text \<open>
  The updates the way the event scheduler makes them: an update at a time \<open>t\<close>, with the files there
  are then, and the event that it plans. The result is the state after every update that came to an
  end, with its time, and the exception that stopped the program, if one did; \<open>None\<close> is that the
  events never end.
\<close>

partial_function (option) run_updates ::
  "(int \<Rightarrow> fsys) \<Rightarrow> dynamic_config \<Rightarrow> satnet \<Rightarrow> int \<Rightarrow> int \<Rightarrow> fstate \<Rightarrow> ((int \<times> fstate) list \<times> exn option) option" where
  "run_updates files c w interval t st =
     (case update_forwarding_state (c\<lparr>dc_fs := files t\<rparr>) w interval t st of
        Inl e \<Rightarrow> Some ([], Some e)
      | Inr r \<Rightarrow> (case snd r of
            None \<Rightarrow> Some ([(t, fst r)], None)
          | Some t' \<Rightarrow> Option.bind (run_updates files c w interval t' (fst r)) (\<lambda>log. Some ((t, fst r) # fst log, snd log))))"

declare run_updates.simps [code]

text \<open>The same updates at given times, until one fails.\<close>

fun updates_at :: "(int \<Rightarrow> fsys) \<Rightarrow> dynamic_config \<Rightarrow> satnet \<Rightarrow> int \<Rightarrow> int list \<Rightarrow> fstate \<Rightarrow> (int \<times> fstate) list \<times> exn option" where
  "updates_at files c w interval [] st = ([], None)"
| "updates_at files c w interval (t # ts) st =
     (case update_forwarding_state (c\<lparr>dc_fs := files t\<rparr>) w interval t st of
        Inl e \<Rightarrow> ([], Some e)
      | Inr r \<Rightarrow> (let log = updates_at files c w interval ts (fst r) in ((t, fst r) # fst log, snd log)))"

lemma update_plans:
  assumes "parse_boolean (get_param_or_default ''satellite_network_force_static'' ''false'' (dc_config c)) = Inr static"
    "update_forwarding_state (c\<lparr>dc_fs := fs\<rparr>) w interval t st = Inr (st', nxt)"
  shows "nxt = (if static \<or> dc_end_time_ns c \<le> t + interval then None else Some (t + interval))"
  using update_forwarding_state_ok [OF assms(2)] assms(1)
  by (auto simp: plan_next_update_def add64_def split: if_splits)

lemma run_updates_from:
  assumes "parse_boolean (get_param_or_default ''satellite_network_force_static'' ''false'' (dc_config c)) = Inr False"
    and "0 < interval" "t = k * interval" "k * interval < dc_end_time_ns c"
  shows "run_updates files c w interval t st =
    Some (updates_at files c w interval (map (\<lambda>k. k * interval) [k..(dc_end_time_ns c - 1) div interval]) st)"
  using assms(3,4)
proof (induction "nat (dc_end_time_ns c - t)" arbitrary: t k st rule: less_induct)
  case less
  let ?m = "(dc_end_time_ns c - 1) div interval"
  have "k \<le> ?m"
    using zdiv_mono1 [of "k * interval" "dc_end_time_ns c - 1" interval] less.prems assms(2) by simp
  then have ts: "map (\<lambda>k. k * interval) [k..?m] = t # map (\<lambda>k. k * interval) [k + 1..?m]"
    by (simp add: upto_rec1 less.prems)
  show ?case
  proof (cases "update_forwarding_state (c\<lparr>dc_fs := files t\<rparr>) w interval t st")
    case (Inl e)
    then show ?thesis unfolding ts by (simp add: run_updates.simps)
  next
    case (Inr r)
    obtain st' nxt where r: "r = (st', nxt)" by fastforce
    note plan = update_plans [OF assms(1) Inr [unfolded r]]
    show ?thesis
    proof (cases "t + interval < dc_end_time_ns c")
      case True
      have "run_updates files c w interval (t + interval) st' =
          Some (updates_at files c w interval (map (\<lambda>k. k * interval) [k + 1..?m]) st')"
        by (rule less.hyps) (use less.prems assms(2) True in \<open>auto simp: distrib_right\<close>)
      then show ?thesis unfolding ts using True Inr r plan by (simp add: run_updates.simps [of _ _ _ _ t] Let_def)
    next
      case False
      have "?m = k"
        by (rule int_div_pos_eq [of _ _ _ "dc_end_time_ns c - 1 - k * interval"]) (use less.prems False in auto)
      then show ?thesis unfolding ts using False Inr r plan by (simp add: run_updates.simps [of _ _ _ _ t] Let_def)
    qed
  qed
qed

text \<open>Whether a line can be taken does not depend on the state, so an update can be repeated.\<close>

lemma is_ok_bindr_cong: "(\<And>x. is_ok (f x) = is_ok (g x)) \<Longrightarrow> is_ok (bindr m f) = is_ok (bindr m g)"
  by (cases m) simp_all

lemma is_ok_bindr_state:
  "is_ok m = is_ok m2 \<Longrightarrow> (\<And>x y. is_ok (f x) = is_ok (f y)) \<Longrightarrow> is_ok (bindr m f) = is_ok (bindr m2 f)"
  by (cases m; cases m2) auto

lemma is_ok_else_cong: "is_ok x = is_ok y \<Longrightarrow> is_ok (if b then z else x) = is_ok (if b then z else y)"
  by simp

lemma update_line_again: "is_ok (update_line w line st) = is_ok (update_line w line st2)"
  unfolding update_line_def by (intro is_ok_bindr_cong) (simp add: set_single_forward_state_def)

lemma update_lines_again: "is_ok (foldr_res (update_line w) ls st) = is_ok (foldr_res (update_line w) ls st2)"
proof (induction ls arbitrary: st st2)
  case (Cons line ls)
  then show ?case
    using update_line_again [of w line st st2]
    by (cases "update_line w line st"; cases "update_line w line st2") auto
qed simp

lemma update_again:
  "is_ok (update_forwarding_state c w interval t st) = is_ok (update_forwarding_state c w interval t st2)"
  unfolding update_forwarding_state_def
  by (intro is_ok_bindr_cong is_ok_else_cong is_ok_bindr_state update_lines_again) simp

lemma run_updates_zero:
  assumes "parse_boolean (get_param_or_default ''satellite_network_force_static'' ''false'' (dc_config c)) = Inr False"
    and "t < dc_end_time_ns c" "is_ok (update_forwarding_state (c\<lparr>dc_fs := files t\<rparr>) w 0 t st)"
  shows "run_updates files c w 0 t st = None"
proof (rule ccontr)
  let ?P = "\<lambda>files c w i t st. parse_boolean (get_param_or_default ''satellite_network_force_static'' ''false'' (dc_config c)) = Inr False \<and>
    i = 0 \<and> t < dc_end_time_ns c \<and> is_ok (update_forwarding_state (c\<lparr>dc_fs := files t\<rparr>) w i t st)"
  assume "run_updates files c w 0 t st \<noteq> None"
  then obtain r where r: "run_updates files c w 0 t st = Some r" by blast
  have "\<not> ?P files c w 0 t st"
  proof (rule run_updates.raw_induct [where P = "\<lambda>files c w i t st r. \<not> ?P files c w i t st", OF _ r])
    fix ru files c w i t st r
    assume ih: "\<And>files c w i t st r. ru files c w i t st = Some r \<Longrightarrow> \<not> ?P files c w i t st"
      and step: "(case update_forwarding_state (c\<lparr>dc_fs := files t\<rparr>) w i t st of Inl e \<Rightarrow> Some ([], Some e)
        | Inr r \<Rightarrow> (case snd r of None \<Rightarrow> Some ([(t, fst r)], None)
          | Some t' \<Rightarrow> Option.bind (ru files c w i t' (fst r)) (\<lambda>log. Some ((t, fst r) # fst log, snd log)))) = Some r"
    show "\<not> ?P files c w i t st"
    proof
      assume p: "?P files c w i t st"
      then obtain st' nxt where u: "update_forwarding_state (c\<lparr>dc_fs := files t\<rparr>) w i t st = Inr (st', nxt)"
        by (auto simp: is_ok_iff)
      have "nxt = Some t" using update_plans [OF conjunct1 [OF p] u] p by simp
      with step u obtain r' where "ru files c w i t st' = Some r'" by (auto simp: Option.bind_eq_Some_conv)
      from ih [OF this] p show False using update_again [of "c\<lparr>dc_fs := files t\<rparr>" w i t st st'] by blast
    qed
  qed
  with assms show False by blast
qed

text \<open>
  C13. UpdateForwardingState, started at 0, is run at exactly the multiples of the update interval
  before the end of the simulation when the interval is positive, each time on the state the one
  before has left and on the files of its time, until one of them fails; only once when the network is
  forced static. With the interval zero, which the configuration reader accepts, it is repeated at the
  moment 0 without end, unless the first update fails.
\<close>

theorem dynamic_update_times:
  assumes "0 < dc_end_time_ns c" "0 \<le> interval"
    and "parse_boolean (get_param_or_default ''satellite_network_force_static'' ''false'' (dc_config c)) = Inr static"
  shows "run_updates files c w interval 0 st =
    (if static then Some (updates_at files c w interval [0] st)
     else if interval = 0
     then (case update_forwarding_state (c\<lparr>dc_fs := files 0\<rparr>) w interval 0 st of Inl e \<Rightarrow> Some ([], Some e) | Inr _ \<Rightarrow> None)
     else Some (updates_at files c w interval (map (\<lambda>k. k * interval) [0..(dc_end_time_ns c - 1) div interval]) st))"
proof (cases static)
  case True
  then show ?thesis
    using update_plans [OF assms(3), of "files 0" w interval 0 st]
    by (cases "update_forwarding_state (c\<lparr>dc_fs := files 0\<rparr>) w interval 0 st") (auto simp: run_updates.simps Let_def)
next
  case False
  note static = assms(3) [unfolded False [THEN eqTrueI, unfolded not_True_eq_False]]
  show ?thesis
  proof (cases "interval = 0")
    case True
    show ?thesis
    proof (cases "update_forwarding_state (c\<lparr>dc_fs := files 0\<rparr>) w interval 0 st")
      case (Inl e)
      then show ?thesis using False True by (simp add: run_updates.simps)
    next
      case (Inr r)
      then show ?thesis using False True run_updates_zero [of c 0 files w st] assms(1,3) by (simp add: is_ok_iff)
    qed
  next
    case nonzero: False
    then show ?thesis using False run_updates_from [of c interval 0 0 files w st] assms by simp
  qed
qed

text \<open>Files for three updates, of which the last two change nothing.\<close>

definition two_nodes_files :: "int \<Rightarrow> fsys" where
  "two_nodes_files t = (dc_fs two_nodes_config)\<lparr>fs_files := (fs_files (dc_fs two_nodes_config))
     (''d/r/fstate_100.txt'' \<mapsto> [], ''d/r/fstate_200.txt'' \<mapsto> [])\<rparr>"

lemma two_nodes_updates:
  "updates_at two_nodes_files two_nodes_config two_nodes 100 [0, 100, 200] (initial_empty_forwarding_state two_nodes) =
     ([(0, two_nodes_state), (100, two_nodes_state), (200, two_nodes_state)], None)"
  "update_forwarding_state (two_nodes_config\<lparr>dc_fs := two_nodes_files 0\<rparr>) two_nodes 0 0
     (initial_empty_forwarding_state two_nodes) = Inr (two_nodes_state, Some 0)"
  by code_simp+

theorem dynamic_update_times_witness:
  "run_updates two_nodes_files two_nodes_config two_nodes 100 0 (initial_empty_forwarding_state two_nodes) =
     Some ([(0, two_nodes_state), (100, two_nodes_state), (200, two_nodes_state)], None) \<and>
   run_updates two_nodes_files two_nodes_config two_nodes 0 0 (initial_empty_forwarding_state two_nodes) = None"
proof -
  have p: "parse_boolean (get_param_or_default ''satellite_network_force_static'' ''false'' (dc_config two_nodes_config)) = Inr False"
    by code_simp
  have end_ns: "dc_end_time_ns two_nodes_config = 250" by (simp add: two_nodes_config_def)
  have ts: "map (\<lambda>k. k * 100) [0..(250 - 1) div 100] = [0, 100, 200 :: int]" by (simp add: upto.simps)
  show ?thesis
    using dynamic_update_times [of two_nodes_config 100 False two_nodes_files two_nodes "initial_empty_forwarding_state two_nodes",
        unfolded end_ns ts two_nodes_updates]
      dynamic_update_times [of two_nodes_config 0 False two_nodes_files two_nodes "initial_empty_forwarding_state two_nodes",
        unfolded end_ns two_nodes_updates]
    by (simp add: p)
qed

section \<open>The single-forward arbiter provides the routing interface\<close>

definition sf_good :: "sf_arbiter \<Rightarrow> bool" where
  "sf_good a \<longleftrightarrow> wf_satnet (sf_nodes a) \<and> sf_node_id a < length (sf_nodes a) \<and>
     length (m_next_hop_list a) = length (sf_nodes a) \<and>
     list_all (entry_valid (sf_nodes a) (sf_node_id a)) (m_next_hop_list a)"

definition sf_interfaces :: "sf_arbiter \<Rightarrow> nat" where
  "sf_interfaces a = n_interfaces (sf_nodes a) (sf_node_id a)"

definition sf_node_count :: "sf_arbiter \<Rightarrow> nat" where
  "sf_node_count a = length (sf_nodes a)"

lemma sf_good_of_state:
  "wf_satnet w \<Longrightarrow> fstate_valid w st \<Longrightarrow> i < length w \<Longrightarrow>
   sf_good \<lparr>sf_node_id = i, sf_nodes = w, m_next_hop_list = st ! i\<rparr>"
  by (simp add: sf_good_def fstate_valid_def list_all_iff)

lemma satnet_decide_cases:
  assumes "sf_good a" "tgt < sf_node_count a"
  shows "(m_next_hop_list a ! tgt = (-2, -2, -2) \<and>
      satnet_decide a src tgt pkt hdr req = Inl (Aborted ''Forwarding state is not set for this node to this target node (invalid).'')) \<or>
    (m_next_hop_list a ! tgt = (-1, 0, 0) \<and> satnet_decide a src tgt pkt hdr req = Inr (a, arbiter_result_of True 0 0)) \<or>
    (\<exists>nh own nxt. m_next_hop_list a ! tgt = (nh, own, nxt) \<and> connects (sf_nodes a) (sf_node_id a) (nh, own, nxt) \<and>
      satnet_decide a src tgt pkt hdr req =
        Inr (a, arbiter_result_of False (nat own) (sn_addresses (sf_nodes a ! nat nh) ! nat nxt)))"
proof -
  let ?w = "sf_nodes a"
  have t: "tgt < length (m_next_hop_list a)" and v: "entry_valid ?w (sf_node_id a) (m_next_hop_list a ! tgt)"
    using assms by (auto simp: sf_good_def sf_node_count_def list_all_length)
  obtain nh own nxt where e: "m_next_hop_list a ! tgt = (nh, own, nxt)" by (metis surj_pair)
  consider "(nh, own, nxt) = (-2, -2, -2)" | "(nh, own, nxt) = (-1, 0, 0)" | "connects ?w (sf_node_id a) (nh, own, nxt)"
    using v e by (auto simp: entry_valid_def)
  then show ?thesis
  proof cases
    case 3
    then have c: "0 \<le> nh" "nh < int (length ?w)" "0 < own" "own < int (n_interfaces ?w (sf_node_id a))"
        "0 < nxt" "nxt < int (n_interfaces ?w (nat nh))"
      by (auto simp: connects_def)
    have "int (n_interfaces ?w (sf_node_id a)) < 2 ^ 31"
      using wf_satnet_interfaces [of ?w "sf_node_id a"] assms(1) by (simp add: sf_good_def)
    then have "to_uint32 own = own" using c by (intro to_uint32_id) auto
    moreover have "length (sn_addresses (?w ! nat nh)) = n_interfaces ?w (nat nh)"
      using assms(1) c(1,2) by (simp add: sf_good_def wf_satnet_def n_interfaces_def list_all_length)
    ultimately show ?thesis
      using 3 c t e by (simp add: satnet_decide_def topology_satellite_network_decide_def satnet_gateway_def
          nat_less_iff)
  qed (use t e in \<open>simp_all add: satnet_decide_def topology_satellite_network_decide_def\<close>)
qed

interpretation single_forward: routing_arbiter satnet_decide sf_good sf_interfaces sf_node_count
proof
  fix s tgt src pkt hdr req s' r
  assume g: "sf_good s" and t: "tgt < sf_node_count s" and d: "satnet_decide s src tgt pkt hdr req = Inr (s', r)"
  note c = satnet_decide_cases [OF g t, of src pkt hdr req]
  show "sf_good s' \<and> sf_interfaces s' = sf_interfaces s \<and> sf_node_count s' = sf_node_count s"
    using c d g by auto
  show "0 < ar_out_if_idx r \<and> ar_out_if_idx r < sf_interfaces s" if "\<not> ar_failed r"
    using c d that by (auto simp: arbiter_result_of_def connects_def sf_interfaces_def)
qed

text \<open>
  In a valid forwarding state a node's decision for a target never falls out of range: it
  aborts exactly if the entry was never set, reports no route exactly for a drop, and otherwise
  names its own interface and, as gateway, the address of the connected interface of the next
  hop.
\<close>

theorem single_forward_decision:
  assumes "sf_good a" "tgt < sf_node_count a"
  shows "(m_next_hop_list a ! tgt = (-2, -2, -2) \<and>
      satnet_decide a src tgt pkt hdr req = Inl (Aborted ''Forwarding state is not set for this node to this target node (invalid).'')) \<or>
    (m_next_hop_list a ! tgt = (-1, 0, 0) \<and> satnet_decide a src tgt pkt hdr req = Inr (a, arbiter_result_of True 0 0)) \<or>
    (\<exists>nh own nxt. m_next_hop_list a ! tgt = (nh, own, nxt) \<and> connects (sf_nodes a) (sf_node_id a) (nh, own, nxt) \<and>
      satnet_decide a src tgt pkt hdr req =
        Inr (a, arbiter_result_of False (nat own) (sn_addresses (sf_nodes a ! nat nh) ! nat nxt)))"
  using assms by (rule satnet_decide_cases)

definition two_nodes_arbiter :: sf_arbiter where
  "two_nodes_arbiter = \<lparr>sf_node_id = 0, sf_nodes = two_nodes, m_next_hop_list = two_nodes_state ! 0\<rparr>"

lemma two_nodes_good: "sf_good two_nodes_arbiter"
  unfolding two_nodes_arbiter_def
  by (rule sf_good_of_state [OF two_nodes_wf two_nodes_valid]) (simp add: two_nodes_def)

theorem single_forward_decision_witness:
  "satnet_decide two_nodes_arbiter 0 1 \<lparr>pkt_udp_ports = (1, 2), pkt_tcp_ports = (0, 0)\<rparr>
     \<lparr>hdr_source = 10, hdr_destination = 20, hdr_protocol = 17\<rparr> False = Inr (two_nodes_arbiter, arbiter_result_of False 1 20)"
proof -
  have t: "1 < sf_node_count two_nodes_arbiter" and e: "m_next_hop_list two_nodes_arbiter ! 1 = (1, 1, 1)"
    by (simp_all add: sf_node_count_def two_nodes_arbiter_def two_nodes_def two_nodes_state_def)
  show ?thesis
    using single_forward_decision [OF two_nodes_good t, of 0 "\<lparr>pkt_udp_ports = (1, 2), pkt_tcp_ports = (0, 0)\<rparr>"
        "\<lparr>hdr_source = 10, hdr_destination = 20, hdr_protocol = 17\<rparr>" False] e
    by (auto simp: two_nodes_arbiter_def two_nodes_def)
qed

text \<open>
  C12. A lookup through the single-forward arbiter of a node answers for a loop-back address the
  loop-back interface and for an address no node has the error that names it. For an address of a node
  it follows the node's entry for that node: it aborts if the entry was never set, finds no route if
  it is a drop, and for a hop answers the route that leaves by the own interface of the entry, which
  the node has, with the address of the next interface on the next hop as gateway. The routing
  protocol does not change.
\<close>

theorem single_forward_lookup_route:
  assumes "routing_installed sf_good sf_interfaces sf_node_count this nodes r"
    and "m_ipv4 r = Some ip4" "m_arbiter r = Some (a, s)"
    and "\<not> al_is_local_multicast lib dest" "hdr_destination hdr = dest"
  shows "if al_mask_match lib loopback_mask dest loopback_ip
    then lookup_arbiter lib satnet_decide r dest hdr pkt None = Inr (r, Some (route_via ip4 dest 0 0))
    else if source_node this nodes hdr = None
    then lookup_arbiter lib satnet_decide r dest hdr pkt None = Inl (not_mapped (hdr_source hdr))
    else case owner nodes dest of
      None \<Rightarrow> lookup_arbiter lib satnet_decide r dest hdr pkt None = Inl (not_mapped dest)
    | Some tgt \<Rightarrow> (case m_next_hop_list s ! tgt of (nh, own, nxt) \<Rightarrow>
        if nh = -2
        then lookup_arbiter lib satnet_decide r dest hdr pkt None =
          Inl (Aborted ''Forwarding state is not set for this node to this target node (invalid).'')
        else if nh = -1 then lookup_arbiter lib satnet_decide r dest hdr pkt None = Inr (r, None)
        else lookup_arbiter lib satnet_decide r dest hdr pkt None =
            Inr (r, Some (route_via ip4 dest (nat own) (sn_addresses (sf_nodes s ! nat nh) ! nat nxt))) \<and>
          0 < own \<and> own < int (ip4_n_interfaces ip4) \<and> connects (sf_nodes s) (sf_node_id s) (nh, own, nxt))"
proof -
  have a: "a = arbiter_create this nodes" and good: "sf_good s" "sf_node_count s = length nodes"
    and ifs: "sf_interfaces s = ip4_n_interfaces ip4"
    using assms(1-3) by (auto simp: routing_installed_def)
  note l = lookup_by_owner [OF assms(2) assms(3) [unfolded a] assms(4,5), of satnet_decide pkt]
  show ?thesis
  proof (cases "al_mask_match lib loopback_mask dest loopback_ip \<or> source_node this nodes hdr = None \<or> owner nodes dest = None")
    case True
    then show ?thesis using l by (auto split: option.splits)
  next
    case False
    then obtain src tgt where st: "\<not> al_mask_match lib loopback_mask dest loopback_ip"
        "source_node this nodes hdr = Some src" "owner nodes dest = Some tgt" by auto
    have "tgt < sf_node_count s" using owner_bound [OF st(3)] good(2) by simp
    note d = satnet_decide_cases [OF good(1) this, of src pkt hdr "is_socket_request hdr"]
    have same: "r\<lparr>m_arbiter := Some (arbiter_create this nodes, s)\<rparr> = r" using assms(3) a by simp
    have conn: "connects (sf_nodes s) (sf_node_id s) (nh, own, nxt) \<Longrightarrow>
        0 \<le> nh \<and> 0 < own \<and> own < int (ip4_n_interfaces ip4)" for nh own nxt
      using ifs by (simp add: connects_def sf_interfaces_def)
    show ?thesis using d l st same by (auto simp: arbiter_result_of_def dest: conn)
  qed
qed

definition two_nodes_ipv4 :: ipv4_object where
  "two_nodes_ipv4 = \<lparr>ip4_node_id = 0, ip4_n_interfaces = 2, ip4_addresses = \<lambda>i. [if i = 0 then (2130706433, 4278190080) else (10, 4294967040)],
     ip4_is_up = \<lambda>_. True, ip4_is_forwarding = \<lambda>_. True, ip4_is_destination = \<lambda>a i. a = 10, ip4_source_selection = \<lambda>i a. 10\<rparr>"

definition two_nodes_routing :: "sf_arbiter arbiter_routing" where
  "two_nodes_routing = \<lparr>m_ipv4 = Some two_nodes_ipv4,
     m_arbiter = Some (arbiter_create 0 (map sn_addresses two_nodes), two_nodes_arbiter)\<rparr>"

theorem single_forward_lookup_route_witness:
  "lookup_arbiter unicast_library satnet_decide two_nodes_routing 20
      \<lparr>hdr_source = 10, hdr_destination = 20, hdr_protocol = 17\<rparr> \<lparr>pkt_udp_ports = (1, 2), pkt_tcp_ports = (0, 0)\<rparr> None =
      Inr (two_nodes_routing, Some \<lparr>rt_destination = 20, rt_source = 10, rt_gateway = 20, rt_output_interface = 1\<rparr>)"
proof -
  have i: "routing_installed sf_good sf_interfaces sf_node_count 0 (map sn_addresses two_nodes) two_nodes_routing"
    using two_nodes_good
    by (simp add: routing_installed_def two_nodes_routing_def sf_node_count_def two_nodes_arbiter_def
        sf_interfaces_def n_interfaces_def two_nodes_ipv4_def) (simp add: two_nodes_def)
  have "owner (map sn_addresses two_nodes) 10 = Some 0" "owner (map sn_addresses two_nodes) 20 = Some 1"
    by (simp_all add: owner_def owned_addresses_def two_nodes_def)
  then show ?thesis
    using single_forward_lookup_route [OF i, of two_nodes_ipv4 _ two_nodes_arbiter unicast_library 20
        "\<lparr>hdr_source = 10, hdr_destination = 20, hdr_protocol = 17\<rparr>" "\<lparr>pkt_udp_ports = (1, 2), pkt_tcp_ports = (0, 0)\<rparr>"]
    by (simp add: two_nodes_routing_def unicast_library_def loopback_ip_def source_node_def is_socket_request_def
        two_nodes_arbiter_def two_nodes_state_def route_via_def two_nodes_ipv4_def) (simp add: two_nodes_def)
qed

end
