(* ===== verification/Net_Device.thy ===== *)
theory Net_Device
  imports Utilization
begin

text \<open>
  satellite-network/model: gsl-net-device.cc and gsl-channel.cc (the shared ground-to-satellite
  medium, addressed by MAC), point-to-point-laser-net-device.cc and
  point-to-point-laser-channel.cc (a wire with two ends). The simulator's scheduler is the list
  of events a device has handed to it, in order. The transmit side of both devices is the
  same contract, \<open>tx_machine\<close>: what is accepted is transmitted once, in order.

  From ns-3 come, as parameters, the packet queue, the transmission time of a frame at a data
  rate, the distance between two nodes and the conversion of seconds to simulator time.
\<close>

unbundle bit_operations_syntax

section \<open>The point-to-point protocol header\<close>

definition ether_to_ppp :: "nat \<Rightarrow> nat res" where
  "ether_to_ppp proto = (if proto = 0x0800 then Inr 0x0021 else if proto = 0x86DD then Inr 0x0057
     else Inl (Assert_failed ''PPP Protocol number not defined!''))"

definition ppp_to_ether :: "nat \<Rightarrow> nat res" where
  "ppp_to_ether proto = (if proto = 0x0021 then Inr 0x0800 else if proto = 0x0057 then Inr 0x86DD
     else Inl (Assert_failed ''PPP Protocol number not defined!''))"

text \<open>A frame is the protocol field of its header with the packet behind it.\<close>

type_synonym 'p frame = "nat \<times> 'p"

definition add_header :: "'p \<Rightarrow> nat \<Rightarrow> 'p frame res" where
  "add_header p protocol_number = bindr (ether_to_ppp protocol_number) (\<lambda>ppp. Inr (ppp, p))"

definition process_header :: "'p frame \<Rightarrow> ('p \<times> nat) res" where
  "process_header f = bindr (ppp_to_ether (fst f)) (\<lambda>proto. Inr (snd f, proto))"

section \<open>What ns-3 provides\<close>

type_synonym mac = nat
type_synonym device_id = nat
type_synonym node_id = nat

record ('p, 'q, 'r) net_lib =
  lib_enqueue :: "'p frame \<Rightarrow> 'q \<Rightarrow> 'q \<times> bool"
  lib_dequeue :: "'q \<Rightarrow> 'q \<times> 'p frame option"
  lib_content :: "'q \<Rightarrow> 'p frame list"
  lib_tx_time :: "'r \<Rightarrow> 'p frame \<Rightarrow> int"
  lib_node_of :: "device_id \<Rightarrow> node_id"
  lib_system_of :: "node_id \<Rightarrow> nat"
  lib_distance :: "node_id \<Rightarrow> node_id \<Rightarrow> double"
  lib_seconds :: "double \<Rightarrow> int"

text \<open>
  The documented behaviour of the queue: enqueueing appends or, on overflow, changes nothing and
  reports it; dequeueing takes the oldest frame, or nothing from an empty queue.
\<close>

definition fifo_queue :: "('p, 'q, 'r) net_lib \<Rightarrow> bool" where
  "fifo_queue lib \<longleftrightarrow>
     (\<forall>f q. let (q', ok) = lib_enqueue lib f q in
        lib_content lib q' = (if ok then lib_content lib q @ [f] else lib_content lib q)) \<and>
     (\<forall>q. let (q', r) = lib_dequeue lib q in
        r = (case lib_content lib q of [] \<Rightarrow> None | f # _ \<Rightarrow> Some f) \<and>
        lib_content lib q' = tl (lib_content lib q))"

definition propagation_delay :: "('p, 'q, 'r) net_lib \<Rightarrow> double \<Rightarrow> node_id \<Rightarrow> node_id \<Rightarrow> int" where
  "propagation_delay lib speed a b = lib_seconds lib (d_div (lib_distance lib a b) speed)"

datatype tx_state = READY | BUSY

section \<open>GSLChannel\<close>

record gsl_channel =
  gc_propagation_speed :: double
  gc_link :: "mac \<Rightarrow> device_id option"
  gc_net_devices :: "device_id list"

definition gsl_channel_init :: gsl_channel where
  "gsl_channel_init = \<lparr>gc_propagation_speed = Fin 299792458, gc_link = Map.empty, gc_net_devices = []\<rparr>"

definition gsl_channel_attach :: "device_id \<Rightarrow> mac \<Rightarrow> gsl_channel \<Rightarrow> gsl_channel" where
  "gsl_channel_attach dev address48 ch =
     ch\<lparr>gc_link := (gc_link ch)(address48 \<mapsto> dev), gc_net_devices := gc_net_devices ch @ [dev]\<rparr>"

definition gsl_get_delay :: "('p, 'q, 'r) net_lib \<Rightarrow> gsl_channel \<Rightarrow> node_id \<Rightarrow> node_id \<Rightarrow> int" where
  "gsl_get_delay lib ch a b = propagation_delay lib (gc_propagation_speed ch) a b"

text \<open>
  \<open>Mac48AddressHash\<close> of the six bytes of an address, most significant first: 32-bit arithmetic, so
  that the first two bytes are shifted out.
\<close>

definition mac48_address_hash :: "8 word list \<Rightarrow> 32 word" where
  "mac48_address_hash address = fold (\<lambda>byte host. push_bit 8 host OR ucast byte) address 0"

text \<open>
  The events: the completion of the device's own transmission, after a delay, and the reception
  of a frame at a device, in the context of its node, after a delay.
\<close>

datatype 'p gsl_event =
    Gsl_tx_complete int mac
  | Gsl_receive node_id int device_id "'p frame"

definition gsl_transmit_to ::
  "('p, 'q, 'r) net_lib \<Rightarrow> gsl_channel \<Rightarrow> 'p frame \<Rightarrow> device_id \<Rightarrow> device_id \<Rightarrow> int \<Rightarrow> bool \<Rightarrow> 'p gsl_event res" where
  "gsl_transmit_to lib ch p src dst tx_time same_system =
     (let delay = gsl_get_delay lib ch (lib_node_of lib src) (lib_node_of lib dst) in
      if \<not> same_system
      then Inl (Aborted ''MPI distributed mode is currently not supported by the GSL channel.'')
      else Inr (Gsl_receive (lib_node_of lib dst) (tx_time + delay) dst p))"

definition gsl_channel_transmit_start ::
  "('p, 'q, 'r) net_lib \<Rightarrow> gsl_channel \<Rightarrow> 'p frame \<Rightarrow> device_id \<Rightarrow> mac \<Rightarrow> int \<Rightarrow> 'p gsl_event res" where
  "gsl_channel_transmit_start lib ch p src dst_address tx_time =
     (case gc_link ch dst_address of
        Some dst \<Rightarrow> gsl_transmit_to lib ch p src dst tx_time
          (lib_system_of lib (lib_node_of lib src) = lib_system_of lib (lib_node_of lib dst))
      | None \<Rightarrow> Inl (Aborted ''MAC address could not be mapped to a network device.''))"

definition gsl_get_device :: "gsl_channel \<Rightarrow> nat \<Rightarrow> device_id res" where
  "gsl_get_device ch i = (if i < length (gc_net_devices ch) then Inr (gc_net_devices ch ! i)
     else Inl (Out_of_range ''vector::at''))"

section \<open>GSLNetDevice\<close>

text \<open>The device holds a pointer to the shared channel; \<open>ch\<close> is the channel as it is at the call.\<close>

record ('p, 'q, 'r) gsl_device =
  gd_id :: device_id
  gd_address :: mac
  gd_mtu :: nat
  gd_if_index :: nat
  gd_bps :: 'r
  gd_interframe_gap :: int
  gd_has_channel :: bool
  gd_link_up :: bool
  gd_tx_machine_state :: tx_state
  gd_current_pkt :: "'p frame option"
  gd_queue :: 'q
  gd_queue_dests :: "mac list"
  gd_scheduled :: "'p gsl_event list"

text \<open>The address of a new device is the broadcast address ff:ff:ff:ff:ff:ff, until it is set.\<close>

definition broadcast_address :: mac where
  "broadcast_address = 281474976710655"

definition gsl_device_init :: "device_id \<Rightarrow> 'r \<Rightarrow> 'q \<Rightarrow> ('p, 'q, 'r) gsl_device" where
  "gsl_device_init dev bps q = \<lparr>gd_id = dev, gd_address = broadcast_address, gd_mtu = 1500, gd_if_index = 0, gd_bps = bps,
     gd_interframe_gap = 0, gd_has_channel = False, gd_link_up = False, gd_tx_machine_state = READY,
     gd_current_pkt = None, gd_queue = q, gd_queue_dests = [], gd_scheduled = []\<rparr>"

definition gsl_transmit_start ::
  "('p, 'q, 'r) net_lib \<Rightarrow> gsl_channel \<Rightarrow> 'p frame \<Rightarrow> mac \<Rightarrow> ('p, 'q, 'r) gsl_device \<Rightarrow> (('p, 'q, 'r) gsl_device \<times> bool) res" where
  "gsl_transmit_start lib ch p dest d =
     bindr (checkr (gd_tx_machine_state d = READY) (Assert_failed ''Must be READY to transmit'')) (\<lambda>_.
     let tx_time = lib_tx_time lib (gd_bps d) p;
         d1 = d\<lparr>gd_tx_machine_state := BUSY, gd_current_pkt := Some p,
                gd_scheduled := gd_scheduled d @ [Gsl_tx_complete (tx_time + gd_interframe_gap d) dest]\<rparr>
     in if \<not> gd_has_channel d1 then Inl (Undefined ''m_channel is null'')
        else bindr (gsl_channel_transmit_start lib ch p (gd_id d1) dest tx_time) (\<lambda>e.
               Inr (d1\<lparr>gd_scheduled := gd_scheduled d1 @ [e]\<rparr>, True)))"

text \<open>The part of \<open>TransmitComplete\<close> and \<open>Send\<close> that takes the next destination from its queue.\<close>

definition gsl_transmit_next ::
  "('p, 'q, 'r) net_lib \<Rightarrow> gsl_channel \<Rightarrow> 'p frame \<Rightarrow> ('p, 'q, 'r) gsl_device \<Rightarrow> (('p, 'q, 'r) gsl_device \<times> bool) res" where
  "gsl_transmit_next lib ch p d =
     (case gd_queue_dests d of
        [] \<Rightarrow> Inl (Undefined ''front of an empty queue'')
      | next_dest # rest \<Rightarrow> gsl_transmit_start lib ch p next_dest (d\<lparr>gd_queue_dests := rest\<rparr>))"

definition gsl_transmit_complete ::
  "('p, 'q, 'r) net_lib \<Rightarrow> gsl_channel \<Rightarrow> ('p, 'q, 'r) gsl_device \<Rightarrow> ('p, 'q, 'r) gsl_device res" where
  "gsl_transmit_complete lib ch d =
     bindr (checkr (gd_tx_machine_state d = BUSY) (Assert_failed ''Must be BUSY if transmitting'')) (\<lambda>_.
     bindr (checkr (gd_current_pkt d \<noteq> None) (Assert_failed ''m_currentPkt zero'')) (\<lambda>_.
     let (q, r) = lib_dequeue lib (gd_queue d);
         d1 = d\<lparr>gd_tx_machine_state := READY, gd_current_pkt := None, gd_queue := q\<rparr>
     in case r of None \<Rightarrow> Inr d1
        | Some p \<Rightarrow> bindr (gsl_transmit_next lib ch p d1) (\<lambda>(d2, ret). Inr d2)))"

definition gsl_send ::
  "('p, 'q, 'r) net_lib \<Rightarrow> gsl_channel \<Rightarrow> 'p \<Rightarrow> mac \<Rightarrow> nat \<Rightarrow> ('p, 'q, 'r) gsl_device \<Rightarrow> (('p, 'q, 'r) gsl_device \<times> bool) res" where
  "gsl_send lib ch packet dest protocol_number d =
     (if \<not> gd_link_up d then Inr (d, False)
      else bindr (add_header packet protocol_number) (\<lambda>f.
        let (q, ok) = lib_enqueue lib f (gd_queue d); d1 = d\<lparr>gd_queue := q\<rparr> in
        if ok
        then let d2 = d1\<lparr>gd_queue_dests := gd_queue_dests d1 @ [dest]\<rparr> in
          if gd_tx_machine_state d2 = READY
          then let (q', r) = lib_dequeue lib (gd_queue d2); d3 = d2\<lparr>gd_queue := q'\<rparr> in
            (case r of None \<Rightarrow> Inl (Undefined ''null packet'') | Some p \<Rightarrow> gsl_transmit_next lib ch p d3)
          else Inr (d2, True)
        else Inr (d1, False)))"

text \<open>
  What a received frame leads to: a drop by the error model (the phyRxDrop trace), or the
  promiscuous callback, when one is set, and the receive callback, each with the packet, its
  protocol, the address of the sender as the device knows it, and for the former its own address.
\<close>

datatype 'p rx_action = Rx_drop | Rx_promisc 'p nat mac mac | Rx_up 'p nat mac

definition gsl_receive ::
  "('p frame \<Rightarrow> bool) option \<Rightarrow> bool \<Rightarrow> ('p, 'q, 'r) gsl_device \<Rightarrow> 'p frame \<Rightarrow> 'p rx_action list res" where
  "gsl_receive error_model promisc d f =
     (if (case error_model of None \<Rightarrow> False | Some is_corrupt \<Rightarrow> is_corrupt f) then Inr [Rx_drop]
      else bindr (process_header f) (\<lambda>(p, protocol).
        Inr ((if promisc then [Rx_promisc p protocol (gd_address d) (gd_address d)] else []) @ [Rx_up p protocol (gd_address d)])))"

definition gsl_attach :: "gsl_channel \<Rightarrow> ('p, 'q, 'r) gsl_device \<Rightarrow> ('p, 'q, 'r) gsl_device \<times> gsl_channel" where
  "gsl_attach ch d = (let ch' = gsl_channel_attach (gd_id d) (gd_address d) ch in
     (d\<lparr>gd_has_channel := True, gd_link_up := True\<rparr>, ch'))"

definition gsl_set_data_rate :: "'r \<Rightarrow> ('p, 'q, 'r) gsl_device \<Rightarrow> ('p, 'q, 'r) gsl_device" where
  "gsl_set_data_rate bps d = d\<lparr>gd_bps := bps\<rparr>"

definition gsl_set_interframe_gap :: "int \<Rightarrow> ('p, 'q, 'r) gsl_device \<Rightarrow> ('p, 'q, 'r) gsl_device" where
  "gsl_set_interframe_gap t d = d\<lparr>gd_interframe_gap := t\<rparr>"

definition gsl_set_queue :: "'q \<Rightarrow> ('p, 'q, 'r) gsl_device \<Rightarrow> ('p, 'q, 'r) gsl_device" where
  "gsl_set_queue q d = d\<lparr>gd_queue := q\<rparr>"

definition gsl_set_address :: "mac \<Rightarrow> ('p, 'q, 'r) gsl_device \<Rightarrow> ('p, 'q, 'r) gsl_device" where
  "gsl_set_address a d = d\<lparr>gd_address := a\<rparr>"

definition gsl_set_if_index :: "nat \<Rightarrow> ('p, 'q, 'r) gsl_device \<Rightarrow> ('p, 'q, 'r) gsl_device" where
  "gsl_set_if_index i d = d\<lparr>gd_if_index := i\<rparr>"

definition gsl_set_mtu :: "nat \<Rightarrow> ('p, 'q, 'r) gsl_device \<Rightarrow> ('p, 'q, 'r) gsl_device \<times> bool" where
  "gsl_set_mtu mtu d = (d\<lparr>gd_mtu := mtu\<rparr>, True)"

definition gsl_get_broadcast :: "('p, 'q, 'r) gsl_device \<Rightarrow> mac res" where
  "gsl_get_broadcast d = Inl (Runtime_error ''Broadcast not supported (only ARP would use broadcast, whose cache should have already been filled).'')"

definition gsl_get_multicast :: "('p, 'q, 'r) gsl_device \<Rightarrow> mac res" where
  "gsl_get_multicast d = Inl (Runtime_error ''Multicast not supported.'')"

text \<open>Packets cannot be sent under another source address: \<open>SendFrom\<close> refuses and changes nothing.\<close>

definition gsl_send_from ::
  "'p \<Rightarrow> mac \<Rightarrow> mac \<Rightarrow> nat \<Rightarrow> ('p, 'q, 'r) gsl_device \<Rightarrow> ('p, 'q, 'r) gsl_device \<times> bool" where
  "gsl_send_from packet source dest protocol_number d = (d, False)"

text \<open>What the device reports of itself to the stack.\<close>

record device_flags =
  df_broadcast :: bool
  df_multicast :: bool
  df_point_to_point :: bool
  df_bridge :: bool
  df_needs_arp :: bool
  df_supports_send_from :: bool

definition gsl_flags :: device_flags where
  "gsl_flags = \<lparr>df_broadcast = True, df_multicast = False, df_point_to_point = False, df_bridge = False,
     df_needs_arp = True, df_supports_send_from = False\<rparr>"

text \<open>The end of a device: its channel, current packet, queue and pending destinations are dropped.\<close>

definition gsl_do_dispose :: "'q \<Rightarrow> ('p, 'q, 'r) gsl_device \<Rightarrow> ('p, 'q, 'r) gsl_device" where
  "gsl_do_dispose no_queue d = d\<lparr>gd_has_channel := False, gd_current_pkt := None, gd_queue := no_queue, gd_queue_dests := []\<rparr>"

section \<open>PointToPointLaserChannel\<close>

datatype wire_state = INITIALIZING | IDLE | TRANSMITTING | PROPAGATING

record wire_link =
  wl_state :: wire_state
  wl_src :: "device_id option"
  wl_dst :: "device_id option"

record laser_channel =
  lc_propagation_speed :: double
  lc_n_devices :: nat
  lc_link0 :: wire_link
  lc_link1 :: wire_link

definition laser_channel_init :: laser_channel where
  "laser_channel_init = \<lparr>lc_propagation_speed = Fin 299792458, lc_n_devices = 0,
     lc_link0 = \<lparr>wl_state = INITIALIZING, wl_src = None, wl_dst = None\<rparr>,
     lc_link1 = \<lparr>wl_state = INITIALIZING, wl_src = None, wl_dst = None\<rparr>\<rparr>"

definition laser_channel_attach :: "device_id \<Rightarrow> laser_channel \<Rightarrow> laser_channel res" where
  "laser_channel_attach dev ch =
     bindr (checkr (lc_n_devices ch < 2) (Assert_failed ''Only two devices permitted'')) (\<lambda>_.
     let ch1 = (if lc_n_devices ch = 0 then ch\<lparr>lc_link0 := (lc_link0 ch)\<lparr>wl_src := Some dev\<rparr>\<rparr>
                else ch\<lparr>lc_link1 := (lc_link1 ch)\<lparr>wl_src := Some dev\<rparr>\<rparr>)\<lparr>lc_n_devices := lc_n_devices ch + 1\<rparr>
     in if lc_n_devices ch1 = 2
        then Inr (ch1\<lparr>lc_link0 := (lc_link0 ch1)\<lparr>wl_dst := wl_src (lc_link1 ch1), wl_state := IDLE\<rparr>,
                      lc_link1 := (lc_link1 ch1)\<lparr>wl_dst := wl_src (lc_link0 ch1), wl_state := IDLE\<rparr>\<rparr>)
        else Inr ch1)"

datatype 'p laser_event =
    Laser_tx_complete int
  | Laser_receive node_id int device_id "'p frame"

definition laser_channel_transmit_start ::
  "('p, 'q, 'r) net_lib \<Rightarrow> laser_channel \<Rightarrow> 'p frame \<Rightarrow> device_id \<Rightarrow> node_id \<Rightarrow> int \<Rightarrow> 'p laser_event res" where
  "laser_channel_transmit_start lib ch p src node_other_end tx_time =
     bindr (checkr (wl_state (lc_link0 ch) \<noteq> INITIALIZING) (Assert_failed ''m_link[0] is initialized'')) (\<lambda>_.
     bindr (checkr (wl_state (lc_link1 ch) \<noteq> INITIALIZING) (Assert_failed ''m_link[1] is initialized'')) (\<lambda>_.
     let delay = propagation_delay lib (lc_propagation_speed ch) (lib_node_of lib src) node_other_end;
         wire = (if wl_src (lc_link0 ch) = Some src then lc_link0 ch else lc_link1 ch)
     in case wl_dst wire of
          None \<Rightarrow> Inl (Undefined ''null destination device'')
        | Some dst \<Rightarrow> Inr (Laser_receive (lib_node_of lib dst) (tx_time + delay) dst p)))"

definition laser_get_device :: "laser_channel \<Rightarrow> nat \<Rightarrow> device_id option res" where
  "laser_get_device ch i = (if i = 0 then Inr (wl_src (lc_link0 ch)) else if i = 1 then Inr (wl_src (lc_link1 ch))
     else Inl (Assert_failed ''i < 2''))"

definition laser_is_initialized :: "laser_channel \<Rightarrow> bool res" where
  "laser_is_initialized ch =
     bindr (checkr (wl_state (lc_link0 ch) \<noteq> INITIALIZING) (Assert_failed ''m_link[0] is initialized'')) (\<lambda>_.
     bindr (checkr (wl_state (lc_link1 ch) \<noteq> INITIALIZING) (Assert_failed ''m_link[1] is initialized'')) (\<lambda>_.
       Inr True))"

section \<open>PointToPointLaserNetDevice\<close>

record ('p, 'q, 'r) laser_device =
  ld_id :: device_id
  ld_address :: mac
  ld_destination_node :: node_id
  ld_mtu :: nat
  ld_if_index :: nat
  ld_bps :: 'r
  ld_interframe_gap :: int
  ld_has_channel :: bool
  ld_link_up :: bool
  ld_tx_machine_state :: tx_state
  ld_current_pkt :: "'p frame option"
  ld_queue :: 'q
  ld_util :: laser_util
  ld_scheduled :: "'p laser_event list"

definition laser_device_init :: "device_id \<Rightarrow> 'r \<Rightarrow> 'q \<Rightarrow> ('p, 'q, 'r) laser_device" where
  "laser_device_init dev bps q = \<lparr>ld_id = dev, ld_address = broadcast_address, ld_destination_node = 0, ld_mtu = 1500, ld_if_index = 0,
     ld_bps = bps, ld_interframe_gap = 0, ld_has_channel = False, ld_link_up = False, ld_tx_machine_state = READY,
     ld_current_pkt = None, ld_queue = q, ld_util = laser_util_init, ld_scheduled = []\<rparr>"

definition laser_transmit_start ::
  "('p, 'q, 'r) net_lib \<Rightarrow> laser_channel \<Rightarrow> int \<Rightarrow> 'p frame \<Rightarrow> ('p, 'q, 'r) laser_device
    \<Rightarrow> (('p, 'q, 'r) laser_device \<times> bool) res" where
  "laser_transmit_start lib ch now p d =
     bindr (checkr (ld_tx_machine_state d = READY) (Assert_failed ''Must be READY to transmit'')) (\<lambda>_.
     bindr (laser_track_utilization now True (ld_util d)) (\<lambda>u.
     let tx_time = lib_tx_time lib (ld_bps d) p;
         d1 = d\<lparr>ld_tx_machine_state := BUSY, ld_current_pkt := Some p, ld_util := u,
                ld_scheduled := ld_scheduled d @ [Laser_tx_complete (tx_time + ld_interframe_gap d)]\<rparr>
     in if \<not> ld_has_channel d1 then Inl (Undefined ''m_channel is null'')
        else bindr (laser_channel_transmit_start lib ch p (ld_id d1) (ld_destination_node d1) tx_time) (\<lambda>e.
               Inr (d1\<lparr>ld_scheduled := ld_scheduled d1 @ [e]\<rparr>, True))))"

definition laser_transmit_complete ::
  "('p, 'q, 'r) net_lib \<Rightarrow> laser_channel \<Rightarrow> int \<Rightarrow> ('p, 'q, 'r) laser_device \<Rightarrow> ('p, 'q, 'r) laser_device res" where
  "laser_transmit_complete lib ch now d =
     bindr (checkr (ld_tx_machine_state d = BUSY) (Assert_failed ''Must be BUSY if transmitting'')) (\<lambda>_.
     bindr (checkr (ld_current_pkt d \<noteq> None) (Assert_failed ''m_currentPkt zero'')) (\<lambda>_.
     bindr (laser_track_utilization now False (ld_util d)) (\<lambda>u.
     let (q, r) = lib_dequeue lib (ld_queue d);
         d1 = d\<lparr>ld_tx_machine_state := READY, ld_util := u, ld_current_pkt := None, ld_queue := q\<rparr>
     in case r of None \<Rightarrow> Inr d1
        | Some p \<Rightarrow> bindr (laser_transmit_start lib ch now p d1) (\<lambda>(d2, ret). Inr d2))))"

definition laser_send ::
  "('p, 'q, 'r) net_lib \<Rightarrow> laser_channel \<Rightarrow> int \<Rightarrow> 'p \<Rightarrow> mac \<Rightarrow> nat \<Rightarrow> ('p, 'q, 'r) laser_device
    \<Rightarrow> (('p, 'q, 'r) laser_device \<times> bool) res" where
  "laser_send lib ch now packet dest protocol_number d =
     (if \<not> ld_link_up d then Inr (d, False)
      else bindr (add_header packet protocol_number) (\<lambda>f.
        let (q, ok) = lib_enqueue lib f (ld_queue d); d1 = d\<lparr>ld_queue := q\<rparr> in
        if ok
        then if ld_tx_machine_state d1 = READY
          then let (q', r) = lib_dequeue lib (ld_queue d1); d2 = d1\<lparr>ld_queue := q'\<rparr> in
            (case r of None \<Rightarrow> Inl (Undefined ''null packet'') | Some p \<Rightarrow> laser_transmit_start lib ch now p d2)
          else Inr (d1, True)
        else Inr (d1, False)))"

text \<open>The address of the other device of the channel; \<open>address_of\<close> reads a device's address.\<close>

definition laser_get_remote :: "(device_id \<Rightarrow> mac) \<Rightarrow> laser_channel \<Rightarrow> ('p, 'q, 'r) laser_device \<Rightarrow> mac res" where
  "laser_get_remote address_of ch d =
     bindr (checkr (lc_n_devices ch = 2) (Assert_failed ''m_channel->GetNDevices () == 2'')) (\<lambda>_.
       case (wl_src (lc_link0 ch), wl_src (lc_link1 ch)) of
         (Some a, Some b) \<Rightarrow>
           if a \<noteq> ld_id d then Inr (address_of a)
           else if b \<noteq> ld_id d then Inr (address_of b) else Inl (Assert_failed ''false'')
       | _ \<Rightarrow> Inl (Undefined ''null device''))"

definition laser_receive ::
  "(device_id \<Rightarrow> mac) \<Rightarrow> laser_channel \<Rightarrow> ('p frame \<Rightarrow> bool) option \<Rightarrow> bool \<Rightarrow> ('p, 'q, 'r) laser_device \<Rightarrow> 'p frame
    \<Rightarrow> 'p rx_action list res" where
  "laser_receive address_of ch error_model promisc d f =
     (if (case error_model of None \<Rightarrow> False | Some is_corrupt \<Rightarrow> is_corrupt f) then Inr [Rx_drop]
      else bindr (process_header f) (\<lambda>(p, protocol).
           bindr (laser_get_remote address_of ch d) (\<lambda>remote.
             Inr ((if promisc then [Rx_promisc p protocol remote (ld_address d)] else []) @ [Rx_up p protocol remote]))))"

definition laser_attach :: "laser_channel \<Rightarrow> ('p, 'q, 'r) laser_device \<Rightarrow> (('p, 'q, 'r) laser_device \<times> laser_channel) res" where
  "laser_attach ch d = bindr (laser_channel_attach (ld_id d) ch) (\<lambda>ch'.
     Inr (d\<lparr>ld_has_channel := True, ld_link_up := True\<rparr>, ch'))"

definition laser_set_destination_node :: "node_id \<Rightarrow> ('p, 'q, 'r) laser_device \<Rightarrow> ('p, 'q, 'r) laser_device" where
  "laser_set_destination_node n d = d\<lparr>ld_destination_node := n\<rparr>"

definition laser_set_data_rate :: "'r \<Rightarrow> ('p, 'q, 'r) laser_device \<Rightarrow> ('p, 'q, 'r) laser_device" where
  "laser_set_data_rate bps d = d\<lparr>ld_bps := bps\<rparr>"

definition laser_set_interframe_gap :: "int \<Rightarrow> ('p, 'q, 'r) laser_device \<Rightarrow> ('p, 'q, 'r) laser_device" where
  "laser_set_interframe_gap t d = d\<lparr>ld_interframe_gap := t\<rparr>"

definition laser_set_queue :: "'q \<Rightarrow> ('p, 'q, 'r) laser_device \<Rightarrow> ('p, 'q, 'r) laser_device" where
  "laser_set_queue q d = d\<lparr>ld_queue := q\<rparr>"

definition laser_set_address :: "mac \<Rightarrow> ('p, 'q, 'r) laser_device \<Rightarrow> ('p, 'q, 'r) laser_device" where
  "laser_set_address a d = d\<lparr>ld_address := a\<rparr>"

definition laser_set_if_index :: "nat \<Rightarrow> ('p, 'q, 'r) laser_device \<Rightarrow> ('p, 'q, 'r) laser_device" where
  "laser_set_if_index i d = d\<lparr>ld_if_index := i\<rparr>"

definition laser_set_mtu :: "nat \<Rightarrow> ('p, 'q, 'r) laser_device \<Rightarrow> ('p, 'q, 'r) laser_device \<times> bool" where
  "laser_set_mtu mtu d = (d\<lparr>ld_mtu := mtu\<rparr>, True)"

definition laser_get_broadcast :: mac where
  "laser_get_broadcast = 0xFFFFFFFFFFFF"

definition laser_get_multicast :: "bool \<Rightarrow> mac" where
  "laser_get_multicast ipv6 = (if ipv6 then 0x333300000000 else 0x01005E000000)"

definition laser_send_from ::
  "'p \<Rightarrow> mac \<Rightarrow> mac \<Rightarrow> nat \<Rightarrow> ('p, 'q, 'r) laser_device \<Rightarrow> ('p, 'q, 'r) laser_device \<times> bool" where
  "laser_send_from packet source dest protocol_number d = (d, False)"

definition laser_flags :: device_flags where
  "laser_flags = \<lparr>df_broadcast = True, df_multicast = True, df_point_to_point = True, df_bridge = False,
     df_needs_arp = False, df_supports_send_from = False\<rparr>"

definition laser_do_dispose :: "'q \<Rightarrow> ('p, 'q, 'r) laser_device \<Rightarrow> ('p, 'q, 'r) laser_device" where
  "laser_do_dispose no_queue d = d\<lparr>ld_has_channel := False, ld_current_pkt := None, ld_queue := no_queue\<rparr>"

section \<open>The contract of a transmitter\<close>

text \<open>
  What can happen to a device: a packet is offered to it, or the completion of a transmission it
  has started fires, once for each. \<open>sent d\<close> are the transmissions started so far, the list
  are the items that were accepted, the number counts the completions that have fired.
\<close>

inductive tx_reach ::
  "('i \<Rightarrow> 'd \<Rightarrow> ('d \<times> bool) res) \<Rightarrow> ('t \<Rightarrow> 'd \<Rightarrow> 'd res) \<Rightarrow> ('d \<Rightarrow> 'x list) \<Rightarrow> ('i \<Rightarrow> 'x) \<Rightarrow> 'd \<Rightarrow> 'd \<Rightarrow> 'x list \<Rightarrow> nat \<Rightarrow> bool"
  for offer complete sent item d0 where
  tx_start: "tx_reach offer complete sent item d0 d0 [] 0"
| tx_offer: "tx_reach offer complete sent item d0 d acc n \<Longrightarrow> offer i d = Inr (d', ok) \<Longrightarrow>
    tx_reach offer complete sent item d0 d' (if ok then acc @ [item i] else acc) n"
| tx_complete: "tx_reach offer complete sent item d0 d acc n \<Longrightarrow> n < length (sent d) \<Longrightarrow> complete t d = Inr d' \<Longrightarrow>
    tx_reach offer complete sent item d0 d' acc (Suc n)"

text \<open>
  A transmitter keeps its invariant; an idle one has nothing pending and starts what it accepts,
  a busy one adds it to what is pending, a completion starts the oldest pending item.
\<close>

locale tx_machine =
  fixes offer :: "'i \<Rightarrow> 'd \<Rightarrow> ('d \<times> bool) res"
    and complete :: "'t \<Rightarrow> 'd \<Rightarrow> 'd res"
    and inv :: "'d \<Rightarrow> bool"
    and busy :: "'d \<Rightarrow> bool"
    and sent :: "'d \<Rightarrow> 'x list"
    and pending :: "'d \<Rightarrow> 'x list"
    and item :: "'i \<Rightarrow> 'x"
  assumes idle: "inv d \<Longrightarrow> \<not> busy d \<Longrightarrow> pending d = []"
    and offered: "inv d \<Longrightarrow> offer i d = Inr (d', ok) \<Longrightarrow> inv d' \<and>
      (if \<not> ok then busy d' = busy d \<and> sent d' = sent d \<and> pending d' = pending d
       else busy d' \<and> (if busy d then sent d' = sent d \<and> pending d' = pending d @ [item i]
            else sent d' = sent d @ [item i] \<and> pending d' = []))"
    and completed: "inv d \<Longrightarrow> busy d \<Longrightarrow> complete t d = Inr d' \<Longrightarrow> inv d' \<and>
      (case pending d of
         [] \<Rightarrow> \<not> busy d' \<and> sent d' = sent d \<and> pending d' = []
       | x # xs \<Rightarrow> busy d' \<and> sent d' = sent d @ [x] \<and> pending d' = xs)"
begin

lemma reach_inv:
  assumes "tx_reach offer complete sent item d0 d acc n" "inv d0" "\<not> busy d0" "sent d0 = []"
  shows "inv d \<and> sent d @ pending d = acc \<and> length (sent d) = n + (if busy d then 1 else 0)"
  using assms
proof (induction rule: tx_reach.induct)
  case tx_start
  then show ?case using idle by simp
next
  case (tx_offer d acc n i d' ok)
  then have "inv d" "sent d @ pending d = acc" "length (sent d) = n + (if busy d then 1 else 0)" by auto
  with offered [OF \<open>inv d\<close> tx_offer.hyps(2)] idle show ?case by (cases "busy d"; cases ok) auto
next
  case (tx_complete d acc n t d')
  then have i: "inv d" "sent d @ pending d = acc" "length (sent d) = n + (if busy d then 1 else 0)" by auto
  with tx_complete.hyps(2) have b: "busy d" by (auto split: if_splits)
  from completed [OF i(1) b tx_complete.hyps(3)] i b show ?case by (cases "pending d") auto
qed

end

section \<open>The GSL device is a transmitter\<close>

text \<open>Everything transmitted: the frame and the device it is delivered to.\<close>

fun gsl_deliveries :: "'p gsl_event list \<Rightarrow> ('p frame \<times> device_id) list" where
  "gsl_deliveries [] = []"
| "gsl_deliveries (Gsl_tx_complete t dest # es) = gsl_deliveries es"
| "gsl_deliveries (Gsl_receive node t dev f # es) = (f, dev) # gsl_deliveries es"

lemma gsl_deliveries_append: "gsl_deliveries (xs @ ys) = gsl_deliveries xs @ gsl_deliveries ys"
  by (induction xs rule: gsl_deliveries.induct) auto

definition gsl_sent :: "('p, 'q, 'r) gsl_device \<Rightarrow> ('p frame \<times> device_id) list" where
  "gsl_sent d = gsl_deliveries (gd_scheduled d)"

definition gsl_pending :: "('p, 'q, 'r) net_lib \<Rightarrow> gsl_channel \<Rightarrow> ('p, 'q, 'r) gsl_device \<Rightarrow> ('p frame \<times> device_id) list" where
  "gsl_pending lib ch d = map (\<lambda>(f, dest). (f, the (gc_link ch dest))) (zip (lib_content lib (gd_queue d)) (gd_queue_dests d))"

text \<open>
  The invariant: the queue of destinations runs in step with the queue of frames, the device is
  busy exactly while it has a current packet, and the queue of an idle device is empty.
\<close>

definition gsl_inv :: "('p, 'q, 'r) net_lib \<Rightarrow> gsl_channel \<Rightarrow> ('p, 'q, 'r) gsl_device \<Rightarrow> bool" where
  "gsl_inv lib ch d \<longleftrightarrow> fifo_queue lib \<and>
     (gd_tx_machine_state d = BUSY \<longleftrightarrow> gd_current_pkt d \<noteq> None) \<and>
     length (gd_queue_dests d) = length (lib_content lib (gd_queue d)) \<and>
     (gd_tx_machine_state d = READY \<longrightarrow> lib_content lib (gd_queue d) = []) \<and>
     (gd_link_up d \<longrightarrow> gd_has_channel d)"

definition gsl_item :: "gsl_channel \<Rightarrow> 'p \<times> mac \<times> nat \<Rightarrow> 'p frame \<times> device_id" where
  "gsl_item ch i = (case i of (p, dest, proto) \<Rightarrow> ((case ether_to_ppp proto of Inr ppp \<Rightarrow> ppp | Inl _ \<Rightarrow> 0, p), the (gc_link ch dest)))"

definition gsl_offer ::
  "('p, 'q, 'r) net_lib \<Rightarrow> gsl_channel \<Rightarrow> 'p \<times> mac \<times> nat \<Rightarrow> ('p, 'q, 'r) gsl_device \<Rightarrow> (('p, 'q, 'r) gsl_device \<times> bool) res" where
  "gsl_offer lib ch i d = (case i of (p, dest, proto) \<Rightarrow> gsl_send lib ch p dest proto d)"

lemma fifo_enqueue:
  "fifo_queue lib \<Longrightarrow> lib_enqueue lib f q = (q', ok) \<Longrightarrow>
   lib_content lib q' = (if ok then lib_content lib q @ [f] else lib_content lib q)"
  unfolding fifo_queue_def Let_def by (drule conjunct1, drule spec [of _ f], drule spec [of _ q]) simp

lemma fifo_dequeue:
  "fifo_queue lib \<Longrightarrow> lib_dequeue lib q = (q', r) \<Longrightarrow>
   r = (case lib_content lib q of [] \<Rightarrow> None | f # _ \<Rightarrow> Some f) \<and> lib_content lib q' = tl (lib_content lib q)"
  unfolding fifo_queue_def Let_def by (drule conjunct2, drule spec [of _ q]) simp

lemma gsl_transmit_start_ok:
  assumes "gsl_transmit_start lib ch f dest d = Inr (d', ret)"
  shows "ret \<and> gd_tx_machine_state d' = BUSY \<and> gd_current_pkt d' = Some f \<and> gd_queue d' = gd_queue d \<and>
    gd_queue_dests d' = gd_queue_dests d \<and> gd_link_up d' = gd_link_up d \<and> gd_has_channel d' = gd_has_channel d \<and>
    gsl_sent d' = gsl_sent d @ [(f, the (gc_link ch dest))]"
  using assms
  by (auto simp: gsl_transmit_start_def res_simps Let_def gsl_channel_transmit_start_def gsl_transmit_to_def
      gsl_sent_def gsl_deliveries_append split: if_splits option.splits)

lemma gsl_send_cases:
  assumes "gsl_inv lib ch d" "gsl_send lib ch p dest proto d = Inr (d', ok)"
  shows "gsl_inv lib ch d' \<and>
    (if \<not> ok then gd_tx_machine_state d' = gd_tx_machine_state d \<and> gsl_sent d' = gsl_sent d \<and> gsl_pending lib ch d' = gsl_pending lib ch d
     else gd_tx_machine_state d' = BUSY \<and>
       (if gd_tx_machine_state d = BUSY then gsl_sent d' = gsl_sent d \<and> gsl_pending lib ch d' = gsl_pending lib ch d @ [gsl_item ch (p, dest, proto)]
        else gsl_sent d' = gsl_sent d @ [gsl_item ch (p, dest, proto)] \<and> gsl_pending lib ch d' = []))"
proof (cases "gd_link_up d")
  case False
  then show ?thesis using assms by (auto simp: gsl_send_def)
next
  case True
  obtain ppp where ppp: "ether_to_ppp proto = Inr ppp"
    using assms(2) True by (auto simp: gsl_send_def add_header_def res_simps)
  let ?f = "(ppp, p)"
  have fifo: "fifo_queue lib" and len: "length (gd_queue_dests d) = length (lib_content lib (gd_queue d))"
    using assms(1) by (auto simp: gsl_inv_def)
  have it: "gsl_item ch (p, dest, proto) = (?f, the (gc_link ch dest))" by (simp add: gsl_item_def ppp)
  obtain q e where e: "lib_enqueue lib ?f (gd_queue d) = (q, e)" by fastforce
  note c = fifo_enqueue [OF fifo e]
  show ?thesis
  proof (cases "e \<and> gd_tx_machine_state d = READY")
    case False
    then show ?thesis
      using assms True c len it ppp e
      by (cases e; cases "gd_tx_machine_state d")
        (auto simp: gsl_send_def add_header_def gsl_inv_def gsl_sent_def gsl_pending_def Let_def)
  next
    case ready: True
    then have empty: "lib_content lib (gd_queue d) = []" "gd_queue_dests d = []"
      using assms(1) len by (auto simp: gsl_inv_def)
    obtain q' r where r: "lib_dequeue lib q = (q', r)" by fastforce
    have rf: "r = Some ?f" "lib_content lib q' = []"
      using fifo_dequeue [OF fifo r] c ready empty by auto
    have "gsl_transmit_start lib ch ?f dest (d\<lparr>gd_queue := q', gd_queue_dests := []\<rparr>) = Inr (d', ok)"
      using assms(2) True ppp e ready empty r rf
      by (simp add: gsl_send_def add_header_def gsl_transmit_next_def)
    note t = gsl_transmit_start_ok [OF this]
    show ?thesis
      using t rf ready assms(1) True it by (auto simp: gsl_inv_def gsl_pending_def gsl_sent_def)
  qed
qed

lemma gsl_complete_cases:
  assumes "gsl_inv lib ch d" "gd_tx_machine_state d = BUSY" "gsl_transmit_complete lib ch d = Inr d'"
  shows "gsl_inv lib ch d' \<and>
    (case gsl_pending lib ch d of
       [] \<Rightarrow> gd_tx_machine_state d' \<noteq> BUSY \<and> gsl_sent d' = gsl_sent d \<and> gsl_pending lib ch d' = []
     | x # xs \<Rightarrow> gd_tx_machine_state d' = BUSY \<and> gsl_sent d' = gsl_sent d @ [x] \<and> gsl_pending lib ch d' = xs)"
proof -
  have fifo: "fifo_queue lib" and len: "length (gd_queue_dests d) = length (lib_content lib (gd_queue d))"
    using assms(1) by (auto simp: gsl_inv_def)
  obtain q r where r: "lib_dequeue lib (gd_queue d) = (q, r)" by fastforce
  note c = fifo_dequeue [OF fifo r]
  show ?thesis
  proof (cases "lib_content lib (gd_queue d)")
    case Nil
    then show ?thesis
      using assms r c len by (auto simp: gsl_transmit_complete_def gsl_inv_def gsl_pending_def gsl_sent_def Let_def res_simps)
  next
    case (Cons f fs)
    then obtain dest rest where ds: "gd_queue_dests d = dest # rest" using len by (cases "gd_queue_dests d") auto
    let ?d = "d\<lparr>gd_tx_machine_state := READY, gd_current_pkt := None, gd_queue := q\<rparr>"
    obtain ret where "gsl_transmit_start lib ch f dest (?d\<lparr>gd_queue_dests := rest\<rparr>) = Inr (d', ret)"
      using assms(3) r c Cons ds by (auto simp: gsl_transmit_complete_def gsl_transmit_next_def Let_def res_simps)
    note t = gsl_transmit_start_ok [OF this]
    show ?thesis
      using t c Cons ds len assms(1) by (auto simp: gsl_inv_def gsl_pending_def gsl_sent_def)
  qed
qed

interpretation gsl: tx_machine "gsl_offer lib ch" "\<lambda>t. gsl_transmit_complete lib ch" "gsl_inv lib ch"
    "\<lambda>d. gd_tx_machine_state d = BUSY" gsl_sent "gsl_pending lib ch" "gsl_item ch" for lib ch
proof
  fix d i d' ok t
  show "gsl_pending lib ch d = []" if "gsl_inv lib ch d" "\<not> gd_tx_machine_state d = BUSY"
    using that by (cases "gd_tx_machine_state d") (auto simp: gsl_inv_def gsl_pending_def)
qed (auto simp: gsl_offer_def dest: gsl_send_cases gsl_complete_cases split: prod.splits)

text \<open>
  A transmitter that cannot fail (\<open>good\<close>: everything pending can be transmitted) drains: the
  completions it is waiting for, fired one after the other, transmit everything pending.
\<close>

locale tx_machine_live = tx_machine +
  fixes good :: "'d \<Rightarrow> bool"
  assumes progress: "inv d \<Longrightarrow> good d \<Longrightarrow> busy d \<Longrightarrow> \<exists>d'. complete t d = Inr d' \<and> good d'"
begin

lemma drain:
  assumes "inv d" "good d" "busy d" "length ts = Suc (length (pending d))"
  shows "\<exists>d'. foldr_res complete ts d = Inr d' \<and> sent d' = sent d @ pending d \<and> pending d' = [] \<and> \<not> busy d'"
  using assms
proof (induction "pending d" arbitrary: d ts)
  case Nil
  then obtain t where t: "ts = [t]" by (cases ts) auto
  obtain d' where d': "complete t d = Inr d'" using progress Nil.prems by blast
  show ?case using completed [OF Nil.prems(1,3) d'] Nil.hyps [symmetric] t d' by auto
next
  case (Cons x xs)
  then obtain t ts' where t: "ts = t # ts'" "length ts' = Suc (length xs)"
    using Cons.prems(4) Cons.hyps(2) [symmetric] by (cases ts) auto
  obtain d' where d': "complete t d = Inr d'" "good d'" using progress Cons.prems by blast
  have c: "inv d'" "busy d'" "sent d' = sent d @ [x]" "xs = pending d'"
    using completed [OF Cons.prems(1,3) d'(1)] Cons.hyps(2) [symmetric] by auto
  show ?case using Cons.hyps(1) [OF c(4,1) d'(2) c(2)] t d'(1) c Cons.hyps(2) [symmetric] by auto
qed

end

definition gsl_good :: "('p, 'q, 'r) net_lib \<Rightarrow> gsl_channel \<Rightarrow> ('p, 'q, 'r) gsl_device \<Rightarrow> bool" where
  "gsl_good lib ch d \<longleftrightarrow> gd_has_channel d \<and> (\<forall>dest \<in> set (gd_queue_dests d). \<exists>dst. gc_link ch dest = Some dst \<and>
     lib_system_of lib (lib_node_of lib (gd_id d)) = lib_system_of lib (lib_node_of lib dst))"

lemma gsl_transmit_start_good:
  assumes "gd_tx_machine_state d = READY" "gd_has_channel d" "gc_link ch dest = Some dst"
    "lib_system_of lib (lib_node_of lib (gd_id d)) = lib_system_of lib (lib_node_of lib dst)"
  shows "\<exists>d'. gsl_transmit_start lib ch f dest d = Inr (d', True) \<and> gd_queue_dests d' = gd_queue_dests d \<and>
    gd_has_channel d' \<and> gd_id d' = gd_id d"
  using assms by (simp add: gsl_transmit_start_def gsl_channel_transmit_start_def gsl_transmit_to_def Let_def)

lemma gsl_complete_good:
  assumes "gsl_inv lib ch d" "gsl_good lib ch d" "gd_tx_machine_state d = BUSY"
  shows "\<exists>d'. gsl_transmit_complete lib ch d = Inr d' \<and> gsl_good lib ch d'"
proof -
  have fifo: "fifo_queue lib" and len: "length (gd_queue_dests d) = length (lib_content lib (gd_queue d))"
    and cur: "gd_current_pkt d \<noteq> None"
    using assms(1,3) by (auto simp: gsl_inv_def)
  obtain q r where r: "lib_dequeue lib (gd_queue d) = (q, r)" by fastforce
  note c = fifo_dequeue [OF fifo r]
  let ?d = "d\<lparr>gd_tx_machine_state := READY, gd_current_pkt := None, gd_queue := q\<rparr>"
  show ?thesis
  proof (cases "lib_content lib (gd_queue d)")
    case Nil
    then show ?thesis using assms cur r c len by (auto simp: gsl_transmit_complete_def gsl_good_def Let_def)
  next
    case (Cons f fs)
    then obtain dest rest where ds: "gd_queue_dests d = dest # rest" using len by (cases "gd_queue_dests d") auto
    obtain dst where dst: "gc_link ch dest = Some dst"
      "lib_system_of lib (lib_node_of lib (gd_id d)) = lib_system_of lib (lib_node_of lib dst)"
      using assms(2) ds by (auto simp: gsl_good_def)
    obtain d' where "gsl_transmit_start lib ch f dest (?d\<lparr>gd_queue_dests := rest\<rparr>) = Inr (d', True)"
      "gd_queue_dests d' = rest" "gd_has_channel d'" "gd_id d' = gd_id d"
      using gsl_transmit_start_good [of "?d\<lparr>gd_queue_dests := rest\<rparr>" ch dest dst lib f] dst assms(2)
      by (auto simp: gsl_good_def)
    then show ?thesis
      using assms(2,3) r c cur Cons ds by (auto simp: gsl_transmit_complete_def gsl_transmit_next_def gsl_good_def Let_def)
  qed
qed

interpretation gsl_live: tx_machine_live "gsl_offer lib ch" "\<lambda>t. gsl_transmit_complete lib ch" "gsl_inv lib ch"
    "\<lambda>d. gd_tx_machine_state d = BUSY" gsl_sent "gsl_pending lib ch" "gsl_item ch" "gsl_good lib ch" for lib ch
  by unfold_locales (rule gsl_complete_good)

section \<open>The laser device is a transmitter\<close>

lemma laser_util_loop_keeps:
  assumes "laser_util_loop b now s = Some (Inr s')"
  shows "lu_tracking_enabled s' = lu_tracking_enabled s"
proof -
  have "r = Inr s' \<longrightarrow> lu_tracking_enabled s' = lu_tracking_enabled s" if "laser_util_loop b now s = Some r" for r
  proof (rule laser_util_loop.raw_induct [where P = "\<lambda>b now s r. r = Inr s' \<longrightarrow> lu_tracking_enabled s' = lu_tracking_enabled s", OF _ that])
    fix lul b now s r
    assume ih: "\<And>b now s r. lul b now s = Some r \<Longrightarrow> r = Inr s' \<longrightarrow> lu_tracking_enabled s' = lu_tracking_enabled s"
      and step: "(if now \<ge> lu_current_interval_end s
        then (case laser_close_interval b s of Inl e \<Rightarrow> Some (Inl e) | Inr s' \<Rightarrow> lul b now s') else Some (Inr s)) = Some r"
    show "r = Inr s' \<longrightarrow> lu_tracking_enabled s' = lu_tracking_enabled s"
      using step ih
      by (auto simp: laser_close_interval_def Let_def split: if_splits sum.splits)
  qed
  with assms show ?thesis by blast
qed

lemma laser_track_utilization_keeps:
  assumes "laser_track_utilization now b s = Inr s'"
  shows "lu_tracking_enabled s' = lu_tracking_enabled s" "lu_tracking_enabled s \<Longrightarrow> lu_current_state_is_on s' = b"
  using assms laser_util_loop_keeps [of b now s]
  by (auto simp: laser_track_utilization_def Let_def res_simps split: if_splits option.splits)


fun laser_deliveries :: "'p laser_event list \<Rightarrow> ('p frame \<times> device_id) list" where
  "laser_deliveries [] = []"
| "laser_deliveries (Laser_tx_complete t # es) = laser_deliveries es"
| "laser_deliveries (Laser_receive node t dev f # es) = (f, dev) # laser_deliveries es"

lemma laser_deliveries_append: "laser_deliveries (xs @ ys) = laser_deliveries xs @ laser_deliveries ys"
  by (induction xs rule: laser_deliveries.induct) auto

definition laser_sent :: "('p, 'q, 'r) laser_device \<Rightarrow> ('p frame \<times> device_id) list" where
  "laser_sent d = laser_deliveries (ld_scheduled d)"

definition laser_other_end :: "laser_channel \<Rightarrow> device_id \<Rightarrow> device_id" where
  "laser_other_end ch dev = the (wl_dst (if wl_src (lc_link0 ch) = Some dev then lc_link0 ch else lc_link1 ch))"

definition laser_pending :: "('p, 'q, 'r) net_lib \<Rightarrow> laser_channel \<Rightarrow> device_id \<Rightarrow> ('p, 'q, 'r) laser_device \<Rightarrow> ('p frame \<times> device_id) list" where
  "laser_pending lib ch dev d = map (\<lambda>f. (f, laser_other_end ch dev)) (lib_content lib (ld_queue d))"

definition laser_inv :: "('p, 'q, 'r) net_lib \<Rightarrow> device_id \<Rightarrow> ('p, 'q, 'r) laser_device \<Rightarrow> bool" where
  "laser_inv lib dev d \<longleftrightarrow> fifo_queue lib \<and> ld_id d = dev \<and>
     (ld_tx_machine_state d = BUSY \<longleftrightarrow> ld_current_pkt d \<noteq> None) \<and>
     (ld_tx_machine_state d = READY \<longrightarrow> lib_content lib (ld_queue d) = []) \<and>
     (lu_tracking_enabled (ld_util d) \<longrightarrow> (lu_current_state_is_on (ld_util d) \<longleftrightarrow> ld_tx_machine_state d = BUSY))"

text \<open>An offered packet comes with the moment of the call.\<close>

definition laser_item :: "laser_channel \<Rightarrow> device_id \<Rightarrow> int \<times> 'p \<times> mac \<times> nat \<Rightarrow> 'p frame \<times> device_id" where
  "laser_item ch dev i = (case i of (now, p, dest, proto) \<Rightarrow>
     ((case ether_to_ppp proto of Inr ppp \<Rightarrow> ppp | Inl _ \<Rightarrow> 0, p), laser_other_end ch dev))"

definition laser_offer ::
  "('p, 'q, 'r) net_lib \<Rightarrow> laser_channel \<Rightarrow> int \<times> 'p \<times> mac \<times> nat \<Rightarrow> ('p, 'q, 'r) laser_device \<Rightarrow> (('p, 'q, 'r) laser_device \<times> bool) res" where
  "laser_offer lib ch i d = (case i of (now, p, dest, proto) \<Rightarrow> laser_send lib ch now p dest proto d)"

lemma laser_transmit_start_ok:
  assumes "laser_transmit_start lib ch now f d = Inr (d', ret)"
  shows "ret \<and> ld_tx_machine_state d' = BUSY \<and> ld_current_pkt d' = Some f \<and> ld_queue d' = ld_queue d \<and> ld_id d' = ld_id d \<and>
    (lu_tracking_enabled (ld_util d') \<longrightarrow> lu_current_state_is_on (ld_util d')) \<and>
    laser_sent d' = laser_sent d @ [(f, laser_other_end ch (ld_id d))]"
proof -
  obtain u where u: "laser_track_utilization now True (ld_util d) = Inr u"
    using assms by (auto simp: laser_transmit_start_def res_simps)
  have k: "lu_tracking_enabled u \<longrightarrow> lu_current_state_is_on u" using laser_track_utilization_keeps [OF u] by simp
  show ?thesis
    using assms k
    by (auto simp: u laser_transmit_start_def res_simps Let_def laser_channel_transmit_start_def laser_other_end_def
        laser_sent_def laser_deliveries_append split: if_splits option.splits)
qed

lemma laser_send_cases:
  assumes "laser_inv lib dev d" "laser_send lib ch now p dest proto d = Inr (d', ok)"
  shows "laser_inv lib dev d' \<and>
    (if \<not> ok then ld_tx_machine_state d' = ld_tx_machine_state d \<and> laser_sent d' = laser_sent d \<and> laser_pending lib ch dev d' = laser_pending lib ch dev d
     else ld_tx_machine_state d' = BUSY \<and>
       (if ld_tx_machine_state d = BUSY then laser_sent d' = laser_sent d \<and> laser_pending lib ch dev d' = laser_pending lib ch dev d @ [laser_item ch dev (now, p, dest, proto)]
        else laser_sent d' = laser_sent d @ [laser_item ch dev (now, p, dest, proto)] \<and> laser_pending lib ch dev d' = []))"
proof (cases "ld_link_up d")
  case False
  then show ?thesis using assms by (auto simp: laser_send_def)
next
  case True
  obtain ppp where ppp: "ether_to_ppp proto = Inr ppp"
    using assms(2) True by (auto simp: laser_send_def add_header_def res_simps)
  let ?f = "(ppp, p)"
  have fifo: "fifo_queue lib" and dev: "ld_id d = dev" using assms(1) by (auto simp: laser_inv_def)
  have it: "laser_item ch dev (now, p, dest, proto) = (?f, laser_other_end ch dev)" by (simp add: laser_item_def ppp)
  obtain q e where e: "lib_enqueue lib ?f (ld_queue d) = (q, e)" by fastforce
  note c = fifo_enqueue [OF fifo e]
  show ?thesis
  proof (cases "e \<and> ld_tx_machine_state d = READY")
    case False
    then show ?thesis
      using assms True c it ppp e
      by (cases e; cases "ld_tx_machine_state d")
        (auto simp: laser_send_def add_header_def laser_inv_def laser_sent_def laser_pending_def Let_def)
  next
    case ready: True
    then have empty: "lib_content lib (ld_queue d) = []" using assms(1) by (auto simp: laser_inv_def)
    obtain q' r where r: "lib_dequeue lib q = (q', r)" by fastforce
    have rf: "r = Some ?f" "lib_content lib q' = []"
      using fifo_dequeue [OF fifo r] c ready empty by auto
    have "laser_transmit_start lib ch now ?f (d\<lparr>ld_queue := q'\<rparr>) = Inr (d', ok)"
      using assms(2) True ppp e ready r rf by (simp add: laser_send_def add_header_def)
    note t = laser_transmit_start_ok [OF this]
    show ?thesis
      using t rf ready assms(1) it by (auto simp: laser_inv_def laser_pending_def laser_sent_def)
  qed
qed

lemma laser_complete_cases:
  assumes "laser_inv lib dev d" "ld_tx_machine_state d = BUSY" "laser_transmit_complete lib ch now d = Inr d'"
  shows "laser_inv lib dev d' \<and>
    (case laser_pending lib ch dev d of
       [] \<Rightarrow> ld_tx_machine_state d' \<noteq> BUSY \<and> laser_sent d' = laser_sent d \<and> laser_pending lib ch dev d' = []
     | x # xs \<Rightarrow> ld_tx_machine_state d' = BUSY \<and> laser_sent d' = laser_sent d @ [x] \<and> laser_pending lib ch dev d' = xs)"
proof -
  have fifo: "fifo_queue lib" using assms(1) by (auto simp: laser_inv_def)
  obtain q r where r: "lib_dequeue lib (ld_queue d) = (q, r)" by fastforce
  note c = fifo_dequeue [OF fifo r]
  obtain u where u: "laser_track_utilization now False (ld_util d) = Inr u"
    using assms(3) by (auto simp: laser_transmit_complete_def res_simps)
  note keeps = laser_track_utilization_keeps [OF u]
  show ?thesis
  proof (cases "lib_content lib (ld_queue d)")
    case Nil
    then show ?thesis
      using assms r c u keeps
      by (auto simp: laser_transmit_complete_def laser_inv_def laser_pending_def laser_sent_def Let_def res_simps)
  next
    case (Cons f fs)
    let ?d = "d\<lparr>ld_tx_machine_state := READY, ld_util := u, ld_current_pkt := None, ld_queue := q\<rparr>"
    obtain ret where "laser_transmit_start lib ch now f ?d = Inr (d', ret)"
      using assms(3) r c u Cons by (auto simp: laser_transmit_complete_def Let_def res_simps)
    note t = laser_transmit_start_ok [OF this]
    show ?thesis
      using t c Cons assms(1) by (auto simp: laser_inv_def laser_pending_def laser_sent_def)
  qed
qed

interpretation laser: tx_machine "laser_offer lib ch" "laser_transmit_complete lib ch" "laser_inv lib dev"
    "\<lambda>d. ld_tx_machine_state d = BUSY" laser_sent "laser_pending lib ch dev" "laser_item ch dev" for lib ch dev
proof
  fix d i d' ok t
  show "laser_pending lib ch dev d = []" if "laser_inv lib dev d" "\<not> ld_tx_machine_state d = BUSY"
    using that by (cases "ld_tx_machine_state d") (auto simp: laser_inv_def laser_pending_def)
qed (auto simp: laser_offer_def dest: laser_send_cases laser_complete_cases split: prod.splits)

section \<open>Properties of the devices\<close>

text \<open>
  A library for the concrete examples: a drop-tail queue of at most two frames as a list, nodes
  that are their devices, all in one system, and one nanosecond for each transmission.
\<close>

definition list_lib :: "(nat, nat frame list, nat) net_lib" where
  "list_lib = \<lparr>lib_enqueue = (\<lambda>f q. if length q < 2 then (q @ [f], True) else (q, False)),
     lib_dequeue = (\<lambda>q. case q of [] \<Rightarrow> ([], None) | f # fs \<Rightarrow> (fs, Some f)), lib_content = (\<lambda>q. q),
     lib_tx_time = (\<lambda>r f. 1), lib_node_of = (\<lambda>dev. dev), lib_system_of = (\<lambda>node. 0),
     lib_distance = (\<lambda>a b. Fin 0), lib_seconds = (\<lambda>d. 0)\<rparr>"

lemma list_lib_fifo: "fifo_queue list_lib"
  by (auto simp: fifo_queue_def list_lib_def Let_def split: list.splits)

lemma gsl_fresh_inv:
  assumes "fifo_queue lib" "lib_content lib q = []"
  shows "gsl_inv lib ch' (fst (gsl_attach ch (gsl_device_init dev bps q)))"
  using assms by (simp add: gsl_inv_def gsl_attach_def gsl_device_init_def)

lemma gsl_fresh:
  "gsl_sent (fst (gsl_attach ch (gsl_device_init dev bps q))) = []"
  "gd_tx_machine_state (fst (gsl_attach ch (gsl_device_init dev bps q))) = READY"
  by (simp_all add: gsl_sent_def gsl_attach_def gsl_device_init_def)

text \<open>
  C5. A GSL device, from the moment it is attached with an empty queue, transmits every packet
  it has accepted exactly once, in the order of acceptance, each to the device its destination
  address stands for: whatever the interleaving of sends (also refused ones) and completions,
  the frames transmitted followed by those still queued are those accepted, and exactly one
  transmission is outstanding when the device is busy and none when it is not.
\<close>

theorem gsl_transmits_in_order:
  assumes "fifo_queue lib" "lib_content lib q = []"
    "tx_reach (gsl_offer lib ch) (\<lambda>t. gsl_transmit_complete lib ch) gsl_sent (gsl_item ch)
      (fst (gsl_attach ch\<^sub>0 (gsl_device_init dev bps q))) d acc n"
  shows "gsl_sent d @ gsl_pending lib ch d = acc \<and>
    length (gsl_sent d) = n + (if gd_tx_machine_state d = BUSY then 1 else 0)"
  using gsl.reach_inv [OF assms(3) gsl_fresh_inv [OF assms(1,2)]] by (simp add: gsl_fresh)

definition ex_gsl_channel :: gsl_channel where
  "ex_gsl_channel = gsl_channel_attach 7 70 (gsl_channel_attach 5 50 gsl_channel_init)"

definition ex_gsl :: "(nat, nat frame list, nat) gsl_device" where
  "ex_gsl = fst (gsl_attach gsl_channel_init (gsl_device_init 5 1 []))"

definition ex_gsl_run :: "(nat, nat frame list, nat) gsl_device" where
  "ex_gsl_run = (case bindr (gsl_send list_lib ex_gsl_channel 11 70 2048 ex_gsl) (\<lambda>(d, ok).
       bindr (gsl_send list_lib ex_gsl_channel 12 50 2048 d) (\<lambda>(d, ok).
         gsl_transmit_complete list_lib ex_gsl_channel d))
     of Inr d \<Rightarrow> d | Inl _ \<Rightarrow> ex_gsl)"

lemmas ex_gsl_simps = ex_gsl_channel_def ex_gsl_def gsl_channel_attach_def gsl_channel_init_def gsl_attach_def
  gsl_device_init_def gsl_send_def gsl_offer_def gsl_item_def add_header_def ether_to_ppp_def list_lib_def
  gsl_transmit_next_def gsl_transmit_start_def gsl_channel_transmit_start_def gsl_transmit_to_def
  gsl_transmit_complete_def gsl_sent_def Let_def

lemma ex_gsl_reach:
  "tx_reach (gsl_offer list_lib ex_gsl_channel) (\<lambda>t :: unit. gsl_transmit_complete list_lib ex_gsl_channel) gsl_sent
     (gsl_item ex_gsl_channel) ex_gsl ex_gsl_run [((33, 11), 7), ((33, 12), 5)] 1"
proof -
  let ?R = "tx_reach (gsl_offer list_lib ex_gsl_channel) (\<lambda>t :: unit. gsl_transmit_complete list_lib ex_gsl_channel) gsl_sent
     (gsl_item ex_gsl_channel) ex_gsl"
  obtain d1 where d1: "gsl_offer list_lib ex_gsl_channel (11, 70, 2048) ex_gsl = Inr (d1, True)"
    by (simp add: ex_gsl_simps)
  obtain d2 where d2: "gsl_offer list_lib ex_gsl_channel (12, 50, 2048) d1 = Inr (d2, True)" "length (gsl_sent d2) = 1"
    "gsl_transmit_complete list_lib ex_gsl_channel d2 = Inr ex_gsl_run"
    using d1 by (auto simp: ex_gsl_run_def ex_gsl_simps)
  have "?R ex_gsl [] 0" by (rule tx_start)
  then have "?R d1 (if True then [] @ [gsl_item ex_gsl_channel (11, 70, 2048)] else []) 0"
    using d1 by (rule tx_offer)
  then have "?R d2 (if True then (if True then [] @ [gsl_item ex_gsl_channel (11, 70, 2048)] else [])
      @ [gsl_item ex_gsl_channel (12, 50, 2048)] else (if True then [] @ [gsl_item ex_gsl_channel (11, 70, 2048)] else [])) 0"
    using d2(1) by (rule tx_offer)
  then have "?R ex_gsl_run (if True then (if True then [] @ [gsl_item ex_gsl_channel (11, 70, 2048)] else [])
      @ [gsl_item ex_gsl_channel (12, 50, 2048)] else (if True then [] @ [gsl_item ex_gsl_channel (11, 70, 2048)] else [])) (Suc 0)"
    by (rule tx_complete [where t = "()"]) (use d2(2,3) in simp_all)
  then show ?thesis
    by (simp add: gsl_item_def ether_to_ppp_def ex_gsl_channel_def gsl_channel_attach_def gsl_channel_init_def)
qed

theorem gsl_transmits_in_order_witness:
  "gsl_sent ex_gsl_run @ gsl_pending list_lib ex_gsl_channel ex_gsl_run = [((33, 11), 7), ((33, 12), 5)] \<and>
   length (gsl_sent ex_gsl_run) = 1 + (if gd_tx_machine_state ex_gsl_run = BUSY then 1 else 0)"
  by (rule gsl_transmits_in_order [OF list_lib_fifo _ ex_gsl_reach [unfolded ex_gsl_def]]) (simp add: list_lib_def)


text \<open>
  C10. A GSL device whose pending packets all have a known destination in the simulator process
  drains: when the completion of its transmission and of each one that follows fire, none of them
  throws or asserts, every accepted packet has been transmitted and the device is idle again.
\<close>

theorem gsl_drains:
  assumes "fifo_queue lib" "lib_content lib q = []"
    "tx_reach (gsl_offer lib ch) (\<lambda>t. gsl_transmit_complete lib ch) gsl_sent (gsl_item ch)
      (fst (gsl_attach ch\<^sub>0 (gsl_device_init dev bps q))) d acc n"
    "gsl_good lib ch d" "gd_tx_machine_state d = BUSY" "length ts = Suc (length (gsl_pending lib ch d))"
  shows "\<exists>d'. foldr_res (\<lambda>t. gsl_transmit_complete lib ch) ts d = Inr d' \<and> gsl_sent d' = acc \<and>
    gsl_pending lib ch d' = [] \<and> gd_tx_machine_state d' = READY"
proof -
  have inv: "gsl_inv lib ch d" "gsl_sent d @ gsl_pending lib ch d = acc"
    using gsl.reach_inv [OF assms(3) gsl_fresh_inv [OF assms(1,2)]] by (simp_all add: gsl_fresh)
  have ready: "x = READY" if "x \<noteq> BUSY" for x using that by (cases x) auto
  show ?thesis
    using gsl_live.drain [OF inv(1) assms(4,5,6)] inv(2) ready by force
qed

theorem gsl_drains_witness:
  "\<exists>d'. foldr_res (\<lambda>t. gsl_transmit_complete list_lib ex_gsl_channel) [()] ex_gsl_run = Inr d' \<and>
    gsl_sent d' = [((33, 11), 7), ((33, 12), 5)] \<and> gsl_pending list_lib ex_gsl_channel d' = [] \<and>
    gd_tx_machine_state d' = READY"
  by (rule gsl_drains [OF list_lib_fifo _ ex_gsl_reach [unfolded ex_gsl_def]])
    (auto simp: list_lib_def ex_gsl_run_def ex_gsl_simps gsl_good_def gsl_pending_def)

lemma gsl_attach_all_link:
  "gc_link (fold (\<lambda>(dev, mac). gsl_channel_attach dev mac) devs ch) mac =
    (case map_of (rev (map prod.swap devs)) mac of None \<Rightarrow> gc_link ch mac | Some dev \<Rightarrow> Some dev)"
proof (induction devs arbitrary: ch)
  case (Cons v devs)
  then show ?case
    by (cases v) (auto simp: gsl_channel_attach_def map_add_def split: option.splits)
qed simp

lemma gsl_attach_all_rest:
  "gc_net_devices (fold (\<lambda>(dev, mac). gsl_channel_attach dev mac) devs ch) = gc_net_devices ch @ map fst devs"
  "gc_propagation_speed (fold (\<lambda>(dev, mac). gsl_channel_attach dev mac) devs ch) = gc_propagation_speed ch"
  by (induction devs arbitrary: ch) (auto simp: gsl_channel_attach_def)

text \<open>
  A packet sent to an address on the GSL channel arrives, after its transmission time and the
  propagation delay between the two nodes, at the device attached last under that address; an
  address nobody has attached with aborts the simulation, and so does a device of another system.
\<close>

theorem gsl_channel_delivery:
  "gsl_channel_transmit_start lib (fold (\<lambda>(dev, mac). gsl_channel_attach dev mac) devs gsl_channel_init) p src mac tx_time =
    (case map_of (rev (map prod.swap devs)) mac of
       None \<Rightarrow> Inl (Aborted ''MAC address could not be mapped to a network device.'')
     | Some dst \<Rightarrow>
         if lib_system_of lib (lib_node_of lib src) = lib_system_of lib (lib_node_of lib dst)
         then Inr (Gsl_receive (lib_node_of lib dst)
           (tx_time + lib_seconds lib (d_div (lib_distance lib (lib_node_of lib src) (lib_node_of lib dst)) (Fin 299792458))) dst p)
         else Inl (Aborted ''MPI distributed mode is currently not supported by the GSL channel.''))"
  by (auto simp: gsl_channel_transmit_start_def gsl_attach_all_link gsl_transmit_to_def gsl_get_delay_def
      gsl_attach_all_rest propagation_delay_def gsl_channel_init_def split: option.splits)

text \<open>
  A laser channel that two devices are attached to is a wire between them: what one end starts
  to transmit is received at the other after the transmission and the propagation time, the device
  list is the two in order, and a third device is refused by an assertion. Before the second device
  is attached, transmitting asserts.
\<close>

theorem laser_channel_wires:
  assumes "a \<noteq> b"
  shows "\<exists>ch\<^sub>1 ch. laser_channel_attach a laser_channel_init = Inr ch\<^sub>1 \<and> laser_channel_attach b ch\<^sub>1 = Inr ch \<and>
    laser_channel_transmit_start lib ch\<^sub>1 p a na t = Inl (Assert_failed ''m_link[0] is initialized'') \<and>
    laser_is_initialized ch = Inr True \<and>
    laser_get_device ch 0 = Inr (Some a) \<and> laser_get_device ch 1 = Inr (Some b) \<and>
    laser_channel_transmit_start lib ch p a nb t =
      Inr (Laser_receive (lib_node_of lib b) (t + propagation_delay lib (Fin 299792458) (lib_node_of lib a) nb) b p) \<and>
    laser_channel_transmit_start lib ch p b na t =
      Inr (Laser_receive (lib_node_of lib a) (t + propagation_delay lib (Fin 299792458) (lib_node_of lib b) na) a p) \<and>
    laser_channel_attach c ch = Inl (Assert_failed ''Only two devices permitted'')"
  using assms
  by (simp add: laser_channel_attach_def laser_channel_init_def laser_channel_transmit_start_def laser_get_device_def
      laser_is_initialized_def Let_def)

theorem laser_channel_wires_witness:
  "\<exists>ch\<^sub>1 ch. laser_channel_attach 3 laser_channel_init = Inr ch\<^sub>1 \<and> laser_channel_attach 4 ch\<^sub>1 = Inr ch \<and>
    laser_channel_transmit_start list_lib ch\<^sub>1 (33, 1) 3 0 1 = Inl (Assert_failed ''m_link[0] is initialized'') \<and>
    laser_is_initialized ch = Inr True \<and>
    laser_get_device ch 0 = Inr (Some 3) \<and> laser_get_device ch 1 = Inr (Some 4) \<and>
    laser_channel_transmit_start list_lib ch (33, 1) 3 4 1 =
      Inr (Laser_receive (lib_node_of list_lib 4) (1 + propagation_delay list_lib (Fin 299792458) (lib_node_of list_lib 3) 4) 4 (33, 1)) \<and>
    laser_channel_transmit_start list_lib ch (33, 1) 4 0 1 =
      Inr (Laser_receive (lib_node_of list_lib 3) (1 + propagation_delay list_lib (Fin 299792458) (lib_node_of list_lib 4) 0) 3 (33, 1)) \<and>
    laser_channel_attach 9 ch = Inl (Assert_failed ''Only two devices permitted'')"
  by (rule laser_channel_wires) simp

text \<open>
  C20. What one device puts on a frame the other takes off: a packet can be framed exactly for the
  protocols IPv4 and IPv6, and the device at the other end of a laser channel that receives the
  frame uncorrupted hands the packet up, under the same protocol number and with the address of the
  device that sent it; a GSL device hands it up with its own address in place of the sender's.
\<close>

theorem frame_roundtrip:
  "(\<exists>f. add_header p proto = Inr f \<and>
      gsl_receive None False g f = Inr [Rx_up p proto (gd_address g)] \<and>
      (\<forall>a ch\<^sub>1 ch. laser_channel_attach a laser_channel_init = Inr ch\<^sub>1 \<and> laser_channel_attach (ld_id l) ch\<^sub>1 = Inr ch \<and> a \<noteq> ld_id l \<longrightarrow>
        laser_receive address_of ch None False l f = Inr [Rx_up p proto (address_of a)]))
    \<longleftrightarrow> proto \<in> {0x0800, 0x86DD}"
  by (auto simp: add_header_def ether_to_ppp_def gsl_receive_def laser_receive_def process_header_def ppp_to_ether_def
      laser_channel_attach_def laser_channel_init_def laser_get_remote_def Let_def)

theorem frame_roundtrip_witness:
  "\<exists>f. add_header 4 0x0800 = Inr f \<and> gsl_receive None False ex_gsl f = Inr [Rx_up 4 0x0800 (gd_address ex_gsl)]"
  using frame_roundtrip [where p = 4 and proto = "0x0800" and g = ex_gsl and l = "laser_device_init 7 0 0" and address_of = "\<lambda>dev. dev"] by auto

lemma mac_hash_bytes:
  fixes a b c d e f :: "8 word"
  defines "h \<equiv> mac48_address_hash [a, b, c, d, e, f]"
  shows "ucast (drop_bit 24 h) = c" "ucast (drop_bit 16 h) = d" "ucast (drop_bit 8 h) = e" "ucast h = f"
  by (rule bit_word_eqI, auto simp: h_def mac48_address_hash_def bit_simps dest: bit_imp_le_length)+

text \<open>
  The hash of a MAC address is a function of its last four bytes and of nothing else, and
  distinguishes any two addresses that differ in them; the first two bytes are shifted out.
\<close>

theorem mac48_address_hash_last_four:
  "mac48_address_hash [a, b, c, d, e, f] = mac48_address_hash [a', b', c', d', e', f'] \<longleftrightarrow>
    [c, d, e, f] = [c', d', e', f']"
proof
  assume "mac48_address_hash [a, b, c, d, e, f] = mac48_address_hash [a', b', c', d', e', f']"
  then show "[c, d, e, f] = [c', d', e', f']"
    using mac_hash_bytes [of a b c d e f] mac_hash_bytes [of a' b' c' d' e' f'] by simp
next
  assume "[c, d, e, f] = [c', d', e', f']"
  then show "mac48_address_hash [a, b, c, d, e, f] = mac48_address_hash [a', b', c', d', e', f']"
    by (auto simp: mac48_address_hash_def intro!: bit_word_eqI simp: bit_simps)
qed

text \<open>A laser device as the topology sets it up, with or without utilization tracking.\<close>

definition laser_fresh :: "device_id \<Rightarrow> 'r \<Rightarrow> 'q \<Rightarrow> int option \<Rightarrow> laser_channel \<Rightarrow> ('p, 'q, 'r) laser_device res" where
  "laser_fresh dev bps q tracking ch = bindr (laser_attach ch (laser_device_init dev bps q)) (\<lambda>(d, ch').
     Inr (case tracking of None \<Rightarrow> d | Some I \<Rightarrow> d\<lparr>ld_util := enable_utilization_tracking I (ld_util d)\<rparr>))"

lemma laser_fresh_inv:
  assumes "fifo_queue lib" "lib_content lib q = []" "laser_fresh dev bps q tracking ch = Inr d"
  shows "laser_inv lib dev d" "laser_sent d = []" "ld_tx_machine_state d \<noteq> BUSY"
  using assms
  by (auto simp: laser_inv_def laser_fresh_def laser_attach_def laser_device_init_def res_simps laser_sent_def
      enable_utilization_tracking_def laser_util_init_def split: option.splits)

text \<open>
  C11. A laser device, from the moment it is attached with an empty queue, transmits every packet
  it has accepted exactly once and in order, each to the other end of its channel, with exactly one
  transmission outstanding when it is busy and none when it is not; while utilization tracking is
  enabled, the state it records is on exactly when the device is busy.
\<close>

theorem laser_transmits_in_order:
  assumes "fifo_queue lib" "lib_content lib q = []" "laser_fresh dev bps q tracking ch\<^sub>0 = Inr d\<^sub>0"
    "tx_reach (laser_offer lib ch) (laser_transmit_complete lib ch) laser_sent (laser_item ch dev) d\<^sub>0 d acc n"
  shows "laser_sent d @ laser_pending lib ch dev d = acc \<and>
    length (laser_sent d) = n + (if ld_tx_machine_state d = BUSY then 1 else 0) \<and>
    (lu_tracking_enabled (ld_util d) \<longrightarrow> (lu_current_state_is_on (ld_util d) \<longleftrightarrow> ld_tx_machine_state d = BUSY))"
proof -
  note f = laser_fresh_inv [OF assms(1,2,3)]
  show ?thesis using laser.reach_inv [OF assms(4) f(1,3,2)] by (simp add: laser_inv_def)
qed

definition ex_laser_channel :: laser_channel where
  "ex_laser_channel = (case foldr_res laser_channel_attach [5, 7] laser_channel_init of Inr ch \<Rightarrow> ch | Inl _ \<Rightarrow> laser_channel_init)"

definition ex_laser :: "(nat, nat frame list, nat) laser_device" where
  "ex_laser = (case laser_fresh 5 1 [] (Some 100) laser_channel_init of Inr d \<Rightarrow> d | Inl _ \<Rightarrow> laser_device_init 5 1 [])"

definition ex_laser_run :: "(nat, nat frame list, nat) laser_device" where
  "ex_laser_run = (case laser_offer list_lib ex_laser_channel (10, 11, 0, 2048) ex_laser of Inr (d, _) \<Rightarrow> d | Inl _ \<Rightarrow> ex_laser)"

lemma ex_laser_fresh: "laser_fresh 5 1 [] (Some 100) laser_channel_init = Inr ex_laser"
  by (simp add: ex_laser_def laser_fresh_def laser_attach_def laser_channel_attach_def laser_channel_init_def
      laser_device_init_def Let_def)

lemma ex_laser_offer: "laser_offer list_lib ex_laser_channel (10, 11, 0, 2048) ex_laser = Inr (ex_laser_run, True)"
  by (simp add: ex_laser_run_def ex_laser_def ex_laser_channel_def laser_fresh_def laser_attach_def laser_channel_attach_def laser_channel_init_def
      laser_device_init_def Let_def laser_offer_def laser_send_def list_lib_def add_header_def ether_to_ppp_def
      laser_transmit_start_def laser_track_utilization_def enable_utilization_tracking_def laser_util_init_def
      laser_util_loop.simps laser_channel_transmit_start_def)

lemma ex_laser_reach:
  "tx_reach (laser_offer list_lib ex_laser_channel) (laser_transmit_complete list_lib ex_laser_channel) laser_sent
    (laser_item ex_laser_channel 5) ex_laser ex_laser_run
    (if True then [] @ [laser_item ex_laser_channel 5 (10, 11, 0, 2048)] else []) 0"
proof -
  have "tx_reach (laser_offer list_lib ex_laser_channel) (laser_transmit_complete list_lib ex_laser_channel) laser_sent
    (laser_item ex_laser_channel 5) ex_laser ex_laser [] 0"
    by (rule tx_start)
  then show ?thesis using ex_laser_offer by (rule tx_offer)
qed

lemma ex_laser_tracking: "lu_tracking_enabled (ld_util ex_laser_run)"
  by (simp add: ex_laser_run_def ex_laser_def ex_laser_channel_def laser_fresh_def laser_attach_def laser_channel_attach_def laser_channel_init_def
      laser_device_init_def Let_def laser_offer_def laser_send_def list_lib_def add_header_def ether_to_ppp_def
      laser_transmit_start_def laser_track_utilization_def enable_utilization_tracking_def laser_util_init_def
      laser_util_loop.simps laser_channel_transmit_start_def)

theorem laser_transmits_in_order_witness:
  "laser_sent ex_laser_run @ laser_pending list_lib ex_laser_channel 5 ex_laser_run =
     [laser_item ex_laser_channel 5 (10, 11, 0, 2048)] \<and>
   (lu_current_state_is_on (ld_util ex_laser_run) \<longleftrightarrow> ld_tx_machine_state ex_laser_run = BUSY)"
  using laser_transmits_in_order [OF list_lib_fifo _ ex_laser_fresh ex_laser_reach] ex_laser_tracking
  by (simp add: list_lib_def)

end
