(* ===== verification/Satnet_Topology.thy ===== *)
theory Satnet_Topology
  imports Single_Forward Net_Device "HOL-Library.Countable"
begin

text \<open>
  satellite-network: topology-satellite-network.cc with the helpers it installs devices with,
  gsl-helper.cc and point-to-point-laser-helper.cc, and ground-station.cc. Reading the files of a
  satellite network creates the nodes, one laser device pair per ISL, the GSL devices on one shared
  channel, their addresses and the ARP cache. The theorems relate the result to what the single
  forward arbiter assumes of its network (\<open>wf_satnet\<close>) and to the GSL channel: the address the
  arbiter gives as a gateway leads, over ARP and the channel, to the interface it was taken from.

  From ns-3 come, as parameters, the addresses its allocators hand out. Positions and data rates
  are kept as read; the orbit propagation behind a satellite's position is not modelled.
\<close>

section \<open>What ns-3 hands out\<close>

text \<open>
  The n-th MAC address of \<open>Mac48Address::Allocate\<close>, and the address the IPv4 helper gives to host
  \<open>h\<close> of the network it has moved on to after \<open>n\<close> calls of \<open>NewNetwork\<close>; and what
  \<open>MpiInterface::IsEnabled\<close> answers.
\<close>

record allocators =
  al_mac :: "nat \<Rightarrow> mac"
  al_ip :: "nat \<Rightarrow> nat \<Rightarrow> ip"
  al_mpi_enabled :: bool

definition unique_addresses :: "allocators \<Rightarrow> bool" where
  "unique_addresses al \<longleftrightarrow> (\<forall>m n. al_mac al m = al_mac al n \<longrightarrow> m = n) \<and>
     (\<forall>m h n k. al_ip al m h = al_ip al n k \<longrightarrow> m = n \<and> h = k)"

section \<open>The network under construction\<close>

text \<open>
  A device is its node, its index on the node (the loop-back device is 0), its address and, for a
  laser device, the number of its channel. The interfaces are the devices that have been given an
  IPv4 address, in the order of the assignments.
\<close>

record built_dev =
  bd_node :: nat
  bd_index :: nat
  bd_mac :: mac
  bd_laser :: "nat option"

record built_net =
  bn_devices :: "built_dev list"
  bn_lasers :: "laser_channel list"
  bn_gsl :: gsl_channel
  bn_ifs :: "(nat \<times> ip) list"
  bn_networks :: nat

definition built_net_init :: built_net where
  "built_net_init = \<lparr>bn_devices = [], bn_lasers = [], bn_gsl = gsl_channel_init, bn_ifs = [], bn_networks = 0\<rparr>"

text \<open>A new device with the next MAC address, added to its node.\<close>

definition add_device :: "allocators \<Rightarrow> nat \<Rightarrow> nat option \<Rightarrow> built_net \<Rightarrow> built_net" where
  "add_device al node laser net = net\<lparr>bn_devices := bn_devices net @
     [\<lparr>bd_node = node, bd_index = 1 + length (filter (\<lambda>d. bd_node d = node) (bn_devices net)),
       bd_mac = al_mac al (length (bn_devices net)), bd_laser = laser\<rparr>]\<rparr>"

section \<open>PointToPointLaserHelper and GSLHelper\<close>

definition laser_install :: "allocators \<Rightarrow> nat \<Rightarrow> nat \<Rightarrow> built_net \<Rightarrow> built_net res" where
  "laser_install al a b net =
     (let c = length (bn_lasers net); devA = length (bn_devices net); devB = devA + 1;
          net2 = add_device al b (Some c) (add_device al a (Some c) net)
      in bindr (checkr (\<not> al_mpi_enabled al)
           (Aborted ''Distributed mode is not currently supported for point-to-point lasers.'')) (\<lambda>_.
         bindr (laser_channel_attach devA laser_channel_init) (\<lambda>ch1.
         bindr (laser_channel_attach devB ch1) (\<lambda>ch2.
           Inr (net2\<lparr>bn_lasers := bn_lasers net2 @ [ch2]\<rparr>)))))"

definition gsl_install :: "allocators \<Rightarrow> nat \<Rightarrow> built_net \<Rightarrow> built_net" where
  "gsl_install al node net =
     (let dev = length (bn_devices net); net1 = add_device al node None net
      in net1\<lparr>bn_gsl := gsl_channel_attach dev (al_mac al dev) (bn_gsl net1)\<rparr>)"

text \<open>
  The number of interfaces of a node is a 32-bit signed integer that the loop compares as a
  \<open>size_t\<close>. The satellites come first, then the ground stations.
\<close>

definition gsl_install_node :: "allocators \<Rightarrow> (int \<times> double) list \<Rightarrow> nat \<Rightarrow> built_net \<Rightarrow> built_net res" where
  "gsl_install_node al node_gsl_if_info node net =
     (if node < length node_gsl_if_info
      then Inr (((gsl_install al node) ^^ nat (to_uint64 (fst (node_gsl_if_info ! node)))) net)
      else Inl (Undefined ''vector read out of range''))"

definition gsl_install_all :: "allocators \<Rightarrow> nat \<Rightarrow> nat \<Rightarrow> (int \<times> double) list \<Rightarrow> built_net \<Rightarrow> built_net res" where
  "gsl_install_all al n_satellites n_ground_stations node_gsl_if_info net =
     bindr (foldr_res (gsl_install_node al node_gsl_if_info) [0..<n_satellites] net)
       (foldr_res (\<lambda>gid. gsl_install_node al node_gsl_if_info (n_satellites + gid)) [0..<n_ground_stations])"

text \<open>The IPv4 helper: the devices of a container get the hosts of the current network in order.\<close>

definition assign_addresses :: "allocators \<Rightarrow> nat list \<Rightarrow> built_net \<Rightarrow> built_net" where
  "assign_addresses al devs net = net\<lparr>bn_ifs := bn_ifs net @
     map (\<lambda>h. (devs ! h, al_ip al (bn_networks net) (h + 1))) [0..<length devs],
     bn_networks := bn_networks net + 1\<rparr>"

section \<open>GroundStation and the topology's state\<close>

record ground_station =
  gs_gid :: int
  gs_name :: string
  gs_latitude :: double
  gs_longitude :: double
  gs_elevation :: double
  gs_position :: "double \<times> double \<times> double"

record satnet_topology =
  st_satellites :: "(string \<times> string \<times> string) list"
  st_ground_stations :: "ground_station list"
  st_endpoints :: "int list"
  st_net :: built_net
  st_isl_devices :: "nat list"
  st_isl_from_to :: "(int \<times> int) list"
  st_isl_data_rate :: double
  st_gsl_data_rate :: double
  st_isl_max_queue :: int
  st_gsl_max_queue :: int
  st_tracking :: "int option"
  st_arp :: "ip \<Rightarrow> mac option"

text \<open>A file that an input stream opens: its lines, and whether the last one ends in a newline.\<close>

definition stream_lines :: "fsys \<Rightarrow> string \<Rightarrow> string \<Rightarrow> (string list \<times> bool) res" where
  "stream_lines fs dir name =
     (case open_lines fs (dir @ ''/'' @ name) of
        Inl _ \<Rightarrow> Inl (Aborted (''File '' @ name @ '' could not be opened''))
      | Inr ls \<Rightarrow> Inr (ls, (case fs_files fs (dir @ ''/'' @ name) of
          Some c \<Rightarrow> c \<noteq> [] \<and> last c = newline | None \<Rightarrow> False)))"

text \<open>
  The loop that reads three lines per satellite. At the end of the file \<open>getline\<close> empties the string
  when the stream is still good, that is after a newline, and leaves it alone when it has failed
  before, so a line that is missing may be that of the previous satellite.
\<close>

fun read_tles :: "bool \<Rightarrow> string \<Rightarrow> string \<Rightarrow> string list \<Rightarrow> (string \<times> string \<times> string) list" where
  "read_tles nl tle1 tle2 (name # l1 # l2 # ls) = (name, l1, l2) # read_tles nl l1 l2 ls"
| "read_tles nl tle1 tle2 [name, l1] = [(name, l1, if nl then [] else tle2)]"
| "read_tles nl tle1 tle2 [name] = [(name, if nl then [] else tle1, tle2)]"
| "read_tles nl tle1 tle2 [] = []"

definition tle_sat_info_width :: nat where
  "tle_sat_info_width = 69"

definition add_satellite :: "nat \<Rightarrow> string \<times> string \<times> string \<Rightarrow> (string \<times> string \<times> string) list \<Rightarrow> (string \<times> string \<times> string) list res" where
  "add_satellite n sat sats = (case sat of (name, tle1, tle2) \<Rightarrow>
     bindr (checkr (length tle1 = tle_sat_info_width \<and> length tle2 = tle_sat_info_width)
       (Assert_failed ''Two-Line Element info lines must be of length'')) (\<lambda>_.
     bindr (checkr (length sats < n) (Assert_failed ''node out of range'')) (\<lambda>_.
       Inr (sats @ [sat]))))"

text \<open>The product is computed in 64 signed bits, the number of nodes created in 32 unsigned bits.\<close>

definition read_satellites :: "fsys \<Rightarrow> string \<Rightarrow> (string \<times> string \<times> string) list res" where
  "read_satellites fs dir =
     bindr (stream_lines fs dir ''tles.txt'') (\<lambda>(ls, nl).
     bindr (split_string_n (case ls of [] \<Rightarrow> [] | l # _ \<Rightarrow> l) '' '' 2) (\<lambda>res.
     bindr (parse_positive_int64 (res ! 0)) (\<lambda>num_orbits.
     bindr (parse_positive_int64 (res ! 1)) (\<lambda>satellites_per_orbit.
     bindr (checkr (in_int64 (num_orbits * satellites_per_orbit)) (Undefined ''signed overflow'')) (\<lambda>_.
     bindr (foldr_res (add_satellite (nat (to_uint32 (num_orbits * satellites_per_orbit)))) (read_tles nl [] [] (tl ls)) []) (\<lambda>sats.
       if int (length sats) \<noteq> num_orbits * satellites_per_orbit
       then Inl (Runtime_error ''Number of satellites defined in the TLEs does not match'')
       else Inr sats))))))"

definition add_ground_station :: "string \<Rightarrow> ground_station list \<Rightarrow> ground_station list res" where
  "add_ground_station line gss =
     bindr (split_string_n line '','' 8) (\<lambda>res.
     bindr (parse_positive_int64 (res ! 0)) (\<lambda>gid.
     bindr (parse_double (res ! 2)) (\<lambda>latitude.
     bindr (parse_double (res ! 3)) (\<lambda>longitude.
     bindr (parse_double (res ! 4)) (\<lambda>elevation.
     bindr (parse_double (res ! 5)) (\<lambda>x.
     bindr (parse_double (res ! 6)) (\<lambda>y.
     bindr (parse_double (res ! 7)) (\<lambda>z.
       if int (length gss) + 1 \<noteq> to_uint32 (to_uint32 gid + 1)
       then Inl (Runtime_error ''GID is not incremented each line'')
       else Inr (gss @ [\<lparr>gs_gid = to_uint32 gid, gs_name = res ! 1, gs_latitude = latitude, gs_longitude = longitude,
              gs_elevation = elevation, gs_position = (x, y, z)\<rparr>])))))))))"

definition read_ground_stations :: "fsys \<Rightarrow> string \<Rightarrow> ground_station list res" where
  "read_ground_stations fs dir =
     bindr (stream_lines fs dir ''ground_stations.txt'') (\<lambda>(ls, nl). foldr_res add_ground_station ls [])"

text \<open>\<open>vector::at\<close> of a 32-bit identifier.\<close>

definition satellite_at :: "nat \<Rightarrow> int \<Rightarrow> nat res" where
  "satellite_at n sat_id = (if 0 \<le> sat_id \<and> nat sat_id < n then Inr (nat sat_id) else Inl (Out_of_range ''vector::at''))"

record isl_state =
  is_net :: built_net
  is_devices :: "nat list"
  is_from_to :: "(int \<times> int) list"

definition read_isl :: "allocators \<Rightarrow> nat \<Rightarrow> int option \<Rightarrow> string \<Rightarrow> isl_state \<Rightarrow> isl_state res" where
  "read_isl al n_satellites tracking line s =
     bindr (split_string_n line '' '' 2) (\<lambda>res.
     bindr (parse_positive_int64 (res ! 0)) (\<lambda>v0.
     bindr (parse_positive_int64 (res ! 1)) (\<lambda>v1.
     let sat0_id = to_int32 v0; sat1_id = to_int32 v1 in
     bindr (satellite_at n_satellites sat0_id) (\<lambda>a.
     bindr (satellite_at n_satellites sat1_id) (\<lambda>b.
     let dev = length (bn_devices (is_net s)) in
     bindr (laser_install al a b (is_net s)) (\<lambda>net.
       let s1 = s\<lparr>is_net := assign_addresses al [dev, dev + 1] net\<rparr>
       in Inr (if tracking \<noteq> None
               then s1\<lparr>is_devices := is_devices s1 @ [dev, dev + 1],
                       is_from_to := is_from_to s1 @ [(sat0_id, sat1_id), (sat1_id, sat0_id)]\<rparr>
               else s1)))))))"

definition read_isls :: "allocators \<Rightarrow> fsys \<Rightarrow> string \<Rightarrow> nat \<Rightarrow> int option \<Rightarrow> built_net \<Rightarrow> isl_state res" where
  "read_isls al fs dir n_satellites tracking net =
     bindr (stream_lines fs dir ''isls.txt'') (\<lambda>(ls, nl).
       foldr_res (read_isl al n_satellites tracking) ls \<lparr>is_net = net, is_devices = [], is_from_to = []\<rparr>)"

text \<open>The interfaces file: one line per node, in order; the total is kept in 32 unsigned bits.\<close>

definition read_gsl_info_line :: "string \<Rightarrow> (int \<times> double) list \<times> int \<Rightarrow> ((int \<times> double) list \<times> int) res" where
  "read_gsl_info_line line s = (case s of (info, num) \<Rightarrow>
     bindr (split_string_n line '','' 3) (\<lambda>comma_split.
     bindr (parse_positive_int64 (comma_split ! 0)) (\<lambda>node_id.
     bindr (parse_positive_int64 (comma_split ! 1)) (\<lambda>num_ifs.
     bindr (parse_positive_double (comma_split ! 2)) (\<lambda>agg_bandwidth.
       if node_id \<noteq> int (length info)
       then Inl (Runtime_error ''Node id must be incremented each line in GSL interfaces info'')
       else Inr (info @ [(to_int32 num_ifs, agg_bandwidth)], to_uint32 (num + num_ifs)))))))"

definition create_gsls :: "allocators \<Rightarrow> fsys \<Rightarrow> string \<Rightarrow> nat \<Rightarrow> nat \<Rightarrow> built_net \<Rightarrow> built_net res" where
  "create_gsls al fs dir n_satellites n_ground_stations net =
     (let filename = dir @ ''/gsl_interfaces_info.txt'' in
      if \<not> file_exists fs filename
      then Inl (Runtime_error (''File '' @ filename @ '' does not exist.''))
      else bindr (open_lines fs filename) (\<lambda>ls.
           bindr (foldr_res read_gsl_info_line ls ([], 0)) (\<lambda>(info, num).
           bindr (gsl_install_all al n_satellites n_ground_stations info net) (\<lambda>net1.
           let devices = [length (bn_devices net)..<length (bn_devices net1)];
               net2 = fold (\<lambda>dev. assign_addresses al [dev]) devices net1
           in bindr (checkr (num = to_uint32 (int (length devices)))
                (Aborted ''Not the expected amount of interfaces has been created.'')) (\<lambda>_. Inr net2)))))"

section \<open>Interfaces of a node and the ARP cache\<close>

definition node_ifs :: "built_net \<Rightarrow> nat \<Rightarrow> (nat \<times> ip) list" where
  "node_ifs net i = filter (\<lambda>(d, _). bd_node (bn_devices net ! d) = i) (bn_ifs net)"

text \<open>\<open>ArpCache::Add\<close> asserts that the address has no entry yet.\<close>

definition arp_add :: "built_net \<Rightarrow> nat \<times> ip \<Rightarrow> (ip \<Rightarrow> mac option) \<Rightarrow> (ip \<Rightarrow> mac option) res" where
  "arp_add net e arp = (case e of (d, addr) \<Rightarrow>
     bindr (checkr (arp addr = None) (Assert_failed ''address already in the ARP cache'')) (\<lambda>_.
       Inr (arp(addr \<mapsto> bd_mac (bn_devices net ! d)))))"

definition populate_arp_caches :: "nat \<Rightarrow> built_net \<Rightarrow> (ip \<Rightarrow> mac option) res" where
  "populate_arp_caches n net =
     foldr_res (\<lambda>i arp. foldr_res (arp_add net) (node_ifs net i) arp) [0..<n] Map.empty"

section \<open>TopologySatelliteNetwork\<close>

definition build_satnet :: "allocators \<Rightarrow> dynamic_config \<Rightarrow> satnet_topology res" where
  "build_satnet al c =
     bindr (get_param_or_fail ''satellite_network_dir'' (dc_config c)) (\<lambda>d.
     let dir = dc_run_dir c @ ''/'' @ d in
     bindr (get_param_or_fail ''satellite_network_routes_dir'' (dc_config c)) (\<lambda>_.
     bindr (parse_boolean (get_param_or_default ''satellite_network_force_static'' ''false'' (dc_config c))) (\<lambda>_.
     bindr (read_satellites (dc_fs c) dir) (\<lambda>sats.
     bindr (read_ground_stations (dc_fs c) dir) (\<lambda>gss.
     let endpoints = sset_of (map (\<lambda>i. to_uint32 (int (length sats) + int i)) [0..<length gss]) in
     bindr (bindr (get_param_or_fail ''isl_data_rate_megabit_per_s'' (dc_config c)) parse_positive_double) (\<lambda>isl_rate.
     bindr (bindr (get_param_or_fail ''gsl_data_rate_megabit_per_s'' (dc_config c)) parse_positive_double) (\<lambda>gsl_rate.
     bindr (bindr (get_param_or_fail ''isl_max_queue_size_pkts'' (dc_config c)) parse_positive_int64) (\<lambda>isl_queue.
     bindr (bindr (get_param_or_fail ''gsl_max_queue_size_pkts'' (dc_config c)) parse_positive_int64) (\<lambda>gsl_queue.
     bindr (bindr (get_param_or_fail ''enable_isl_utilization_tracking'' (dc_config c)) parse_boolean) (\<lambda>track.
     bindr (if track
            then bindr (bindr (get_param_or_fail ''isl_utilization_tracking_interval_ns'' (dc_config c)) parse_positive_int64) (\<lambda>v. Inr (Some v))
            else Inr None) (\<lambda>tracking.
     bindr (read_isls al (dc_fs c) dir (length sats) tracking built_net_init) (\<lambda>isl.
     bindr (create_gsls al (dc_fs c) dir (length sats) (length gss) (is_net isl)) (\<lambda>net.
     bindr (populate_arp_caches (length sats + length gss) net) (\<lambda>arp.
       Inr \<lparr>st_satellites = sats, st_ground_stations = gss, st_endpoints = endpoints, st_net = net,
         st_isl_devices = is_devices isl, st_isl_from_to = is_from_to isl, st_isl_data_rate = isl_rate,
         st_gsl_data_rate = gsl_rate, st_isl_max_queue = isl_queue, st_gsl_max_queue = gsl_queue,
         st_tracking = tracking, st_arp = arp\<rparr>))))))))))))))"

definition get_num_satellites :: "satnet_topology \<Rightarrow> nat" where
  "get_num_satellites t = length (st_satellites t)"

definition get_num_nodes :: "satnet_topology \<Rightarrow> nat" where
  "get_num_nodes t = length (st_satellites t) + length (st_ground_stations t)"

definition ensure_valid_node_id :: "satnet_topology \<Rightarrow> int \<Rightarrow> unit res" where
  "ensure_valid_node_id t node_id =
     (if node_id < 0 \<or> node_id \<ge> int (length (st_satellites t) + length (st_ground_stations t))
      then Inl (Runtime_error ''Invalid node identifier.'') else Inr ())"

definition is_satellite_id :: "satnet_topology \<Rightarrow> int \<Rightarrow> bool res" where
  "is_satellite_id t node_id = bindr (ensure_valid_node_id t node_id) (\<lambda>_. Inr (node_id < int (length (st_satellites t))))"

definition is_ground_station_id :: "satnet_topology \<Rightarrow> int \<Rightarrow> bool res" where
  "is_ground_station_id t node_id = bindr (ensure_valid_node_id t node_id) (\<lambda>_.
     Inr (node_id \<ge> int (length (st_satellites t)) \<and> node_id \<noteq> 0))"

definition get_satellite :: "satnet_topology \<Rightarrow> int \<Rightarrow> (string \<times> string \<times> string) res" where
  "get_satellite t satellite_id =
     (if satellite_id \<ge> int (length (st_satellites t))
      then Inl (Runtime_error ''Cannot retrieve satellite with an invalid satellite ID'')
      else Inr (st_satellites t ! nat satellite_id))"

definition node_to_ground_station_id :: "satnet_topology \<Rightarrow> int \<Rightarrow> int res" where
  "node_to_ground_station_id t node_id = bindr (ensure_valid_node_id t node_id) (\<lambda>_.
     Inr (to_uint32 (node_id - int (get_num_satellites t))))"

definition is_valid_endpoint :: "satnet_topology \<Rightarrow> int \<Rightarrow> bool" where
  "is_valid_endpoint t node_id \<longleftrightarrow> node_id \<in> set (st_endpoints t)"

text \<open>
  The rows of isl_utilization.csv: \<open>util_of\<close> gives the bookkeeping of a laser device at the end of
  the simulation.
\<close>

definition collect_utilization_statistics ::
  "(nat \<Rightarrow> laser_util) \<Rightarrow> int \<Rightarrow> satnet_topology \<Rightarrow> (int \<times> int \<times> int \<times> int \<times> double) list res" where
  "collect_utilization_statistics util_of now t = (case st_tracking t of None \<Rightarrow> Inr []
     | Some I \<Rightarrow> bindr (mapr (\<lambda>i.
         bindr (laser_finalize_utilization now (util_of (st_isl_devices t ! i))) (\<lambda>u.
           case st_isl_from_to t ! i of (src, dst) \<Rightarrow>
             Inr (map (\<lambda>(a, b, v). (src, dst, a, b, v)) (isl_utilization_rows I 0 0 (lu_utilization u)))))
           [0..<length (st_isl_devices t)]) (\<lambda>rows. Inr (concat rows)))"

section \<open>The network the arbiters run in\<close>

text \<open>The device behind an interface as the reader of the forwarding state sees it.\<close>

definition dev_view :: "built_net \<Rightarrow> nat \<Rightarrow> net_dev" where
  "dev_view net d = (case bd_laser (bn_devices net ! d) of None \<Rightarrow> Gsl_device
     | Some c \<Rightarrow> (case (wl_src (lc_link0 (bn_lasers net ! c)), wl_src (lc_link1 (bn_lasers net ! c))) of
         (Some a, Some b) \<Rightarrow> Isl_device (bd_node (bn_devices net ! a), bd_index (bn_devices net ! a))
           (bd_node (bn_devices net ! b), bd_index (bn_devices net ! b))
       | _ \<Rightarrow> Other_device))"

text \<open>127.0.0.1 on the loop-back device.\<close>

definition satnet_view :: "nat \<Rightarrow> built_net \<Rightarrow> satnet" where
  "satnet_view n net = map (\<lambda>i. \<lparr>sn_devices = Other_device # map (dev_view net \<circ> fst) (node_ifs net i),
     sn_addresses = 2130706433 # map snd (node_ifs net i)\<rparr>) [0..<n]"

lemma mac_unique: "unique_addresses al \<Longrightarrow> al_mac al m = al_mac al n \<longleftrightarrow> m = n"
  unfolding unique_addresses_def by blast

lemma ip_unique: "unique_addresses al \<Longrightarrow> al_ip al m h = al_ip al n k \<longleftrightarrow> m = n \<and> h = k"
  unfolding unique_addresses_def by blast

section \<open>The invariant of the construction\<close>

text \<open>
  A device is on a node of the network, carries the MAC address of its number and the index after
  those its node already had; a GSL device is known to the channel under its address, a laser
  device is one of the two consecutive devices on its channel.
\<close>

definition laser_pair :: "nat \<Rightarrow> laser_channel \<Rightarrow> bool" where
  "laser_pair a ch \<longleftrightarrow> wl_src (lc_link0 ch) = Some a \<and> wl_src (lc_link1 ch) = Some (Suc a) \<and>
     wl_dst (lc_link0 ch) = Some (Suc a) \<and> wl_dst (lc_link1 ch) = Some a"

definition dev_ok :: "allocators \<Rightarrow> nat \<Rightarrow> built_net \<Rightarrow> nat \<Rightarrow> bool" where
  "dev_ok al n net d \<longleftrightarrow> (let devs = bn_devices net; dev = devs ! d in
     bd_node dev < n \<and> bd_mac dev = al_mac al d \<and>
     bd_index dev = 1 + length (filter (\<lambda>e. bd_node e = bd_node dev) (take d devs)) \<and>
     (case bd_laser dev of
        None \<Rightarrow> gc_link (bn_gsl net) (al_mac al d) = Some d
      | Some c \<Rightarrow> c < length (bn_lasers net) \<and>
          (\<exists>a. laser_pair a (bn_lasers net ! c) \<and>
            Suc a < length devs \<and> bd_laser (devs ! a) = Some c \<and> bd_laser (devs ! Suc a) = Some c \<and> (d = a \<or> d = Suc a))))"

text \<open>The interfaces are the first devices, in order, each with an address of its own.\<close>

definition ifs_ok :: "allocators \<Rightarrow> built_net \<Rightarrow> bool" where
  "ifs_ok al net \<longleftrightarrow> map fst (bn_ifs net) = [0..<length (bn_ifs net)] \<and> distinct (map snd (bn_ifs net)) \<and>
     (\<forall>addr \<in> snd ` set (bn_ifs net). \<exists>m h. m < bn_networks net \<and> addr = al_ip al m h)"

definition net_ok :: "allocators \<Rightarrow> nat \<Rightarrow> built_net \<Rightarrow> bool" where
  "net_ok al n net \<longleftrightarrow> (\<forall>d < length (bn_devices net). dev_ok al n net d) \<and> ifs_ok al net"

lemma dev_ok_mono:
  assumes "dev_ok al n net d" "d < length (bn_devices net)"
    "bn_devices net' = bn_devices net @ ds" "bn_lasers net' = bn_lasers net @ ls"
    "gc_link (bn_gsl net') (al_mac al d) = gc_link (bn_gsl net) (al_mac al d)"
  shows "dev_ok al n net' d"
  using assms by (auto simp: dev_ok_def Let_def nth_append split: option.splits)

lemma dev_ok_cong:
  "bn_devices a = bn_devices b \<Longrightarrow> bn_lasers a = bn_lasers b \<Longrightarrow> bn_gsl a = bn_gsl b \<Longrightarrow> dev_ok al n a d = dev_ok al n b d"
  by (simp add: dev_ok_def Let_def cong: option.case_cong)

lemma net_ok_init: "net_ok al n built_net_init"
  by (simp add: net_ok_def ifs_ok_def built_net_init_def)

lemma less_Suc_length_cases: "d < length (xs @ [x]) \<Longrightarrow> d < length xs \<or> d = length xs"
  by auto

lemma gsl_install_ok:
  assumes "net_ok al n net" "node < n" "unique_addresses al"
  shows "net_ok al n (gsl_install al node net)" "bn_ifs (gsl_install al node net) = bn_ifs net"
    "length (bn_devices (gsl_install al node net)) = Suc (length (bn_devices net))"
    "bn_networks (gsl_install al node net) = bn_networks net"
    "\<exists>ds. bn_devices (gsl_install al node net) = bn_devices net @ ds"
proof -
  let ?net = "gsl_install al node net"
  have devs: "bn_devices ?net = bn_devices net @ [\<lparr>bd_node = node,
      bd_index = 1 + length (filter (\<lambda>d. bd_node d = node) (bn_devices net)),
      bd_mac = al_mac al (length (bn_devices net)), bd_laser = None\<rparr>]"
    and rest: "bn_lasers ?net = bn_lasers net" "bn_ifs ?net = bn_ifs net" "bn_networks ?net = bn_networks net"
      "gc_link (bn_gsl ?net) = (gc_link (bn_gsl net))(al_mac al (length (bn_devices net)) \<mapsto> length (bn_devices net))"
    by (simp_all add: gsl_install_def add_device_def gsl_channel_attach_def Let_def)
  have "dev_ok al n ?net d" if "d < length (bn_devices ?net)" for d
  proof (cases "d = length (bn_devices net)")
    case True
    then show ?thesis using assms(2) by (simp add: dev_ok_def Let_def devs rest)
  next
    case False
    then have d: "d < length (bn_devices net)" using that by (simp add: devs)
    then have "al_mac al d \<noteq> al_mac al (length (bn_devices net))"
      by (simp add: mac_unique [OF assms(3)])
    moreover have "dev_ok al n net d" using d assms(1) by (simp add: net_ok_def)
    ultimately show ?thesis
      using d by (intro dev_ok_mono [OF _ d devs, where ls = "[]"]) (simp_all add: rest)
  qed
  then show "net_ok al n ?net" using assms(1) by (simp add: net_ok_def ifs_ok_def rest)
qed (simp_all add: gsl_install_def add_device_def Let_def)

lemma laser_install_devices:
  assumes "laser_install al a b net = Inr net'"
  shows "\<exists>ch. bn_devices net' = bn_devices net @
      [\<lparr>bd_node = a, bd_index = 1 + length (filter (\<lambda>d. bd_node d = a) (bn_devices net)),
        bd_mac = al_mac al (length (bn_devices net)), bd_laser = Some (length (bn_lasers net))\<rparr>,
       \<lparr>bd_node = b, bd_index = 1 + length (filter (\<lambda>d. bd_node d = b) (bn_devices net)) + (if a = b then 1 else 0),
        bd_mac = al_mac al (Suc (length (bn_devices net))), bd_laser = Some (length (bn_lasers net))\<rparr>] \<and>
    bn_lasers net' = bn_lasers net @ [ch] \<and> laser_pair (length (bn_devices net)) ch \<and>
    bn_gsl net' = bn_gsl net \<and> bn_ifs net' = bn_ifs net \<and> bn_networks net' = bn_networks net"
  using assms
  by (auto simp: laser_install_def add_device_def laser_channel_attach_def laser_channel_init_def Let_def laser_pair_def res_simps)

lemma laser_install_ok:
  assumes "net_ok al n net" "a < n" "b < n" "laser_install al a b net = Inr net'"
  shows "net_ok al n net'" "bn_ifs net' = bn_ifs net" "length (bn_devices net') = length (bn_devices net) + 2"
    "bn_networks net' = bn_networks net"
proof -
  obtain ch where dev: "bn_devices net' = bn_devices net @
      [\<lparr>bd_node = a, bd_index = 1 + length (filter (\<lambda>d. bd_node d = a) (bn_devices net)),
        bd_mac = al_mac al (length (bn_devices net)), bd_laser = Some (length (bn_lasers net))\<rparr>,
       \<lparr>bd_node = b, bd_index = 1 + length (filter (\<lambda>d. bd_node d = b) (bn_devices net)) + (if a = b then 1 else 0),
        bd_mac = al_mac al (Suc (length (bn_devices net))), bd_laser = Some (length (bn_lasers net))\<rparr>]"
    and las: "bn_lasers net' = bn_lasers net @ [ch]" "laser_pair (length (bn_devices net)) ch"
    and rest: "bn_gsl net' = bn_gsl net" "bn_ifs net' = bn_ifs net" "bn_networks net' = bn_networks net"
    using laser_install_devices [OF assms(4)] by (elim exE conjE) (rule that)
  have "dev_ok al n net' d" if "d < length (bn_devices net')" for d
  proof (cases "d < length (bn_devices net)")
    case True
    moreover have "dev_ok al n net d" using True assms(1) by (simp add: net_ok_def)
    ultimately show ?thesis by (intro dev_ok_mono [OF _ True dev las(1)]) (simp_all add: rest)
  next
    case False
    with that have d: "d = length (bn_devices net) \<or> d = Suc (length (bn_devices net))" by (auto simp: dev)
    let ?c = "length (bn_lasers net)"
    have "\<exists>x. laser_pair x (bn_lasers net' ! ?c) \<and> Suc x < length (bn_devices net') \<and>
        bd_laser (bn_devices net' ! x) = Some ?c \<and> bd_laser (bn_devices net' ! Suc x) = Some ?c \<and> (d = x \<or> d = Suc x)"
      by (rule exI [of _ "length (bn_devices net)"]) (use d in \<open>simp add: dev las nth_append\<close>)
    moreover have "bd_laser (bn_devices net' ! d) = Some ?c" using d by (auto simp: dev nth_append)
    moreover have "bd_node (bn_devices net' ! d) < n" "bd_mac (bn_devices net' ! d) = al_mac al d"
      "bd_index (bn_devices net' ! d) =
        1 + length (filter (\<lambda>e. bd_node e = bd_node (bn_devices net' ! d)) (take d (bn_devices net')))"
      using d assms(2,3) by (auto simp: dev nth_append)
    ultimately show ?thesis by (simp add: dev_ok_def Let_def las)
  qed
  then show "net_ok al n net'" using assms(1) by (simp add: net_ok_def ifs_ok_def rest)
  show "bn_ifs net' = bn_ifs net" "bn_networks net' = bn_networks net" by (fact rest)+
  show "length (bn_devices net') = length (bn_devices net) + 2" by (simp add: dev)
qed

lemma distinct_append_map:
  "distinct ys \<Longrightarrow> (\<And>h. f h \<notin> set ys) \<Longrightarrow> inj f \<Longrightarrow> distinct (ys @ map f [0..<k])"
  by (auto simp: distinct_map inj_on_def)

lemma assign_addresses_ok:
  assumes "net_ok al n net" "unique_addresses al" "devs = [length (bn_ifs net)..<k]" "length (bn_ifs net) \<le> k"
  shows "net_ok al n (assign_addresses al devs net)" "length (bn_ifs (assign_addresses al devs net)) = k"
    "bn_devices (assign_addresses al devs net) = bn_devices net"
proof -
  let ?net = "assign_addresses al devs net"
  have new: "bn_ifs ?net = bn_ifs net @ map (\<lambda>h. (devs ! h, al_ip al (bn_networks net) (h + 1))) [0..<length devs]"
    by (simp add: assign_addresses_def)
  note u = ip_unique [OF assms(2)]
  have len: "length (bn_ifs ?net) = length (bn_ifs net) + length devs" by (simp add: new)
  have "map fst (bn_ifs ?net) = [0..<length (bn_ifs ?net)]"
  proof -
    have "map fst (bn_ifs ?net) = [0..<length (bn_ifs net)] @ devs"
      using assms(1) by (simp add: new net_ok_def ifs_ok_def comp_def map_nth)
    also have "\<dots> = [0..<k]"
      using assms(3,4) upt_add_eq_append [of 0 "length (bn_ifs net)" "k - length (bn_ifs net)"] by simp
    also have "k = length (bn_ifs ?net)" using len assms(3,4) by simp
    finally show ?thesis .
  qed
  moreover have "distinct (map snd (bn_ifs ?net))"
  proof -
    have "al_ip al (bn_networks net) (Suc h) \<notin> set (map snd (bn_ifs net))" for h
    proof
      assume "al_ip al (bn_networks net) (Suc h) \<in> set (map snd (bn_ifs net))"
      then obtain m h' where "m < bn_networks net" "al_ip al (bn_networks net) (Suc h) = al_ip al m h'"
        using assms(1) unfolding net_ok_def ifs_ok_def set_map by blast
      then show False by (simp add: u)
    qed
    moreover have "inj (\<lambda>h. al_ip al (bn_networks net) (Suc h))"
      by (rule inj_onI) (simp add: u)
    moreover have "distinct (map snd (bn_ifs net))" using assms(1) by (simp add: net_ok_def ifs_ok_def)
    ultimately have "distinct (map snd (bn_ifs net) @ map (\<lambda>h. al_ip al (bn_networks net) (Suc h)) [0..<length devs])"
      by (intro distinct_append_map)
    then show ?thesis by (simp add: new comp_def)
  qed
  moreover have "\<exists>m h. m < bn_networks ?net \<and> addr = al_ip al m h" if addr: "addr \<in> snd ` set (bn_ifs ?net)" for addr
  proof -
    consider "addr \<in> snd ` set (bn_ifs net)" | h where "addr = al_ip al (bn_networks net) h"
      using addr by (auto simp: new)
    then show ?thesis
    proof cases
      case 1
      then obtain m h where "m < bn_networks net" "addr = al_ip al m h"
        using assms(1) unfolding net_ok_def ifs_ok_def by blast
      then show ?thesis by (intro exI [of _ m] exI [of _ h]) (simp add: assign_addresses_def)
    next
      case 2
      then show ?thesis by (intro exI [of _ "bn_networks net"] exI [of _ h]) (simp add: assign_addresses_def)
    qed
  qed
  ultimately have "ifs_ok al ?net" unfolding ifs_ok_def by blast
  moreover have "bn_devices ?net = bn_devices net" "bn_lasers ?net = bn_lasers net" "bn_gsl ?net = bn_gsl net"
    by (simp_all add: assign_addresses_def)
  then have "dev_ok al n ?net d = dev_ok al n net d" for d by (rule dev_ok_cong)
  ultimately show "net_ok al n ?net" using assms(1) by (simp add: net_ok_def assign_addresses_def)
  show "length (bn_ifs ?net) = k" using len assms(3,4) by simp
  show "bn_devices ?net = bn_devices net" by (simp add: assign_addresses_def)
qed


text \<open>A network all of whose devices have their interface.\<close>

definition net_complete :: "allocators \<Rightarrow> nat \<Rightarrow> built_net \<Rightarrow> bool" where
  "net_complete al n net \<longleftrightarrow> net_ok al n net \<and> length (bn_ifs net) = length (bn_devices net)"

lemma net_complete_init: "net_complete al n built_net_init"
  using net_ok_init by (simp add: net_complete_def built_net_init_def)

lemma read_isl_ok:
  assumes "net_complete al n (is_net s)" "n_satellites \<le> n" "unique_addresses al"
    "read_isl al n_satellites tracking line s = Inr s'"
  shows "net_complete al n (is_net s')"
proof -
  let ?dev = "length (bn_devices (is_net s))"
  obtain a b net where "a < n_satellites" "b < n_satellites" and inst: "laser_install al a b (is_net s) = Inr net"
    and s': "is_net s' = assign_addresses al [?dev, ?dev + 1] net"
    using assms(4) by (auto simp: read_isl_def res_simps Let_def satellite_at_def split: if_splits)
  with assms(2) have net: "a < n" "b < n" by simp_all
  have ok: "net_ok al n (is_net s)" "length (bn_ifs (is_net s)) = ?dev" using assms(1) by (simp_all add: net_complete_def)
  note l = laser_install_ok [OF ok(1) net inst]
  have "[?dev, ?dev + 1] = [length (bn_ifs net)..<?dev + 2]" using l(2) ok(2) by (simp add: upt_rec)
  from assign_addresses_ok [OF l(1) assms(3) this] show ?thesis using l(2,3) ok(2) s' by (simp add: net_complete_def)
qed

lemma read_isls_ok:
  assumes "net_complete al n net" "n_satellites \<le> n" "unique_addresses al"
    "read_isls al fs dir n_satellites tracking net = Inr s"
  shows "net_complete al n (is_net s)"
proof -
  obtain ls nl where "foldr_res (read_isl al n_satellites tracking) ls \<lparr>is_net = net, is_devices = [], is_from_to = []\<rparr> = Inr s"
    using assms(4) by (auto simp: read_isls_def res_simps)
  then show ?thesis
    by (rule foldr_res_inv [where I = "\<lambda>s. net_complete al n (is_net s)"]) (use assms read_isl_ok in auto)
qed

lemma gsl_install_funpow_ok:
  assumes "net_ok al n net" "node < n" "unique_addresses al"
  shows "net_ok al n ((gsl_install al node ^^ k) net) \<and> bn_ifs ((gsl_install al node ^^ k) net) = bn_ifs net \<and>
    length (bn_devices net) \<le> length (bn_devices ((gsl_install al node ^^ k) net))"
proof (induction k)
  case (Suc k)
  then have ok: "net_ok al n ((gsl_install al node ^^ k) net)" by simp
  show ?case using gsl_install_ok [OF ok assms(2,3)] Suc by simp
qed (simp add: assms)

lemma gsl_install_all_ok:
  assumes "net_ok al n net" "n_satellites + n_ground_stations \<le> n" "unique_addresses al"
    "gsl_install_all al n_satellites n_ground_stations info net = Inr net'"
  shows "net_ok al n net' \<and> bn_ifs net' = bn_ifs net \<and> length (bn_devices net) \<le> length (bn_devices net')"
proof -
  let ?I = "\<lambda>m. net_ok al n m \<and> bn_ifs m = bn_ifs net \<and> length (bn_devices net) \<le> length (bn_devices m)"
  have step: "?I t" if inv: "?I m" and inst: "gsl_install_node al info i m = Inr t" and i: "i < n" for i m t
  proof -
    obtain k where t: "t = (gsl_install al i ^^ k) m"
      using inst by (auto simp: gsl_install_node_def split: if_splits)
    show ?thesis using inv gsl_install_funpow_ok [OF _ i assms(3), of m k] by (simp add: t)
  qed
  obtain mid where mid: "foldr_res (gsl_install_node al info) [0..<n_satellites] net = Inr mid"
      "foldr_res (\<lambda>gid. gsl_install_node al info (n_satellites + gid)) [0..<n_ground_stations] mid = Inr net'"
    using assms(4) by (auto simp: gsl_install_all_def res_simps)
  have "?I mid"
  proof (rule foldr_res_inv [OF mid(1), where I = ?I])
    show "?I t" if "i \<in> set [0..<n_satellites]" "?I m" "gsl_install_node al info i m = Inr t" for i m t
      by (rule step [OF that(2,3)]) (use that(1) assms(2) in simp)
  qed (simp add: assms(1))
  then show ?thesis
  proof (rule foldr_res_inv [OF mid(2), where I = ?I])
    show "?I t" if "i \<in> set [0..<n_ground_stations]" "?I m" "gsl_install_node al info (n_satellites + i) m = Inr t" for i m t
      by (rule step [OF that(2,3)]) (use that(1) assms(2) in simp)
  qed
qed

lemma assign_each_ok:
  assumes "net_ok al n net" "unique_addresses al" "length (bn_ifs net) \<le> k"
  shows "net_ok al n (fold (\<lambda>dev. assign_addresses al [dev]) [length (bn_ifs net)..<k] net) \<and>
    length (bn_ifs (fold (\<lambda>dev. assign_addresses al [dev]) [length (bn_ifs net)..<k] net)) = k \<and>
    bn_devices (fold (\<lambda>dev. assign_addresses al [dev]) [length (bn_ifs net)..<k] net) = bn_devices net"
  using assms
proof (induction "k - length (bn_ifs net)" arbitrary: net)
  case 0
  then show ?case by simp
next
  case (Suc m)
  let ?net = "assign_addresses al [length (bn_ifs net)] net"
  have "[length (bn_ifs net)] = [length (bn_ifs net)..<Suc (length (bn_ifs net))]" by simp
  note a = assign_addresses_ok [OF Suc.prems(1,2) this]
  have "[length (bn_ifs net)..<k] = length (bn_ifs net) # [length (bn_ifs ?net)..<k]"
    using Suc.hyps(2) a(2) by (simp add: upt_conv_Cons)
  moreover have "m = k - length (bn_ifs ?net)" using Suc.hyps(2) a(2) by simp
  ultimately show ?case using Suc.hyps(1) [of ?net] a Suc.hyps(2) Suc.prems(2) by simp
qed

lemma create_gsls_ok:
  assumes "net_complete al (n_satellites + n_ground_stations) net" "unique_addresses al"
    "create_gsls al fs dir n_satellites n_ground_stations net = Inr net'"
  shows "net_complete al (n_satellites + n_ground_stations) net'"
proof -
  obtain info net1 where i: "gsl_install_all al n_satellites n_ground_stations info net = Inr net1"
    and net': "net' = fold (\<lambda>dev. assign_addresses al [dev]) [length (bn_devices net)..<length (bn_devices net1)] net1"
    using assms(3) by (auto simp: create_gsls_def Let_def res_simps split: if_splits)
  have ok: "net_ok al (n_satellites + n_ground_stations) net" "length (bn_ifs net) = length (bn_devices net)"
    using assms(1) by (simp_all add: net_complete_def)
  note g = gsl_install_all_ok [OF ok(1) order_refl assms(2) i]
  show ?thesis
    using assign_each_ok [OF conjunct1 [OF g] assms(2), of "length (bn_devices net1)"] g ok(2) net'
    by (simp add: net_complete_def)
qed

lemma build_satnet_complete:
  assumes "unique_addresses al" "build_satnet al c = Inr t"
  shows "net_complete al (get_num_nodes t) (st_net t) \<and>
    populate_arp_caches (get_num_nodes t) (st_net t) = Inr (st_arp t) \<and>
    st_endpoints t = sset_of (map (\<lambda>i. to_uint32 (int (length (st_satellites t)) + int i)) [0..<length (st_ground_stations t)]) \<and>
    (\<exists>fs dir tracking isl. read_isls al fs dir (length (st_satellites t)) tracking built_net_init = Inr isl \<and>
      create_gsls al fs dir (length (st_satellites t)) (length (st_ground_stations t)) (is_net isl) = Inr (st_net t))"
proof -
  obtain fs dir tracking isl where isl: "read_isls al fs dir (length (st_satellites t)) tracking built_net_init = Inr isl"
    and net: "create_gsls al fs dir (length (st_satellites t)) (length (st_ground_stations t)) (is_net isl) = Inr (st_net t)"
    and arp: "populate_arp_caches (get_num_nodes t) (st_net t) = Inr (st_arp t)"
    and ep: "st_endpoints t = sset_of (map (\<lambda>i. to_uint32 (int (length (st_satellites t)) + int i)) [0..<length (st_ground_stations t)])"
    using assms(2) unfolding build_satnet_def Let_def bindr_eq_Inr
    by (elim exE conjE) (auto simp: get_num_nodes_def)
  have "net_complete al (get_num_nodes t) (is_net isl)"
    by (rule read_isls_ok [OF net_complete_init _ assms(1) isl]) (simp add: get_num_nodes_def)
  then have "net_complete al (get_num_nodes t) (st_net t)"
    using create_gsls_ok [OF _ assms(1) net] by (simp add: get_num_nodes_def)
  with isl net arp ep show ?thesis by blast
qed

section \<open>Interfaces, addresses and deliveries\<close>

lemma filter_nth_position:
  "j < length (filter P xs) \<Longrightarrow>
   \<exists>k < length xs. filter P xs ! j = xs ! k \<and> P (xs ! k) \<and> length (filter P (take k xs)) = j"
proof (induction xs rule: rev_induct)
  case (snoc x xs)
  show ?case
  proof (cases "j < length (filter P xs)")
    case True
    then obtain k where "k < length xs" "filter P xs ! j = xs ! k" "P (xs ! k)" "length (filter P (take k xs)) = j"
      using snoc.IH by blast
    then show ?thesis using True by (intro exI [of _ k]) (simp add: nth_append)
  next
    case False
    then have "j = length (filter P xs)" "P x" using snoc.prems by (auto split: if_splits)
    then show ?thesis by (intro exI [of _ "length xs"]) (simp add: nth_append)
  qed
qed simp

text \<open>The j-th interface of a node behind the loop-back is its device of index j.\<close>

lemma node_ifs_nth:
  assumes "net_complete al n net" "j < length (node_ifs net i)" "node_ifs net i ! j = (d, addr)"
  shows "d < length (bn_devices net)" "bn_ifs net ! d = (d, addr)" "bd_node (bn_devices net ! d) = i"
    "bd_index (bn_devices net ! d) = Suc j"
proof -
  let ?P = "\<lambda>(d, addr :: nat). bd_node (bn_devices net ! d) = i"
  have f: "map fst (bn_ifs net) = [0..<length (bn_ifs net)]" and len: "length (bn_ifs net) = length (bn_devices net)"
    using assms(1) by (simp_all add: net_complete_def net_ok_def ifs_ok_def)
  obtain k where k: "k < length (bn_ifs net)" "node_ifs net i ! j = bn_ifs net ! k" "?P (bn_ifs net ! k)"
      "length (filter ?P (take k (bn_ifs net))) = j"
  proof -
    have "j < length (filter ?P (bn_ifs net))" using assms(2) by (simp add: node_ifs_def)
    from filter_nth_position [OF this] that show ?thesis unfolding node_ifs_def by (elim exE conjE)
  qed
  have nth: "fst (bn_ifs net ! m) = m" if "m < length (bn_ifs net)" for m
  proof -
    have "map fst (bn_ifs net) ! m = [0..<length (bn_ifs net)] ! m" by (simp only: f)
    then show ?thesis using that by simp
  qed
  have d: "d = k" using nth [OF k(1)] k(2) assms(3) by (metis fst_conv)
  show "d < length (bn_devices net)" "bn_ifs net ! d = (d, addr)" "bd_node (bn_devices net ! d) = i"
    using k d assms(3) len by auto
  have "take k (bn_devices net) = map (\<lambda>e. bn_devices net ! fst e) (take k (bn_ifs net))"
    using k(1) len nth by (auto intro!: nth_equalityI)
  then have "length (filter (\<lambda>e. bd_node e = i) (take k (bn_devices net))) = j"
    using k(4) by (simp add: filter_map comp_def case_prod_unfold)
  moreover have "dev_ok al n net d" using assms(1) k(1) d len by (simp add: net_complete_def net_ok_def)
  ultimately show "bd_index (bn_devices net ! d) = Suc j"
    using k(2,3) d assms(3) by (auto simp: dev_ok_def Let_def)
qed

lemma satnet_view_nth:
  assumes "i < n"
  shows "n_interfaces (satnet_view n net) i = Suc (length (node_ifs net i))"
    "j < length (node_ifs net i) \<Longrightarrow> sn_devices (satnet_view n net ! i) ! Suc j = dev_view net (fst (node_ifs net i ! j))"
    "j < length (node_ifs net i) \<Longrightarrow> sn_addresses (satnet_view n net ! i) ! Suc j = snd (node_ifs net i ! j)"
  using assms by (simp_all add: satnet_view_def n_interfaces_def)

text \<open>An interface of the view, with the device behind it.\<close>

lemma satnet_view_interface:
  assumes "net_complete al n net" "i < n" "0 < j" "j < n_interfaces (satnet_view n net) i"
  obtains d where "d < length (bn_devices net)" "bd_node (bn_devices net ! d) = i" "bd_index (bn_devices net ! d) = j"
    "bn_ifs net ! d = (d, sn_addresses (satnet_view n net ! i) ! j)" "sn_devices (satnet_view n net ! i) ! j = dev_view net d"
    "node_ifs net i ! (j - 1) = (d, sn_addresses (satnet_view n net ! i) ! j)" "dev_ok al n net d"
proof -
  obtain k where k: "j = Suc k" "k < length (node_ifs net i)"
    using assms(3,4) satnet_view_nth(1) [OF assms(2), of net] by (cases j) auto
  obtain d addr where e: "node_ifs net i ! k = (d, addr)" by fastforce
  note nth = node_ifs_nth [OF assms(1) k(2) e]
  have "dev_ok al n net d" using assms(1) nth(1) by (simp add: net_complete_def net_ok_def)
  then show ?thesis
    using that [OF nth(1,3)] nth(2,4) k satnet_view_nth(2,3) [OF assms(2) k(2)] e by simp
qed

lemma satnet_view_wf:
  assumes "n < 2 ^ 31" "length (bn_devices net) + 1 < 2 ^ 31" "net_complete al n net"
  shows "wf_satnet (satnet_view n net)"
proof -
  have "length (node_ifs net i) + 1 < 2 ^ 31" for i
  proof -
    have "length (node_ifs net i) \<le> length (bn_ifs net)" unfolding node_ifs_def by (rule length_filter_le)
    then show ?thesis using assms(2,3) by (simp add: net_complete_def)
  qed
  then show ?thesis using assms(1) by (auto simp: wf_satnet_def satnet_view_def list_all_iff)
qed

text \<open>The ARP cache holds the entry of every interface.\<close>

lemma arp_add_Inr:
  "arp_add net (d, addr) arp = Inr arp' \<longleftrightarrow> arp addr = None \<and> arp' = arp(addr \<mapsto> bd_mac (bn_devices net ! d))"
  by (auto simp: arp_add_def res_simps)

lemma arp_node_keeps:
  "foldr_res (arp_add net) es arp = Inr arp' \<Longrightarrow> arp addr = Some m \<Longrightarrow> arp' addr = Some m"
proof (induction es arbitrary: arp)
  case (Cons e es)
  obtain d a where e: "e = (d, a)" by fastforce
  with Cons.prems(1) have "arp a = None" "foldr_res (arp_add net) es (arp(a \<mapsto> bd_mac (bn_devices net ! d))) = Inr arp'"
    by (auto simp: arp_add_Inr bindr_eq_Inr)
  then show ?case using Cons.IH Cons.prems(2) by (metis fun_upd_other option.distinct(1))
qed simp

lemma arp_node_entries:
  "foldr_res (arp_add net) es arp = Inr arp' \<Longrightarrow> (d, addr) \<in> set es \<Longrightarrow> arp' addr = Some (bd_mac (bn_devices net ! d))"
proof (induction es arbitrary: arp)
  case (Cons e es)
  obtain d' a where e: "e = (d', a)" by fastforce
  with Cons.prems(1) have f: "foldr_res (arp_add net) es (arp(a \<mapsto> bd_mac (bn_devices net ! d'))) = Inr arp'"
    by (auto simp: arp_add_Inr bindr_eq_Inr)
  show ?case using Cons.IH [OF f] Cons.prems(2) arp_node_keeps [OF f, of a] by (auto simp: e)
qed simp

lemma populate_arp_caches_entries:
  assumes "populate_arp_caches n net = Inr arp" "i < n" "(d, addr) \<in> set (node_ifs net i)"
  shows "arp addr = Some (bd_mac (bn_devices net ! d))"
proof -
  let ?I = "\<lambda>is arp. \<forall>i \<in> set is. \<forall>(d, addr) \<in> set (node_ifs net i). arp addr = Some (bd_mac (bn_devices net ! d))"
  have "?I [0..<n] arp"
    using assms(1) unfolding populate_arp_caches_def
  proof (rule foldr_res_inv_prefix [where I = ?I])
    fix ys x zs s t
    assume I: "?I ys s" and f: "foldr_res (arp_add net) (node_ifs net x) s = Inr t"
    show "?I (ys @ [x]) t"
      using I arp_node_keeps [OF f] arp_node_entries [OF f] by fastforce
  qed simp
  then show ?thesis using assms(2,3) by fastforce
qed

text \<open>The far end of a hop: over the shared channel by gateway and ARP, or along a laser link.\<close>

lemma gsl_hop_arrives:
  assumes "populate_arp_caches n net = Inr arp" "w = satnet_view n net" "0 \<le> nh" "nat nh < n"
    "0 < nat nxt" "nat nxt < n_interfaces w (nat nh)" "bn_ifs net ! d' = (d', sn_addresses (w ! nat nh) ! nat nxt)"
    "node_ifs net (nat nh) ! (nat nxt - 1) = (d', sn_addresses (w ! nat nh) ! nat nxt)" "dev_ok al n net d'"
    "is_gsl (dev_view net d')"
  shows "\<exists>mac. satnet_gateway w nh nxt = Inr (snd (bn_ifs net ! d')) \<and>
    arp (snd (bn_ifs net ! d')) = Some mac \<and> gc_link (bn_gsl net) mac = Some d'"
proof -
  have "gc_link (bn_gsl net) (bd_mac (bn_devices net ! d')) = Some d'"
    using assms(9,10) by (auto simp: dev_view_def dev_ok_def Let_def split: option.splits)
  moreover have "arp (sn_addresses (w ! nat nh) ! nat nxt) = Some (bd_mac (bn_devices net ! d'))"
  proof (rule populate_arp_caches_entries [OF assms(1,4)])
    have "nat nxt - 1 < length (node_ifs net (nat nh))"
      using assms(5,6) satnet_view_nth(1) [OF assms(4), of net] assms(2) by simp
    then show "(d', sn_addresses (w ! nat nh) ! nat nxt) \<in> set (node_ifs net (nat nh))"
      unfolding assms(8) [symmetric] by (rule nth_mem)
  qed
  moreover have "satnet_gateway w nh nxt = Inr (sn_addresses (w ! nat nh) ! nat nxt)"
    using assms(3-6) satnet_view_nth(1) [OF assms(4), of net] assms(2)
    by (simp add: satnet_gateway_def satnet_view_def n_interfaces_def)
  ultimately show ?thesis using assms(7) by simp
qed

text \<open>
  A laser device leads to the other end of its channel. The reader of the forwarding state takes for
  the other end the second device whenever the first is on the current node; on an ISL between a
  satellite and itself that is wrong for the second device, which it takes for its own other end.
\<close>

lemma pair_indices:
  assumes "dev_ok al n net a" "dev_ok al n net (Suc a)" "Suc a < length (bn_devices net)"
    "bd_node (bn_devices net ! a) = bd_node (bn_devices net ! Suc a)"
  shows "bd_index (bn_devices net ! Suc a) = Suc (bd_index (bn_devices net ! a))"
  using assms by (simp add: dev_ok_def Let_def take_Suc_conv_app_nth)

lemma laser_hop_arrives:
  assumes "net_complete al n net" "d < length (bn_devices net)" "bd_laser (bn_devices net ! d) = Some ch"
    "bd_node (bn_devices net ! d) = i" "other_end i (dev_view net d) = (j, k)"
  shows "laser_other_end (bn_lasers net ! ch) d < length (bn_devices net)"
    "bd_node (bn_devices net ! laser_other_end (bn_lasers net ! ch) d) = j"
    "bd_index (bn_devices net ! laser_other_end (bn_lasers net ! ch) d) = k \<longleftrightarrow>
      \<not> (j = i \<and> k = bd_index (bn_devices net ! d))"
proof -
  have ok: "dev_ok al n net x" if "x < length (bn_devices net)" for x
    using assms(1) that by (simp add: net_complete_def net_ok_def)
  obtain a where a: "laser_pair a (bn_lasers net ! ch)" "Suc a < length (bn_devices net)" "d = a \<or> d = Suc a"
    using ok [OF assms(2)] assms(3) by (auto simp: dev_ok_def Let_def)
  have view: "dev_view net d = Isl_device (bd_node (bn_devices net ! a), bd_index (bn_devices net ! a))
      (bd_node (bn_devices net ! Suc a), bd_index (bn_devices net ! Suc a))"
    using a(1) assms(3) by (simp add: dev_view_def laser_pair_def)
  have far: "laser_other_end (bn_lasers net ! ch) d = (if d = a then Suc a else a)"
    using a(1,3) by (auto simp: laser_other_end_def laser_pair_def)
  note idx = pair_indices [OF ok ok, of a]
  show "laser_other_end (bn_lasers net ! ch) d < length (bn_devices net)" using far a(2) by auto
  show "bd_node (bn_devices net ! laser_other_end (bn_lasers net ! ch) d) = j"
    using far a view assms(4,5) by (auto split: if_splits)
  show "bd_index (bn_devices net ! laser_other_end (bn_lasers net ! ch) d) = k \<longleftrightarrow>
      \<not> (j = i \<and> k = bd_index (bn_devices net ! d))"
    using far a(2,3) view assms(4,5) idx by (auto split: if_splits)
qed

lemma built_hop:
  assumes "unique_addresses al" "build_satnet al c = Inr t"
    and "w = satnet_view (get_num_nodes t) (st_net t)" "i < get_num_nodes t" "connects w i (nh, own, nxt)"
  shows "\<exists>d d'. d < length (bn_devices (st_net t)) \<and> d' < length (bn_devices (st_net t)) \<and>
    bd_node (bn_devices (st_net t) ! d) = i \<and> bd_index (bn_devices (st_net t) ! d) = nat own \<and>
    bd_node (bn_devices (st_net t) ! d') = nat nh \<and> bd_index (bn_devices (st_net t) ! d') = nat nxt \<and>
    (case bd_laser (bn_devices (st_net t) ! d) of
       None \<Rightarrow> \<exists>mac. satnet_gateway w nh nxt = Inr (snd (bn_ifs (st_net t) ! d')) \<and>
         st_arp t (snd (bn_ifs (st_net t) ! d')) = Some mac \<and> gc_link (bn_gsl (st_net t)) mac = Some d'
     | Some ch \<Rightarrow> laser_other_end (bn_lasers (st_net t) ! ch) d < length (bn_devices (st_net t)) \<and>
         bd_node (bn_devices (st_net t) ! laser_other_end (bn_lasers (st_net t) ! ch) d) = nat nh \<and>
         (laser_other_end (bn_lasers (st_net t) ! ch) d = d' \<longleftrightarrow> \<not> (nh = int i \<and> nxt = own)))"
proof -
  let ?net = "st_net t" and ?n = "get_num_nodes t"
  have complete: "net_complete al ?n ?net" and arp: "populate_arp_caches ?n ?net = Inr (st_arp t)"
    using build_satnet_complete [OF assms(1,2)] by simp_all
  have len: "length w = ?n" by (simp add: assms(3) satnet_view_def)
  have nh: "0 \<le> nh" "nat nh < ?n" and own: "0 < nat own" "nat own < n_interfaces w i"
    and nxt: "0 < nat nxt" "nat nxt < n_interfaces w (nat nh)"
    and link: "is_gsl (sn_devices (w ! i) ! nat own) \<and> is_gsl (sn_devices (w ! nat nh) ! nat nxt) \<or>
      is_isl (sn_devices (w ! i) ! nat own) \<and> is_isl (sn_devices (w ! nat nh) ! nat nxt) \<and>
      other_end i (sn_devices (w ! i) ! nat own) = (nat nh, nat nxt)"
    using assms(5) by (auto simp: connects_def len Let_def)
  obtain d where d: "d < length (bn_devices ?net)" "bd_node (bn_devices ?net ! d) = i" "bd_index (bn_devices ?net ! d) = nat own"
      "sn_devices (w ! i) ! nat own = dev_view ?net d" "dev_ok al ?n ?net d"
    using satnet_view_interface [OF complete assms(4), of "nat own"] own unfolding assms(3) by metis
  obtain d' where d': "d' < length (bn_devices ?net)" "bd_node (bn_devices ?net ! d') = nat nh"
      "bd_index (bn_devices ?net ! d') = nat nxt" "bn_ifs ?net ! d' = (d', sn_addresses (w ! nat nh) ! nat nxt)"
      "sn_devices (w ! nat nh) ! nat nxt = dev_view ?net d'"
      "node_ifs ?net (nat nh) ! (nat nxt - 1) = (d', sn_addresses (w ! nat nh) ! nat nxt)" "dev_ok al ?n ?net d'"
    using satnet_view_interface [OF complete nh(2), of "nat nxt"] nxt unfolding assms(3) by metis
  show ?thesis
  proof (cases "bd_laser (bn_devices ?net ! d)")
    case None
    then have "is_gsl (dev_view ?net d')" using link d(4) d'(5) by (auto simp: dev_view_def)
    from gsl_hop_arrives [OF arp assms(3) nh nxt d'(4,6,7) this] show ?thesis
      using d d' None by (intro exI [of _ d] exI [of _ d']) simp
  next
    case (Some ch)
    let ?e = "laser_other_end (bn_lasers ?net ! ch) d"
    have "\<not> is_gsl (sn_devices (w ! i) ! nat own)" using d(4) Some by (simp add: dev_view_def split: option.splits)
    then have "other_end i (dev_view ?net d) = (nat nh, nat nxt)" using link d(4) by auto
    note e = laser_hop_arrives [OF complete d(1) Some d(2) this]
    have same: "nat nh = i \<and> nat nxt = bd_index (bn_devices ?net ! d) \<longleftrightarrow> nh = int i \<and> nxt = own"
      using nh(1) own(1) nxt(1) d(3) by auto
    show ?thesis
    proof (cases "nh = int i \<and> nxt = own")
      case True
      then show ?thesis using d e same Some by (intro exI [of _ d] exI [of _ d]) auto
    next
      case False
      then show ?thesis using d e same Some by (intro exI [of _ d] exI [of _ ?e]) auto
    qed
  qed
qed

lemma built_hop_arrives:
  assumes "unique_addresses al" "build_satnet al c = Inr t"
    and "w = satnet_view (get_num_nodes t) (st_net t)" "i < get_num_nodes t" "connects w i (nh, own, nxt)" "nh \<noteq> int i"
  shows "\<exists>d d'. d < length (bn_devices (st_net t)) \<and> d' < length (bn_devices (st_net t)) \<and>
    bd_node (bn_devices (st_net t) ! d) = i \<and> bd_index (bn_devices (st_net t) ! d) = nat own \<and>
    bd_node (bn_devices (st_net t) ! d') = nat nh \<and> bd_index (bn_devices (st_net t) ! d') = nat nxt \<and>
    (case bd_laser (bn_devices (st_net t) ! d) of
       None \<Rightarrow> \<exists>mac. satnet_gateway w nh nxt = Inr (snd (bn_ifs (st_net t) ! d')) \<and>
         st_arp t (snd (bn_ifs (st_net t) ! d')) = Some mac \<and> gc_link (bn_gsl (st_net t)) mac = Some d'
     | Some ch \<Rightarrow> laser_other_end (bn_lasers (st_net t) ! ch) d = d')"
  using built_hop [OF assms(1-5)] assms(6) by (auto split: option.splits)

text \<open>
  C4. On a satellite network that has been built, a forwarding hop arrives where it says: for an entry
  (next node, own interface, next interface) that follows an existing link to another node, with the
  device behind the own interface, either that is a GSL device and the gateway address the
  arbiter gives resolves over the ARP cache and the shared channel to the device of the next
  interface on the next node, or it is a laser device and the other end of its channel is that
  device; interface numbers and device indices are the same.
\<close>

theorem satnet_hop_arrives:
  assumes "unique_addresses al" "build_satnet al c = Inr t"
    and "w = satnet_view (get_num_nodes t) (st_net t)" "i < get_num_nodes t" "connects w i (nh, own, nxt)" "nh \<noteq> int i"
  shows "\<exists>d d'. d < length (bn_devices (st_net t)) \<and> d' < length (bn_devices (st_net t)) \<and>
    bd_node (bn_devices (st_net t) ! d) = i \<and> bd_index (bn_devices (st_net t) ! d) = nat own \<and>
    bd_node (bn_devices (st_net t) ! d') = nat nh \<and> bd_index (bn_devices (st_net t) ! d') = nat nxt \<and>
    (case bd_laser (bn_devices (st_net t) ! d) of
       None \<Rightarrow> \<exists>mac. satnet_gateway w nh nxt = Inr (snd (bn_ifs (st_net t) ! d')) \<and>
         st_arp t (snd (bn_ifs (st_net t) ! d')) = Some mac \<and> gc_link (bn_gsl (st_net t)) mac = Some d'
     | Some ch \<Rightarrow> laser_other_end (bn_lasers (st_net t) ! ch) d = d')"
  using assms by (rule built_hop_arrives)

text \<open>Two ground stations with one GSL interface each, and no satellite.\<close>

definition two_stations_fs :: fsys where
  "two_stations_fs = \<lparr>fs_files = (\<lambda>f.
     if f = ''r/d/tles.txt'' then Some ''0 1''
     else if f = ''r/d/ground_stations.txt'' then Some (''0,a,0,0,0,0,0,0'' @ newline # ''1,b,0,0,0,0,0,0'')
     else if f = ''r/d/isls.txt'' then Some ''''
     else if f = ''r/d/gsl_interfaces_info.txt'' then Some (''0,1,1'' @ newline # ''1,1,1'') else None),
     fs_dirs = (\<lambda>_. False), fs_readable = (\<lambda>_. True), fs_unlink_ok = (\<lambda>_. True), fs_rmdir_ok = (\<lambda>_. True),
     fs_mkdir_ok = (\<lambda>_. True)\<rparr>"

definition two_stations_config :: dynamic_config where
  "two_stations_config = \<lparr>dc_fs = two_stations_fs, dc_run_dir = ''r'', dc_config =
     [(''satellite_network_dir'', ''d''), (''satellite_network_routes_dir'', ''q''), (''isl_data_rate_megabit_per_s'', ''1''),
      (''gsl_data_rate_megabit_per_s'', ''1''), (''isl_max_queue_size_pkts'', ''1''), (''gsl_max_queue_size_pkts'', ''1''),
      (''enable_isl_utilization_tracking'', ''false'')], dc_end_time_ns = 10\<rparr>"

definition counting_allocators :: allocators where
  "counting_allocators = \<lparr>al_mac = Suc, al_ip = (\<lambda>m h. prod_encode (m, h)), al_mpi_enabled = False\<rparr>"

definition two_stations :: satnet_topology where
  "two_stations = (case build_satnet counting_allocators two_stations_config of Inr t \<Rightarrow> t
     | Inl _ \<Rightarrow> \<lparr>st_satellites = [], st_ground_stations = [], st_endpoints = [], st_net = built_net_init, st_isl_devices = [],
         st_isl_from_to = [], st_isl_data_rate = Fin 0, st_gsl_data_rate = Fin 0, st_isl_max_queue = 0, st_gsl_max_queue = 0,
         st_tracking = None, st_arp = Map.empty\<rparr>)"

lemma counting_allocators_unique: "unique_addresses counting_allocators"
  by (simp add: unique_addresses_def counting_allocators_def)

lemma two_stations_eval:
  "bindr (build_satnet counting_allocators two_stations_config) (\<lambda>t. Inr (get_num_nodes t, node_ifs (st_net t) 0, node_ifs (st_net t) 1,
     dev_view (st_net t) 0, dev_view (st_net t) 1)) = Inr (2, [(0, 1)], [(1, 4)], Gsl_device, Gsl_device)"
  by code_simp

lemma two_stations_built: "build_satnet counting_allocators two_stations_config = Inr two_stations"
  using two_stations_eval by (auto simp: two_stations_def bindr_eq_Inr)

lemma two_stations_sats: "st_satellites two_stations = []"
proof -
  have "map_sum id st_satellites (build_satnet counting_allocators two_stations_config) = Inr []" by code_simp
  then show ?thesis by (simp add: two_stations_built)
qed

lemma two_stations_facts:
  "get_num_nodes two_stations = 2" "node_ifs (st_net two_stations) 0 = [(0, 1)]" "node_ifs (st_net two_stations) 1 = [(1, 4)]"
  "dev_view (st_net two_stations) 0 = Gsl_device" "dev_view (st_net two_stations) 1 = Gsl_device"
  using two_stations_eval by (simp_all add: two_stations_built)

theorem satnet_hop_arrives_witness:
  "\<exists>d d'. d < length (bn_devices (st_net two_stations)) \<and> d' < length (bn_devices (st_net two_stations)) \<and>
    bd_node (bn_devices (st_net two_stations) ! d) = 0 \<and> bd_index (bn_devices (st_net two_stations) ! d) = nat 1 \<and>
    bd_node (bn_devices (st_net two_stations) ! d') = nat 1 \<and> bd_index (bn_devices (st_net two_stations) ! d') = nat 1 \<and>
    (case bd_laser (bn_devices (st_net two_stations) ! d) of
       None \<Rightarrow> \<exists>mac. satnet_gateway (satnet_view (get_num_nodes two_stations) (st_net two_stations)) 1 1 =
           Inr (snd (bn_ifs (st_net two_stations) ! d')) \<and>
         st_arp two_stations (snd (bn_ifs (st_net two_stations) ! d')) = Some mac \<and> gc_link (bn_gsl (st_net two_stations)) mac = Some d'
     | Some ch \<Rightarrow> laser_other_end (bn_lasers (st_net two_stations) ! ch) d = d')"
proof (rule satnet_hop_arrives [OF counting_allocators_unique two_stations_built refl])
  show "connects (satnet_view (get_num_nodes two_stations) (st_net two_stations)) 0 (1, 1, 1)"
    by (simp add: connects_def satnet_view_def n_interfaces_def two_stations_facts two_stations_facts(3,5) [unfolded One_nat_def] numeral_2_eq_2)
qed (simp_all add: two_stations_facts)

text \<open>
  What the built topology says of a node: the valid endpoints are exactly the ground stations,
  which follow the satellites; satellites are recognised as such, ground stations too, except that
  node 0 is not recognised as a ground station when there are no satellites; every other identifier
  is refused.
\<close>

theorem satnet_node_classes:
  assumes "build_satnet al c = Inr t" "get_num_nodes t < 2 ^ 32"
  shows "(is_valid_endpoint t v \<longleftrightarrow> int (get_num_satellites t) \<le> v \<and> v < int (get_num_nodes t)) \<and>
    (0 \<le> v \<and> v < int (get_num_nodes t) \<longrightarrow>
       is_satellite_id t v = Inr (\<not> is_valid_endpoint t v) \<and>
       is_ground_station_id t v = Inr (is_valid_endpoint t v \<and> v \<noteq> 0) \<and>
       (is_valid_endpoint t v \<longrightarrow> node_to_ground_station_id t v = Inr (v - int (get_num_satellites t)))) \<and>
    (\<not> (0 \<le> v \<and> v < int (get_num_nodes t)) \<longrightarrow>
       is_satellite_id t v = Inl (Runtime_error ''Invalid node identifier.'') \<and>
       is_ground_station_id t v = Inl (Runtime_error ''Invalid node identifier.''))"
proof -
  let ?s = "length (st_satellites t)" and ?g = "length (st_ground_stations t)"
  have "st_endpoints t = sset_of (map (\<lambda>i. to_uint32 (int ?s + int i)) [0..<?g])"
    using assms(1) unfolding build_satnet_def Let_def bindr_eq_Inr by (elim exE conjE) auto
  moreover have "to_uint32 (int ?s + int i) = int ?s + int i" if "i < ?g" for i
    using that assms(2) by (simp add: get_num_nodes_def)
  ultimately have ep: "is_valid_endpoint t v \<longleftrightarrow> (\<exists>i < ?g. v = int ?s + int i)"
    by (auto simp: is_valid_endpoint_def image_iff)
  have iff: "is_valid_endpoint t v \<longleftrightarrow> int ?s \<le> v \<and> v < int (?s + ?g)"
  proof
    assume "int ?s \<le> v \<and> v < int (?s + ?g)"
    then show "is_valid_endpoint t v" unfolding ep by (intro exI [of _ "nat (v - int ?s)"]) auto
  qed (auto simp: ep)
  show ?thesis
    using assms(2) unfolding iff get_num_nodes_def get_num_satellites_def
    by (auto simp: is_satellite_id_def is_ground_station_id_def ensure_valid_node_id_def
        node_to_ground_station_id_def get_num_satellites_def)
qed

theorem satnet_node_classes_witness:
  "is_valid_endpoint two_stations 0 \<and> is_ground_station_id two_stations 0 = Inr False"
  using satnet_node_classes [OF two_stations_built, of 0] two_stations_facts(1)
  by (auto simp: two_stations_sats get_num_satellites_def)

end
