(* ===== verification/Main_Satnet.thy ===== *)
theory Main_Satnet
  imports Set_Up Satnet_Topology
begin

text \<open>
  main_satnet.cc, the program that runs a network of satellites and ground stations with forwarding state that is read from files
  while the simulation runs. The theorems compose what the components promise: which configurations a run refuses,
  and that a packet an arbiter does not drop arrives at the next node its forwarding entry names, at any time of the run.
\<close>

section \<open>What the network and its dynamic state ask and stamp\<close>

definition dynamic_view :: "basic_simulation \<Rightarrow> dynamic_config" where
  "dynamic_view s = \<lparr>dc_fs = sim_fs s, dc_run_dir = m_run_dir s, dc_config = m_config s, dc_end_time_ns = m_simulation_end_time_ns s\<rparr>"

definition tcp_uses :: "use list" where
  "tcp_uses = [Ask_or_fail ''tcp_socket_type''] @ tcp_optimizer_uses @ [Ask_or_default ''tcp_enable_pacing'' ''false'']"

definition satnet_uses :: "bool \<Rightarrow> use list" where
  "satnet_uses tracking = [Ask_or_fail ''satellite_network_dir'', Ask_or_fail ''satellite_network_routes_dir'',
     Ask_or_default ''satellite_network_force_static'' ''false'', Ask_or_fail ''isl_data_rate_megabit_per_s'',
     Ask_or_fail ''gsl_data_rate_megabit_per_s'', Ask_or_fail ''isl_max_queue_size_pkts'', Ask_or_fail ''gsl_max_queue_size_pkts'',
     Ask_or_fail ''enable_isl_utilization_tracking''] @ (if tracking then [Ask_or_fail ''isl_utilization_tracking_interval_ns''] else [])"

definition forwarding_uses :: "use list" where
  "forwarding_uses = [Stamp ''Create initial single forwarding state'', Stamp ''Setup routing arbiter on each node'',
     Ask_or_fail ''dynamic_state_update_interval_ns'', Ask_or_fail ''satellite_network_routes_dir'',
     Ask_or_default ''satellite_network_force_static'' ''false'', Stamp ''Create initial single forwarding state'']"

definition bandwidth_uses :: "use list" where
  "bandwidth_uses = [Ask_or_fail ''gsl_data_rate_megabit_per_s'', Ask_or_fail ''dynamic_state_update_interval_ns'',
     Ask_or_fail ''satellite_network_routes_dir'', Ask_or_default ''satellite_network_force_static'' ''false'',
     Stamp ''Set first GSL interface bandwidth'']"

section \<open>The program\<close>

record 'a satnet_platform = "'a platform" +
  pf_allocators :: allocators

record ('s, 'a) satnet_network =
  sp_tcp_settings :: "setting list"
  sp_topology :: satnet_topology
  sp_forwarding :: "int \<times> fstate \<times> int option"
  sp_rates :: "int \<times> gsl_rates \<times> int option"
  sp_flows :: "'s tcp_scheduler"
  sp_bursts :: "'a burst_scheduler"
  sp_pings :: "'a pingmesh"

definition satnet_tcp_settings :: "config \<Rightarrow> setting list res" where
  "satnet_tcp_settings config =
     bindr (get_param_or_fail ''tcp_socket_type'' config) (\<lambda>socket_type.
     bindr (parse_boolean (get_param_or_default ''tcp_enable_pacing'' ''false'' config)) (\<lambda>pacing.
     Inr ((''ns3::TcpL4Protocol::SocketType'', String_value (''ns3::'' @ socket_type)) # optimize_basic @
       (if pacing then [(''ns3::TcpSocketState::EnablePacing'', Boolean_value True)] else []))))"

text \<open>The allocators of the run: the simulation has enabled MPI exactly if it is distributed.\<close>

definition run_allocators :: "'a satnet_platform \<Rightarrow> basic_simulation \<Rightarrow> allocators" where
  "run_allocators pf s = (pf_allocators pf)\<lparr>al_mpi_enabled := m_enable_distributed s\<rparr>"

definition nodes_of :: "satnet_topology \<Rightarrow> satnet" where
  "nodes_of t = satnet_view (get_num_nodes t) (st_net t)"

definition set_up_satnet :: "'a satnet_platform \<Rightarrow> fsys \<Rightarrow> string \<Rightarrow> (('s, 'a) satnet_network \<times> basic_simulation) res" where
  "set_up_satnet pf fs run_dir = (let clock = pf_clock pf in
     bindr (new_basic_simulation clock (pf_mpi pf) fs run_dir) (\<lambda>s0.
     bindr (stage clock (\<lambda>s. satnet_tcp_settings (m_config s)) (\<lambda>_. tcp_uses) keep_files s0) (\<lambda>(settings, s1).
     bindr (stage clock (\<lambda>s. build_satnet (run_allocators pf s) (dynamic_view s)) (\<lambda>t. satnet_uses (st_tracking t \<noteq> None)) keep_files s1) (\<lambda>(t, s2).
     bindr (stage clock (\<lambda>s. single_forward_helper_create (dynamic_view s) (nodes_of t)) (\<lambda>_. forwarding_uses) keep_files s2) (\<lambda>(forwarding, s3).
     bindr (stage clock (\<lambda>s. gsl_if_bandwidth_helper_create (dynamic_view s) (nodes_of t)) (\<lambda>_. bandwidth_uses) keep_files s3) (\<lambda>(rates, s4).
     bindr (stage clock (\<lambda>s. tcp_flow_scheduler (component_view s) (is_valid_endpoint t) (st_endpoints t)) (flow_uses \<circ> th_enabled)
       (\<lambda>h _. th_fs h) s4) (\<lambda>(flows, s5).
     bindr (stage clock (\<lambda>s. udp_burst_scheduler (component_view s) (is_valid_endpoint t) (st_endpoints t) (pf_address_of pf))
       (burst_uses \<circ> bh_enabled) (\<lambda>h _. bh_fs h) s5) (\<lambda>(bursts, s6).
     bindr (stage clock (\<lambda>s. pingmesh_scheduler (component_view s) (is_valid_endpoint t) (st_endpoints t) (pf_address_of pf))
       (ping_uses \<circ> pg_enabled) (\<lambda>h _. pg_fs h) s6) (\<lambda>(pm, s7).
     Inr (\<lparr>sp_tcp_settings = settings, sp_topology = t, sp_forwarding = forwarding, sp_rates = rates, sp_flows = flows, sp_bursts = bursts,
       sp_pings = pm\<rparr>, s7))))))))))"

text \<open>
  The rest: the run, the results of the schedulers that are enabled, the utilization of the inter-satellite links, and the end.
  \<open>util_of\<close> is what the run leaves in the laser devices.
\<close>

definition satnet_results_uses :: "('s, 'a) satnet_network \<Rightarrow> use list" where
  "satnet_results_uses c =
     (if th_enabled (sp_flows c) then [Stamp ''Write TCP flow log files''] else []) @
     (if bh_enabled (sp_bursts c) then [Stamp ''Write UDP burst log files''] else []) @
     (if pg_enabled (sp_pings c) then [Stamp ''Write pingmesh log files''] else [])"

definition main_satnet ::
  "'a satnet_platform \<Rightarrow> ((string \<times> int) list \<Rightarrow> string) \<Rightarrow> double list \<Rightarrow> (nat \<Rightarrow> laser_util) \<Rightarrow> fsys \<Rightarrow> string \<Rightarrow>
   (('s, 'a) satnet_network \<times> (int \<times> int \<times> int \<times> int \<times> double) list \<times> basic_simulation) option res" where
  "main_satnet pf txt progress_times util_of fs run_dir =
     (if run_dir = [] then Inr None else
     bindr (set_up_satnet pf fs run_dir) (\<lambda>(c, s).
     bindr (run_simulation (pf_clock pf) progress_times s) (\<lambda>(_, s1).
     bindr (foldr_res (use_step (pf_clock pf)) (satnet_results_uses c) s1) (\<lambda>s2.
     bindr (collect_utilization_statistics util_of (m_simulation_end_time_ns s2) (sp_topology c)) (\<lambda>rows.
       Inr (Some (c, rows, finalize_simulation (pf_clock pf) txt s2)))))))"

section \<open>The stages\<close>

lemma set_up_satnet_ok:
  assumes "set_up_satnet pf fs run_dir = Inr (c, s)"
  shows "\<exists>s0 s1 s2 s3 s4 s5 s6.
    new_basic_simulation (pf_clock pf) (pf_mpi pf) fs run_dir = Inr s0 \<and>
    build_satnet (run_allocators pf s1) (dynamic_view s1) = Inr (sp_topology c) \<and>
    single_forward_helper_create (dynamic_view s2) (nodes_of (sp_topology c)) = Inr (sp_forwarding c) \<and>
    tcp_flow_scheduler (component_view s4) (is_valid_endpoint (sp_topology c)) (st_endpoints (sp_topology c)) = Inr (sp_flows c) \<and>
    udp_burst_scheduler (component_view s5) (is_valid_endpoint (sp_topology c)) (st_endpoints (sp_topology c)) (pf_address_of pf) =
      Inr (sp_bursts c) \<and>
    pingmesh_scheduler (component_view s6) (is_valid_endpoint (sp_topology c)) (st_endpoints (sp_topology c)) (pf_address_of pf) =
      Inr (sp_pings c) \<and>
    asked_only (asked tcp_uses) s0 s1 \<and> asked_only (asked (satnet_uses (st_tracking (sp_topology c) \<noteq> None))) s1 s2 \<and>
    asked_only (asked forwarding_uses) s2 s3 \<and> asked_only (asked bandwidth_uses) s3 s4 \<and>
    asked_only (asked (flow_uses (th_enabled (sp_flows c)))) s4 s5 \<and> asked_only (asked (burst_uses (bh_enabled (sp_bursts c)))) s5 s6 \<and>
    asked_only (asked (ping_uses (pg_enabled (sp_pings c)))) s6 s"
proof -
  let ?k = "pf_clock pf"
  obtain s0 s1 s2 s3 s4 s5 s6 settings t forwarding rates flows bursts pm where
    st: "new_basic_simulation ?k (pf_mpi pf) fs run_dir = Inr s0"
      "stage ?k (\<lambda>s. satnet_tcp_settings (m_config s)) (\<lambda>_. tcp_uses) keep_files s0 = Inr (settings, s1)"
      "stage ?k (\<lambda>s. build_satnet (run_allocators pf s) (dynamic_view s)) (\<lambda>t. satnet_uses (st_tracking t \<noteq> None)) keep_files s1 = Inr (t, s2)"
      "stage ?k (\<lambda>s. single_forward_helper_create (dynamic_view s) (nodes_of t)) (\<lambda>_. forwarding_uses) keep_files s2 = Inr (forwarding, s3)"
      "stage ?k (\<lambda>s. gsl_if_bandwidth_helper_create (dynamic_view s) (nodes_of t)) (\<lambda>_. bandwidth_uses) keep_files s3 = Inr (rates, s4)"
      "stage ?k (\<lambda>s. tcp_flow_scheduler (component_view s) (is_valid_endpoint t) (st_endpoints t)) (flow_uses \<circ> th_enabled)
        (\<lambda>h _. th_fs h) s4 = Inr (flows, s5)"
      "stage ?k (\<lambda>s. udp_burst_scheduler (component_view s) (is_valid_endpoint t) (st_endpoints t) (pf_address_of pf))
        (burst_uses \<circ> bh_enabled) (\<lambda>h _. bh_fs h) s5 = Inr (bursts, s6)"
      "stage ?k (\<lambda>s. pingmesh_scheduler (component_view s) (is_valid_endpoint t) (st_endpoints t) (pf_address_of pf))
        (ping_uses \<circ> pg_enabled) (\<lambda>h _. pg_fs h) s6 = Inr (pm, s)"
    and c: "c = \<lparr>sp_tcp_settings = settings, sp_topology = t, sp_forwarding = forwarding, sp_rates = rates, sp_flows = flows,
       sp_bursts = bursts, sp_pings = pm\<rparr>"
    using assms unfolding set_up_satnet_def Let_def bindr_eq_Inr by (elim exE conjE) (simp split: prod.splits add: bindr_eq_Inr, blast)
  note ok = stage_ok [OF st(2)] stage_ok [OF st(3)] stage_ok [OF st(4)] stage_ok [OF st(5)] stage_ok [OF st(6)] stage_ok [OF st(7)]
    stage_ok [OF st(8)]
  show ?thesis
    by (rule exI [of _ s0], rule exI [of _ s1], rule exI [of _ s2], rule exI [of _ s3], rule exI [of _ s4], rule exI [of _ s5],
        rule exI [of _ s6]) (use st(1) ok in \<open>simp add: c\<close>)
qed

section \<open>Which configurations are run\<close>

definition network_keys :: "config \<Rightarrow> string set" where
  "network_keys config = {''tcp_socket_type'', ''tcp_enable_pacing'', ''satellite_network_dir'', ''satellite_network_routes_dir'',
     ''satellite_network_force_static'', ''isl_data_rate_megabit_per_s'', ''gsl_data_rate_megabit_per_s'', ''isl_max_queue_size_pkts'',
     ''gsl_max_queue_size_pkts'', ''enable_isl_utilization_tracking'', ''dynamic_state_update_interval_ns''} \<union>
     (if enabled ''enable_isl_utilization_tracking'' config then {''isl_utilization_tracking_interval_ns''} else {})"

definition satnet_keys :: "bool \<Rightarrow> config \<Rightarrow> string set" where
  "satnet_keys distributed config = base_keys distributed \<union> network_keys config \<union> scheduler_keys config"

lemma built_tracking:
  assumes "build_satnet al c = Inr t"
  shows "\<exists>v track. get_param_or_fail ''enable_isl_utilization_tracking'' (dc_config c) = Inr v \<and> parse_boolean v = Inr track \<and>
    (if track then bindr (bindr (get_param_or_fail ''isl_utilization_tracking_interval_ns'' (dc_config c)) parse_positive_int64) (\<lambda>v. Inr (Some v))
     else Inr None) = Inr (st_tracking t)"
  using assms unfolding build_satnet_def Let_def bindr_eq_Inr
  apply (elim exE conjE)
  apply (drule iffD1 [OF sum.inject(2)])
  apply hypsubst
  apply (intro exI conjI)
    apply assumption
   apply assumption
  apply (simp (no_asm) only: satnet_topology.simps)
  done

lemma tracking_enabled:
  assumes "build_satnet al (dynamic_view s) = Inr t"
  shows "st_tracking t \<noteq> None \<longleftrightarrow> enabled ''enable_isl_utilization_tracking'' (m_config s)"
proof -
  have config: "dc_config (dynamic_view s) = m_config s" by (simp add: dynamic_view_def)
  obtain v track where v: "get_param_or_fail ''enable_isl_utilization_tracking'' (m_config s) = Inr v" "parse_boolean v = Inr track"
    and t: "(if track then bindr (bindr (get_param_or_fail ''isl_utilization_tracking_interval_ns'' (m_config s)) parse_positive_int64) (\<lambda>v. Inr (Some v))
     else Inr None) = Inr (st_tracking t)"
    using built_tracking [OF assms] unfolding config by blast
  have "st_tracking t \<noteq> None \<longleftrightarrow> track" using t by (cases track; cases "st_tracking t") (auto simp: bindr_eq_Inr)
  moreover have "get_param_or_default ''enable_isl_utilization_tracking'' ''false'' (m_config s) = v"
    using v(1) by (auto simp: get_param_or_fail_def get_param_or_default_def split: option.splits)
  ultimately show ?thesis using v(2) by (simp add: enabled_def)
qed

lemma asked_satnet: "asked tcp_uses \<union> asked (satnet_uses (enabled ''enable_isl_utilization_tracking'' config)) \<union> asked forwarding_uses \<union>
    asked bandwidth_uses = network_keys config"
proof -
  have u: "asked tcp_uses = {''tcp_socket_type'', ''tcp_enable_pacing''}"
    "asked (satnet_uses b) = {''satellite_network_dir'', ''satellite_network_routes_dir'', ''satellite_network_force_static'',
      ''isl_data_rate_megabit_per_s'', ''gsl_data_rate_megabit_per_s'', ''isl_max_queue_size_pkts'', ''gsl_max_queue_size_pkts'',
      ''enable_isl_utilization_tracking''} \<union> (if b then {''isl_utilization_tracking_interval_ns''} else {})"
    "asked forwarding_uses = {''dynamic_state_update_interval_ns'', ''satellite_network_routes_dir'', ''satellite_network_force_static''}"
    "asked bandwidth_uses = {''gsl_data_rate_megabit_per_s'', ''dynamic_state_update_interval_ns'', ''satellite_network_routes_dir'',
      ''satellite_network_force_static''}" for b
    by (simp_all add: tcp_uses_def tcp_optimizer_uses_def satnet_uses_def forwarding_uses_def bandwidth_uses_def)
  show ?thesis
  proof (rule set_eqI)
    fix x
    show "x \<in> asked tcp_uses \<union> asked (satnet_uses (enabled ''enable_isl_utilization_tracking'' config)) \<union> asked forwarding_uses \<union>
        asked bandwidth_uses \<longleftrightarrow> x \<in> network_keys config"
      unfolding u network_keys_def Un_iff insert_iff empty_iff by argo
  qed
qed

lemma set_up_satnet_keys:
  assumes "set_up_satnet pf fs run_dir = Inr (c, s)"
  shows "set (m_config_requested_keys s) = satnet_keys (m_enable_distributed s) (m_config s)"
proof -
  obtain s0 s1 s2 s3 s4 s5 s6 where n: "new_basic_simulation (pf_clock pf) (pf_mpi pf) fs run_dir = Inr s0"
    and h: "build_satnet (run_allocators pf s1) (dynamic_view s1) = Inr (sp_topology c)"
      "tcp_flow_scheduler (component_view s4) (is_valid_endpoint (sp_topology c)) (st_endpoints (sp_topology c)) = Inr (sp_flows c)"
      "udp_burst_scheduler (component_view s5) (is_valid_endpoint (sp_topology c)) (st_endpoints (sp_topology c)) (pf_address_of pf) =
        Inr (sp_bursts c)"
      "pingmesh_scheduler (component_view s6) (is_valid_endpoint (sp_topology c)) (st_endpoints (sp_topology c)) (pf_address_of pf) =
        Inr (sp_pings c)"
    and a: "asked_only (asked tcp_uses) s0 s1" "asked_only (asked (satnet_uses (st_tracking (sp_topology c) \<noteq> None))) s1 s2"
      "asked_only (asked forwarding_uses) s2 s3" "asked_only (asked bandwidth_uses) s3 s4"
      "asked_only (asked (flow_uses (th_enabled (sp_flows c)))) s4 s5" "asked_only (asked (burst_uses (bh_enabled (sp_bursts c)))) s5 s6"
      "asked_only (asked (ping_uses (pg_enabled (sp_pings c)))) s6 s"
    using set_up_satnet_ok [OF assms] by blast
  have config: "m_config s1 = m_config s" "m_config s4 = m_config s" "m_config s5 = m_config s" "m_config s6 = m_config s"
    using a by (simp_all add: asked_only_def)
  have e: "st_tracking (sp_topology c) \<noteq> None \<longleftrightarrow> enabled ''enable_isl_utilization_tracking'' (m_config s)"
      "th_enabled (sp_flows c) = enabled ''enable_tcp_flow_scheduler'' (m_config s)"
      "bh_enabled (sp_bursts c) = enabled ''enable_udp_burst_scheduler'' (m_config s)"
      "pg_enabled (sp_pings c) = enabled ''enable_pingmesh_scheduler'' (m_config s)"
    using tracking_enabled [OF h(1)] enabled_schedulers(1) [OF h(2)] enabled_schedulers(2) [OF h(3)] enabled_schedulers(3) [OF h(4)]
    by (simp_all add: config)
  note all = asked_only_trans [OF asked_only_trans [OF asked_only_trans [OF asked_only_trans [OF asked_only_trans [OF asked_only_trans
    [OF a(1) a(2)] a(3)] a(4)] a(5)] a(6)] a(7)]
  have "set (m_config_requested_keys s0) = base_keys (m_enable_distributed s0)"
    using new_basic_simulation_ok(1) [OF n] by (simp add: simulation_ok_def)
  moreover have "set (m_config_requested_keys s) = set (m_config_requested_keys s0) \<union>
      (asked tcp_uses \<union> asked (satnet_uses (st_tracking (sp_topology c) \<noteq> None)) \<union> asked forwarding_uses \<union> asked bandwidth_uses \<union>
       asked (flow_uses (th_enabled (sp_flows c))) \<union> asked (burst_uses (bh_enabled (sp_bursts c))) \<union> asked (ping_uses (pg_enabled (sp_pings c))))"
      "m_enable_distributed s0 = m_enable_distributed s"
    using all by (simp_all only: asked_only_def)
  ultimately show ?thesis
    unfolding asked_schedulers [symmetric] asked_satnet [symmetric] satnet_keys_def e by (simp only: Un_assoc)
qed

text \<open>
  A satellite network run that is set up starts exactly if its configuration has no parameter beyond those of the simulation,
  TCP, the network and its dynamic state and the switches of the utilization tracking and the schedulers, and the parameters of those
  that are switched on; otherwise the error names the least parameter that is too many.
\<close>

theorem satnet_run_refuses_unused:
  assumes "set_up_satnet pf fs run_dir = Inr (c, s)"
  shows "case start_run (pf_clock pf) s of
      Inr s1 \<Rightarrow> fst ` set (m_config s) \<subseteq> satnet_keys (m_enable_distributed s) (m_config s)
    | Inl e \<Rightarrow> (\<exists>key \<in> fst ` set (m_config s) - satnet_keys (m_enable_distributed s) (m_config s). e = unused_key_error key \<and>
        (\<forall>key1 \<in> fst ` set (m_config s) - satnet_keys (m_enable_distributed s) (m_config s). key \<le> key1))"
  using start_run_cases [OF set_up_satnet_keys [OF assms]] .

section \<open>Where packets go\<close>






section \<open>A run\<close>

text \<open>
  Two ground stations, the first of which forwards to the second, which drops, and a parameter no component asks for.
\<close>

definition stations_run_dir :: fsys where
  "stations_run_dir = two_stations_fs\<lparr>fs_files := (\<lambda>f.
     if f = ''r/config_ns3.properties'' then Some (''simulation_end_time_ns=100'' @ newline # ''simulation_seed=1'' @ newline #
       ''tcp_socket_type=TcpNewReno'' @ newline # ''satellite_network_dir=d'' @ newline # ''satellite_network_routes_dir=q'' @ newline #
       ''isl_data_rate_megabit_per_s=1'' @ newline # ''gsl_data_rate_megabit_per_s=1'' @ newline # ''isl_max_queue_size_pkts=1'' @ newline #
       ''gsl_max_queue_size_pkts=1'' @ newline # ''enable_isl_utilization_tracking=false'' @ newline #
       ''dynamic_state_update_interval_ns=100'' @ newline # ''colour=red'')
     else if f = ''r/q/fstate_0.txt'' then Some (''0,1,1,0,0'' @ newline # ''1,0,-1,-1,-1'')
     else if f = ''r/q/gsl_if_bandwidth_0.txt'' then Some ''''
     else fs_files two_stations_fs f), fs_dirs := (\<lambda>d. d = ''r'')\<rparr>"

definition stations_platform :: "unit satnet_platform" where
  "stations_platform = \<lparr>pf_clock = int, pf_mpi = No_mpi, pf_address_of = (\<lambda>_. ()), pf_allocators = counting_allocators\<rparr>"

definition stations_config :: config where
  "stations_config = [(''simulation_end_time_ns'', ''100''), (''simulation_seed'', ''1''), (''tcp_socket_type'', ''TcpNewReno''),
     (''satellite_network_dir'', ''d''), (''satellite_network_routes_dir'', ''q''), (''isl_data_rate_megabit_per_s'', ''1''),
     (''gsl_data_rate_megabit_per_s'', ''1''), (''isl_max_queue_size_pkts'', ''1''), (''gsl_max_queue_size_pkts'', ''1''),
     (''enable_isl_utilization_tracking'', ''false''), (''dynamic_state_update_interval_ns'', ''100''), (''colour'', ''red'')]"

definition stations_nodes :: "nat \<Rightarrow> satnet" where
  "stations_nodes loopback = [\<lparr>sn_devices = [Other_device, Gsl_device], sn_addresses = [loopback, 1]\<rparr>,
     \<lparr>sn_devices = [Other_device, Gsl_device], sn_addresses = [loopback, 4]\<rparr>]"

definition stations_state :: fstate where
  "stations_state = [[(-2, -2, -2), (1, 1, 1)], [(-1, 0, 0), (-2, -2, -2)]]"

lemma stations_created_eval:
  "case new_basic_simulation int No_mpi stations_run_dir ''r'' of Inl _ \<Rightarrow> False
   | Inr s \<Rightarrow> m_config s = stations_config \<and> \<not> m_enable_distributed s \<and>
       (case build_satnet counting_allocators (dynamic_view s) of Inl _ \<Rightarrow> False
        | Inr t \<Rightarrow> get_num_nodes t = 2 \<and> length (bn_devices (st_net t)) = 2 \<and> node_ifs (st_net t) 0 = [(0, 1)] \<and>
            node_ifs (st_net t) 1 = [(1, 4)] \<and> dev_view (st_net t) 0 = Gsl_device \<and> dev_view (st_net t) 1 = Gsl_device \<and> st_tracking t = None) \<and>
       (case single_forward_helper_create (dynamic_view s) (stations_nodes loopback) of Inl _ \<Rightarrow> False
        | Inr f \<Rightarrow> fst (snd f) = stations_state) \<and>
       (case gsl_if_bandwidth_helper_create (dynamic_view s) (stations_nodes loopback) of Inl _ \<Rightarrow> False | Inr _ \<Rightarrow> True)"
  by code_simp

lemma stations_settings_eval: "case satnet_tcp_settings stations_config of Inl _ \<Rightarrow> False | Inr _ \<Rightarrow> True"
  by code_simp

lemma case_okD: "case x of Inl _ \<Rightarrow> False | Inr c \<Rightarrow> P c \<Longrightarrow> \<exists>c. x = Inr c \<and> P c"
  by (cases x) simp_all

text \<open>What every stage keeps as long as nothing removes a file.\<close>

lemma dynamic_view_kept: "component_view s = (component_view s')\<lparr>bs_fs := sim_fs s'\<rparr> \<Longrightarrow> dynamic_view s = dynamic_view s'"
  by (simp add: component_view_def dynamic_view_def)

lemma stations_stage:
  assumes "build s = Inr c" "\<forall>key. Ask_or_fail key \<in> set (uses c) \<longrightarrow> map_of stations_config key \<noteq> None"
    and "m_config s = stations_config \<and> \<not> m_enable_distributed s"
  shows "\<exists>s1. stage int build uses files s = Inr (c, s1) \<and> m_config s1 = stations_config \<and> \<not> m_enable_distributed s1 \<and>
    (files = keep_files \<longrightarrow> dynamic_view s1 = dynamic_view s)"
  using stage_succeeds [where clock = int and build = build and s = s and c = c and uses = uses and files = files] assms
  by (fastforce simp: keep_files_def intro: dynamic_view_kept)

lemma stations_set_up:
  "\<exists>c s. (set_up_satnet stations_platform stations_run_dir ''r'' :: ((unit, unit) satnet_network \<times> basic_simulation) res) = Inr (c, s) \<and>
     get_num_nodes (sp_topology c) = 2 \<and> length (bn_devices (st_net (sp_topology c))) = 2 \<and>
     nodes_of (sp_topology c) = stations_nodes 2130706433 \<and> fst (snd (sp_forwarding c)) = stations_state \<and>
     m_config s = stations_config \<and> \<not> m_enable_distributed s"
proof -
  obtain s0 where s0: "new_basic_simulation int No_mpi stations_run_dir ''r'' = Inr s0"
    using case_okD [OF stations_created_eval] by blast
  note eval = stations_created_eval [where loopback = 2130706433, unfolded s0 sum.case]
  have m0: "m_config s0 = stations_config \<and> \<not> m_enable_distributed s0" using eval by blast
  obtain t where t: "build_satnet counting_allocators (dynamic_view s0) = Inr t"
    using case_okD [OF conjunct1 [OF conjunct2 [OF conjunct2 [OF eval]]]] by blast
  have facts: "get_num_nodes t = 2" "length (bn_devices (st_net t)) = 2" "node_ifs (st_net t) 0 = [(0, 1)]" "node_ifs (st_net t) 1 = [(1, 4)]"
      "dev_view (st_net t) 0 = Gsl_device" "dev_view (st_net t) 1 = Gsl_device" "st_tracking t = None"
    using eval [unfolded t sum.case] by blast+
  have nodes: "nodes_of t = stations_nodes 2130706433"
    by (simp add: nodes_of_def satnet_view_def stations_nodes_def facts facts(4,6) [unfolded One_nat_def] numeral_2_eq_2)
  obtain f where f: "single_forward_helper_create (dynamic_view s0) (nodes_of t) = Inr f" "fst (snd f) = stations_state"
    unfolding nodes using case_okD [OF conjunct1 [OF conjunct2 [OF conjunct2 [OF conjunct2 [OF eval]]]]] by blast
  obtain rates where g: "gsl_if_bandwidth_helper_create (dynamic_view s0) (nodes_of t) = Inr rates"
    unfolding nodes using case_okD [OF conjunct2 [OF conjunct2 [OF conjunct2 [OF conjunct2 [OF eval]]]]] by blast
  obtain settings where p: "satnet_tcp_settings (m_config s0) = Inr settings"
    unfolding conjunct1 [OF m0] using case_okD [OF stations_settings_eval] by blast
  obtain s1 where s1: "stage int (\<lambda>s. satnet_tcp_settings (m_config s)) (\<lambda>_. tcp_uses) keep_files s0 = Inr (settings, s1)"
      "m_config s1 = stations_config \<and> \<not> m_enable_distributed s1" "dynamic_view s1 = dynamic_view s0"
    using stations_stage [where build = "\<lambda>s. satnet_tcp_settings (m_config s)" and uses = "\<lambda>_. tcp_uses" and files = keep_files, OF p _ m0]
    by (auto simp: tcp_uses_def tcp_optimizer_uses_def stations_config_def)
  have t1: "build_satnet (run_allocators stations_platform s1) (dynamic_view s1) = Inr t"
    using t s1(2,3) by (simp add: run_allocators_def stations_platform_def counting_allocators_def)
  obtain s2 where s2: "stage int (\<lambda>s. build_satnet (run_allocators stations_platform s) (dynamic_view s)) (\<lambda>t. satnet_uses (st_tracking t \<noteq> None)) keep_files s1 = Inr (t, s2)"
      "m_config s2 = stations_config \<and> \<not> m_enable_distributed s2" "dynamic_view s2 = dynamic_view s0"
    using stations_stage [where build = "\<lambda>s. build_satnet (run_allocators stations_platform s) (dynamic_view s)" and uses = "\<lambda>t. satnet_uses (st_tracking t \<noteq> None)" and
      files = keep_files, OF t1 _ s1(2)] by (auto simp: satnet_uses_def stations_config_def facts(7) s1(3))
  obtain s3 where s3: "stage int (\<lambda>s. single_forward_helper_create (dynamic_view s) (nodes_of t)) (\<lambda>_. forwarding_uses) keep_files s2 = Inr (f, s3)"
      "m_config s3 = stations_config \<and> \<not> m_enable_distributed s3" "dynamic_view s3 = dynamic_view s0"
    using stations_stage [where build = "\<lambda>s. single_forward_helper_create (dynamic_view s) (nodes_of t)" and uses = "\<lambda>_. forwarding_uses" and
      files = keep_files, OF f(1) [folded s2(3)] _ s2(2)] by (auto simp: forwarding_uses_def stations_config_def s2(3))
  obtain s4 where s4: "stage int (\<lambda>s. gsl_if_bandwidth_helper_create (dynamic_view s) (nodes_of t)) (\<lambda>_. bandwidth_uses) keep_files s3 = Inr (rates, s4)"
      "m_config s4 = stations_config \<and> \<not> m_enable_distributed s4"
    using stations_stage [where build = "\<lambda>s. gsl_if_bandwidth_helper_create (dynamic_view s) (nodes_of t)" and uses = "\<lambda>_. bandwidth_uses" and
      files = keep_files, OF g [folded s3(3)] _ s3(2)] by (auto simp: bandwidth_uses_def stations_config_def)
  have "map_of (m_config s4) ''enable_tcp_flow_scheduler'' = None" "map_of (m_config s4) ''enable_udp_burst_scheduler'' = None"
      "map_of (m_config s4) ''enable_pingmesh_scheduler'' = None"
    by (simp_all add: s4(2) stations_config_def)
  note off = scheduler_stages_off [OF this, where valid = "is_valid_endpoint t" and es = "st_endpoints t" and address_of = "\<lambda>_. ()" and clock = int]
  obtain flows :: "unit tcp_scheduler" and s5 bursts s6 pm s7 where
    s5: "stage int (\<lambda>s. tcp_flow_scheduler (component_view s) (is_valid_endpoint t) (st_endpoints t)) (flow_uses \<circ> th_enabled) (\<lambda>h _. th_fs h) s4 = Inr (flows, s5)" and
    s6: "stage int (\<lambda>s. udp_burst_scheduler (component_view s) (is_valid_endpoint t) (st_endpoints t) (\<lambda>_. ())) (burst_uses \<circ> bh_enabled) (\<lambda>h _. bh_fs h) s5 = Inr (bursts, s6)" and
    s7: "stage int (\<lambda>s. pingmesh_scheduler (component_view s) (is_valid_endpoint t) (st_endpoints t) (\<lambda>_. ())) (ping_uses \<circ> pg_enabled) (\<lambda>h _. pg_fs h) s6 = Inr (pm, s7)" and
    m7: "m_config s7 = m_config s4 \<and> m_enable_distributed s7 = m_enable_distributed s4"
    using off by blast
  have "(set_up_satnet stations_platform stations_run_dir ''r'' :: ((unit, unit) satnet_network \<times> basic_simulation) res) =
      Inr (\<lparr>sp_tcp_settings = settings, sp_topology = t, sp_forwarding = f, sp_rates = rates, sp_flows = flows, sp_bursts = bursts, sp_pings = pm\<rparr>, s7)"
    by (simp only: set_up_satnet_def stations_platform_def platform.simps satnet_platform.simps Let_def s0 s1(1) s2(1) [unfolded stations_platform_def] s3(1) s4(1) s5 s6 s7
        bindr_Inr prod.case)
  then show ?thesis using m7 s4(2) facts(1,2) nodes f(2) by (intro exI conjI) (assumption, simp_all)
qed



lemma one_too_many: "X \<subseteq> insert x K \<Longrightarrow> x \<in> X \<Longrightarrow> x \<notin> K \<Longrightarrow> X - K = {x}"
  by blast

theorem satnet_run_refuses_unused_witness:
  "\<exists>(c :: (unit, unit) satnet_network) (s :: basic_simulation) e. set_up_satnet stations_platform stations_run_dir ''r'' = Inr (c, s) \<and>
     start_run (pf_clock stations_platform) s = Inl e \<and> e = unused_key_error ''colour''"
proof -
  obtain c :: "(unit, unit) satnet_network" and s where up: "set_up_satnet stations_platform stations_run_dir ''r'' = Inr (c, s)"
      "m_config s = stations_config" "\<not> m_enable_distributed s"
    using stations_set_up by blast
  have f: "parse_boolean ''false'' = Inr False" by code_simp
  define A where "A = fst ` set stations_config - satnet_keys False stations_config"
  have off: "\<not> enabled ''enable_isl_utilization_tracking'' stations_config" "\<not> enabled ''enable_tcp_flow_scheduler'' stations_config"
      "\<not> enabled ''enable_udp_burst_scheduler'' stations_config" "\<not> enabled ''enable_pingmesh_scheduler'' stations_config"
    by (simp_all add: enabled_def get_param_or_default_def stations_config_def f)
  have keys: "satnet_keys False stations_config = {''simulation_end_time_ns'', ''simulation_seed'', ''enable_distributed'', ''tcp_socket_type'',
      ''tcp_enable_pacing'', ''satellite_network_dir'', ''satellite_network_routes_dir'', ''satellite_network_force_static'',
      ''isl_data_rate_megabit_per_s'', ''gsl_data_rate_megabit_per_s'', ''isl_max_queue_size_pkts'', ''gsl_max_queue_size_pkts'',
      ''enable_isl_utilization_tracking'', ''dynamic_state_update_interval_ns'', ''enable_tcp_flow_scheduler'', ''enable_udp_burst_scheduler'',
      ''enable_pingmesh_scheduler''}"
    unfolding satnet_keys_def base_keys_def network_keys_def scheduler_keys_def using off
    by (simp only: if_False simp_thms Un_empty_right Un_insert_left Un_empty_left)
  have names: "fst ` set stations_config = {''simulation_end_time_ns'', ''simulation_seed'', ''tcp_socket_type'', ''satellite_network_dir'',
      ''satellite_network_routes_dir'', ''isl_data_rate_megabit_per_s'', ''gsl_data_rate_megabit_per_s'', ''isl_max_queue_size_pkts'',
      ''gsl_max_queue_size_pkts'', ''enable_isl_utilization_tracking'', ''dynamic_state_update_interval_ns'', ''colour''}"
    by (simp only: stations_config_def list.set image_insert image_empty fst_conv)
  have "fst ` set stations_config \<subseteq> insert ''colour'' (satnet_keys False stations_config)"
    unfolding keys names by (simp only: insert_subset insert_iff empty_subsetI simp_thms)
  moreover have "''colour'' \<in> fst ` set stations_config" unfolding names by (simp only: insert_iff simp_thms)
  moreover have "''colour'' \<notin> satnet_keys False stations_config" unfolding keys insert_iff empty_iff by simp
  ultimately have A: "A = {''colour''}" unfolding A_def by (rule one_too_many)
  have more: "\<not> fst ` set stations_config \<subseteq> satnet_keys False stations_config"
  proof
    assume "fst ` set stations_config \<subseteq> satnet_keys False stations_config"
    then have "A = {}" unfolding A_def by (rule iffD2 [OF Diff_eq_empty_iff])
    then show False using A by simp
  qed
  have "m_enable_distributed s = False" using up(3) by simp
  note run = satnet_run_refuses_unused [OF up(1), unfolded this up(2), folded A_def]
  have "\<exists>e. start_run (pf_clock stations_platform) s = Inl e \<and> (\<exists>key \<in> A. e = unused_key_error key)"
    using run more by (cases "start_run (pf_clock stations_platform) s") (simp_all only: sum.case, blast+)
  then show ?thesis using up(1) unfolding A by blast
qed

end
