(* ===== verification/Spec2Isabelle.thy ===== *)
theory Spec2Isabelle
  imports Log_Update Julian_Date Main_Full Main_Satnet
begin

text \<open>
  This development models and verifies the C++ modules of the packet-level satellite network
  simulator in this repository: basic-sim, satellite-network and the dates of satellite, contributed modules of ns-3
  under src/ns3/contrib. ns-3 itself is not part of the repository; what the modules use of it appears as a
  parameter (a queue, a hash function, address allocators, transmission times, the position of a
  satellite) or as the events a component has pending, which a step relation runs in the order of
  their times.

  The parts and how they interact. A run (basic-simulation.cc) reads a configuration and a topology, either point-to-point
  links (topology-ptop.cc) or satellites and ground stations with laser and ground-satellite links
  (topology-satellite-network.cc). Nodes forward with an arbiter (arbiter.cc) behind the routing
  protocol of ipv4-arbiter-routing.cc: ECMP over shortest paths (arbiter-ecmp-helper.cc,
  arbiter-ecmp.cc) or the single-forward state that is read from file and updated while the
  simulation runs (arbiter-single-forward-helper.cc). Packets cross the net-devices and channels
  (gsl-net-device.cc, point-to-point-laser-net-device.cc). Applications generate the traffic
  (udp-burst-application.cc, tcp-flow-send-application.cc, udp-rtt-client.cc) as schedulers set them up, and trackers log
  queues and utilization. A main program (main_full.cc, main_satnet.cc) constructs the parts one after the other, runs the simulation
  and writes the results.

  Theories, in the order of their dependence:

  Prelude: results with errors (\<open>res\<close>, one constructor for every kind of exception, abort, assertion
  and undefined behaviour), loops over them, ascending lists for \<open>std::set\<close>, integers of fixed width,
  decimal printing.

  Float64: IEEE binary64 as a rational with one rounding per operation, for the rates and times the
  code keeps in a \<open>double\<close>.

  Exp_Util (core/exp-util.cc): strings, values, sets, lists and maps, configuration files and the
  file system as a state. Splitting is lossless and its loop returns exactly for a non-empty
  delimiter; printed sets and maps are read back.

  Log_Update (log-update-helper.cc, ptop-link-queue-tracker.cc): the interval log equals the step
  function of the updates and is minimal.

  Utilization (ptop-link-utilization-tracker.cc, its helper, and the tracking of the laser device): every
  interval's busy time is the time the device was busy in it; the two implementations agree; the
  run-length compressed rows lose nothing.

  Ecmp (arbiter-ecmp-helper.cc): the in-place Floyd-Warshall loop computes the distances, the
  candidates are the neighbours one step closer, and no choice among them makes a packet loop.

  Arbiter, Arbiter_Ecmp, Single_Forward (arbiter*.cc, ipv4-arbiter-routing.cc,
  arbiter-single-forward-helper.cc, gsl-if-bandwidth-helper.cc): address resolution, the decision
  interface as a locale both arbiters interpret, the five-tuple hash, the forwarding state with every
  check of its lines, and the times of the dynamic updates.

  Net_Device (gsl-net-device.cc, gsl-channel.cc, point-to-point-laser-net-device.cc and channel): the
  transmit machine as a locale, interpreted by both devices, with order of transmission and
  liveness; framing, reception, delivery over both channels.

  Satnet_Topology (topology-satellite-network.cc, the install helpers): the network that is built from
  the input files; a forwarding entry leads over ARP and channel to the device it names.

  Topology_Ptop (topology-ptop.cc and its default selectors): the checks of the graph, the
  properties of the links, the links with their devices; the result satisfies what the ECMP theory
  assumes (\<open>wf_topology\<close>).

  Schedules (udp-burst-schedule-reader.cc, tcp-flow-schedule-reader.cc): both readers interpret one
  locale, from which a schedule's order and numbering follow; a printed TCP schedule is read back.

  Udp_Burst (udp-burst-application.cc, udp-burst-scheduler.cc, id-seq-header.cc): the application with its
  pending events; an invariant over the step relation gives the exact packets of every burst, that
  no event fails, and with the scheduler that every burst is registered once at either end.

  Pingmesh (udp-rtt-client.cc, udp-rtt-server.cc, pingmesh-scheduler.cc): client, server and scheduler; the pings go out at the
  multiples of the interval, the row of a ping is what its reply carried, the statistics are exact up to one rounding.

  Tcp_Flow (tcp-flow-send-application.cc, tcp-flow-sink.cc, tcp-flow-scheduler.cc): the callbacks of the application over a TCP
  socket that is a parameter with a contract; what is sent and acknowledged is accounted for, the loop that hands over
  data returns, every flow is started at its time and has its row in the results.

  Tracking (ptop-link-queue-tracker-helper.cc, ptop-link-utilization-tracker-helper.cc): one locale for placing trackers on links
  and writing their rows, interpreted by both trackers; the logs are complete.

  Basic_Simulation (basic-simulation.cc): construction, parameters, timestamps, progress, the run and its end over the file
  system state. A simulation runs exactly if every parameter was asked for; its finished file says so exactly after the end.

  Julian_Date (julian-date.cc and the leap seconds of iers-data.cc): the calendar formulas with unsigned 32-bit integers, the
  arithmetic on dates as one on milliseconds, time systems, printing and reading.

  Tcp_Optimizer (tcp-optimizer.cc): the attributes set, the timers as multiples of the worst-case round-trip time.

  Set_Up, Main_Full, Main_Satnet (main_full.cc, arbiter-ecmp-helper.cc, main_satnet.cc): the stages of a program, what each
  asks and stamps on the simulation, and the programs as their composition. The theorems compose those of the components:
  a configuration with a parameter no enabled component reads is refused, the point-to-point network that is set up
  forwards every packet along a shortest path, and in the satellite network, after any updates of the forwarding state, a
  packet that is not dropped arrives at the device its forwarding entry names.

  State and operations correspond one to one: a class is a record with the names of its members, a
  method a function from the state to a result; a callback that the code schedules is an entry of the
  state's pending events. \<open>Inl\<close> is every way a call fails, with the message where the code gives one.

  Bounds and fuel. No definition has fuel: loops over containers are folds, the splitting loop is a
  partial function with the value None where it does not return, the utilization loops are total with a
  measure where the interval is positive, and a lemma states that they do not return for 0. Integers
  are unbounded with the range stated or checked, and the wrap written out where the code narrows or
  uses unsigned arithmetic.

  Not modelled, and why. The orbit propagator (sgp4*.cpp, satellite.cc) and the sidereal time of a date compute in
  floating point with functions of the C library whose rounding is not specified; positions are parameters
  of the delay. The daily table of earth orientation parameters is generated data, a parameter of the dates. The
  installation helpers, attribute registration and trace hooks are calls into ns-3. The human-readable result files repeat
  the rows of the csv files with units. A stage of Set_Up records what a component asks and stamps after it is built,
  where the code does so in between: the order among the stages is the code's, and a set-up that fails has no state to compare.
\<close>

end
